(* ===== verification/Prelude.thy ===== *)
theory Prelude
  imports Main "HOL-Library.Word"
begin

text \<open>
  What every component shares: names for Go's fixed-width integers, Go's integer
  division, the result type of fallible functions, byte-string helpers that model
  the parts of the packages \<open>strings\<close> and \<open>strconv\<close> the modelled code calls, and
  generic lemmas about lists. Go strings are byte sequences, modelled as \<open>char list\<close>;
  \<open>byte list\<close> stands for \<open>[]byte\<close>.
\<close>

named_theorems res_simps \<open>unfolding rules for the result combinators\<close>
named_theorems net_simps \<open>defining equations of the address model\<close>

type_synonym byte = "8 word"
type_synonym u16 = "16 word"
type_synonym u32 = "32 word"
type_synonym u64 = "64 word"

section \<open>Results\<close>

text \<open>A Go function returning \<open>(T, error)\<close> is a sum: \<open>Inl\<close> the error, \<open>Inr\<close> the value.\<close>

fun bind_res :: "'e + 'a \<Rightarrow> ('a \<Rightarrow> 'e + 'b) \<Rightarrow> 'e + 'b" where
  "bind_res (Inl e) f = Inl e"
| "bind_res (Inr x) f = f x"

lemma bind_res_Inr_iff: "bind_res r f = Inr y \<longleftrightarrow> (\<exists>x. r = Inr x \<and> f x = Inr y)"
  by (cases r) auto

lemma bind_res_Inl_iff:
  "bind_res r f = Inl e \<longleftrightarrow> r = Inl e \<or> (\<exists>x. r = Inr x \<and> f x = Inl e)"
  by (cases r) auto

lemmas bind_res_iffs = bind_res_Inr_iff bind_res_Inl_iff

section \<open>Machine integers\<close>

text \<open>Facts about lengths and counts are stated over \<open>unat\<close>; keep it.\<close>

declare of_nat_unat [simp del]

text \<open>Go's \<open>/\<close> on signed integers truncates towards zero; \<open>int64\<close> results wrap.\<close>

definition quot :: "int \<Rightarrow> int \<Rightarrow> int" where
  "quot a b = sgn a * sgn b * (\<bar>a\<bar> div \<bar>b\<bar>)"

definition wrap64 :: "int \<Rightarrow> int" where
  "wrap64 x = (x + 2 ^ 63) mod 2 ^ 64 - 2 ^ 63"

lemma quot_nonneg: "0 \<le> a \<Longrightarrow> 0 < b \<Longrightarrow> quot a b = a div b"
  by (cases "a = 0") (auto simp: quot_def)

lemma wrap64_id: "- (2 ^ 63) \<le> x \<Longrightarrow> x < 2 ^ 63 \<Longrightarrow> wrap64 x = x"
  by (simp add: wrap64_def)

lemma wrap64_range: "- (2 ^ 63) \<le> wrap64 x \<and> wrap64 x < 2 ^ 63"
  by (simp add: wrap64_def)

section \<open>Lists\<close>

text \<open>\<open>slices.Compact\<close> and \<open>slices.CompactFunc\<close>: the first of each run of equal elements.\<close>

fun compact_by :: "('a \<Rightarrow> 'a \<Rightarrow> bool) \<Rightarrow> 'a list \<Rightarrow> 'a list" where
  "compact_by eq [] = []"
| "compact_by eq [x] = [x]"
| "compact_by eq (x # y # xs) =
     (if eq x y then compact_by eq (x # xs) else x # compact_by eq (y # xs))"

lemma compact_by_subset: "set (compact_by eq xs) \<subseteq> set xs"
  by (induction eq xs rule: compact_by.induct) auto

lemma compact_by_hd: "xs \<noteq> [] \<Longrightarrow> \<exists>ys. compact_by eq xs = hd xs # ys"
  by (induction eq xs rule: compact_by.induct) auto

lemma compact_by_eq_set: "set (compact_by (=) xs) = set xs"
  by (induction "(=) :: 'a \<Rightarrow> 'a \<Rightarrow> bool" xs rule: compact_by.induct) auto

text \<open>Of every run of equal elements one is kept.\<close>

lemma compact_by_keeps:
  assumes "y \<in> set xs" and "\<And>x. eq x x" and "\<And>x y z. eq x y \<Longrightarrow> eq y z \<Longrightarrow> eq x z"
  shows "\<exists>x \<in> set (compact_by eq xs). eq x y"
  using assms
proof (induction eq xs arbitrary: y rule: compact_by.induct)
  case (3 eq x z xs)
  show ?case
  proof (cases "eq x z")
    case True
    obtain w where "w \<in> set (compact_by eq (x # xs))" "eq w x"
      using "3.IH"(1) [OF True, of x] "3.prems"(2,3) by auto
    then show ?thesis
      using True "3.IH"(1) [OF True, of y] "3.prems" by (cases "y = z") (auto, blast)
  next
    case False
    then show ?thesis using "3.IH"(2) [OF False, of y] "3.prems" by auto
  qed
qed auto

text \<open>\<open>sorted_by le\<close>: what \<open>slices.Sort\<close> or \<open>sort.Slice\<close> establishes.\<close>

abbreviation sorted_by :: "('a \<Rightarrow> 'a \<Rightarrow> bool) \<Rightarrow> 'a list \<Rightarrow> bool" where
  "sorted_by le xs \<equiv> sorted_wrt le xs"

text \<open>
  A stable insertion sort by a total preorder \<open>le\<close>. It models \<open>sort.SliceStable\<close> and
  \<open>slices.SortStableFunc\<close> exactly, and the unstable sorts up to the order of ties.
\<close>

fun insert_by :: "('a \<Rightarrow> 'a \<Rightarrow> bool) \<Rightarrow> 'a \<Rightarrow> 'a list \<Rightarrow> 'a list" where
  "insert_by le x [] = [x]"
| "insert_by le x (y # ys) = (if le x y then x # y # ys else y # insert_by le x ys)"

definition sort_by :: "('a \<Rightarrow> 'a \<Rightarrow> bool) \<Rightarrow> 'a list \<Rightarrow> 'a list" where
  "sort_by le xs = foldr (insert_by le) xs []"

lemma set_insert_by [simp]: "set (insert_by le x ys) = insert x (set ys)"
  by (induction ys) auto

lemma length_insert_by [simp]: "length (insert_by le x ys) = Suc (length ys)"
  by (induction ys) auto

lemma sort_by_simps [simp]:
  "sort_by le [] = []"
  "sort_by le (x # xs) = insert_by le x (sort_by le xs)"
  by (simp_all add: sort_by_def)

lemma set_sort_by [simp]: "set (sort_by le xs) = set xs"
  by (induction xs) auto

lemma length_sort_by [simp]: "length (sort_by le xs) = length xs"
  by (induction xs) auto

lemma sorted_insert_by:
  assumes tot: "\<And>a b. le a b \<or> le b a" and tr: "\<And>a b c. le a b \<Longrightarrow> le b c \<Longrightarrow> le a c"
    and "sorted_by le ys"
  shows "sorted_by le (insert_by le x ys)"
  using assms(3)
proof (induction ys)
  case Nil
  then show ?case by simp
next
  case (Cons y ys)
  then show ?case
    using tot [of x y] tr by (auto; blast)
qed

lemma sorted_sort_by:
  assumes "\<And>a b. le a b \<or> le b a" and "\<And>a b c. le a b \<Longrightarrow> le b c \<Longrightarrow> le a c"
  shows "sorted_by le (sort_by le xs)"
  by (induction xs) (simp_all add: sorted_insert_by [OF assms])

lemma distinct_insert_by: "distinct (insert_by le x ys) \<longleftrightarrow> x \<notin> set ys \<and> distinct ys"
  by (induction ys) auto

lemma distinct_sort_by: "distinct (sort_by le xs) = distinct xs"
  by (induction xs) (auto simp: distinct_insert_by)

end
