(* ===== verification/GoNet.thy ===== *)
theory GoNet
  imports Prelude
begin

unbundle bit_operations_syntax

text \<open>
  The part of Go's \<open>net/netip\<close> (and of \<open>encoding/binary\<close>) that the modelled code
  calls. \<open>AddrNone\<close> is the zero \<open>Addr\<close>; a 4in6 address is a \<open>V6\<close> whose top 96 bits are
  the mapped prefix. A prefix keeps the address it was made from, as Go's does, and its
  length is \<open>-1\<close> for the zero (invalid) prefix.
\<close>

datatype addr = AddrNone | V4 u32 | V6 "128 word" string

fun is_valid :: "addr \<Rightarrow> bool" where
  "is_valid AddrNone = False" | "is_valid (V4 _) = True" | "is_valid (V6 _ _) = True"

fun is4 :: "addr \<Rightarrow> bool" where
  "is4 (V4 _) = True" | "is4 _ = False"

fun is6 :: "addr \<Rightarrow> bool" where
  "is6 (V6 _ _) = True" | "is6 _ = False"

fun is4in6 :: "addr \<Rightarrow> bool" where
  "is4in6 (V6 a z) = (drop_bit 32 a = 0xffff)" | "is4in6 _ = False"

fun zone :: "addr \<Rightarrow> string" where
  "zone (V6 _ z) = z" | "zone _ = []"

fun bit_len :: "addr \<Rightarrow> nat" where
  "bit_len AddrNone = 0" | "bit_len (V4 _) = 32" | "bit_len (V6 _ _) = 128"

fun unmap :: "addr \<Rightarrow> addr" where
  "unmap (V6 a z) = (if drop_bit 32 a = 0xffff then V4 (ucast a) else V6 a z)"
| "unmap a = a"

text \<open>\<open>Addr.Compare\<close>: by bit length, then by value, then by zone.\<close>

fun addr_le :: "addr \<Rightarrow> addr \<Rightarrow> bool" where
  "addr_le AddrNone _ = True"
| "addr_le _ AddrNone = False"
| "addr_le (V4 a) (V4 b) = (a \<le> b)"
| "addr_le (V4 a) (V6 _ _) = True"
| "addr_le (V6 _ _) (V4 _) = False"
| "addr_le (V6 a z) (V6 b y) = (a < b \<or> a = b \<and> ord_class.lexordp_eq (map of_char z :: nat list) (map of_char y))"

text \<open>\<open>Next\<close> and \<open>Prev\<close> answer the zero address past either end.\<close>

fun addr_next :: "addr \<Rightarrow> addr" where
  "addr_next AddrNone = AddrNone"
| "addr_next (V4 a) = (if a = -1 then AddrNone else V4 (a + 1))"
| "addr_next (V6 a z) = (if a = -1 then AddrNone else V6 (a + 1) z)"

fun addr_prev :: "addr \<Rightarrow> addr" where
  "addr_prev AddrNone = AddrNone"
| "addr_prev (V4 a) = (if a = 0 then AddrNone else V4 (a - 1))"
| "addr_prev (V6 a z) = (if a = 0 then AddrNone else V6 (a - 1) z)"

record prefix =
  paddr :: addr
  pbits :: int

definition no_prefix :: prefix where
  "no_prefix = \<lparr>paddr = AddrNone, pbits = -1\<rparr>"

fun without_zone :: "addr \<Rightarrow> addr" where
  "without_zone (V6 a _) = V6 a []" | "without_zone a = a"

text \<open>\<open>netip.PrefixFrom\<close>: the zone goes, and a length the address has no room for is \<open>-1\<close>.\<close>

definition prefix_from :: "addr \<Rightarrow> int \<Rightarrow> prefix" where
  "prefix_from a b = \<lparr>paddr = without_zone a,
     pbits = (if 0 \<le> b \<and> b \<le> int (bit_len a) \<and> is_valid a then b else -1)\<rparr>"

definition prefix_valid :: "prefix \<Rightarrow> bool" where
  "prefix_valid p \<longleftrightarrow> 0 \<le> pbits p \<and> pbits p \<le> int (bit_len (paddr p)) \<and> is_valid (paddr p)"

definition top_bits :: "nat \<Rightarrow> 'a::len word \<Rightarrow> 'a word" where
  "top_bits n a = push_bit (LENGTH('a) - n) (drop_bit (LENGTH('a) - n) a)"

definition masked :: "prefix \<Rightarrow> prefix" where
  "masked p = (if \<not> prefix_valid p then no_prefix else
     (case paddr p of
        AddrNone \<Rightarrow> no_prefix
      | V4 a \<Rightarrow> p\<lparr>paddr := V4 (top_bits (nat (pbits p)) a)\<rparr>
      | V6 a z \<Rightarrow> p\<lparr>paddr := V6 (top_bits (nat (pbits p)) a) []\<rparr>))"

definition contains :: "prefix \<Rightarrow> addr \<Rightarrow> bool" where
  "contains p a = (prefix_valid p \<and>
     (case (paddr p, a) of
        (V4 q, V4 x) \<Rightarrow> drop_bit (32 - nat (pbits p)) (x XOR q) = 0
      | (V6 q _, V6 x z) \<Rightarrow> z = [] \<and> drop_bit (128 - nat (pbits p)) (x XOR q) = 0
      | _ \<Rightarrow> False))"

lemmas addr_defs [net_simps] = prefix_from_def prefix_valid_def masked_def contains_def no_prefix_def

section \<open>Facts about addresses and prefixes\<close>

lemma xor_zero_iff: "a XOR b = 0 \<longleftrightarrow> a = (b :: 'a::len word)"
proof
  assume "a XOR b = 0"
  then have "(a XOR b) XOR b = 0 XOR b" by (rule arg_cong)
  then show "a = b" by (simp add: xor.assoc)
qed simp

lemma drop_bit_xor_zero_iff:
  "drop_bit n (x XOR q) = 0 \<longleftrightarrow> drop_bit n x = drop_bit n (q :: 'a::len word)"
  by (simp only: drop_bit_xor xor_zero_iff)

text \<open>Membership is agreement on the first \<open>pbits\<close> bits.\<close>

lemma contains_V4:
  "contains p (V4 x) \<longleftrightarrow> prefix_valid p \<and>
     (\<exists>q. paddr p = V4 q \<and> drop_bit (32 - nat (pbits p)) x = drop_bit (32 - nat (pbits p)) q)"
  by (cases "paddr p") (auto simp: contains_def drop_bit_xor_zero_iff simp del: drop_bit_xor)

lemma contains_V6:
  "contains p (V6 x z) \<longleftrightarrow> prefix_valid p \<and> z = [] \<and>
     (\<exists>q w. paddr p = V6 q w \<and> drop_bit (128 - nat (pbits p)) x = drop_bit (128 - nat (pbits p)) q)"
  by (cases "paddr p") (auto simp: contains_def drop_bit_xor_zero_iff simp del: drop_bit_xor)

lemma contains_none [simp]: "\<not> contains p AddrNone"
  by (simp add: contains_def split: addr.splits)

lemma contains_valid: "contains p a \<Longrightarrow> prefix_valid p"
  by (simp add: contains_def)

lemma drop_top_bits [simp]:
  "n \<le> LENGTH('a) \<Longrightarrow> drop_bit (LENGTH('a) - n) (top_bits n a) = drop_bit (LENGTH('a) - n) (a :: 'a::len word)"
  by (rule bit_word_eqI) (auto simp: top_bits_def bit_simps dest: bit_imp_le_length)

lemma top_bits_idem [simp]: "top_bits n (top_bits n a) = top_bits n (a :: 'a::len word)"
  by (rule bit_word_eqI) (auto simp: top_bits_def bit_simps)

lemma pbits_masked [simp]: "prefix_valid p \<Longrightarrow> pbits (masked p) = pbits p"
  by (auto simp: masked_def prefix_valid_def split: addr.splits)

lemma bit_len_masked: "prefix_valid p \<Longrightarrow> bit_len (paddr (masked p)) = bit_len (paddr p)"
  by (cases "paddr p") (auto simp: masked_def prefix_valid_def)

lemma masked_valid [simp]: "prefix_valid (masked p) = prefix_valid p"
  by (cases "paddr p") (auto simp: masked_def prefix_valid_def no_prefix_def)

lemma masked_idem [simp]: "masked (masked p) = masked p"
  by (cases "paddr p") (auto simp: masked_def prefix_valid_def no_prefix_def)

text \<open>Masking keeps the set of addresses a prefix covers.\<close>

lemma contains_masked [simp]: "contains (masked p) a = contains p a"
proof (cases a)
  case AddrNone
  then show ?thesis by simp
next
  case (V4 x)
  then show ?thesis
    using drop_top_bits [where 'a = 32, of "nat (pbits p)"]
    by (cases "paddr p") (auto simp: contains_V4 masked_def prefix_valid_def no_prefix_def nat_le_iff)
next
  case (V6 x z)
  then show ?thesis
    using drop_top_bits [where 'a = 128, of "nat (pbits p)"]
    by (cases "paddr p") (auto simp: contains_V6 masked_def prefix_valid_def no_prefix_def nat_le_iff)
qed

lemma unmap_idem [simp]: "unmap (unmap a) = unmap a"
  by (cases a) auto

lemma unmap_not_4in6: "\<not> is4in6 (unmap a)"
  by (cases a) auto

end
