(* ===== verification/Bytes.thy ===== *)
theory Bytes
  imports GoNet
begin

text \<open>
  \<open>encoding/binary\<close>'s big-endian integers: the bytes of a word, most significant first,
  and the shift-and-or loop that reads them back.
\<close>

primrec be_bytes :: "nat \<Rightarrow> 'a::len word \<Rightarrow> byte list" where
  "be_bytes 0 w = []"
| "be_bytes (Suc n) w = ucast (drop_bit (8 * n) w) # be_bytes n w"

definition be_step :: "'a::len word \<Rightarrow> byte \<Rightarrow> 'a word" where
  "be_step acc b = push_bit 8 acc OR ucast b"

definition be_word :: "byte list \<Rightarrow> 'a::len word" where
  "be_word bs = foldl be_step 0 bs"

lemma length_be_bytes [simp]: "length (be_bytes n w) = n"
  by (induction n) auto

lemma foldl_be_bytes:
  "foldl be_step acc (be_bytes n w) = push_bit (8 * n) acc OR take_bit (8 * n) w"
proof (induction n arbitrary: acc)
  case 0
  then show ?case by simp
next
  case (Suc n)
  have "push_bit (8 * n) (be_step acc (ucast (drop_bit (8 * n) w))) OR take_bit (8 * n) w
      = push_bit (8 * Suc n) acc OR take_bit (8 * Suc n) w"
    by (rule bit_word_eqI) (auto simp: be_step_def bit_simps algebra_simps dest: bit_imp_le_length)
  with Suc.IH show ?case by simp
qed

lemma be_word_be_bytes:
  "LENGTH('a) \<le> 8 * n \<Longrightarrow> be_word (be_bytes n w) = (w :: 'a::len word)"
  by (simp add: be_word_def foldl_be_bytes take_bit_word_eq_self)

lemma be_word_Nil [simp]: "be_word [] = 0"
  by (simp add: be_word_def)

lemma be_word16 [simp]: "be_word (be_bytes 2 w) = (w :: u16)"
  by (rule be_word_be_bytes) simp

lemma be_word32 [simp]: "be_word (be_bytes 4 w) = (w :: u32)"
  by (rule be_word_be_bytes) simp

lemma be_word128 [simp]: "be_word (be_bytes 16 w) = (w :: 128 word)"
  by (rule be_word_be_bytes) simp

text \<open>\<open>Addr.As16\<close> and \<open>netip.AddrFrom16\<close>.\<close>

fun as16 :: "addr \<Rightarrow> byte list" where
  "as16 AddrNone = replicate 16 0"
| "as16 (V4 a) = replicate 10 0 @ [0xff, 0xff] @ be_bytes 4 a"
| "as16 (V6 a _) = be_bytes 16 a"

definition addr_from16 :: "byte list \<Rightarrow> addr" where
  "addr_from16 bs = V6 (be_word bs) []"

lemma length_as16 [simp]: "length (as16 a) = 16"
  by (cases a) auto

end
