(* ===== verification/Dhcp6Message.thy ===== *)
theory Dhcp6Message
  imports Bytes
begin

text \<open>
  \<open>internal/dial/dhcpv6/message.go\<close>: the DHCPv6 messages a prefix-delegation client
  writes and reads. Durations are nanoseconds, as \<open>time.Duration\<close> is. A message text and
  an identifier are byte lists. \<open>Decode\<close> returns a partly filled message beside an error;
  its caller drops it, so an error here carries no message.
\<close>

section \<open>Message types, codes and records\<close>

definition Solicit :: byte where "Solicit = 1"
definition Advertise :: byte where "Advertise = 2"
definition Request :: byte where "Request = 3"
definition Renew :: byte where "Renew = 5"
definition Rebind :: byte where "Rebind = 6"
definition Reply :: byte where "Reply = 7"
definition Release :: byte where "Release = 8"

lemmas message_types = Solicit_def Advertise_def Request_def Renew_def Rebind_def Reply_def Release_def

abbreviation optClientID :: u16 where "optClientID \<equiv> 1"
abbreviation optServerID :: u16 where "optServerID \<equiv> 2"
abbreviation optORO :: u16 where "optORO \<equiv> 6"
abbreviation optPreference :: u16 where "optPreference \<equiv> 7"
abbreviation optElapsedTime :: u16 where "optElapsedTime \<equiv> 8"
abbreviation optStatusCode :: u16 where "optStatusCode \<equiv> 13"
abbreviation optRapidCommit :: u16 where "optRapidCommit \<equiv> 14"
abbreviation optDNSServers :: u16 where "optDNSServers \<equiv> 23"
abbreviation optIAPD :: u16 where "optIAPD \<equiv> 25"
abbreviation optIAPrefix :: u16 where "optIAPrefix \<equiv> 26"

abbreviation (input) StatusSuccess :: int where "StatusSuccess \<equiv> 0"
abbreviation (input) StatusNoPrefixAvail :: int where "StatusNoPrefixAvail \<equiv> 6"

definition Infinity :: int where "Infinity = 0xffffffff"

definition second :: int where "second = 1000000000"
definition millisecond :: int where "millisecond = 1000000"
definition minute :: int where "minute = 60 * second"
definition hour :: int where "hour = 60 * minute"

lemmas time_units = second_def millisecond_def minute_def hour_def

datatype dhcp_error = ErrShort | ErrPrefixLength nat

record ia_prefix =
  ip_prefix :: prefix
  preferred :: int
  valid :: int

record iapd =
  iaid :: u32
  t1 :: int
  t2 :: int
  prefixes :: "ia_prefix list"
  ia_status :: int
  ia_status_message :: "byte list"

record message =
  mtype :: byte
  xid :: "byte \<times> byte \<times> byte"
  client_id :: "byte list"
  server_id :: "byte list"
  elapsed :: int
  preference :: int
  rapid_commit :: bool
  request_dns :: bool
  dns :: "addr list"
  status :: int
  status_message :: "byte list"
  m_iapd :: "iapd option"

definition DUIDLL :: "byte list \<Rightarrow> byte list" where
  "DUIDLL mac = [0, 3, 0, 1] @ mac"

section \<open>Encoding\<close>

definition append_opt :: "byte list \<Rightarrow> u16 \<Rightarrow> byte list \<Rightarrow> byte list" where
  "append_opt b code v = b @ be_bytes 2 code @ be_bytes 2 (of_nat (length v) :: u16) @ v"

definition seconds :: "int \<Rightarrow> u32" where
  "seconds d = (let s = quot d second
     in if s \<ge> Infinity \<or> d < 0 then word_of_int Infinity else word_of_int s)"

definition duration :: "u32 \<Rightarrow> int" where
  "duration s = (if s = word_of_int Infinity then 100 * 365 * 24 * hour else uint s * second)"

definition encode_ia_prefix :: "ia_prefix \<Rightarrow> byte list" where
  "encode_ia_prefix p = be_bytes 4 (seconds (preferred p)) @ be_bytes 4 (seconds (valid p))
     @ [word_of_int (pbits (ip_prefix p))] @ as16 (paddr (ip_prefix p))"

definition encode_iapd :: "iapd \<Rightarrow> byte list" where
  "encode_iapd ia =
     foldl (\<lambda>b p. append_opt b optIAPrefix (encode_ia_prefix p))
       (be_bytes 4 (iaid ia) @ be_bytes 4 (seconds (t1 ia)) @ be_bytes 4 (seconds (t2 ia)))
       (prefixes ia)"

definition elapsed_field :: "int \<Rightarrow> u16" where
  "elapsed_field d = (let cs = quot d (10 * millisecond)
     in word_of_int (if cs > 0xffff then 0xffff else cs))"

definition encode :: "message \<Rightarrow> byte list" where
  "encode m = (
     let (x0, x1, x2) = xid m;
         b = [mtype m, x0, x1, x2];
         b = (if client_id m \<noteq> [] then append_opt b optClientID (client_id m) else b);
         b = (if server_id m \<noteq> [] then append_opt b optServerID (server_id m) else b);
         b = (if mtype m \<noteq> Reply \<and> mtype m \<noteq> Advertise
              then append_opt b optElapsedTime (be_bytes 2 (elapsed_field (elapsed m))) else b);
         b = (if request_dns m then append_opt b optORO (be_bytes 2 optDNSServers) else b);
         b = (if rapid_commit m then append_opt b optRapidCommit [] else b)
     in case m_iapd m of None \<Rightarrow> b | Some ia \<Rightarrow> append_opt b optIAPD (encode_iapd ia))"

section \<open>Decoding\<close>

function walk_opts ::
  "(u16 \<Rightarrow> byte list \<Rightarrow> 's \<Rightarrow> dhcp_error + 's) \<Rightarrow> byte list \<Rightarrow> 's \<Rightarrow> dhcp_error + 's" where
  "walk_opts fn b s =
     (if length b = 0 then Inr s
      else if length b < 4 then Inl ErrShort
      else (let code = be_word (take 2 b);
                n = unat (be_word (take 2 (drop 2 b)) :: u16)
            in if length b < 4 + n then Inl ErrShort
               else (case fn code (take n (drop 4 b)) s of
                       Inl e \<Rightarrow> Inl e
                     | Inr s' \<Rightarrow> walk_opts fn (drop (4 + n) b) s')))"
  by pat_completeness auto
termination
  by (relation "measure (\<lambda>(fn, b, s). length b)") auto

declare walk_opts.simps [simp del]

definition decode_status :: "byte list \<Rightarrow> int \<times> byte list" where
  "decode_status v =
     (if length v < 2 then (StatusSuccess, [])
      else (uint (be_word (take 2 v) :: u16), drop 2 v))"

definition iapd_option :: "u16 \<Rightarrow> byte list \<Rightarrow> iapd \<Rightarrow> dhcp_error + iapd" where
  "iapd_option code o' ia =
     (if code = optStatusCode then
        (let (st, msg) = decode_status o'
         in Inr (ia\<lparr>ia_status := st, ia_status_message := msg\<rparr>))
      else if code = optIAPrefix then
        (if length o' < 25 then Inl ErrShort
         else (let bits = unat (o' ! 8)
               in if bits > 128 then Inl (ErrPrefixLength bits)
                  else Inr (ia\<lparr>prefixes := prefixes ia @
                    [\<lparr>ip_prefix = masked (prefix_from (addr_from16 (take 16 (drop 9 o'))) (int bits)),
                      preferred = duration (be_word (take 4 o')),
                      valid = duration (be_word (take 4 (drop 4 o')))\<rparr>]\<rparr>)))
      else Inr ia)"

definition decode_iapd :: "byte list \<Rightarrow> dhcp_error + iapd" where
  "decode_iapd v =
     (if length v < 12 then Inl ErrShort
      else walk_opts iapd_option (drop 12 v)
             \<lparr>iaid = be_word (take 4 v), t1 = duration (be_word (take 4 (drop 4 v))),
              t2 = duration (be_word (take 4 (drop 8 v))), prefixes = [],
              ia_status = 0, ia_status_message = []\<rparr>)"

function dns_servers :: "byte list \<Rightarrow> addr list" where
  "dns_servers v = (if length v \<ge> 16 then addr_from16 (take 16 v) # dns_servers (drop 16 v) else [])"
  by pat_completeness auto
termination
  by (relation "measure length") auto

declare dns_servers.simps [simp del]

definition message_option :: "u16 \<Rightarrow> byte list \<Rightarrow> message \<Rightarrow> dhcp_error + message" where
  "message_option code v m =
     (if code = optClientID then Inr (m\<lparr>client_id := v\<rparr>)
      else if code = optServerID then Inr (m\<lparr>server_id := v\<rparr>)
      else if code = optPreference then
        (if length v \<noteq> 1 then Inl ErrShort else Inr (m\<lparr>preference := uint (v ! 0)\<rparr>))
      else if code = optRapidCommit then Inr (m\<lparr>rapid_commit := True\<rparr>)
      else if code = optStatusCode then
        (let (st, msg) = decode_status v in Inr (m\<lparr>status := st, status_message := msg\<rparr>))
      else if code = optDNSServers then Inr (m\<lparr>dns := dns m @ dns_servers v\<rparr>)
      else if code = optIAPD then
        (case decode_iapd v of
           Inl e \<Rightarrow> Inl e
         | Inr ia \<Rightarrow> Inr (if m_iapd m = None then m\<lparr>m_iapd := Some ia\<rparr> else m))
      else Inr m)"

definition decode :: "byte list \<Rightarrow> dhcp_error + message" where
  "decode b =
     (if length b < 4 then Inl ErrShort
      else walk_opts message_option (drop 4 b)
             \<lparr>mtype = b ! 0, xid = (b ! 1, b ! 2, b ! 3), client_id = [], server_id = [],
              elapsed = 0, preference = 0, rapid_commit = False, request_dns = False, dns = [],
              status = 0, status_message = [], m_iapd = None\<rparr>)"

section \<open>The option stream as an interface\<close>

text \<open>
  What the two decoders rely on: walking the concatenation of appended options calls the
  handler once per option, in order, and stops at its first error.
\<close>

locale option_stream =
  fixes put :: "byte list \<Rightarrow> 'c \<Rightarrow> byte list \<Rightarrow> byte list"
    and walk :: "('c \<Rightarrow> byte list \<Rightarrow> 's \<Rightarrow> 'e + 's) \<Rightarrow> byte list \<Rightarrow> 's \<Rightarrow> 'e + 's"
    and fits :: "byte list \<Rightarrow> bool"
  assumes put_append: "put b c v = b @ put [] c v"
    and walk_Nil: "walk fn [] s = Inr s"
    and walk_put: "fits v \<Longrightarrow> walk fn (put [] c v @ rest) s = bind_res (fn c v s) (walk fn rest)"
begin

lemma walk_one:
  assumes "fits v"
  shows "walk fn (put [] c v) s = fn c v s"
  using walk_put [OF assms, where rest = "[]"] by (cases "fn c v s") (simp_all add: walk_Nil)

lemma foldl_put:
  "foldl (\<lambda>b p. put b (c p) (enc p)) b ps = b @ concat (map (\<lambda>p. put [] (c p) (enc p)) ps)"
proof (induction ps arbitrary: b)
  case (Cons p ps)
  then show ?case by (simp add: put_append [of b])
qed simp

text \<open>A handler that accepts every item in turn folds its effect over the items.\<close>

lemma walk_items:
  assumes "\<And>p. p \<in> set ps \<Longrightarrow> fits (enc p)"
    and "\<And>p s. p \<in> set ps \<Longrightarrow> fn (c p) (enc p) s = Inr (upd p s)"
  shows "walk fn (concat (map (\<lambda>p. put [] (c p) (enc p)) ps) @ rest) s = walk fn rest (fold upd ps s)"
  using assms
proof (induction ps arbitrary: s)
  case (Cons p ps)
  then show ?case by (simp add: walk_put)
qed simp

lemma walk_items_all:
  assumes "\<And>p. p \<in> set ps \<Longrightarrow> fits (enc p)"
    and "\<And>p s. p \<in> set ps \<Longrightarrow> fn (c p) (enc p) s = Inr (upd p s)"
  shows "walk fn (concat (map (\<lambda>p. put [] (c p) (enc p)) ps)) s = Inr (fold upd ps s)"
  using walk_items [where rest = "[]" and ps = ps and enc = enc and c = c and fn = fn and upd = upd]
    assms by (simp add: walk_Nil)

end

lemma walk_opts_Nil: "walk_opts fn [] s = Inr s"
  by (simp add: walk_opts.simps)

lemma walk_opts_append_opt:
  assumes "length v < 65536"
  shows "walk_opts fn (append_opt [] c v @ rest) s = bind_res (fn c v s) (walk_opts fn rest)"
proof -
  let ?b = "append_opt [] c v @ rest"
  have "unat (of_nat (length v) :: u16) = length v"
    using assms by (simp add: unsigned_of_nat take_bit_nat_eq_self)
  moreover have "take 2 ?b = be_bytes 2 c" "take 2 (drop 2 ?b) = be_bytes 2 (of_nat (length v) :: u16)"
    "take (length v) (drop 4 ?b) = v" "drop (4 + length v) ?b = rest" "\<not> length ?b < 4 + length v"
    by (simp_all add: append_opt_def)
  ultimately show ?thesis
    by (subst walk_opts.simps) (auto simp: Let_def split: sum.splits)
qed

interpretation opts: option_stream append_opt walk_opts "\<lambda>v. length v < 65536"
  by unfold_locales (simp_all add: walk_opts_Nil walk_opts_append_opt, simp add: append_opt_def)

section \<open>Round trips\<close>

text \<open>
  The durations the wire format can carry, the prefixes an identity association can
  carry, and the messages whose every field has an option of its own.
\<close>

definition on_wire :: "int \<Rightarrow> bool" where
  "on_wire d = (0 \<le> d \<and> d mod second = 0 \<and> d < Infinity * second)"

definition delegable :: "prefix \<Rightarrow> bool" where
  "delegable p = (case paddr p of V6 q z \<Rightarrow> prefix_valid p \<and> masked p = p | _ \<Rightarrow> False)"

definition wf_ia_prefix :: "ia_prefix \<Rightarrow> bool" where
  "wf_ia_prefix p = (delegable (ip_prefix p) \<and> on_wire (preferred p) \<and> on_wire (valid p))"

definition wf_iapd :: "iapd \<Rightarrow> bool" where
  "wf_iapd ia = (list_all wf_ia_prefix (prefixes ia) \<and> length (prefixes ia) \<le> 2000 \<and>
     on_wire (t1 ia) \<and> on_wire (t2 ia) \<and> ia_status ia = 0 \<and> ia_status_message ia = [])"

definition wf_message :: "message \<Rightarrow> bool" where
  "wf_message m = (length (client_id m) < 65536 \<and> length (server_id m) < 65536 \<and>
     (case m_iapd m of None \<Rightarrow> True | Some ia \<Rightarrow> wf_iapd ia))"

text \<open>
  What the decoder reads of a message a client sent. Of the fields it leaves out, the elapsed time and the
  option request are on the wire and skipped; the others \<open>encode\<close> does not write.
\<close>

definition received :: "message \<Rightarrow> message" where
  "received m = m\<lparr>elapsed := 0, preference := 0, request_dns := False, dns := [],
     status := 0, status_message := []\<rparr>"

lemma duration_seconds:
  assumes "on_wire d"
  shows "duration (seconds d) = d"
proof -
  have d: "0 \<le> d" "d mod second = 0" "d < Infinity * second"
    using assms by (auto simp: on_wire_def)
  then have q: "quot d second = d div second" "0 \<le> d div second" "d div second < Infinity"
    "d div second * second = d"
    by (auto simp: quot_nonneg second_def Infinity_def)
  then have u: "uint (word_of_int (d div second) :: u32) = d div second"
    by (simp add: Infinity_def uint_word_of_int)
  have "word_of_int (d div second) \<noteq> (word_of_int Infinity :: u32)"
  proof
    assume "word_of_int (d div second) = (word_of_int Infinity :: u32)"
    then have "d div second = uint (word_of_int Infinity :: u32)" using u by metis
    then show False using q(3) by (simp add: Infinity_def)
  qed
  then show ?thesis
    using q d u by (simp add: duration_def seconds_def Let_def)
qed

lemma length_encode_ia_prefix [simp]: "length (encode_ia_prefix p) = 25"
  by (simp add: encode_ia_prefix_def)

lemma delegableE:
  assumes "delegable p"
  obtains q where "paddr p = V6 q []" "0 \<le> pbits p" "pbits p \<le> 128" "masked p = p"
  using assms
  by (cases "paddr p") (auto simp: delegable_def prefix_valid_def masked_def split: if_splits, metis addr.inject(2) prefix.select_convs(1) prefix.surjective prefix.update_convs(1))

lemma iapd_option_prefix:
  assumes "wf_ia_prefix p"
  shows "iapd_option optIAPrefix (encode_ia_prefix p) ia = Inr (ia\<lparr>prefixes := prefixes ia @ [p]\<rparr>)"
proof -
  let ?o = "encode_ia_prefix p"
  from assms obtain q where q: "paddr (ip_prefix p) = V6 q []" "0 \<le> pbits (ip_prefix p)"
    "pbits (ip_prefix p) \<le> 128" "masked (ip_prefix p) = ip_prefix p"
    by (auto simp: wf_ia_prefix_def elim: delegableE)
  have b: "unat (?o ! 8) = nat (pbits (ip_prefix p))"
    using q by (simp add: encode_ia_prefix_def nth_append unsigned_of_int take_bit_int_eq_self)
  have pf: "prefix_from (addr_from16 (take 16 (drop 9 ?o))) (int (nat (pbits (ip_prefix p)))) = ip_prefix p"
    using q by (simp add: encode_ia_prefix_def addr_from16_def prefix_from_def)
  have "duration (be_word (take 4 ?o)) = preferred p" "duration (be_word (take 4 (drop 4 ?o))) = valid p"
    using assms by (simp_all add: encode_ia_prefix_def wf_ia_prefix_def duration_seconds)
  then show ?thesis
    using q b pf by (simp add: iapd_option_def Let_def)
qed

lemma fold_prefixes:
  "fold (\<lambda>p ia. ia\<lparr>prefixes := prefixes ia @ [p]\<rparr>) ps ia = ia\<lparr>prefixes := prefixes ia @ ps\<rparr>"
  by (induction ps arbitrary: ia) auto

theorem iapd_roundtrip:
  assumes "wf_iapd ia"
  shows "decode_iapd (encode_iapd ia) = Inr ia"
proof -
  let ?h = "be_bytes 4 (iaid ia) @ be_bytes 4 (seconds (t1 ia)) @ be_bytes 4 (seconds (t2 ia))"
  let ?body = "concat (map (\<lambda>p. append_opt [] optIAPrefix (encode_ia_prefix p)) (prefixes ia))"
  have e: "encode_iapd ia = ?h @ ?body"
    by (simp only: encode_iapd_def opts.foldl_put)
  have "walk_opts iapd_option ?body s = Inr (s\<lparr>prefixes := prefixes s @ prefixes ia\<rparr>)" for s
    using assms
    by (subst opts.walk_items_all [where upd = "\<lambda>p ia. ia\<lparr>prefixes := prefixes ia @ [p]\<rparr>"])
       (auto simp: wf_iapd_def list_all_iff iapd_option_prefix fold_prefixes)
  then show ?thesis
    using assms unfolding e by (simp add: decode_iapd_def wf_iapd_def duration_seconds)
qed

lemma length_encode_iapd: "length (encode_iapd ia) = 12 + 29 * length (prefixes ia)"
proof -
  have "length (concat (map (\<lambda>p. append_opt [] optIAPrefix (encode_ia_prefix p)) ps)) = 29 * length ps" for ps
    by (induction ps) (auto simp: append_opt_def)
  then show ?thesis
    by (simp add: encode_iapd_def opts.foldl_put)
qed

definition opt_if :: "bool \<Rightarrow> u16 \<Rightarrow> byte list \<Rightarrow> byte list" where
  "opt_if c code v = (if c then append_opt [] code v else [])"

lemma walk_opts_if:
  assumes "length v < 65536"
  shows "walk_opts fn (opt_if c code v @ rest) s =
    (if c then bind_res (fn code v s) (walk_opts fn rest) else walk_opts fn rest s)"
  using assms by (simp add: opt_if_def opts.walk_put)

definition iapd_opt :: "iapd option \<Rightarrow> byte list" where
  "iapd_opt i = (case i of None \<Rightarrow> [] | Some ia \<Rightarrow> append_opt [] optIAPD (encode_iapd ia))"

text \<open>Encoding is the header and one option for each field that is present.\<close>

lemma encode_eq:
  "encode m = [mtype m, fst (xid m), fst (snd (xid m)), snd (snd (xid m))]
     @ opt_if (client_id m \<noteq> []) optClientID (client_id m)
     @ opt_if (server_id m \<noteq> []) optServerID (server_id m)
     @ opt_if (mtype m \<noteq> Reply \<and> mtype m \<noteq> Advertise) optElapsedTime
         (be_bytes 2 (elapsed_field (elapsed m)))
     @ opt_if (request_dns m) optORO (be_bytes 2 optDNSServers)
     @ opt_if (rapid_commit m) optRapidCommit []
     @ iapd_opt (m_iapd m)"
  by (cases "xid m"; cases "m_iapd m") (simp_all add: encode_def append_opt_def opt_if_def iapd_opt_def)

lemma walk_iapd_opt:
  assumes "case i of None \<Rightarrow> True | Some ia \<Rightarrow> wf_iapd ia"
  shows "walk_opts message_option (iapd_opt i) s
    = Inr (if m_iapd s = None then s\<lparr>m_iapd := i\<rparr> else s)"
  using assms
  by (cases i; cases s; cases "m_iapd s")
     (auto simp: opts.walk_Nil opts.walk_one iapd_opt_def message_option_def iapd_roundtrip
       length_encode_iapd wf_iapd_def)

lemma decode_encode:
  assumes "wf_message m"
  shows "decode (encode m) = Inr (received m)"
  using assms unfolding encode_eq decode_def received_def wf_message_def
  by (cases m) (simp add: walk_opts_if walk_iapd_opt message_option_def)

definition sample_request :: message where
  "sample_request = \<lparr>mtype = Request, xid = (1, 2, 3), client_id = [0, 3, 0, 1, 7],
     server_id = [9], elapsed = 0, preference = 0, rapid_commit = False, request_dns = True,
     dns = [], status = 0, status_message = [],
     m_iapd = Some \<lparr>iaid = 1, t1 = 0, t2 = 0,
       prefixes = [\<lparr>ip_prefix = \<lparr>paddr = V6 0x20010db8000000000000000000000000 [], pbits = 56\<rparr>,
         preferred = 3600 * second, valid = 7200 * second\<rparr>],
       ia_status = 0, ia_status_message = []\<rparr>\<rparr>"

lemma wf_sample_request: "wf_message sample_request"
  by (simp add: sample_request_def wf_message_def wf_iapd_def wf_ia_prefix_def delegable_def
      on_wire_def Infinity_def second_def masked_def prefix_valid_def top_bits_def)

text \<open>
  C17. A message the client encodes is decoded field by field: type, transaction, both identifiers, rapid
  commit and the identity association with its timers and every prefix and lifetime. The elapsed time and
  the request for name servers are written as options too, but the decoder skips them; the fields only a
  server fills are not written. The message is one a client sends: the identifiers fit the length of an
  option, the lifetimes and timers are whole seconds below infinity, every prefix is a masked IPv6 prefix,
  there are at most 2000 of them, and the association has no status.
\<close>

theorem message_roundtrip:
  assumes "wf_message m"
  shows "decode (encode m) = Inr (received m)"
  using assms by (rule decode_encode)

lemma message_roundtrip_witness:
  "wf_message sample_request \<and> decode (encode sample_request) = Inr (received sample_request)"
  using wf_sample_request message_roundtrip [OF wf_sample_request] by (rule conjI)

text \<open>
  Infinity is the one lifetime a round trip does not keep: it decodes to a hundred years,
  and a hundred years encode as their own number of seconds.
\<close>

lemma infinity_roundtrip:
  "seconds (duration (word_of_int Infinity)) = 3153600000"
  "(3153600000 :: u32) \<noteq> word_of_int Infinity"
  by (simp_all add: seconds_def duration_def quot_nonneg Infinity_def time_units)

section \<open>What a decoded message promises\<close>

text \<open>
  The lease logic reads a decoded prefix without checking it again: it is a masked IPv6
  prefix of at most 128 bits, whatever bytes arrived.
\<close>

definition delegated :: "ia_prefix \<Rightarrow> bool" where
  "delegated p = (\<exists>q. paddr (ip_prefix p) = V6 q [] \<and> 0 \<le> pbits (ip_prefix p) \<and>
     pbits (ip_prefix p) \<le> 128 \<and> masked (ip_prefix p) = ip_prefix p \<and>
     0 \<le> preferred p \<and> 0 \<le> valid p)"

lemma walk_opts_invariant:
  assumes "walk_opts fn b s = Inr s'" and "I s"
    and "\<And>c v t t'. fn c v t = Inr t' \<Longrightarrow> I t \<Longrightarrow> I t'"
  shows "I s'"
  using assms
proof (induction fn b s rule: walk_opts.induct)
  case (1 fn b s)
  note step = "1.prems"(3) [OF _ "1.prems"(2)]
  from "1.prems"(1) show ?case
    unfolding walk_opts.simps [of fn b s]
    using "1.IH" [OF _ _ refl refl] "1.prems"(2,3)
    by (auto simp: Let_def dest: step split: if_splits sum.splits)
qed

lemma duration_nonneg: "0 \<le> duration s"
  by (simp add: duration_def time_units)

lemma masked_from16:
  "n \<le> 128 \<Longrightarrow> masked (prefix_from (addr_from16 bs) (int n))
     = \<lparr>paddr = V6 (top_bits n (be_word bs)) [], pbits = int n\<rparr>"
  by (simp add: masked_def prefix_from_def prefix_valid_def addr_from16_def)

lemma delegated_decoded:
  assumes "n \<le> 128"
  shows "delegated \<lparr>ip_prefix = masked (prefix_from (addr_from16 bs) (int n)),
    preferred = duration a, valid = duration b\<rparr>"
  using assms masked_idem [of "prefix_from (addr_from16 bs) (int n)"]
  by (auto simp: delegated_def duration_nonneg masked_from16)

lemma iapd_option_delegated:
  assumes "iapd_option c v ia = Inr ia'" and "\<forall>p \<in> set (prefixes ia). delegated p"
  shows "\<forall>p \<in> set (prefixes ia'). delegated p"
  using assms
  by (auto simp: iapd_option_def Let_def delegated_decoded
      split: if_splits prod.splits)

lemma decode_iapd_delegated:
  assumes "decode_iapd v = Inr ia" shows "\<forall>p \<in> set (prefixes ia). delegated p"
proof (rule walk_opts_invariant [where fn = iapd_option])
  show "walk_opts iapd_option (drop 12 v)
      \<lparr>iaid = be_word (take 4 v), t1 = duration (be_word (take 4 (drop 4 v))),
       t2 = duration (be_word (take 4 (drop 8 v))), prefixes = [],
       ia_status = 0, ia_status_message = []\<rparr> = Inr ia"
    using assms by (auto simp: decode_iapd_def split: if_splits)
qed (auto dest: iapd_option_delegated)

lemma decoded_prefix:
  assumes "decode b = Inr m" and "m_iapd m = Some ia" and "p \<in> set (prefixes ia)"
  shows "delegated p"
proof -
  have "case m_iapd m of None \<Rightarrow> True | Some ia \<Rightarrow> \<forall>p \<in> set (prefixes ia). delegated p"
  proof (rule walk_opts_invariant [where fn = message_option])
    show "walk_opts message_option (drop 4 b)
        \<lparr>mtype = b ! 0, xid = (b ! 1, b ! 2, b ! 3), client_id = [], server_id = [],
         elapsed = 0, preference = 0, rapid_commit = False, request_dns = False, dns = [],
         status = 0, status_message = [], m_iapd = None\<rparr> = Inr m"
      using assms(1) by (auto simp: decode_def split: if_splits)
  qed (auto simp: message_option_def split: if_splits prod.splits sum.splits option.splits
        dest: decode_iapd_delegated)
  then show ?thesis using assms by simp
qed

text \<open>
  C27. Every prefix of every message that decodes is a masked IPv6 prefix of at most 128
  bits with lifetimes that are not negative, whatever bytes arrived.
\<close>

theorem decode_delegated:
  assumes "decode b = Inr m" and "m_iapd m = Some ia" and "p \<in> set (prefixes ia)"
  shows "delegated p"
  using assms by (rule decoded_prefix)

lemma decode_delegated_witness:
  "\<exists>m ia p. decode (encode sample_request) = Inr m \<and> m_iapd m = Some ia \<and>
     p \<in> set (prefixes ia) \<and> delegated p"
proof -
  have "decode (encode sample_request) = Inr (received sample_request)"
    using decode_encode [OF wf_sample_request] .
  moreover obtain ia p where "m_iapd (received sample_request) = Some ia" "p \<in> set (prefixes ia)"
    by (simp add: received_def sample_request_def)
  ultimately show ?thesis using decode_delegated by blast
qed

end
