(* ===== verification/Dhcp6Client.thy ===== *)
theory Dhcp6Client
  imports Dhcp6Message
begin

text \<open>
  \<open>internal/dial/dhcpv6/client.go\<close>: the exchanges of the prefix-delegation client. The
  socket, the clock and the context are the environment: what one transmission met is an
  \<open>attempt\<close>, and an exchange runs over the list of attempts the environment supplies. A
  list that ends before the exchange does leaves it \<open>Running\<close>, so returning is something
  to prove. Times and durations are nanoseconds.
\<close>

section \<open>Leases\<close>

record lease =
  l_prefix :: prefix
  l_preferred :: int
  l_valid :: int
  l_t1 :: int
  l_t2 :: int
  l_server_id :: "byte list"
  l_dns :: "addr list"
  l_obtained :: int

definition expires :: "lease \<Rightarrow> int" where
  "expires l = l_obtained l + l_valid l"

definition usable :: "message \<Rightarrow> u32 \<Rightarrow> bool" where
  "usable m i = (case m_iapd m of
       None \<Rightarrow> False
     | Some ia \<Rightarrow>
         if status m \<noteq> StatusSuccess \<or> iaid ia \<noteq> i \<or> ia_status ia \<noteq> StatusSuccess then False
         else list_ex (\<lambda>p. valid p > 0 \<and> is6 (paddr (ip_prefix p))) (prefixes ia))"

text \<open>
  \<open>Client.lease\<close>. \<open>None\<close> stands for the nil dereference of a message without an
  identity association. The last two steps are the timer defaults and the floor;
  \<open>Preferred * 8\<close> is an \<open>int64\<close> product.
\<close>

definition default_timers :: "lease \<Rightarrow> lease" where
  "default_timers l0 =
     (let l1 = (if l_t1 l0 \<le> 0 \<or> l_t1 l0 > l_preferred l0
                then l0\<lparr>l_t1 := quot (l_preferred l0) 2\<rparr> else l0);
          l2 = (if l_t2 l1 \<le> 0 \<or> l_t2 l1 < l_t1 l1
                then l1\<lparr>l_t2 := quot (wrap64 (l_preferred l1 * 8)) 10\<rparr> else l1)
      in if l_t1 l2 < minute then l2\<lparr>l_t1 := minute, l_t2 := max (l_t2 l2) (2 * minute)\<rparr> else l2)"

definition lease_of :: "int \<Rightarrow> message \<Rightarrow> lease option" where
  "lease_of now m = (case m_iapd m of
       None \<Rightarrow> None
     | Some ia \<Rightarrow>
         (let l = \<lparr>l_prefix = no_prefix, l_preferred = 0, l_valid = 0, l_t1 = t1 ia, l_t2 = t2 ia,
                   l_server_id = server_id m, l_dns = dns m, l_obtained = now\<rparr>;
              l' = (case find (\<lambda>p. valid p > 0) (prefixes ia) of
                      None \<Rightarrow> l
                    | Some p \<Rightarrow> l\<lparr>l_prefix := ip_prefix p, l_preferred := preferred p,
                                  l_valid := valid p\<rparr>)
          in Some (default_timers l')))"

section \<open>The exchange\<close>

record schedule =
  irt :: int
  mrt :: int
  mrc :: nat
  mrd :: int

definition solicit_schedule :: schedule where
  "solicit_schedule = \<lparr>irt = second, mrt = 2 * minute, mrc = 0, mrd = 0\<rparr>"
definition request_schedule :: schedule where
  "request_schedule = \<lparr>irt = second, mrt = 30 * second, mrc = 10, mrd = 0\<rparr>"
definition renew_schedule :: schedule where
  "renew_schedule = \<lparr>irt = 10 * second, mrt = 10 * minute, mrc = 0, mrd = 0\<rparr>"
definition release_schedule :: schedule where
  "release_schedule = \<lparr>irt = second, mrt = second, mrc = 4, mrd = 0\<rparr>"

lemmas schedules = solicit_schedule_def request_schedule_def renew_schedule_def release_schedule_def

text \<open>
  What one transmission meets: the clock before it, whether \<open>Send\<close> failed, the datagrams
  \<open>Receive\<close> returned in order, whether it then failed or timed out, whether the context
  had ended by then, and the clock after it.
\<close>

record attempt =
  at_now :: int
  send_failed :: bool
  datagrams :: "byte list list"
  recv_failed :: bool
  ctx_done :: bool
  at_end :: int

datatype xerr = RandErr | SendErr | RecvErr | CtxErr | ErrNoServer
  | NoPrefix "byte list" | IARefused int "byte list" | MsgRefused int "byte list" | NilIAPD

datatype outcome = Got message | Failed xerr | Running

fun first_accepted :: "(message \<Rightarrow> bool) \<Rightarrow> message \<Rightarrow> byte list list \<Rightarrow> message option" where
  "first_accepted accept msg [] = None"
| "first_accepted accept msg (b # bs) =
     (case decode b of
        Inl e \<Rightarrow> first_accepted accept msg bs
      | Inr m \<Rightarrow>
          if xid m \<noteq> xid msg \<or> client_id m \<noteq> client_id msg then first_accepted accept msg bs
          else if accept m then Some m
          else first_accepted accept msg bs)"

text \<open>
  The doubling of the wait, an \<open>int64\<close> product; the message of one attempt; and the loop,
  whose result carries the datagrams sent, each with the time it was then waited on.
\<close>

definition next_wait :: "schedule \<Rightarrow> int \<Rightarrow> int" where
  "next_wait sched rt =
     (let rt' = wrap64 (rt * 2)
      in if mrt sched > 0 \<and> rt' > mrt sched then mrt sched else rt')"

definition stamped :: "message \<Rightarrow> int \<Rightarrow> nat \<Rightarrow> attempt \<Rightarrow> message" where
  "stamped msg start n e = msg\<lparr>elapsed := (if n = 1 then 0 else at_now e - start)\<rparr>"

fun exchange_loop ::
  "schedule \<Rightarrow> (message \<Rightarrow> bool) \<Rightarrow> message \<Rightarrow> int \<Rightarrow> int \<Rightarrow> nat \<Rightarrow> attempt list
     \<Rightarrow> outcome \<times> (byte list \<times> int) list" where
  "exchange_loop sched accept msg start rt n [] = (Running, [])"
| "exchange_loop sched accept msg start rt n (e # es) =
     (let msg' = stamped msg start n e
      in if send_failed e then (Failed SendErr, [])
         else let sent = (encode msg', rt) in
           case first_accepted accept msg' (datagrams e) of
             Some m \<Rightarrow> (Got m, [sent])
           | None \<Rightarrow>
               if recv_failed e then (Failed RecvErr, [sent])
               else if ctx_done e then (Failed CtxErr, [sent])
               else if mrc sched > 0 \<and> n \<ge> mrc sched then (Failed ErrNoServer, [sent])
               else if mrd sched > 0 \<and> at_end e - start \<ge> mrd sched then (Failed ErrNoServer, [sent])
               else apsnd ((#) sent)
                      (exchange_loop sched accept msg start (next_wait sched rt) (Suc n) es))"

definition exchange ::
  "(byte \<times> byte \<times> byte) option \<Rightarrow> int \<Rightarrow> message \<Rightarrow> schedule \<Rightarrow> (message \<Rightarrow> bool) \<Rightarrow> attempt list
     \<Rightarrow> outcome \<times> (byte list \<times> int) list" where
  "exchange rand start msg sched accept env =
     (case rand of
        None \<Rightarrow> (Failed RandErr, [])
      | Some x \<Rightarrow> exchange_loop sched accept (msg\<lparr>xid := x\<rparr>) start (irt sched) 1 env)"

section \<open>The client's operations\<close>

record client =
  c_client_id :: "byte list"
  c_iaid :: u32
  c_hint :: int

definition blank :: message where
  "blank = \<lparr>mtype = 0, xid = (0, 0, 0), client_id = [], server_id = [], elapsed = 0,
     preference = 0, rapid_commit = False, request_dns = False, dns = [], status = 0,
     status_message = [], m_iapd = None\<rparr>"

definition plain_iapd :: "u32 \<Rightarrow> ia_prefix list \<Rightarrow> iapd" where
  "plain_iapd i ps = \<lparr>iaid = i, t1 = 0, t2 = 0, prefixes = ps, ia_status = 0, ia_status_message = []\<rparr>"

definition bare_prefix :: "prefix \<Rightarrow> ia_prefix" where
  "bare_prefix p = \<lparr>ip_prefix = p, preferred = 0, valid = 0\<rparr>"

definition suffix :: "byte list \<Rightarrow> byte list" where
  "suffix s = (if s = [] then [] else [58, 32] @ s)"

definition refusal :: "message \<Rightarrow> xerr" where
  "refusal m =
     (case m_iapd m of
        Some ia \<Rightarrow>
          if ia_status ia = StatusNoPrefixAvail then NoPrefix (suffix (ia_status_message ia))
          else if ia_status ia \<noteq> StatusSuccess then IARefused (ia_status ia) (suffix (ia_status_message ia))
          else if status m \<noteq> StatusSuccess then MsgRefused (status m) (suffix (status_message m))
          else ErrNoServer
      | None \<Rightarrow>
          if status m \<noteq> StatusSuccess then MsgRefused (status m) (suffix (status_message m))
          else ErrNoServer)"

definition to_lease :: "int \<Rightarrow> message \<Rightarrow> xerr + lease" where
  "to_lease now m = (case lease_of now m of None \<Rightarrow> Inl NilIAPD | Some l \<Rightarrow> Inr l)"

text \<open>
  The environment of one exchange: the transaction identifier the random source gave, the
  clock at its start and when its answer is turned into a lease, and its attempts. \<open>None\<close>
  is an operation still waiting.
\<close>

record xenv =
  x_rand :: "(byte \<times> byte \<times> byte) option"
  x_start :: int
  x_done :: int
  x_attempts :: "attempt list"

definition run_exchange :: "xenv \<Rightarrow> message \<Rightarrow> schedule \<Rightarrow> (message \<Rightarrow> bool) \<Rightarrow> outcome" where
  "run_exchange x msg sched accept =
     fst (exchange (x_rand x) (x_start x) msg sched accept (x_attempts x))"

definition solicit_msg :: "client \<Rightarrow> message" where
  "solicit_msg c = blank\<lparr>mtype := Solicit, client_id := c_client_id c, request_dns := True,
     rapid_commit := True,
     m_iapd := Some (plain_iapd (c_iaid c)
       (if c_hint c > 0 then [bare_prefix (prefix_from (V6 0 []) (c_hint c))] else []))\<rparr>"

definition accept_solicit :: "client \<Rightarrow> message \<Rightarrow> bool" where
  "accept_solicit c m =
     (if mtype m = Advertise then usable m (c_iaid c)
      else if mtype m = Reply then rapid_commit m \<and> usable m (c_iaid c)
      else False)"

definition request_msg :: "client \<Rightarrow> message \<Rightarrow> message" where
  "request_msg c got = blank\<lparr>mtype := Request, client_id := c_client_id c,
     server_id := server_id got, request_dns := True,
     m_iapd := Some (plain_iapd (c_iaid c) (case m_iapd got of None \<Rightarrow> [] | Some ia \<Rightarrow> prefixes ia))\<rparr>"

definition acquire :: "client \<Rightarrow> xenv \<Rightarrow> xenv \<Rightarrow> (xerr + lease) option" where
  "acquire c x1 x2 =
     (case run_exchange x1 (solicit_msg c) solicit_schedule (accept_solicit c) of
        Running \<Rightarrow> None
      | Failed e \<Rightarrow> Some (Inl e)
      | Got got \<Rightarrow>
          if mtype got = Reply then Some (to_lease (x_done x1) got)
          else (case run_exchange x2 (request_msg c got) request_schedule (\<lambda>m. mtype m = Reply) of
                  Running \<Rightarrow> None
                | Failed e \<Rightarrow> Some (Inl e)
                | Got reply \<Rightarrow>
                    if \<not> usable reply (c_iaid c) then Some (Inl (refusal reply))
                    else Some (to_lease (x_done x2) reply)))"

text \<open>
  \<open>extend\<close> returns the old lease beside an error; its callers read only the error. Its
  deadline is part of the environment: the attempt after it has the context done.
\<close>

definition extend_msg :: "client \<Rightarrow> lease \<Rightarrow> byte \<Rightarrow> byte list \<Rightarrow> message" where
  "extend_msg c l t server = blank\<lparr>mtype := t, client_id := c_client_id c, server_id := server,
     request_dns := True,
     m_iapd := Some (plain_iapd (c_iaid c) [bare_prefix (l_prefix l)])\<rparr>"

definition extend :: "client \<Rightarrow> lease \<Rightarrow> byte \<Rightarrow> byte list \<Rightarrow> xenv \<Rightarrow> (xerr + lease) option" where
  "extend c l t server x =
     (case run_exchange x (extend_msg c l t server) renew_schedule (\<lambda>m. mtype m = Reply) of
        Running \<Rightarrow> None
      | Failed e \<Rightarrow> Some (Inl e)
      | Got reply \<Rightarrow>
          if \<not> usable reply (c_iaid c) then Some (Inl (refusal reply))
          else Some (to_lease (x_done x) reply))"

definition client_renew :: "client \<Rightarrow> lease \<Rightarrow> xenv \<Rightarrow> (xerr + lease) option" where
  "client_renew c l x = extend c l Renew (l_server_id l) x"

definition client_rebind :: "client \<Rightarrow> lease \<Rightarrow> xenv \<Rightarrow> (xerr + lease) option" where
  "client_rebind c l x = extend c l Rebind [] x"

definition release_msg :: "client \<Rightarrow> lease \<Rightarrow> message" where
  "release_msg c l = blank\<lparr>mtype := Release, client_id := c_client_id c, server_id := l_server_id l,
     m_iapd := Some (plain_iapd (c_iaid c) [bare_prefix (l_prefix l)])\<rparr>"

definition client_release :: "client \<Rightarrow> lease \<Rightarrow> xenv \<Rightarrow> xerr option option" where
  "client_release c l x =
     (case run_exchange x (release_msg c l) release_schedule (\<lambda>m. mtype m = Reply) of
        Running \<Rightarrow> None
      | Failed e \<Rightarrow> Some (Some e)
      | Got m \<Rightarrow> Some None)"


section \<open>What an exchange promises\<close>

text \<open>
  The reference backoff: the first wait is \<open>irt\<close>, each later one the double of the one
  before it, never beyond \<open>mrt\<close>.
\<close>

definition backoff :: "schedule \<Rightarrow> nat \<Rightarrow> int" where
  "backoff sched k = min (irt sched * 2 ^ k) (mrt sched)"

definition wf_schedule :: "schedule \<Rightarrow> bool" where
  "wf_schedule sched = (0 < irt sched \<and> irt sched \<le> mrt sched \<and> mrt sched < 2 ^ 62)"

lemma wf_schedules [simp]:
  "wf_schedule solicit_schedule" "wf_schedule request_schedule"
  "wf_schedule renew_schedule" "wf_schedule release_schedule"
  by (simp_all add: wf_schedule_def schedules time_units)

lemma backoff_0: "wf_schedule s \<Longrightarrow> backoff s 0 = irt s"
  by (simp add: backoff_def wf_schedule_def)

lemma backoff_pos: "wf_schedule s \<Longrightarrow> 0 < backoff s k"
  by (simp add: backoff_def wf_schedule_def)

lemma backoff_Suc:
  assumes "wf_schedule s"
  shows "next_wait s (backoff s k) = backoff s (Suc k)"
proof -
  have "wrap64 (backoff s k * 2) = backoff s k * 2"
    using assms backoff_pos [OF assms, of k]
    by (intro wrap64_id) (auto simp: backoff_def wf_schedule_def min_def split: if_splits)
  then show ?thesis
    using assms by (auto simp: next_wait_def backoff_def wf_schedule_def min_def)
qed

lemma stamped_simps [simp]:
  "xid (stamped msg start n e) = xid msg"
  "client_id (stamped msg start n e) = client_id msg"
  by (simp_all add: stamped_def)

lemma first_accepted_Some:
  assumes "first_accepted accept msg bs = Some m"
  shows "accept m \<and> xid m = xid msg \<and> client_id m = client_id msg \<and> (\<exists>b \<in> set bs. decode b = Inr m)"
  using assms
  by (induction bs) (auto split: sum.splits if_splits)

lemma exchange_loop_Got:
  assumes "fst (exchange_loop sched accept msg start rt n env) = Got m"
  shows "accept m \<and> xid m = xid msg \<and> client_id m = client_id msg \<and>
    (\<exists>e \<in> set env. \<exists>b \<in> set (datagrams e). decode b = Inr m)"
  using assms
proof (induction env arbitrary: rt n)
  case (Cons e es)
  then show ?case
    by (auto simp: Let_def split: if_splits option.splits dest!: first_accepted_Some)
qed simp

lemma run_exchange_Got:
  assumes "run_exchange x msg sched accept = Got m"
  shows "accept m \<and> Some (xid m) = x_rand x \<and> client_id m = client_id msg \<and>
    (\<exists>e \<in> set (x_attempts x). \<exists>b \<in> set (datagrams e). decode b = Inr m)"
proof (cases "x_rand x")
  case None
  then show ?thesis using assms by (simp add: run_exchange_def exchange_def)
next
  case (Some r)
  then show ?thesis
    using assms exchange_loop_Got [of sched accept "msg\<lparr>xid := r\<rparr>"]
    by (simp add: run_exchange_def exchange_def)
qed

lemma exchange_loop_returns:
  assumes "0 < mrc sched" and "n \<le> mrc sched" and "mrc sched < n + length env"
  shows "fst (exchange_loop sched accept msg start rt n env) \<noteq> Running \<and>
    length (snd (exchange_loop sched accept msg start rt n env)) + n \<le> Suc (mrc sched)"
  using assms
proof (induction env arbitrary: rt n)
  case (Cons e es)
  show ?case
    using Cons.prems Cons.IH [of "Suc n" "next_wait sched rt"]
    by (auto simp: Let_def split: option.splits)
qed simp

lemma exchange_loop_waits:
  assumes "wf_schedule sched"
    and "i < length (snd (exchange_loop sched accept msg start (backoff sched k) n env))"
  shows "snd (snd (exchange_loop sched accept msg start (backoff sched k) n env) ! i) = backoff sched (k + i)"
  using assms
proof (induction env arbitrary: k n i)
  case (Cons e es)
  show ?case
    using Cons.prems Cons.IH [of _ "Suc k" "Suc n"]
    by (cases i) (auto simp: Let_def backoff_Suc split: option.splits if_splits)
qed simp

definition silent :: attempt where
  "silent = \<lparr>at_now = 0, send_failed = False, datagrams = [], recv_failed = False,
     ctx_done = False, at_end = 0\<rparr>"

text \<open>
  The wait after the k-th transmission of an exchange is the k-th value of the reference
  backoff: it starts at the initial time, doubles, and stays at the maximum once there.
\<close>

theorem exchange_waits:
  assumes "wf_schedule sched" and "i < length (snd (exchange rand start msg sched accept env))"
  shows "snd (snd (exchange rand start msg sched accept env) ! i) = backoff sched i"
proof (cases rand)
  case None
  then show ?thesis using assms(2) by (simp add: exchange_def)
next
  case (Some x)
  then show ?thesis
    using exchange_loop_waits [of sched i accept _ start 0] assms
    by (simp add: exchange_def backoff_0)
qed

lemma exchange_waits_witness:
  "snd (snd (exchange (Some (1, 2, 3)) 0 blank request_schedule (\<lambda>m. True)
     [silent, silent, silent, silent, silent, silent, silent]) ! 6)
     = 30 * second"
proof -
  have "6 < length (snd (exchange (Some (1, 2, 3)) 0 blank request_schedule (\<lambda>m. True) [silent, silent, silent, silent, silent, silent, silent]))"
    by (simp add: exchange_def silent_def Let_def schedules)
  from exchange_waits [OF wf_schedules(2) this] show ?thesis
    by (simp add: backoff_def schedules time_units)
qed

text \<open>
  C28. An exchange with a transmission count returns: given as many attempts, it ends in an
  answer or an error, having sent no more than the count.
\<close>

theorem exchange_returns:
  assumes "0 < mrc sched" and "mrc sched \<le> length env"
  shows "fst (exchange rand start msg sched accept env) \<noteq> Running \<and>
    length (snd (exchange rand start msg sched accept env)) \<le> mrc sched"
proof (cases rand)
  case None
  then show ?thesis by (simp add: exchange_def)
next
  case (Some x)
  then show ?thesis
    using exchange_loop_returns [of sched 1 env accept "msg\<lparr>xid := x\<rparr>" start "irt sched"] assms
    by (simp add: exchange_def)
qed

lemma exchange_returns_witness:
  "fst (exchange (Some (1, 2, 3)) 0 blank release_schedule (\<lambda>m. True) (replicate 4 silent)) \<noteq> Running \<and>
   length (snd (exchange (Some (1, 2, 3)) 0 blank release_schedule (\<lambda>m. True) (replicate 4 silent)))
     \<le> mrc release_schedule"
  by (rule exchange_returns) (simp_all add: schedules)

section \<open>What the lease promises\<close>

lemma usable_first:
  assumes "usable m i"
  obtains ia p where "m_iapd m = Some ia" "iaid ia = i" "status m = StatusSuccess"
    "ia_status ia = StatusSuccess" "p \<in> set (prefixes ia)" "valid p > 0"
    "find (\<lambda>p. valid p > 0) (prefixes ia) = Some p"
proof -
  from assms obtain ia where ia: "m_iapd m = Some ia" "iaid ia = i" "status m = StatusSuccess"
    "ia_status ia = StatusSuccess" "\<exists>p \<in> set (prefixes ia). valid p > 0"
    by (auto simp: usable_def list_ex_iff split: option.splits if_splits)
  then obtain p where "find (\<lambda>p. valid p > 0) (prefixes ia) = Some p"
    by (cases "find (\<lambda>p. valid p > 0) (prefixes ia)") (auto simp: find_None_iff)
  moreover from this have "p \<in> set (prefixes ia)" "valid p > 0"
    by (auto simp: find_Some_iff)
  ultimately show ?thesis using ia that by blast
qed

lemma default_timers_fields [simp]:
  "l_prefix (default_timers l) = l_prefix l" "l_preferred (default_timers l) = l_preferred l"
  "l_valid (default_timers l) = l_valid l" "l_server_id (default_timers l) = l_server_id l"
  "l_dns (default_timers l) = l_dns l" "l_obtained (default_timers l) = l_obtained l"
  by (simp_all add: default_timers_def Let_def)

lemma default_timers_floor: "minute \<le> l_t1 (default_timers l)"
  by (simp add: default_timers_def Let_def)

definition good_lease :: "message \<Rightarrow> lease \<Rightarrow> bool" where
  "good_lease m l = (\<exists>ia p. m_iapd m = Some ia \<and> p \<in> set (prefixes ia) \<and> delegated p \<and>
     l_prefix l = ip_prefix p \<and> l_valid l = valid p \<and> 0 < l_valid l \<and>
     l_preferred l = preferred p \<and> l_server_id l = server_id m \<and> minute \<le> l_t1 l)"

lemma to_lease_good:
  assumes "decode b = Inr m" and "usable m i"
  shows "\<exists>l. to_lease now m = Inr l \<and> good_lease m l \<and> l_obtained l = now"
proof -
  from usable_first [OF assms(2)] obtain ia p where u: "m_iapd m = Some ia" "p \<in> set (prefixes ia)"
    "valid p > 0" "find (\<lambda>p. valid p > 0) (prefixes ia) = Some p"
    by metis
  then have "delegated p" using assms(1) by (blast intro: decoded_prefix)
  then show ?thesis
    using u by (auto simp: to_lease_def lease_of_def good_lease_def Let_def default_timers_floor)
qed

text \<open>What makes a lease one the operator may use: the answer it came from.\<close>

definition granted :: "client \<Rightarrow> xenv \<Rightarrow> lease \<Rightarrow> bool" where
  "granted c x l = (\<exists>e \<in> set (x_attempts x). \<exists>b \<in> set (datagrams e). \<exists>m.
     decode b = Inr m \<and> mtype m = Reply \<and> Some (xid m) = x_rand x \<and> client_id m = c_client_id c \<and>
     usable m (c_iaid c) \<and> good_lease m l \<and> l_obtained l = x_done x)"

lemma granted_exchange:
  assumes "run_exchange x msg sched accept = Got m" and "client_id msg = c_client_id c"
    and "mtype m = Reply" and "usable m (c_iaid c)" and "to_lease (x_done x) m = Inr l"
  shows "granted c x l"
proof -
  from run_exchange_Got [OF assms(1)] obtain e b where
    w: "e \<in> set (x_attempts x)" "b \<in> set (datagrams e)" "decode b = Inr m"
    and m: "Some (xid m) = x_rand x" "client_id m = client_id msg"
    by blast
  moreover have "good_lease m l \<and> l_obtained l = x_done x"
    using to_lease_good [OF w(3) assms(4), of "x_done x"] assms(5) by simp
  ultimately show ?thesis
    unfolding granted_def using assms by metis
qed

text \<open>
  C16. Acquire returns a lease only out of a Reply that decodes, carries our client identifier
  and the transaction of the exchange it answers, and delegates: the lease is a masked IPv6
  prefix of that Reply with a lifetime left, and its renewal is a minute off at least.
\<close>

theorem acquire_sound:
  assumes "acquire c x1 x2 = Some (Inr l)"
  shows "granted c x1 l \<or> granted c x2 l"
proof -
  let ?run1 = "run_exchange x1 (solicit_msg c) solicit_schedule (accept_solicit c)"
  from assms obtain got where got: "?run1 = Got got"
    by (auto simp: acquire_def split: outcome.splits)
  have a: "accept_solicit c got" using run_exchange_Got [OF got] by blast
  show ?thesis
  proof (cases "mtype got = Reply")
    case True
    then have "usable got (c_iaid c)" "to_lease (x_done x1) got = Inr l"
      using assms got a by (simp_all add: acquire_def accept_solicit_def message_types)
    then have "granted c x1 l"
      by (intro granted_exchange [OF got _ True]) (simp_all add: solicit_msg_def)
    then show ?thesis ..
  next
    case False
    then obtain reply where r: "run_exchange x2 (request_msg c got) request_schedule (\<lambda>m. mtype m = Reply) = Got reply"
      "usable reply (c_iaid c)" "to_lease (x_done x2) reply = Inr l"
      using assms got by (auto simp: acquire_def split: outcome.splits if_splits)
    have "mtype reply = Reply" using run_exchange_Got [OF r(1)] by blast
    then have "granted c x2 l"
      using r by (intro granted_exchange [OF r(1)]) (simp_all add: request_msg_def)
    then show ?thesis ..
  qed
qed

text \<open>A run of it: a Rapid Commit Reply answers the first Solicit.\<close>

definition sample_client :: client where
  "sample_client = \<lparr>c_client_id = [0, 3, 0, 1, 7], c_iaid = 1, c_hint = 56\<rparr>"

definition sample_reply :: message where
  "sample_reply = sample_request\<lparr>mtype := Reply, rapid_commit := True\<rparr>"

definition sample_env :: xenv where
  "sample_env = \<lparr>x_rand = Some (1, 2, 3), x_start = 0, x_done = 5,
     x_attempts = [silent\<lparr>datagrams := [[], encode sample_reply]\<rparr>]\<rparr>"

definition sample_lease :: lease where
  "sample_lease = \<lparr>l_prefix = \<lparr>paddr = V6 0x20010db8000000000000000000000000 [], pbits = 56\<rparr>,
     l_preferred = 3600 * second, l_valid = 7200 * second, l_t1 = 1800 * second,
     l_t2 = 2880 * second, l_server_id = [9], l_dns = [], l_obtained = 5\<rparr>"

lemma sample_reply_decodes: "decode (encode sample_reply) = Inr (received sample_reply)"
  by (rule decode_encode)
     (use wf_sample_request in \<open>simp add: sample_reply_def wf_message_def sample_request_def\<close>)

lemma decode_Nil: "decode [] = Inl ErrShort"
  by (simp add: decode_def)

lemmas sample_defs = sample_client_def sample_reply_def sample_env_def sample_lease_def
  sample_request_def received_def silent_def

lemma sample_first_accepted:
  assumes "xid msg = (1, 2, 3)" and "client_id msg = [0, 3, 0, 1, 7]" and "accept (received sample_reply)"
  shows "first_accepted accept msg [[], encode sample_reply] = Some (received sample_reply)"
  using assms by (simp add: sample_reply_decodes decode_Nil) (simp add: sample_defs)

lemma sample_run:
  assumes "client_id msg = [0, 3, 0, 1, 7]" and "accept (received sample_reply)"
  shows "run_exchange sample_env msg sched accept = Got (received sample_reply)"
proof -
  have "first_accepted accept (stamped (msg\<lparr>xid := (1, 2, 3)\<rparr>) 0 1 e) [[], encode sample_reply]
      = Some (received sample_reply)" for e
    using assms by (intro sample_first_accepted) simp_all
  then show ?thesis
    by (simp add: run_exchange_def exchange_def sample_env_def silent_def Let_def)
qed

lemma sample_usable: "usable (received sample_reply) 1"
  by (simp add: sample_defs usable_def time_units)

lemma sample_to_lease: "to_lease 5 (received sample_reply) = Inr sample_lease"
  by (simp add: sample_defs to_lease_def lease_of_def default_timers_def time_units quot_def wrap64_def Let_def)

lemma sample_acquire: "acquire sample_client sample_env x2 = Some (Inr sample_lease)"
proof -
  have r: "mtype (received sample_reply) = Reply" "rapid_commit (received sample_reply)"
    by (simp_all add: sample_defs)
  have "run_exchange sample_env (solicit_msg sample_client) solicit_schedule (accept_solicit sample_client)
      = Got (received sample_reply)"
    using r sample_usable
    by (intro sample_run) (simp_all add: solicit_msg_def sample_client_def accept_solicit_def message_types)
  then show ?thesis
    using r sample_to_lease by (simp add: acquire_def sample_env_def)
qed

lemma acquire_sound_witness:
  "granted sample_client sample_env sample_lease"
  using acquire_sound [OF sample_acquire [of sample_env]] by blast

text \<open>
  Renew and Rebind likewise: a new lease comes out of a usable Reply to this exchange,
  and a refusal or a silence is an error that leaves the old lease alone.
\<close>

theorem renew_sound:
  assumes "client_renew c l x = Some (Inr l') \<or> client_rebind c l x = Some (Inr l')"
  shows "granted c x l'"
proof -
  from assms obtain t server where e: "extend c l t server x = Some (Inr l')"
    by (auto simp: client_renew_def client_rebind_def)
  let ?run = "run_exchange x (extend_msg c l t server) renew_schedule (\<lambda>m. mtype m = Reply)"
  from e obtain reply where r: "?run = Got reply" "usable reply (c_iaid c)"
    "to_lease (x_done x) reply = Inr l'"
    by (auto simp: extend_def split: outcome.splits if_splits)
  have "mtype reply = Reply" using run_exchange_Got [OF r(1)] by blast
  then show ?thesis
    using r by (intro granted_exchange [OF r(1)]) (simp_all add: extend_msg_def)
qed

lemma renew_sound_witness:
  "client_renew sample_client sample_lease sample_env = Some (Inr sample_lease) \<and>
   granted sample_client sample_env sample_lease"
proof -
  have "run_exchange sample_env (extend_msg sample_client sample_lease Renew [9]) renew_schedule
      (\<lambda>m. mtype m = Reply) = Got (received sample_reply)"
    by (rule sample_run) (simp_all add: extend_msg_def sample_defs)
  then have "client_renew sample_client sample_lease sample_env = Some (Inr sample_lease)"
    using sample_usable sample_to_lease
    by (simp add: client_renew_def extend_def sample_env_def sample_client_def sample_lease_def)
  with renew_sound show ?thesis by blast
qed

lemma lease_of_timers:
  assumes "lease_of now m = Some l" and "m_iapd m = Some ia"
  obtains l0 where "l = default_timers l0" "l_t1 l0 = t1 ia"
  using assms by (auto simp: lease_of_def Let_def split: option.splits)

lemma default_timers_ordered:
  assumes "l_t1 l * 10 \<le> l_preferred l * 8" and "0 \<le> l_preferred l" and "l_preferred l * 8 < 2 ^ 63"
  shows "l_t1 (default_timers l) \<le> l_t2 (default_timers l)"
proof -
  have "quot (wrap64 (l_preferred l * 8)) 10 = l_preferred l * 8 div 10"
    "quot (l_preferred l) 2 = l_preferred l div 2"
    using assms by (simp_all add: wrap64_id quot_nonneg)
  then show ?thesis
    using assms by (simp add: default_timers_def Let_def minute_def second_def) linarith
qed

text \<open>
  The timers of a lease are in order, the renewal before the rebinding, when the server's
  renewal time is within eight tenths of a preferred lifetime the product can carry.
\<close>

theorem timers_ordered:
  assumes "lease_of now m = Some l" and "m_iapd m = Some ia"
    and "t1 ia * 10 \<le> l_preferred l * 8" and "0 \<le> l_preferred l" and "l_preferred l * 8 < 2 ^ 63"
  shows "minute \<le> l_t1 l \<and> l_t1 l \<le> l_t2 l"
proof -
  from lease_of_timers [OF assms(1,2)] obtain l0 where l0: "l = default_timers l0" "l_t1 l0 = t1 ia" .
  show ?thesis
    unfolding l0(1) using assms(3-5) l0
    by (intro conjI default_timers_floor default_timers_ordered) simp_all
qed

lemma timers_ordered_witness:
  "minute \<le> l_t1 sample_lease \<and> l_t1 sample_lease \<le> l_t2 sample_lease"
proof (rule timers_ordered)
  show "lease_of 5 (received sample_reply) = Some sample_lease"
    using sample_to_lease by (simp add: to_lease_def split: option.splits)
  show "m_iapd (received sample_reply) = Some (the (m_iapd sample_reply))"
    by (simp add: sample_defs)
qed (simp_all add: sample_defs time_units)

text \<open>
  The product does overflow: an infinite preferred lifetime, decoded as a hundred years,
  leaves the rebinding time before the renewal time.
\<close>

lemma infinite_lifetime_timers:
  "\<exists>l. lease_of 0 (blank\<lparr>m_iapd := Some (plain_iapd 1
       [\<lparr>ip_prefix = no_prefix, preferred = duration (word_of_int Infinity),
         valid = duration (word_of_int Infinity)\<rparr>])\<rparr>) = Some l \<and> l_t2 l < l_t1 l"
  by (simp add: lease_of_def blank_def plain_iapd_def default_timers_def duration_def time_units
      Infinity_def quot_def wrap64_def Let_def)

end
