(* ===== verification/Delegation.thy ===== *)
theory Delegation
  imports Dhcp6Client
begin

text \<open>
  \<open>internal/dial/delegation.go\<close>: the loop that keeps a delegated prefix, and \<open>Watch\<close>, which
  starts and stops it as the configuration changes. The loop is a state machine whose points are
  the calls it blocks in; a step is the return of one of them, with whatever the interface, the
  socket or the exchange of \<open>Dhcp6Client\<close> gave. Contexts may end between any two steps.
\<close>

section \<open>State\<close>

datatype phase = NoPhase | PhaseSoliciting | PhaseBound | PhaseRenewing | PhaseRebinding | PhaseWaiting

datatype delegation_error = Interface string | Exchange xerr

definition IAID :: u32 where "IAID = 1"

record delegation_state =
  ds_interface :: string
  ds_phase :: phase
  ds_prefix :: prefix
  ds_obtained :: "int option"
  ds_renews :: "int option"
  ds_expires :: "int option"
  ds_dns :: "addr list"
  ds_error :: "delegation_error option"

definition blank_state :: delegation_state where
  "blank_state = \<lparr>ds_interface = [], ds_phase = NoPhase, ds_prefix = no_prefix, ds_obtained = None,
     ds_renews = None, ds_expires = None, ds_dns = [], ds_error = None\<rparr>"

record delegation_key =
  k_iface :: string
  k_hint :: int

text \<open>
  Where the loop is: in \<open>open\<close>, in one of the exchanges, asleep until T1, or asleep after a
  failure. \<open>lp_stopped\<close> is \<open>ctx.Err() \<noteq> nil\<close>; \<open>conn\<close> and \<open>client\<close> are set together.
\<close>

datatype point = At_open | At_acquire | At_sleep | At_renew | At_rebind | At_retry

record loop =
  lp_key :: delegation_key
  lp_client :: "client option"
  lp_lease :: lease
  lp_stopped :: bool
  lp_at :: point

definition no_lease :: lease where
  "no_lease = \<lparr>l_prefix = no_prefix, l_preferred = 0, l_valid = 0, l_t1 = 0, l_t2 = 0,
     l_server_id = [], l_dns = [], l_obtained = 0\<rparr>"

text \<open>
  \<open>Changed\<close> was called with \<open>announced\<close>, oldest first, and \<open>Release\<close> with \<open>released\<close>. \<open>pending\<close> is a \<open>Watch\<close> waiting for the loop to end, and what it wants; \<open>down\<close> is that
  the context the loops run under has ended, as it does when olrd shuts down.
\<close>

record delegation =
  dg_state :: delegation_state
  running :: "delegation_key option"
  cancel :: bool
  the_loop :: "loop option"
  withdrawing :: bool
  pending :: "delegation_key option option"
  announced :: "(prefix \<times> prefix) list"
  released :: "lease list"
  down :: bool

section \<open>What is published\<close>

definition update_state :: "(delegation_state \<Rightarrow> delegation_state) \<Rightarrow> delegation \<Rightarrow> delegation" where
  "update_state f d = d\<lparr>dg_state := f (dg_state d)\<rparr>"

definition set_prefix :: "prefix \<Rightarrow> delegation \<Rightarrow> delegation" where
  "set_prefix p d =
     (let old = ds_prefix (dg_state d);
          s = (dg_state d)\<lparr>ds_prefix := p\<rparr>;
          s = (if \<not> prefix_valid p
               then s\<lparr>ds_obtained := None, ds_renews := None, ds_expires := None, ds_dns := []\<rparr> else s);
          d = d\<lparr>dg_state := s\<rparr>
      in if old = p then d else d\<lparr>announced := announced d @ [(old, p)]\<rparr>)"

definition bound :: "lease \<Rightarrow> delegation \<Rightarrow> delegation" where
  "bound l d =
     set_prefix (l_prefix l)
       (update_state (\<lambda>s. s\<lparr>ds_phase := PhaseBound, ds_error := None, ds_obtained := Some (l_obtained l),
          ds_renews := Some (l_obtained l + l_t1 l), ds_expires := Some (expires l), ds_dns := l_dns l\<rparr>) d)"

definition enter :: "phase \<Rightarrow> delegation_error option \<Rightarrow> delegation \<Rightarrow> delegation" where
  "enter ph e = update_state (\<lambda>s. s\<lparr>ds_phase := ph, ds_error := e\<rparr>)"

text \<open>\<open>State\<close>.\<close>

definition state_report :: "delegation \<Rightarrow> delegation_state option" where
  "state_report d = (if running d = None then None else Some (dg_state d))"

section \<open>The loop\<close>

text \<open>The deferred function: what a loop does on its way out.\<close>

definition leave :: "loop \<Rightarrow> delegation \<Rightarrow> delegation" where
  "leave lp d =
     (let d = d\<lparr>the_loop := None\<rparr>
      in if \<not> withdrawing d then d
         else set_prefix no_prefix
           (if lp_client lp \<noteq> None \<and> prefix_valid (l_prefix (lp_lease lp))
            then d\<lparr>released := released d @ [lp_lease lp]\<rparr> else d))"

definition goto :: "point \<Rightarrow> loop \<Rightarrow> delegation \<Rightarrow> delegation" where
  "goto p lp d = d\<lparr>the_loop := Some (lp\<lparr>lp_at := p\<rparr>)\<rparr>"

definition solicit :: "loop \<Rightarrow> delegation \<Rightarrow> delegation" where
  "solicit lp d = goto At_acquire lp (enter PhaseSoliciting None d)"

text \<open>The heads of the outer and of the inner loop, and \<open>fail\<close>.\<close>

definition outer :: "loop \<Rightarrow> delegation \<Rightarrow> delegation" where
  "outer lp d =
     (if lp_stopped lp then leave lp d
      else if lp_client lp = None then goto At_open lp d
      else solicit lp d)"

definition inner :: "loop \<Rightarrow> delegation \<Rightarrow> delegation" where
  "inner lp d = (if lp_stopped lp then leave lp d else goto At_sleep lp d)"

definition fail :: "delegation_error \<Rightarrow> loop \<Rightarrow> delegation \<Rightarrow> delegation" where
  "fail e lp d =
     (if lp_stopped lp then outer lp d else goto At_retry lp (enter PhaseWaiting (Some e) d))"

text \<open>\<open>open\<close>, of the hardware address and the socket the interface gave.\<close>

definition open_client :: "delegation_key \<Rightarrow> string + byte list \<Rightarrow> string option \<Rightarrow> string + client" where
  "open_client key mac listen =
     (case mac of
        Inl e \<Rightarrow> Inl e
      | Inr m \<Rightarrow> (case listen of
            Some e \<Rightarrow> Inl e
          | None \<Rightarrow> Inr \<lparr>c_client_id = DUIDLL m, c_iaid = IAID, c_hint = k_hint key\<rparr>))"

definition opened :: "string + client \<Rightarrow> loop \<Rightarrow> delegation \<Rightarrow> delegation" where
  "opened r lp d = (case r of
       Inl e \<Rightarrow> fail (Interface e) lp d
     | Inr c \<Rightarrow> solicit (lp\<lparr>lp_client := Some c\<rparr>) d)"

definition acquired :: "xerr + lease \<Rightarrow> loop \<Rightarrow> delegation \<Rightarrow> delegation" where
  "acquired r lp d = (case r of
       Inl e \<Rightarrow> fail (Exchange e) (lp\<lparr>lp_client := None\<rparr>) d
     | Inr l \<Rightarrow> inner (lp\<lparr>lp_lease := l\<rparr>) (bound l d))"

definition renewed :: "xerr + lease \<Rightarrow> loop \<Rightarrow> delegation \<Rightarrow> delegation" where
  "renewed r lp d =
     (if lp_stopped lp then leave lp d
      else case r of
        Inl e \<Rightarrow> goto At_rebind lp (enter PhaseRebinding (Some (Exchange e)) d)
      | Inr l \<Rightarrow> inner (lp\<lparr>lp_lease := l\<rparr>) (bound l d))"

definition rebound :: "xerr + lease \<Rightarrow> loop \<Rightarrow> delegation \<Rightarrow> delegation" where
  "rebound r lp d =
     (if lp_stopped lp then leave lp d
      else case r of
        Inl e \<Rightarrow> outer (lp\<lparr>lp_lease := no_lease\<rparr>) (set_prefix no_prefix d)
      | Inr l \<Rightarrow> inner (lp\<lparr>lp_lease := l\<rparr>) (bound l d))"

definition slept :: "loop \<Rightarrow> delegation \<Rightarrow> delegation" where
  "slept lp d = goto At_renew lp (update_state (\<lambda>s. s\<lparr>ds_phase := PhaseRenewing\<rparr>) d)"

text \<open>The return of the call the loop is in. A sleep returns when its time comes or when it is stopped.\<close>

inductive loop_step :: "delegation \<Rightarrow> delegation \<Rightarrow> bool" where
  Open: "the_loop d = Some lp \<Longrightarrow> lp_at lp = At_open \<Longrightarrow>
    loop_step d (opened (open_client (lp_key lp) mac listen) lp d)"
| Acquire: "the_loop d = Some lp \<Longrightarrow> lp_at lp = At_acquire \<Longrightarrow> lp_client lp = Some c \<Longrightarrow>
    acquire c x1 x2 = Some r \<Longrightarrow> loop_step d (acquired r lp d)"
| Sleep: "the_loop d = Some lp \<Longrightarrow> lp_at lp = At_sleep \<Longrightarrow> loop_step d (slept lp d)"
| Wake: "the_loop d = Some lp \<Longrightarrow> lp_at lp = At_sleep \<Longrightarrow> lp_stopped lp \<Longrightarrow> loop_step d (leave lp d)"
| Renewal: "the_loop d = Some lp \<Longrightarrow> lp_at lp = At_renew \<Longrightarrow> lp_client lp = Some c \<Longrightarrow>
    client_renew c (lp_lease lp) x = Some r \<Longrightarrow> loop_step d (renewed r lp d)"
| Rebinding: "the_loop d = Some lp \<Longrightarrow> lp_at lp = At_rebind \<Longrightarrow> lp_client lp = Some c \<Longrightarrow>
    client_rebind c (lp_lease lp) x = Some r \<Longrightarrow> loop_step d (rebound r lp d)"
| Retry: "the_loop d = Some lp \<Longrightarrow> lp_at lp = At_retry \<Longrightarrow> loop_step d (outer lp d)"

section \<open>Watch\<close>

text \<open>The part of the uplink's configuration that asks for a prefix.\<close>

record ipv6_config =
  via :: string
  prefix_length :: int

record uplink =
  u_interface :: string
  u_ipv6 :: "ipv6_config option"

definition ViaPD :: string where "ViaPD = ''dhcpv6-pd''"

definition has_pd :: "uplink option \<Rightarrow> bool" where
  "has_pd u = (case u of None \<Rightarrow> False | Some u \<Rightarrow> (case u_ipv6 u of None \<Rightarrow> False | Some v \<Rightarrow> via v = ViaPD))"

definition wanted :: "uplink option \<Rightarrow> delegation_key option" where
  "wanted u =
     (if has_pd u then Some \<lparr>k_iface = u_interface (the u), k_hint = prefix_length (the (u_ipv6 (the u)))\<rparr> else None)"

definition new_loop :: "bool \<Rightarrow> delegation_key \<Rightarrow> loop" where
  "new_loop stopped key = \<lparr>lp_key = key, lp_client = None, lp_lease = no_lease, lp_stopped = stopped, lp_at = At_open\<rparr>"

text \<open>The second half of \<open>Watch\<close>, once no loop runs; a new loop begins at its head.\<close>

definition watch_start :: "delegation_key option \<Rightarrow> delegation \<Rightarrow> delegation" where
  "watch_start want d =
     (let d = d\<lparr>withdrawing := False, running := want, cancel := False, dg_state := blank_state, pending := None\<rparr>
      in case want of
           None \<Rightarrow> d
         | Some key \<Rightarrow>
             outer (new_loop (down d) key)
               (d\<lparr>dg_state := blank_state\<lparr>ds_interface := k_iface key, ds_phase := PhaseSoliciting\<rparr>, cancel := True\<rparr>))"

definition stop_loop :: "delegation \<Rightarrow> delegation" where
  "stop_loop d = d\<lparr>the_loop := map_option (\<lambda>lp. lp\<lparr>lp_stopped := True\<rparr>) (the_loop d)\<rparr>"

definition watch :: "uplink option \<Rightarrow> delegation \<Rightarrow> delegation" where
  "watch u d =
     (let want = wanted u
      in if want = running d then d
         else if cancel d then (stop_loop (d\<lparr>withdrawing := True\<rparr>))\<lparr>pending := Some want\<rparr>
         else watch_start want d)"

text \<open>
  What may happen: the loop's call returns, the configuration is applied (one apply at a time, under
  a lock), a waiting \<open>Watch\<close> finds the loop ended, and olrd shuts down. The \<open>Watch\<close> of a start has olrd's
  context, which a shutdown ends; the one of a request is given a context of its own, and there the
  process ends with the loop still in its call.
\<close>

inductive delegation_step :: "delegation \<Rightarrow> delegation \<Rightarrow> bool" where
  Loop: "loop_step d d' \<Longrightarrow> delegation_step d d'"
| Watch: "pending d = None \<Longrightarrow> delegation_step d (watch u d)"
| Ended: "pending d = Some want \<Longrightarrow> the_loop d = None \<Longrightarrow> delegation_step d (watch_start want d)"
| Shutdown: "delegation_step d (stop_loop (d\<lparr>down := True\<rparr>))"

definition start_up :: delegation where
  "start_up = \<lparr>dg_state = blank_state, running = None, cancel = False, the_loop = None, withdrawing = False,
     pending = None, announced = [], released = [], down = False\<rparr>"

inductive delegation_reachable :: "delegation \<Rightarrow> bool" where
  Start: "delegation_reachable start_up"
| Step: "delegation_reachable d \<Longrightarrow> delegation_step d d' \<Longrightarrow> delegation_reachable d'"

inductive_cases loop_stepE: "loop_step d d'"
inductive_cases delegation_stepE: "delegation_step d d'"

section \<open>Announcements\<close>

text \<open>
  What somebody who starts from \<open>p\<close> and follows the announcements believes; \<open>None\<close> when one
  does not continue from the one before, or says nothing.
\<close>

fun replay :: "prefix \<Rightarrow> (prefix \<times> prefix) list \<Rightarrow> prefix option" where
  "replay p [] = Some p"
| "replay p ((old, new) # cs) = (if old = p \<and> new \<noteq> old then replay new cs else None)"

definition told :: "delegation \<Rightarrow> bool" where
  "told d \<longleftrightarrow> replay no_prefix (announced d) = Some (ds_prefix (dg_state d))"

lemma replay_append: "replay p (cs @ cs') = (case replay p cs of None \<Rightarrow> None | Some q \<Rightarrow> replay q cs')"
  by (induction p cs rule: replay.induct) auto

lemma told_cong: "announced d' = announced d \<Longrightarrow> ds_prefix (dg_state d') = ds_prefix (dg_state d) \<Longrightarrow> told d' = told d"
  by (simp add: told_def)

lemma told_set_prefix [simp]: "told d \<Longrightarrow> told (set_prefix p d)"
  by (auto simp: told_def set_prefix_def Let_def replay_append)

lemma set_prefix_fields [simp]:
  "ds_prefix (dg_state (set_prefix p d)) = p"
  "the_loop (set_prefix p d) = the_loop d"
  "running (set_prefix p d) = running d"
  "cancel (set_prefix p d) = cancel d"
  "withdrawing (set_prefix p d) = withdrawing d"
  "pending (set_prefix p d) = pending d"
  "released (set_prefix p d) = released d"
  "down (set_prefix p d) = down d"
  by (simp_all add: set_prefix_def Let_def)

lemma update_fields [simp]:
  "dg_state (update_state f d) = f (dg_state d)"
  "the_loop (update_state f d) = the_loop d"
  "cancel (update_state f d) = cancel d"
  "withdrawing (update_state f d) = withdrawing d"
  "pending (update_state f d) = pending d"
  "released (update_state f d) = released d"
  "announced (update_state f d) = announced d"
  "down (update_state f d) = down d"
  by (simp_all add: update_state_def)

text \<open>
  The invariant: announcements lead to what is published; what is published is the prefix of
  the lease the loop holds, and nothing without a loop; a loop past its first exchange has a
  client, and one before it no lease; and it is stopped only to be withdrawn or at the end.
\<close>

definition holds :: "loop \<Rightarrow> delegation \<Rightarrow> bool" where
  "holds lp d \<longleftrightarrow> ds_prefix (dg_state d) = l_prefix (lp_lease lp) \<and>
     (lp_at lp \<notin> {At_open, At_retry} \<longrightarrow> lp_client lp \<noteq> None) \<and>
     (lp_at lp \<in> {At_open, At_acquire, At_retry} \<longrightarrow> l_prefix (lp_lease lp) = no_prefix) \<and>
     (lp_stopped lp \<longrightarrow> down d \<or> withdrawing d)"

definition delegation_inv :: "delegation \<Rightarrow> bool" where
  "delegation_inv d \<longleftrightarrow>
     (\<not> down d \<longrightarrow> told d) \<and>
     (case the_loop d of
        None \<Rightarrow> \<not> down d \<longrightarrow> ds_prefix (dg_state d) = no_prefix
      | Some lp \<Rightarrow> holds lp d \<and> cancel d) \<and>
     (withdrawing d \<longleftrightarrow> pending d \<noteq> None)"

lemma no_lease_prefix [simp]: "l_prefix no_lease = no_prefix" "\<not> prefix_valid no_prefix"
  by (simp_all add: no_lease_def prefix_valid_def no_prefix_def)

lemma told_leave: "told d \<Longrightarrow> told (leave lp d)"
proof -
  assume t: "told d"
  have "told (d\<lparr>the_loop := None\<rparr>)" "told (d\<lparr>the_loop := None, released := rs\<rparr>)" for rs
    using t by (simp_all add: told_def)
  then show ?thesis by (simp add: leave_def Let_def)
qed

lemma leave_fields [simp]:
  "the_loop (leave lp d) = None" "down (leave lp d) = down d" "withdrawing (leave lp d) = withdrawing d"
  "pending (leave lp d) = pending d"
  by (simp_all add: leave_def Let_def)

lemma inv_leave:
  assumes "\<not> down d \<longrightarrow> told d" and "withdrawing d \<longleftrightarrow> pending d \<noteq> None" and "down d \<or> withdrawing d"
  shows "delegation_inv (leave lp d)"
proof -
  have "ds_prefix (dg_state (leave lp d)) = no_prefix" if "\<not> down d"
    using assms(3) that by (simp add: leave_def Let_def)
  then show ?thesis using assms told_leave [of d lp] by (auto simp: delegation_inv_def)
qed

lemma inv_goto:
  assumes "\<not> down d \<longrightarrow> told d" and "withdrawing d \<longleftrightarrow> pending d \<noteq> None" and "cancel d" and "holds (lp\<lparr>lp_at := p\<rparr>) d"
  shows "delegation_inv (goto p lp d)"
  using assms by (simp add: delegation_inv_def goto_def told_def holds_def)

lemma goto_enter [simp]: "told (enter ph e d) = told d" "holds lp (enter ph e d) = holds lp d"
  "down (enter ph e d) = down d" "withdrawing (enter ph e d) = withdrawing d" "pending (enter ph e d) = pending d"
  "cancel (enter ph e d) = cancel d" "ds_prefix (dg_state (enter ph e d)) = ds_prefix (dg_state d)"
  by (simp_all add: enter_def told_def holds_def)

lemma told_bound [simp]: "told d \<Longrightarrow> told (bound l d)"
  unfolding bound_def by (rule told_set_prefix) (simp add: told_def)

lemma bound_fields [simp]:
  "ds_prefix (dg_state (bound l d)) = l_prefix l" "cancel (bound l d) = cancel d"
  "withdrawing (bound l d) = withdrawing d" "pending (bound l d) = pending d" "released (bound l d) = released d"
  "down (bound l d) = down d"
  by (simp_all add: bound_def)

lemma inv_outer:
  assumes "\<not> down d \<longrightarrow> told d" and "withdrawing d \<longleftrightarrow> pending d \<noteq> None" and "cancel d"
    and "ds_prefix (dg_state d) = no_prefix" and "l_prefix (lp_lease lp) = no_prefix"
    and "lp_stopped lp \<longrightarrow> down d \<or> withdrawing d"
  shows "delegation_inv (outer lp d)"
  using assms unfolding outer_def solicit_def
  by (auto simp: inv_leave holds_def intro!: inv_goto)

lemma inv_inner:
  assumes "\<not> down d \<longrightarrow> told d" and "withdrawing d \<longleftrightarrow> pending d \<noteq> None" and "cancel d"
    and "ds_prefix (dg_state d) = l_prefix (lp_lease lp)" and "lp_client lp \<noteq> None"
    and "lp_stopped lp \<longrightarrow> down d \<or> withdrawing d"
  shows "delegation_inv (inner lp d)"
  using assms unfolding inner_def by (auto simp: inv_leave holds_def intro!: inv_goto)

lemmas inv_ops = inv_leave inv_goto inv_outer inv_inner

lemma inv_fail:
  assumes "\<not> down d \<longrightarrow> told d" and "withdrawing d \<longleftrightarrow> pending d \<noteq> None" and "cancel d"
    and "ds_prefix (dg_state d) = no_prefix" and "l_prefix (lp_lease lp) = no_prefix"
    and "lp_stopped lp \<longrightarrow> down d \<or> withdrawing d"
  shows "delegation_inv (fail e lp d)"
  using assms unfolding fail_def by (auto simp: holds_def intro!: inv_outer inv_goto)

lemma inv_bound:
  assumes "\<not> down d \<longrightarrow> told d" and "withdrawing d \<longleftrightarrow> pending d \<noteq> None" and "cancel d"
    and "lp_client lp \<noteq> None" and "lp_stopped lp \<longrightarrow> down d \<or> withdrawing d"
  shows "delegation_inv (inner (lp\<lparr>lp_lease := l\<rparr>) (bound l d))"
  using assms by (intro inv_inner) simp_all

lemma inv_loop:
  assumes "delegation_inv d" and "the_loop d = Some lp"
  shows "\<not> down d \<longrightarrow> told d" "withdrawing d \<longleftrightarrow> pending d \<noteq> None" "cancel d"
    "lp_stopped lp \<longrightarrow> down d \<or> withdrawing d" "ds_prefix (dg_state d) = l_prefix (lp_lease lp)"
    "lp_at lp \<notin> {At_open, At_retry} \<longrightarrow> lp_client lp \<noteq> None"
    "lp_at lp \<in> {At_open, At_acquire, At_retry} \<longrightarrow> l_prefix (lp_lease lp) = no_prefix"
  using assms by (auto simp: delegation_inv_def holds_def)

lemma inv_loop_step:
  assumes "loop_step d d'" and "delegation_inv d"
  shows "delegation_inv d'"
  using assms(1)
proof cases
  case (Open lp mac listen)
  note i = inv_loop [OF assms(2) Open(2)]
  show ?thesis
  proof (cases "open_client (lp_key lp) mac listen")
    case (Inl e)
    then show ?thesis using inv_fail [OF i(1-3) _ _ i(4)] i Open by (simp add: opened_def)
  next
    case (Inr c)
    then show ?thesis using i Open by (auto simp: opened_def solicit_def holds_def intro!: inv_goto)
  qed
next
  case (Acquire lp c x1 x2 r)
  note i = inv_loop [OF assms(2) Acquire(2)]
  show ?thesis
    using i inv_fail [OF i(1-3), of "lp\<lparr>lp_client := None\<rparr>"] inv_bound [OF i(1-3) _ i(4)] Acquire
    by (cases r) (simp_all add: acquired_def)
next
  case (Sleep lp)
  note i = inv_loop [OF assms(2) Sleep(2)]
  show ?thesis using i Sleep by (auto simp: slept_def told_def holds_def intro!: inv_goto)
next
  case (Wake lp)
  then show ?thesis using inv_leave inv_loop [OF assms(2) Wake(2)] by simp
next
  case (Renewal lp c x r)
  note i = inv_loop [OF assms(2) Renewal(2)]
  show ?thesis
    using i inv_leave [OF i(1,2)] inv_bound [OF i(1-3) _ i(4)] Renewal
    by (cases r) (auto simp: renewed_def holds_def intro!: inv_goto)
next
  case (Rebinding lp c x r)
  note i = inv_loop [OF assms(2) Rebinding(2)]
  show ?thesis
    using i inv_leave [OF i(1,2)] inv_bound [OF i(1-3) _ i(4)] Rebinding
    by (cases r) (auto simp: rebound_def intro!: inv_outer)
next
  case (Retry lp)
  then show ?thesis using inv_loop [OF assms(2) Retry(2)] by (auto intro!: inv_outer)
qed

lemma inv_watch_start:
  assumes "delegation_inv d" and "the_loop d = None"
  shows "delegation_inv (watch_start want d)"
proof (cases want)
  case None
  then show ?thesis
    using assms by (auto simp: watch_start_def blank_state_def delegation_inv_def told_def)
next
  case (Some key)
  have "\<not> down d \<longrightarrow> replay no_prefix (announced d) = Some no_prefix"
    using assms by (simp add: delegation_inv_def told_def)
  then show ?thesis
    unfolding watch_start_def Let_def Some option.case
    by (intro inv_outer) (simp_all add: blank_state_def told_def new_loop_def)
qed

lemma inv_step:
  assumes "delegation_step d d'" and "delegation_inv d"
  shows "delegation_inv d'"
  using assms
proof cases
  case Loop
  then show ?thesis using inv_loop_step assms(2) by blast
next
  case (Watch u)
  have "the_loop d = None" if "\<not> cancel d" using assms(2) that by (auto simp: delegation_inv_def split: option.splits)
  then show ?thesis using Watch assms(2) inv_watch_start [OF assms(2), of "wanted u"]
    by (auto simp: watch_def Let_def stop_loop_def delegation_inv_def holds_def told_def split: option.splits)
next
  case (Ended want)
  then show ?thesis using inv_watch_start assms(2) by blast
next
  case Shutdown
  then show ?thesis using assms(2)
    by (auto simp: stop_loop_def delegation_inv_def holds_def split: option.splits)
qed

lemma reachable_inv: "delegation_reachable d \<Longrightarrow> delegation_inv d"
proof (induction rule: delegation_reachable.induct)
  case Start
  then show ?case by (simp add: start_up_def delegation_inv_def told_def blank_state_def)
next
  case (Step d d')
  then show ?case using inv_step by blast
qed

text \<open>
  C34. Following the announcements from the start, each continues from the one before and changes
  something, and together they lead to the prefix that is published: whoever only listens to
  \<open>Changed\<close> knows the prefix, through renewals, expiries and changes of the configuration, as
  long as olrd is not shutting down.
\<close>

theorem announcements_tell_all:
  assumes "delegation_reachable d" and "\<not> down d"
  shows "replay no_prefix (announced d) = Some (ds_prefix (dg_state d))"
  using reachable_inv [OF assms(1)] assms(2) by (simp add: delegation_inv_def told_def)

section \<open>Stopping\<close>

text \<open>A loop ends only when it is stopped, and always by way of its deferred function.\<close>

lemma loop_ends:
  assumes "loop_step d d'" and "the_loop d = Some lp" and "the_loop d' = None"
  shows "lp_stopped lp \<and> (\<exists>lp' d1. d' = leave lp' d1 \<and> withdrawing d1 = withdrawing d \<and>
     (lp_at lp \<in> {At_sleep, At_renew, At_rebind} \<longrightarrow> lp' = lp \<and> d1 = d))"
  using assms(1)
proof cases
  case (Acquire lp2 c x1 x2 r)
  have "lp_stopped lp" using Acquire assms(2,3)
    by (cases r; cases "lp_stopped lp2") (simp_all add: acquired_def fail_def outer_def inner_def goto_def)
  then have "(\<exists>e. d' = leave (lp\<lparr>lp_client := None\<rparr>) d) \<or> (\<exists>l. d' = leave (lp\<lparr>lp_lease := l\<rparr>) (bound l d))"
    using Acquire assms(2) by (cases r) (auto simp: acquired_def fail_def outer_def inner_def)
  then show ?thesis using Acquire assms(2) \<open>lp_stopped lp\<close> bound_fields(3) by force
qed (use assms(2,3) in \<open>auto simp: opened_def fail_def outer_def inner_def goto_def solicit_def slept_def
     renewed_def rebound_def split: sum.splits if_splits\<close>)

text \<open>A stopped loop is gone after at most two more calls return.\<close>

fun calls_left :: "point \<Rightarrow> nat" where
  "calls_left At_open = 2"
| "calls_left At_acquire = 1"
| "calls_left At_sleep = 1"
| "calls_left p = 0"

lemma stopped_loop_ends:
  assumes "loop_step d d'" and "the_loop d = Some lp" and "lp_stopped lp"
  shows "the_loop d' = None \<or>
    (\<exists>lp'. the_loop d' = Some lp' \<and> lp_stopped lp' \<and> calls_left (lp_at lp') < calls_left (lp_at lp))"
  using assms(1)
  by cases (use assms(2,3) in \<open>auto simp: opened_def acquired_def fail_def outer_def inner_def goto_def solicit_def
     slept_def renewed_def rebound_def split: sum.splits\<close>)

text \<open>
  C35. A change of the configuration that stops a loop ends with nothing published, and if a prefix
  was published, the lease it came from has just been given back to its server.
\<close>

theorem withdrawn_lease_released:
  assumes "delegation_reachable d" and "delegation_step d d'" and "withdrawing d"
    and "the_loop d = Some lp" and "the_loop d' = None"
  shows "ds_prefix (dg_state d') = no_prefix \<and>
    (prefix_valid (ds_prefix (dg_state d)) \<longrightarrow>
      l_prefix (lp_lease lp) = ds_prefix (dg_state d) \<and> released d' = released d @ [lp_lease lp])"
proof -
  note i = inv_loop [OF reachable_inv [OF assms(1)] assms(4)]
  have "loop_step d d'"
    using assms(2)
  proof cases
    case Shutdown
    then show ?thesis using assms(4,5) by (simp add: stop_loop_def)
  qed (use i(2) assms(3,4) in auto)
  then obtain lp' d1 where l: "d' = leave lp' d1" "withdrawing d1"
    "lp_at lp \<in> {At_sleep, At_renew, At_rebind} \<Longrightarrow> lp' = lp \<and> d1 = d"
    using loop_ends assms(3-5) by blast
  have "l_prefix (lp_lease lp) = ds_prefix (dg_state d) \<and> released d' = released d @ [lp_lease lp]"
    if v: "prefix_valid (ds_prefix (dg_state d))"
  proof -
    have "lp_at lp \<in> {At_sleep, At_renew, At_rebind}" using i(5,7) v by (cases "lp_at lp") auto
    then show ?thesis using l i(5,6) v assms(3) by (auto simp: leave_def Let_def)
  qed
  then show ?thesis using l by (simp add: leave_def Let_def)
qed

section \<open>A run\<close>

text \<open>The uplink is configured for prefix delegation, gets a prefix, and is then configured without.\<close>

definition sample_uplink :: uplink where
  "sample_uplink = \<lparr>u_interface = ''wan'', u_ipv6 = Some \<lparr>via = ViaPD, prefix_length = 56\<rparr>\<rparr>"

definition sample_key :: delegation_key where
  "sample_key = \<lparr>k_iface = ''wan'', k_hint = 56\<rparr>"

definition run_asked :: delegation where
  "run_asked = start_up\<lparr>running := Some sample_key, cancel := True, the_loop := Some (new_loop False sample_key),
     dg_state := blank_state\<lparr>ds_interface := ''wan'', ds_phase := PhaseSoliciting\<rparr>\<rparr>"

definition run_opened :: delegation where
  "run_opened = solicit ((new_loop False sample_key)\<lparr>lp_client := Some sample_client\<rparr>) run_asked"

definition run_holding :: loop where
  "run_holding = \<lparr>lp_key = sample_key, lp_client = Some sample_client, lp_lease = sample_lease, lp_stopped = False, lp_at = At_sleep\<rparr>"

definition run_bound :: delegation where
  "run_bound = (bound sample_lease run_opened)\<lparr>the_loop := Some run_holding\<rparr>"

definition run_stopping :: delegation where
  "run_stopping = run_bound\<lparr>withdrawing := True, the_loop := Some (run_holding\<lparr>lp_stopped := True\<rparr>), pending := Some None\<rparr>"

lemmas run_defs = run_stopping_def run_bound_def run_opened_def run_asked_def run_holding_def

lemma reach_asked: "delegation_reachable run_asked"
proof -
  have "wanted (Some sample_uplink) = Some sample_key"
    by (simp add: wanted_def has_pd_def sample_uplink_def sample_key_def)
  then have "watch (Some sample_uplink) start_up = run_asked"
    by (simp add: watch_def start_up_def watch_start_def outer_def new_loop_def goto_def run_asked_def sample_key_def)
  then show ?thesis
    using Step [OF Start] delegation_step.Watch [of start_up "Some sample_uplink"] by (simp add: start_up_def)
qed

lemma reach_opened: "delegation_reachable run_opened"
proof -
  have l: "the_loop run_asked = Some (new_loop False sample_key)" by (simp add: run_asked_def)
  have "open_client sample_key (Inr [7]) None = Inr sample_client"
    by (simp add: open_client_def DUIDLL_def IAID_def sample_key_def sample_client_def)
  then have "opened (open_client sample_key (Inr [7]) None) (new_loop False sample_key) run_asked = run_opened"
    by (simp add: opened_def run_opened_def)
  then have "loop_step run_asked run_opened"
    using loop_step.Open [OF l, of "Inr [7]" None] by (simp add: new_loop_def)
  then show ?thesis using Step [OF reach_asked Loop] by blast
qed

lemma reach_bound: "delegation_reachable run_bound"
proof -
  have l: "the_loop run_opened = Some (run_holding\<lparr>lp_lease := no_lease, lp_at := At_acquire\<rparr>)"
    by (simp add: run_opened_def solicit_def goto_def run_holding_def new_loop_def)
  have "acquired (Inr sample_lease) (run_holding\<lparr>lp_lease := no_lease, lp_at := At_acquire\<rparr>) run_opened = run_bound"
    by (simp add: acquired_def inner_def goto_def run_bound_def run_holding_def)
  then have "loop_step run_opened run_bound"
    using loop_step.Acquire [OF l _ _ sample_acquire [of sample_env]] by (simp add: run_holding_def)
  then show ?thesis using Step [OF reach_opened Loop] by blast
qed

lemma announcements_tell_all_witness:
  "replay no_prefix (announced run_bound) = Some (l_prefix sample_lease)"
proof -
  have "\<not> down run_bound" by (simp add: run_bound_def run_opened_def solicit_def goto_def enter_def run_asked_def start_up_def)
  then have "replay no_prefix (announced run_bound) = Some (ds_prefix (dg_state run_bound))"
    by (rule announcements_tell_all [OF reach_bound])
  then show ?thesis by (simp add: run_bound_def)
qed

lemma run_bound_fields: "running run_bound = Some sample_key" "cancel run_bound" "the_loop run_bound = Some run_holding"
  "pending run_bound = None" "ds_prefix (dg_state run_bound) = l_prefix sample_lease"
  by (simp_all add: run_bound_def run_opened_def solicit_def goto_def enter_def run_asked_def start_up_def)
     (simp_all add: bound_def update_state_def)

lemma reach_stopping: "delegation_reachable run_stopping"
proof -
  have "watch None run_bound = run_stopping"
    using run_bound_fields by (simp add: watch_def wanted_def has_pd_def stop_loop_def run_stopping_def)
  then show ?thesis
    using Step [OF reach_bound delegation_step.Watch [OF run_bound_fields(4), of None]] by simp
qed

theorem withdrawn_lease_released_witness:
  "\<exists>d'. delegation_step run_stopping d' \<and> ds_prefix (dg_state d') = no_prefix \<and> released d' = released run_stopping @ [sample_lease]"
proof -
  let ?lp = "run_holding\<lparr>lp_stopped := True\<rparr>" and ?d = "leave (run_holding\<lparr>lp_stopped := True\<rparr>) run_stopping"
  have l: "the_loop run_stopping = Some ?lp" by (simp add: run_stopping_def)
  have s: "delegation_step run_stopping ?d"
    by (intro Loop loop_step.Wake [OF l]) (simp_all add: run_holding_def)
  have w: "withdrawing run_stopping" by (simp add: run_stopping_def)
  have v: "prefix_valid (ds_prefix (dg_state run_stopping))"
    using run_bound_fields(5) by (simp add: run_stopping_def sample_lease_def prefix_valid_def)
  show ?thesis
    using withdrawn_lease_released [OF reach_stopping s w l] v s by (auto simp: run_holding_def)
qed

end
