(* ===== verification/GoStrings.thy ===== *)
theory GoStrings
  imports Prelude
begin

text \<open>
  The parts of the packages \<open>strings\<close> and \<open>strconv\<close> the modelled code calls. A Go
  string is its bytes, a \<open>char list\<close>.
\<close>

section \<open>Splitting, joining and trimming\<close>

text \<open>\<open>strings.Split\<close> by a one-byte separator, and \<open>strings.Join\<close>.\<close>

fun split_on :: "char \<Rightarrow> string \<Rightarrow> string list" where
  "split_on c [] = [[]]"
| "split_on c (x # xs) =
     (if x = c then [] # split_on c xs
      else (case split_on c xs of [] \<Rightarrow> [[x]] | l # ls \<Rightarrow> (x # l) # ls))"

fun join_with :: "string \<Rightarrow> string list \<Rightarrow> string" where
  "join_with sep [] = []"
| "join_with sep [s] = s"
| "join_with sep (s # t # ts) = s @ sep @ join_with sep (t # ts)"

lemma split_on_nonempty [simp]: "split_on c s \<noteq> []"
  by (induction s) (auto split: list.splits)

lemma split_on_free: "c \<notin> set s \<Longrightarrow> split_on c s = [s]"
  by (induction s) auto

lemma split_on_append: "c \<notin> set a \<Longrightarrow> split_on c (a @ c # b) = a # split_on c b"
  by (induction a) auto

lemma split_on_join:
  assumes "ls \<noteq> []" and "\<forall>l \<in> set ls. c \<notin> set l"
  shows "split_on c (join_with [c] ls) = ls"
  using assms
proof (induction "[c]" ls rule: join_with.induct)
  case (3 s t ts)
  then show ?case by (simp add: split_on_append)
qed (simp_all add: split_on_free)

lemma join_split_on: "join_with [c] (split_on c s) = s"
proof (induction s)
  case (Cons x xs)
  obtain l ls where "split_on c xs = l # ls" by (cases "split_on c xs") auto
  then show ?case using Cons by (cases ls) auto
qed simp

lemma split_on_parts: "l \<in> set (split_on c s) \<Longrightarrow> c \<notin> set l"
  by (induction s arbitrary: l) (auto split: list.splits if_splits)

text \<open>
  \<open>unicode.IsSpace\<close>, as the UTF-8 encodings of its runes; \<open>strings.TrimSpace\<close> removes
  them at both ends.
\<close>

definition spaces :: "string list" where
  "spaces = [[CHR 0x09], [CHR 0x0A], [CHR 0x0B], [CHR 0x0C], [CHR 0x0D], [CHR 0x20],
  [CHR 0xC2, CHR 0x85], [CHR 0xC2, CHR 0xA0], [CHR 0xE1, CHR 0x9A, CHR 0x80],
  [CHR 0xE2, CHR 0x80, CHR 0x80], [CHR 0xE2, CHR 0x80, CHR 0x81], [CHR 0xE2, CHR 0x80, CHR 0x82],
  [CHR 0xE2, CHR 0x80, CHR 0x83], [CHR 0xE2, CHR 0x80, CHR 0x84], [CHR 0xE2, CHR 0x80, CHR 0x85],
  [CHR 0xE2, CHR 0x80, CHR 0x86], [CHR 0xE2, CHR 0x80, CHR 0x87], [CHR 0xE2, CHR 0x80, CHR 0x88],
  [CHR 0xE2, CHR 0x80, CHR 0x89], [CHR 0xE2, CHR 0x80, CHR 0x8A], [CHR 0xE2, CHR 0x80, CHR 0xA8],
  [CHR 0xE2, CHR 0x80, CHR 0xA9], [CHR 0xE2, CHR 0x80, CHR 0xAF], [CHR 0xE2, CHR 0x81, CHR 0x9F],
  [CHR 0xE3, CHR 0x80, CHR 0x80]]"

fun starts_with :: "'a list \<Rightarrow> 'a list \<Rightarrow> bool" where
  "starts_with [] s = True"
| "starts_with (p # ps) [] = False"
| "starts_with (p # ps) (x # xs) = (p = x \<and> starts_with ps xs)"

lemma starts_with_iff: "starts_with p s = (\<exists>t. s = p @ t)"
  by (induction p s rule: starts_with.induct) auto

text \<open>\<open>strings.LastIndex\<close> and \<open>strings.Index\<close>, and the same of \<open>bytes\<close>.\<close>

fun last_index :: "'a list \<Rightarrow> 'a list \<Rightarrow> nat option" where
  "last_index p [] = (if p = [] then Some 0 else None)"
| "last_index p (c # s) = (case last_index p s of
     Some i \<Rightarrow> Some (Suc i)
   | None \<Rightarrow> if starts_with p (c # s) then Some 0 else None)"

fun first_index :: "'a list \<Rightarrow> 'a list \<Rightarrow> nat option" where
  "first_index p [] = (if p = [] then Some 0 else None)"
| "first_index p (c # s) = (if starts_with p (c # s) then Some 0 else map_option Suc (first_index p s))"

lemma starts_with_length: "starts_with p s \<Longrightarrow> length p \<le> length s"
  by (auto simp: starts_with_iff)

lemma last_index_bound: "last_index p s = Some i \<Longrightarrow> i + length p \<le> length s"
  by (induction p s arbitrary: i rule: last_index.induct)
     (auto split: option.splits if_splits dest: starts_with_length)

definition space_len :: "string list \<Rightarrow> string \<Rightarrow> nat" where
  "space_len ws s = (case filter (\<lambda>w. starts_with w s) ws of [] \<Rightarrow> 0 | w # _ \<Rightarrow> length w)"

function trim_front :: "string list \<Rightarrow> string \<Rightarrow> string" where
  "trim_front ws s =
     (if s = [] \<or> space_len ws s = 0 then s else trim_front ws (drop (space_len ws s) s))"
  by pat_completeness auto
termination
  by (relation "measure (\<lambda>(ws, s). length s)") auto

declare trim_front.simps [simp del]

definition trim_space :: "string \<Rightarrow> string" where
  "trim_space s = rev (trim_front (map rev spaces) (rev (trim_front spaces s)))"

text \<open>A string that neither starts nor ends in the first or last byte of a space is kept.\<close>

definition plain :: "char \<Rightarrow> bool" where
  "plain c = (\<forall>w \<in> set spaces. hd w \<noteq> c \<and> last w \<noteq> c)"

lemma space_len_plain:
  assumes "\<forall>w \<in> set ws. w \<noteq> [] \<and> hd w \<noteq> c"
  shows "space_len ws (c # s) = 0"
proof -
  have "\<not> starts_with w (c # s)" if "w \<in> set ws" for w
    using assms that by (cases w) auto
  then have "filter (\<lambda>w. starts_with w (c # s)) ws = []"
    by (simp add: filter_empty_conv)
  then show ?thesis by (simp add: space_len_def)
qed

lemma spaces_nonempty: "w \<in> set spaces \<Longrightarrow> w \<noteq> []"
  by (auto simp: spaces_def)

lemma trim_space_plain:
  assumes "s \<noteq> []" and "plain (hd s)" and "plain (last s)"
  shows "trim_space s = s"
proof -
  obtain c t where c: "s = c # t" using assms(1) by (cases s) auto
  obtain d u where d: "s = u @ [d]" using assms(1) by (cases s rule: rev_cases) auto
  have "space_len spaces s = 0"
    unfolding c using assms(2) c spaces_nonempty by (intro space_len_plain) (simp add: plain_def)
  moreover have "space_len (map rev spaces) (d # rev u) = 0"
  proof (rule space_len_plain, clarsimp)
    fix w assume "w \<in> set spaces"
    then show "w \<noteq> [] \<and> hd (rev w) \<noteq> d"
      using assms(3) d spaces_nonempty by (simp add: plain_def hd_rev)
  qed
  ultimately have "trim_front spaces s = s" "trim_front (map rev spaces) (rev s) = rev s"
    unfolding d by (simp_all add: trim_front.simps)
  then show ?thesis
    by (simp add: trim_space_def)
qed

lemma plain_ascii:
  assumes "32 < (of_char c :: nat)" and "(of_char c :: nat) < 127"
  shows "plain c"
  unfolding plain_def spaces_def using assms by auto

section \<open>Numbers\<close>

text \<open>\<open>strconv.Itoa\<close> of a number that is not negative.\<close>

fun itoa :: "nat \<Rightarrow> string" where
  "itoa n = (if n < 10 then [char_of (48 + n)] else itoa (n div 10) @ [char_of (48 + n mod 10)])"

declare itoa.simps [simp del]

definition digit :: "char \<Rightarrow> nat option" where
  "digit c = (let n = of_char c in if 48 \<le> n \<and> n \<le> 57 then Some (n - 48) else None)"

fun digits_value :: "nat \<Rightarrow> string \<Rightarrow> nat option" where
  "digits_value acc [] = Some acc"
| "digits_value acc (c # cs) =
     (case digit c of None \<Rightarrow> None | Some d \<Rightarrow> digits_value (acc * 10 + d) cs)"

text \<open>
  \<open>strconv.Atoi\<close> on a 64-bit platform: an optional sign, digits, and a range check.
\<close>

definition atoi :: "string \<Rightarrow> int option" where
  "atoi s =
     (let neg = (case s of c # _ \<Rightarrow> c = CHR ''-'' | [] \<Rightarrow> False);
          body = (case s of c # cs \<Rightarrow> if c = CHR ''-'' \<or> c = CHR ''+'' then cs else s | [] \<Rightarrow> [])
      in if body = [] then None
         else (case digits_value 0 body of
                 None \<Rightarrow> None
               | Some n \<Rightarrow>
                   (let v = (if neg then - int n else int n)
                    in if - (2 ^ 63) \<le> v \<and> v < 2 ^ 63 then Some v else None)))"

lemma digit_char_of: "d < 10 \<Longrightarrow> digit (char_of (48 + d)) = Some d"
  by (simp add: digit_def)

lemma digits_value_append:
  "digits_value acc (a @ b) = (case digits_value acc a of None \<Rightarrow> None | Some v \<Rightarrow> digits_value v b)"
  by (induction a arbitrary: acc) (auto split: option.splits)

lemma itoa_nonempty [simp]: "itoa n \<noteq> []"
  by (subst itoa.simps) auto

lemma itoa_digits: "c \<in> set (itoa n) \<Longrightarrow> \<exists>d < 10. c = char_of (48 + d :: nat)"
proof (induction n rule: itoa.induct)
  case (1 n)
  then show ?case
    by (subst (asm) itoa.simps) (auto split: if_splits intro: exI [of _ "n mod 10"])
qed

lemma digits_value_itoa:
  "digits_value acc (itoa n) = Some (acc * 10 ^ length (itoa n) + n)"
proof (induction n arbitrary: acc rule: itoa.induct)
  case (1 n)
  show ?case
  proof (cases "n < 10")
    case True
    then show ?thesis by (simp add: itoa.simps digit_char_of)
  next
    case False
    then have "digits_value acc (itoa n) =
        Some ((acc * 10 ^ length (itoa (n div 10)) + n div 10) * 10 + n mod 10)"
      using "1.IH" by (subst itoa.simps) (simp add: digits_value_append digit_char_of)
    then show ?thesis
      using False by (subst (2) itoa.simps) (simp add: algebra_simps)
  qed
qed

lemma atoi_itoa:
  assumes "n < 2 ^ 63"
  shows "atoi (itoa n) = Some (int n)"
proof -
  obtain c cs where c: "itoa n = c # cs" by (cases "itoa n") auto
  then obtain d :: nat where "d < 10" "c = char_of (48 + d)"
    using itoa_digits [of c n] by auto
  then have "c \<noteq> CHR ''-''" "c \<noteq> CHR ''+''"
    by (auto dest!: arg_cong [where f = "of_char :: char \<Rightarrow> nat"])
  then show ?thesis
    using assms digits_value_itoa [of 0 n] c by (simp add: atoi_def Let_def)
qed

lemma itoa_free: "of_char c < (48 :: nat) \<or> 57 < (of_char c :: nat) \<Longrightarrow> c \<notin> set (itoa n)"
  using itoa_digits [of c n] by auto

end
