(* ===== verification/LineDiff.thy ===== *)
theory LineDiff
  imports GoStrings "HOL-Library.Sublist"
begin

text \<open>
  \<open>internal/core/diff.go\<close>: the line diff every module's \<open>olr diff\<close> shows. Lines are
  character lists; the table of \<open>diffOps\<close> is a list of rows, filled from its last row up
  and each row from its last column back, as the code's two loops do.
\<close>

section \<open>The operations\<close>

abbreviation newline :: char where "newline \<equiv> CHR 0x0A"

text \<open>\<open>strings.TrimSuffix\<close> of a newline.\<close>

definition trim_newline :: "string \<Rightarrow> string" where
  "trim_newline s = (if s \<noteq> [] \<and> last s = newline then butlast s else s)"

definition split_lines :: "string \<Rightarrow> string list" where
  "split_lines d = (if length d = 0 then [] else split_on newline (trim_newline d))"

text \<open>Row \<open>i\<close> of the table from row \<open>i + 1\<close>, and the table.\<close>

fun lcs_row :: "'a \<Rightarrow> 'a list \<Rightarrow> nat list \<Rightarrow> nat list" where
  "lcs_row x [] below = [0]"
| "lcs_row x (y # ys) below =
     (let right = lcs_row x ys (tl below)
      in (if x = y then hd (tl below) + 1 else max (hd below) (hd right)) # right)"

fun lcs_table :: "'a list \<Rightarrow> 'a list \<Rightarrow> nat list list" where
  "lcs_table [] ys = [replicate (length ys + 1) 0]"
| "lcs_table (x # xs) ys = (let below = lcs_table xs ys in lcs_row x ys (hd below) # below)"

datatype op_kind = Keep | Del | Add

fun op_sign :: "op_kind \<Rightarrow> char" where
  "op_sign Keep = CHR '' ''"
| "op_sign Del = CHR ''-''"
| "op_sign Add = CHR ''+''"

function diff_walk :: "'a list \<Rightarrow> 'a list \<Rightarrow> nat list list \<Rightarrow> nat \<Rightarrow> nat \<Rightarrow> (op_kind \<times> 'a) list" where
  "diff_walk before after lcs i j =
     (if i < length before \<and> j < length after then
        (if before ! i = after ! j then
           (Keep, before ! i) # diff_walk before after lcs (i + 1) (j + 1)
         else if lcs ! (i + 1) ! j \<ge> lcs ! i ! (j + 1) then
           (Del, before ! i) # diff_walk before after lcs (i + 1) j
         else (Add, after ! j) # diff_walk before after lcs i (j + 1))
      else map (Pair Del) (drop i before) @ map (Pair Add) (drop j after))"
  by pat_completeness auto
termination
  by (relation "measure (\<lambda>(b, a, t, i, j). (length b - i) + (length a - j))") auto

declare diff_walk.simps [simp del]

definition diff_ops :: "string list \<Rightarrow> string list \<Rightarrow> string list" where
  "diff_ops before after =
     map (\<lambda>(k, l). op_sign k # l) (diff_walk before after (lcs_table before after) 0 0)"

definition plural :: "nat \<Rightarrow> string \<Rightarrow> string" where
  "plural n noun = (if n = 1 then ''1 '' @ noun else itoa n @ '' '' @ noun @ ''s'')"

definition DiffContext :: nat where "DiffContext = 2"

definition changed :: "string \<Rightarrow> bool" where
  "changed op' = (op' ! 0 \<noteq> CHR '' '')"

text \<open>
  The marks: every change sets the entries from \<open>DiffContext\<close> before it to
  \<open>DiffContext\<close> after it.
\<close>

definition mark_around :: "bool list \<Rightarrow> nat \<Rightarrow> bool list" where
  "mark_around keep i = foldl (\<lambda>k j. k[j := True]) keep
     [max 0 (i - DiffContext) ..< min (length keep) (i + DiffContext + 1)]"

definition keep_marks :: "string list \<Rightarrow> bool list" where
  "keep_marks ops = foldl (\<lambda>k i. if changed (ops ! i) then mark_around k i else k)
     (replicate (length ops) False) [0 ..< length ops]"

definition flush :: "nat \<Rightarrow> string list" where
  "flush skipped =
     (if skipped > 0 then [''@@ '' @ plural skipped ''unchanged line'' @ '' @@''] else [])"

fun collapse :: "nat \<Rightarrow> (string \<times> bool) list \<Rightarrow> string list" where
  "collapse skipped [] = flush skipped"
| "collapse skipped ((op', keep) # rest) =
     (if \<not> keep then collapse (skipped + 1) rest
      else flush skipped @ op' # collapse 0 rest)"

definition line_diff :: "string \<Rightarrow> string \<Rightarrow> string list" where
  "line_diff before after =
     (let ops = diff_ops (split_lines before) (split_lines after)
      in collapse 0 (zip ops (keep_marks ops)))"

section \<open>The table holds the longest common subsequence\<close>

text \<open>The textbook recursion, and what it is the length of.\<close>

fun lcs_len :: "'a list \<Rightarrow> 'a list \<Rightarrow> nat" where
  "lcs_len [] ys = 0"
| "lcs_len (x # xs) [] = 0"
| "lcs_len (x # xs) (y # ys) =
     (if x = y then lcs_len xs ys + 1 else max (lcs_len xs (y # ys)) (lcs_len (x # xs) ys))"

lemma lcs_len_Nil2 [simp]: "lcs_len xs [] = 0"
  by (cases xs) auto

lemma upt0_Suc: "[0 ..< Suc n] = 0 # map Suc [0 ..< n]"
  by (simp del: upt_Suc add: map_Suc_upt upt_conv_Cons)

lemma lcs_row_tails:
  assumes "below = map (\<lambda>j. lcs_len xs (drop j ys)) [0 ..< length ys + 1]"
  shows "lcs_row x ys below = map (\<lambda>j. lcs_len (x # xs) (drop j ys)) [0 ..< length ys + 1]"
  using assms
proof (induction ys arbitrary: below)
  case (Cons y ys)
  note up = upt0_Suc [of "Suc (length ys)"]
  have b: "hd below = lcs_len xs (y # ys)"
    "tl below = map (\<lambda>j. lcs_len xs (drop j ys)) [0 ..< length ys + 1]"
    using Cons.prems by (simp_all del: upt_Suc add: up o_def)
  have "hd (tl below) = lcs_len xs ys"
    using b(2) by (simp del: upt_Suc add: upt_conv_Cons)
  moreover have "hd (lcs_row x ys (tl below)) = lcs_len (x # xs) ys"
    using Cons.IH [OF b(2)] by (simp del: upt_Suc add: upt_conv_Cons)
  ultimately show ?case
    using Cons.IH [OF b(2)] b(1) by (simp del: upt_Suc add: up o_def Let_def)
qed simp

lemma lcs_table_rows:
  "lcs_table xs ys = map (\<lambda>i. map (\<lambda>j. lcs_len (drop i xs) (drop j ys)) [0 ..< length ys + 1])
     [0 ..< length xs + 1]"
proof (induction xs)
  case Nil
  show ?case by (simp del: upt_Suc replicate_Suc add: map_replicate_const) (simp add: upt0_Suc)
next
  case (Cons x xs)
  note up = upt0_Suc [of "Suc (length xs)"]
  have "hd (lcs_table xs ys) = map (\<lambda>j. lcs_len xs (drop j ys)) [0 ..< length ys + 1]"
    using Cons.IH by (simp del: upt_Suc add: upt_conv_Cons)
  from lcs_row_tails [OF this] show ?case
    using Cons.IH by (simp del: upt_Suc add: up o_def Let_def)
qed

lemma lcs_table_nth:
  assumes "i \<le> length xs" and "j \<le> length ys"
  shows "lcs_table xs ys ! i ! j = lcs_len (drop i xs) (drop j ys)"
  using assms by (simp add: lcs_table_rows del: upt_Suc)

lemma subseq_lcs_len:
  assumes "subseq zs xs" and "subseq zs ys"
  shows "length zs \<le> lcs_len xs ys"
  using assms
proof (induction xs ys arbitrary: zs rule: lcs_len.induct)
  case (3 x xs y ys)
  show ?case
  proof (cases zs)
    case (Cons z zs')
    show ?thesis
    proof (cases "x = y")
      case True
      then have "subseq zs' xs" "subseq zs' ys"
        using "3.prems" Cons by (auto simp: subseq_Cons2_iff split: if_splits dest: subseq_Cons')
      then show ?thesis using "3.IH"(1) [OF True] Cons True by simp
    next
      case False
      then have "subseq zs xs \<or> subseq zs ys"
        using "3.prems" Cons by (auto split: if_splits)
      then show ?thesis using "3.IH"(2,3) [OF False] "3.prems" False
        by (auto simp: max.coboundedI1 max.coboundedI2)
    qed
  qed simp
qed simp_all

section \<open>What a diff says\<close>

text \<open>The lines a script of operations leaves on each side, and the ones it keeps.\<close>

definition old_side :: "(op_kind \<times> 'a) list \<Rightarrow> 'a list" where
  "old_side ops = map snd (filter (\<lambda>(k, l). k \<noteq> Add) ops)"

definition new_side :: "(op_kind \<times> 'a) list \<Rightarrow> 'a list" where
  "new_side ops = map snd (filter (\<lambda>(k, l). k \<noteq> Del) ops)"

definition kept :: "(op_kind \<times> 'a) list \<Rightarrow> 'a list" where
  "kept ops = map snd (filter (\<lambda>(k, l). k = Keep) ops)"

lemma sides_simps [simp]:
  "old_side [] = []" "new_side [] = []" "kept [] = []"
  "old_side ((k, l) # ops) = (if k = Add then old_side ops else l # old_side ops)"
  "new_side ((k, l) # ops) = (if k = Del then new_side ops else l # new_side ops)"
  "kept ((k, l) # ops) = (if k = Keep then l # kept ops else kept ops)"
  "old_side (ops @ ops') = old_side ops @ old_side ops'"
  "new_side (ops @ ops') = new_side ops @ new_side ops'"
  "kept (ops @ ops') = kept ops @ kept ops'"
  by (simp_all add: old_side_def new_side_def kept_def)

lemma sides_uniform [simp]:
  "old_side (map (Pair k) ls) = (if k = Add then [] else ls)"
  "new_side (map (Pair k) ls) = (if k = Del then [] else ls)"
  "kept (map (Pair k) ls) = (if k = Keep then ls else [])"
  by (induction ls) auto

lemma diff_walk_sides:
  assumes "i \<le> length before" and "j \<le> length after"
  shows "old_side (diff_walk before after t i j) = drop i before \<and>
    new_side (diff_walk before after t i j) = drop j after"
  using assms
proof (induction before after t i j rule: diff_walk.induct)
  case (1 before after t i j)
  then show ?case
    unfolding diff_walk.simps [of before after t i j]
    by (auto simp: Cons_nth_drop_Suc [symmetric])
qed

lemma diff_walk_kept:
  assumes "t = lcs_table before after" and "i \<le> length before" and "j \<le> length after"
  shows "length (kept (diff_walk before after t i j)) = lcs_len (drop i before) (drop j after)"
  using assms
proof (induction before after t i j rule: diff_walk.induct)
  case (1 before after t i j)
  show ?case
  proof (cases "i < length before \<and> j < length after")
    case True
    then have d: "drop i before = before ! i # drop (Suc i) before"
      "drop j after = after ! j # drop (Suc j) after"
      by (simp_all add: Cons_nth_drop_Suc)
    have t: "t ! (i + 1) ! j = lcs_len (drop (i + 1) before) (drop j after)"
      "t ! i ! (j + 1) = lcs_len (drop i before) (drop (j + 1) after)"
      using True "1.prems"(1) by (simp_all add: lcs_table_nth)
    show ?thesis
      unfolding diff_walk.simps [of before after t i j]
      using True t d 1 by (auto simp: max_def)
  next
    case False
    then have "drop i before = [] \<or> drop j after = []" by auto
    then show ?thesis
      unfolding diff_walk.simps [of before after t i j] using False by auto
  qed
qed


lemma diff_ops_filter:
  "map tl (filter (\<lambda>l. P (l ! 0)) (map (\<lambda>(k, l). op_sign k # l) ops))
     = map snd (filter (\<lambda>(k, l). P (op_sign k)) ops)"
  by (induction ops) auto

lemma op_sign_eqs [simp]:
  "(op_sign k = CHR ''+'') = (k = Add)" "(op_sign k = CHR ''-'') = (k = Del)"
  "(op_sign k = CHR '' '') = (k = Keep)"
  by (cases k; simp)+

text \<open>
  C19. A diff is right and as small as a line diff can be: without its additions it is the
  file before, without its deletions the file after, and no common subsequence of the two is
  longer than what it leaves unchanged.
\<close>

theorem diff_ops_correct:
  "map tl (filter (\<lambda>l. l ! 0 \<noteq> CHR ''+'') (diff_ops before after)) = before \<and>
   map tl (filter (\<lambda>l. l ! 0 \<noteq> CHR ''-'') (diff_ops before after)) = after \<and>
   \<not> (\<exists>zs. subseq zs before \<and> subseq zs after \<and>
       length (filter (\<lambda>l. l ! 0 = CHR '' '') (diff_ops before after)) < length zs)"
proof -
  let ?w = "diff_walk before after (lcs_table before after) 0 0"
  have k: "length (filter (\<lambda>l. l ! 0 = CHR '' '') (diff_ops before after)) = lcs_len before after"
    using diff_walk_kept [OF refl, of 0 before 0 after]
      arg_cong [OF diff_ops_filter [of "\<lambda>c. c = CHR '' ''" ?w], of length]
    by (simp add: diff_ops_def kept_def case_prod_beta)
  show ?thesis
    unfolding k using diff_walk_sides [of 0 before 0 after] subseq_lcs_len [of _ before after]
    by (auto simp: diff_ops_def diff_ops_filter [of "\<lambda>c. c \<noteq> _"] old_side_def new_side_def
        case_prod_beta leD)
qed

section \<open>What the collapsed diff keeps\<close>

lemma nth_set_True: "i < length keep \<Longrightarrow> keep[a := True] ! i = (keep ! i \<or> i = a)"
  by (cases "i = a") auto

lemma foldl_set:
  "foldl (\<lambda>k j. k[j := True]) keep js ! i = (keep ! i \<or> i \<in> set js)" if "i < length keep"
  using that by (induction js arbitrary: keep) (auto simp: nth_set_True)

lemma length_foldl_set [simp]: "length (foldl (\<lambda>k j. k[j := True]) keep js) = length keep"
  by (induction js arbitrary: keep) auto

lemma length_mark_around [simp]: "length (mark_around keep i) = length keep"
  by (simp add: mark_around_def)

lemma mark_around_nth:
  "i < length keep \<Longrightarrow> mark_around keep c ! i = (keep ! i \<or> c - 2 \<le> i \<and> i \<le> c + 2)"
  by (auto simp: mark_around_def foldl_set DiffContext_def)

lemma length_foldl_mark [simp]:
  "length (foldl (\<lambda>k i. if P i then mark_around k i else k) keep is) = length keep"
  by (induction "is" arbitrary: keep) auto

lemma foldl_mark_nth:
  assumes "i < length keep"
  shows "foldl (\<lambda>k i. if P i then mark_around k i else k) keep is ! i
    = (keep ! i \<or> (\<exists>c \<in> set is. P c \<and> c - 2 \<le> i \<and> i \<le> c + 2))"
  using assms by (induction "is" arbitrary: keep) (auto simp: mark_around_nth)

lemma keep_marks_nth:
  assumes "i < length ops"
  shows "keep_marks ops ! i = (\<exists>c < length ops. changed (ops ! c) \<and> c - 2 \<le> i \<and> i \<le> c + 2)"
  using assms by (auto simp: keep_marks_def foldl_mark_nth)

lemma length_keep_marks [simp]: "length (keep_marks ops) = length ops"
  by (simp add: keep_marks_def)

definition edit :: "string \<Rightarrow> bool" where
  "edit l = (l ! 0 = CHR ''+'' \<or> l ! 0 = CHR ''-'')"

lemma filter_flush: "filter edit (flush n) = []"
  by (simp add: flush_def edit_def)

lemma filter_collapse:
  assumes "\<forall>(l, k) \<in> set ps. edit l \<longrightarrow> k"
  shows "filter edit (collapse n ps) = filter edit (map fst ps)"
  using assms by (induction n ps rule: collapse.induct) (auto simp: filter_flush)

text \<open>
  Collapsing the unchanged runs loses no change: the additions and deletions of the
  collapsed diff are those of the full one, in their order.
\<close>

theorem line_diff_keeps_edits:
  "filter edit (line_diff before after) = filter edit (diff_ops (split_lines before) (split_lines after))"
proof -
  let ?ops = "diff_ops (split_lines before) (split_lines after)"
  have "edit (?ops ! i) \<longrightarrow> keep_marks ?ops ! i" if "i < length ?ops" for i
  proof -
    have "edit l \<longrightarrow> changed l" for l by (auto simp: edit_def changed_def)
    then show ?thesis
      unfolding keep_marks_nth [OF that] using that by (auto intro!: exI [of _ i])
  qed
  then have "\<forall>(l, k) \<in> set (zip ?ops (keep_marks ?ops)). edit l \<longrightarrow> k"
    by (auto simp: set_zip)
  from filter_collapse [OF this] show ?thesis
    by (simp add: line_diff_def Let_def)
qed

end
