(* ===== verification/Mac.thy ===== *)
theory Mac
  imports GoStrings
begin

text \<open>
  \<open>internal/core/mac.go\<close>: the one spelling of a hardware address, and its registry
  prefixes. \<open>net.ParseMAC\<close> and \<open>HardwareAddr.String\<close> are standard library code,
  written out here; an octet is a \<open>byte\<close>.
\<close>

unbundle bit_operations_syntax

section \<open>Hardware addresses of the standard library\<close>

definition hex_digit :: "char \<Rightarrow> nat option" where
  "hex_digit c = (let n = of_char c in
     if 48 \<le> n \<and> n \<le> 57 then Some (n - 48)
     else if 97 \<le> n \<and> n \<le> 102 then Some (n - 87)
     else if 65 \<le> n \<and> n \<le> 70 then Some (n - 55)
     else None)"

definition xtoi2 :: "string \<Rightarrow> char option \<Rightarrow> byte option" where
  "xtoi2 s e =
     (if length s > 2 \<and> e \<noteq> Some (s ! 2) then None
      else (case (hex_digit (s ! 0), hex_digit (s ! 1)) of
              (Some a, Some b) \<Rightarrow> Some (of_nat (16 * a + b))
            | _ \<Rightarrow> None))"

definition mac_lengths :: "nat list" where "mac_lengths = [6, 8, 20]"

definition dotted_pair :: "string \<Rightarrow> nat \<Rightarrow> byte list option" where
  "dotted_pair s i =
     (case (xtoi2 (take 2 (drop (5 * i) s)) None, xtoi2 (drop (5 * i + 2) s) (Some (s ! 4))) of
        (Some a, Some b) \<Rightarrow> Some [a, b]
      | _ \<Rightarrow> None)"

definition parse_mac :: "string \<Rightarrow> byte list option" where
  "parse_mac s =
     (if length s < 14 then None
      else if s ! 2 = CHR '':'' \<or> s ! 2 = CHR ''-'' then
        (let n = (length s + 1) div 3
         in if (length s + 1) mod 3 \<noteq> 0 \<or> n \<notin> set mac_lengths then None
            else those (map (\<lambda>i. xtoi2 (drop (3 * i) s) (Some (s ! 2))) [0 ..< n]))
      else if s ! 4 = CHR ''.'' then
        (let n = 2 * (length s + 1) div 5
         in if (length s + 1) mod 5 \<noteq> 0 \<or> n \<notin> set mac_lengths then None
            else map_option concat (those (map (dotted_pair s) [0 ..< n div 2])))
      else None)"

definition hex_char :: "nat \<Rightarrow> char" where
  "hex_char d = char_of (if d < 10 then 48 + d else 87 + d)"

definition hex_octet_string :: "byte \<Rightarrow> string" where
  "hex_octet_string b = [hex_char (unat b div 16), hex_char (unat b mod 16)]"

definition mac_string :: "byte list \<Rightarrow> string" where
  "mac_string bs = join_with '':'' (map hex_octet_string bs)"

section \<open>The operations\<close>

text \<open>\<open>strings.ToLower\<close> and \<open>strings.ToUpper\<close>, which only ever meet ASCII here.\<close>

definition lower :: "char \<Rightarrow> char" where
  "lower c = (let n = of_char c in if 65 \<le> n \<and> n \<le> (90 :: nat) then char_of (n + 32) else c)"

definition upper :: "char \<Rightarrow> char" where
  "upper c = (let n = of_char c in if 97 \<le> n \<and> n \<le> (122 :: nat) then char_of (n - 32) else c)"

definition normalize_mac :: "string \<Rightarrow> string option" where
  "normalize_mac s = (case parse_mac (trim_space s) of
     None \<Rightarrow> None
   | Some hw \<Rightarrow> Some (map lower (mac_string hw)))"

text \<open>\<open>Sscanf\<close> with \<open>%02x\<close>, on the two-digit octets that reach it.\<close>

definition hex_octet :: "string \<Rightarrow> byte option" where
  "hex_octet s = (if length s < 2 then None else xtoi2 (take 2 s) None)"

definition OUI :: "string \<Rightarrow> string option" where
  "OUI mac = (case normalize_mac mac of
     None \<Rightarrow> None
   | Some norm \<Rightarrow>
       (let octets = split_on CHR '':'' norm
        in if length octets < 3 then None
           else (case hex_octet (octets ! 0) of
                   None \<Rightarrow> None
                 | Some first \<Rightarrow>
                     if first AND 2 \<noteq> 0 then None
                     else Some (join_with '':'' (take 3 octets)))))"

definition OUI_prefixes :: "string \<Rightarrow> string list option" where
  "OUI_prefixes mac = (case OUI mac of
     None \<Rightarrow> None
   | Some oui \<Rightarrow>
       (case normalize_mac mac of
          None \<Rightarrow> None
        | Some norm \<Rightarrow>
            (let hex = map upper (filter (\<lambda>c. c \<noteq> CHR '':'') norm)
             in if length hex < 9 then Some [map upper (filter (\<lambda>c. c \<noteq> CHR '':'') oui)]
                else Some [take 9 hex, take 7 hex, take 6 hex])))"

section \<open>Printing and parsing an address\<close>

lemma unat_byte: "unat (b :: byte) < 256"
  using unsigned_less [of b] by simp

lemma hex_char_code: "d < 16 \<Longrightarrow> of_char (hex_char d) = (if d < 10 then 48 + d else 87 + d)"
  by (simp add: hex_char_def)

lemma hex_digit_hex_char: "d < 16 \<Longrightarrow> hex_digit (hex_char d) = Some d"
  by (simp add: hex_digit_def hex_char_code Let_def)

lemma hex_char_not_colon: "d < 16 \<Longrightarrow> hex_char d \<noteq> CHR '':''"
  by (auto simp: hex_char_code dest!: arg_cong [where f = "of_char :: char \<Rightarrow> nat"] split: if_splits)

lemma lower_hex_char: "d < 16 \<Longrightarrow> lower (hex_char d) = hex_char d"
  by (simp add: lower_def hex_char_code Let_def)

lemma hex_char_plain: "d < 16 \<Longrightarrow> plain (hex_char d)"
  by (rule plain_ascii) (simp_all add: hex_char_code)

lemma byte_digits: "unat (b :: byte) div 16 < 16" "unat b mod 16 < 16"
  using unat_byte [of b] by auto

lemma xtoi2_octet:
  "xtoi2 (hex_octet_string b @ rest) e = (if rest \<noteq> [] \<and> e \<noteq> Some (hd rest) then None else Some b)"
  by (cases rest) (simp_all add: xtoi2_def hex_octet_string_def hex_digit_hex_char byte_digits
    of_nat_unat)

lemma mac_string_Cons:
  "mac_string (b # bs) = hex_octet_string b @ (if bs = [] then [] else CHR '':'' # mac_string bs)"
  by (cases bs) (simp_all add: mac_string_def)

lemma length_mac_string: "bs \<noteq> [] \<Longrightarrow> length (mac_string bs) + 1 = 3 * length bs"
  by (induction bs) (auto simp: mac_string_Cons hex_octet_string_def)

lemma drop_three: "drop (3 + k) (x # y # z # r) = drop k r"
  by (simp add: eval_nat_numeral)

lemma drop_mac_string:
  assumes "i < length bs"
  shows "drop (3 * i) (mac_string bs) = mac_string (drop i bs)"
  using assms
proof (induction i arbitrary: bs)
  case (Suc i)
  then obtain b bs' where b: "bs = b # bs'" "i < length bs'" by (cases bs) auto
  then show ?case
    using Suc.IH [OF b(2)] by (auto simp: mac_string_Cons hex_octet_string_def drop_three)
qed simp

lemma those_map_Some: "(\<And>x. x \<in> set xs \<Longrightarrow> f x = Some (g x)) \<Longrightarrow> those (map f xs) = Some (map g xs)"
  by (induction xs) auto

lemma parse_mac_string:
  assumes "length bs \<in> set mac_lengths"
  shows "parse_mac (mac_string bs) = Some bs"
proof -
  let ?s = "mac_string bs"
  have l: "6 \<le> length bs" using assms by (auto simp: mac_lengths_def)
  then have n: "length ?s + 1 = 3 * length bs" "\<not> length ?s < 14"
    using length_mac_string [of bs] by (cases "bs = []"; simp)+
  obtain a b bs' where "bs = a # b # bs'" using l by (cases bs; cases "tl bs") auto
  then have c: "?s ! 2 = CHR '':''"
    by (simp add: mac_string_Cons hex_octet_string_def)
  have "xtoi2 (drop (3 * i) ?s) (Some CHR '':'') = Some (bs ! i)" if "i < length bs" for i
    using that drop_mac_string [OF that] Cons_nth_drop_Suc [OF that, symmetric]
    by (simp add: mac_string_Cons xtoi2_octet)
  then have "those (map (\<lambda>i. xtoi2 (drop (3 * i) ?s) (Some CHR '':'')) [0 ..< length bs])
      = Some (map (\<lambda>i. bs ! i) [0 ..< length bs])"
    by (intro those_map_Some) simp
  then show ?thesis
    using n c assms by (simp add: parse_mac_def Let_def map_nth)
qed

lemma length_those: "those xs = Some ys \<Longrightarrow> length ys = length xs"
  by (induction xs arbitrary: ys) (auto split: option.splits)

lemma length_concat_those:
  assumes "those xs = Some ys" and "\<And>y. Some y \<in> set xs \<Longrightarrow> length y = k"
  shows "length (concat ys) = k * length xs"
  using assms by (induction xs arbitrary: ys) (auto split: option.splits)

lemma parse_mac_length:
  assumes "parse_mac s = Some bs"
  shows "length bs \<in> set mac_lengths"
proof (cases "s ! 2 = CHR '':'' \<or> s ! 2 = CHR ''-''")
  case True
  then show ?thesis
    using assms by (auto simp: parse_mac_def Let_def split: if_splits dest!: length_those)
next
  case False
  let ?xs = "map (dotted_pair s) [0 ..< 2 * (length s + 1) div 5 div 2]"
  from False assms obtain ys where y: "those ?xs = Some ys" "bs = concat ys"
    "5 dvd length s + 1" "2 * (length s + 1) div 5 \<in> set mac_lengths"
    by (auto simp: parse_mac_def Let_def split: if_splits)
  have "length (concat ys) = 2 * length ?xs"
    by (rule length_concat_those [OF y(1)]) (auto simp: dotted_pair_def split: option.splits)
  then show ?thesis using y(2-4) by (auto simp: mac_lengths_def)
qed

lemma hex_octet_chars:
  assumes "c \<in> set (hex_octet_string b)"
  shows "\<exists>d < 16. c = hex_char d"
proof -
  have "c = hex_char (unat b div 16) \<or> c = hex_char (unat b mod 16)"
    using assms by (auto simp: hex_octet_string_def)
  then show ?thesis using byte_digits [of b] by blast
qed

lemma mac_string_chars: "c \<in> set (mac_string bs) \<Longrightarrow> c = CHR '':'' \<or> (\<exists>d < 16. c = hex_char d)"
proof (induction bs)
  case (Cons b bs)
  then show ?case by (auto simp: mac_string_Cons dest: hex_octet_chars split: if_splits)
qed (simp add: mac_string_def)

lemma lower_mac_string: "map lower (mac_string bs) = mac_string bs"
proof (rule map_idI)
  have "lower CHR '':'' = CHR '':''" by (simp add: lower_def)
  then show "lower c = c" if "c \<in> set (mac_string bs)" for c
    using mac_string_chars [OF that] by (auto simp: lower_hex_char)
qed

lemma normalize_mac_string:
  assumes "length bs \<in> set mac_lengths"
  shows "normalize_mac (mac_string bs) = Some (mac_string bs)"
proof -
  obtain b bs' where b: "bs = b # bs'" using assms by (cases bs) (auto simp: mac_lengths_def)
  obtain e bs'' where e: "bs = bs'' @ [e]" using assms by (cases bs rule: rev_cases) (auto simp: mac_lengths_def)
  have "mac_string (bs'' @ [e]) \<noteq> [] \<and> last (mac_string (bs'' @ [e])) = hex_char (unat e mod 16)" for bs''
    by (induction bs'') (auto simp: mac_string_Cons hex_octet_string_def)
  moreover have "hd (mac_string bs) = hex_char (unat b div 16)"
    by (simp add: b mac_string_Cons hex_octet_string_def)
  ultimately have "trim_space (mac_string bs) = mac_string bs"
    using e by (intro trim_space_plain) (auto simp: hex_char_plain byte_digits)
  then show ?thesis
    using assms by (simp add: normalize_mac_def parse_mac_string lower_mac_string)
qed

lemma normalize_macE:
  assumes "normalize_mac s = Some m"
  obtains bs where "parse_mac (trim_space s) = Some bs" "m = mac_string bs" "length bs \<in> set mac_lengths"
  using assms parse_mac_length by (auto simp: normalize_mac_def lower_mac_string split: option.splits)

section \<open>What a normalised address promises\<close>

text \<open>
  A normalised address is one spelling per device: it normalises to itself, and two
  spellings normalise alike exactly when they parse to the same octets.
\<close>

theorem normalize_mac_canonical:
  assumes "normalize_mac s = Some m" and "normalize_mac s' = Some m'"
  shows "normalize_mac m = Some m \<and>
    (m = m' \<longleftrightarrow> parse_mac (trim_space s) = parse_mac (trim_space s'))"
proof -
  obtain bs bs' where b: "parse_mac (trim_space s) = Some bs" "m = mac_string bs" "length bs \<in> set mac_lengths"
    "parse_mac (trim_space s') = Some bs'" "m' = mac_string bs'" "length bs' \<in> set mac_lengths"
    using assms by (metis normalize_macE)
  have "m = m' \<longleftrightarrow> bs = bs'"
    using b parse_mac_string by (metis option.inject)
  then show ?thesis using b normalize_mac_string by simp
qed

lemma normalize_mac_canonical_witness:
  "normalize_mac ''aa:bb:cc:dd:ee:ff'' = Some ''aa:bb:cc:dd:ee:ff''"
proof -
  have t: "trim_space ''AA-BB-CC-DD-EE-FF'' = ''AA-BB-CC-DD-EE-FF''"
    "trim_space ''aabb.ccdd.eeff'' = ''aabb.ccdd.eeff''"
    by (rule trim_space_plain; simp add: plain_ascii)+
  have p: "parse_mac ''AA-BB-CC-DD-EE-FF'' = Some [0xAA, 0xBB, 0xCC, 0xDD, 0xEE, 0xFF]"
    "parse_mac ''aabb.ccdd.eeff'' = Some [0xAA, 0xBB, 0xCC, 0xDD, 0xEE, 0xFF]"
    "mac_string [0xAA, 0xBB, 0xCC, 0xDD, 0xEE, 0xFF] = ''aa:bb:cc:dd:ee:ff''"
    by code_simp+
  have h: "normalize_mac ''AA-BB-CC-DD-EE-FF'' = Some ''aa:bb:cc:dd:ee:ff''"
    "normalize_mac ''aabb.ccdd.eeff'' = Some ''aa:bb:cc:dd:ee:ff''"
    unfolding normalize_mac_def t p option.case lower_mac_string by (simp_all only: p)
  from normalize_mac_canonical [OF h] show ?thesis by simp
qed

lemma split_mac_string:
  assumes "bs \<noteq> []"
  shows "split_on CHR '':'' (mac_string bs) = map hex_octet_string bs"
  unfolding mac_string_def using assms
  by (intro split_on_join) (auto dest!: hex_octet_chars dest: hex_char_not_colon not_sym [OF hex_char_not_colon])

lemma OUI_eq:
  assumes "normalize_mac s = Some m"
  obtains a b c bs where "parse_mac (trim_space s) = Some (a # b # c # bs)" "3 \<le> length bs"
    "m = mac_string (a # b # c # bs)" "OUI s = (if a AND 2 \<noteq> 0 then None else Some (mac_string [a, b, c]))"
proof -
  from assms obtain bs' where bs': "parse_mac (trim_space s) = Some bs'" "m = mac_string bs'"
    "length bs' \<in> set mac_lengths"
    by (rule normalize_macE)
  then have "6 \<le> length bs'" by (auto simp: mac_lengths_def)
  then obtain a b c bs where bs: "bs' = a # b # c # bs" "3 \<le> length bs"
    by (auto simp: eval_nat_numeral Suc_le_length_iff)
  have "hex_octet (hex_octet_string a) = Some a"
    using xtoi2_octet [of a "[]" None] by (simp add: hex_octet_def hex_octet_string_def)
  then have "OUI s = (if a AND 2 \<noteq> 0 then None else Some (mac_string [a, b, c]))"
    using assms bs' bs by (simp add: OUI_def split_mac_string) (simp add: mac_string_def)
  then show ?thesis using that bs bs' by simp
qed

text \<open>The bare upper-case hexadecimal digits of an address.\<close>

definition hex_digits :: "byte list \<Rightarrow> string" where
  "hex_digits bs = concat (map (\<lambda>b. map upper (hex_octet_string b)) bs)"

lemma hex_digits_eq: "map upper (filter (\<lambda>c. c \<noteq> CHR '':'') (mac_string bs)) = hex_digits bs"
proof (induction bs)
  case (Cons b bs)
  then show ?case
    by (auto simp: mac_string_Cons hex_digits_def hex_octet_string_def hex_char_not_colon byte_digits)
qed (simp add: mac_string_def hex_digits_def)

lemma length_hex_digits: "length (hex_digits bs) = 2 * length bs"
  by (induction bs) (auto simp: hex_digits_def hex_octet_string_def)

text \<open>
  The registry prefixes of an address are the first nine, seven and six of its
  hexadecimal digits, longest first, and there are none for an address that does not parse
  or is locally administered.
\<close>

theorem OUI_prefixes_correct:
  "OUI_prefixes s = (case parse_mac (trim_space s) of
     None \<Rightarrow> None
   | Some bs \<Rightarrow>
       if hd bs AND 2 \<noteq> 0 then None
       else Some [take 9 (hex_digits bs), take 7 (hex_digits bs), take 6 (hex_digits bs)])"
proof (cases "normalize_mac s")
  case None
  then show ?thesis by (simp add: OUI_prefixes_def OUI_def normalize_mac_def split: option.splits)
next
  case (Some m)
  then obtain a b c bs where p: "parse_mac (trim_space s) = Some (a # b # c # bs)" "3 \<le> length bs"
    "m = mac_string (a # b # c # bs)" "OUI s = (if a AND 2 \<noteq> 0 then None else Some (mac_string [a, b, c]))"
    by (rule OUI_eq)
  have "\<not> length (hex_digits (a # b # c # bs)) < 9"
    using p(2) by (simp add: length_hex_digits)
  then show ?thesis
    using p Some unfolding OUI_prefixes_def by (simp add: hex_digits_eq Let_def)
qed

end
