(* ===== verification/Store.thy ===== *)
theory Store
  imports GoStrings "HOL-Library.AList" "HOL-Library.Char_ord" "HOL-Library.List_Lexorder"
begin

text \<open>
  \<open>internal/core/store.go\<close> and \<open>renamekey.go\<close>: the one configuration document. JSON text
  is modelled by its value, a \<open>json\<close> tree whose objects keep the members in the order
  written, duplicates included; insignificant white space is not part of the model, and
  \<open>json.Compact\<close> and \<open>json.Indent\<close> are the identity. \<open>json.RawMessage\<close> is a \<open>json option\<close>,
  \<open>None\<close> standing for bytes that are not JSON. A Go map is an association list with distinct
  keys; its order is arbitrary, and no result may depend on it.
\<close>

section \<open>JSON values and Go maps\<close>

datatype json = JNull | JBool bool | JNum string | JStr string
  | JArr "json list" | JObj "(string \<times> json) list"

type_synonym raw = "json option"
type_synonym keymap = "(string \<times> raw) list"

text \<open>Bytes on disk: what \<open>os.ReadFile\<close> meets.\<close>

datatype disk_file = Missing | Unreadable | Text raw

datatype store_error = ReadErr | ParseErr | EncodeErr string | BothKeys

text \<open>\<open>json.Unmarshal\<close> into \<open>map[string]json.RawMessage\<close>: the last of equal members wins.\<close>

definition last_wins :: "(string \<times> json) list \<Rightarrow> keymap" where
  "last_wins ms = foldl (\<lambda>acc (k, v). AList.update k (Some v) acc) [] ms"

fun unmarshal_map :: "raw \<Rightarrow> keymap option" where
  "unmarshal_map None = None"
| "unmarshal_map (Some JNull) = Some []"
| "unmarshal_map (Some (JObj ms)) = Some (last_wins ms)"
| "unmarshal_map (Some v) = None"

text \<open>\<open>json.Marshal\<close> of such a map: the members sorted by key, an error on invalid bytes.\<close>

fun all_some :: "(string \<times> raw) list \<Rightarrow> string + (string \<times> json) list" where
  "all_some [] = Inr []"
| "all_some ((k, None) # ms) = Inl k"
| "all_some ((k, Some v) # ms) = (case all_some ms of Inl e \<Rightarrow> Inl e | Inr vs \<Rightarrow> Inr ((k, v) # vs))"

definition marshal_map :: "keymap \<Rightarrow> string + json" where
  "marshal_map m = (case all_some (map (\<lambda>k. (k, the (map_of m k))) (sort (map fst m))) of
     Inl k \<Rightarrow> Inl k | Inr ms \<Rightarrow> Inr (JObj ms))"

section \<open>The store\<close>

definition schema_url :: string where
  "schema_url = ''https://open-linux-router.org/schema/v1/olr.json''"

definition schema_key :: string where "schema_key = ''$schema''"

record document =
  keys :: keymap
  unknown :: "string list"

definition raw_of :: "document \<Rightarrow> string \<Rightarrow> raw option" where
  "raw_of d m = map_of (keys d) m"

definition set_raw :: "document \<Rightarrow> string \<Rightarrow> raw \<Rightarrow> document" where
  "set_raw d m raw = d\<lparr>keys := AList.update m raw (keys d)\<rparr>"

text \<open>A store is its list of mounted modules; the files are passed to the operations.\<close>

type_synonym store = "string list"

definition decode_doc :: "store \<Rightarrow> raw \<Rightarrow> store_error + document" where
  "decode_doc s data = (case unmarshal_map data of
     None \<Rightarrow> Inl ParseErr
   | Some ks0 \<Rightarrow>
       (let ks = AList.delete schema_key ks0
        in Inr \<lparr>keys = ks, unknown = sort (filter (\<lambda>k. k \<notin> set s) (map fst ks))\<rparr>))"

definition write_order :: "store \<Rightarrow> document \<Rightarrow> string list" where
  "write_order s d =
     filter (\<lambda>m. map_of (keys d) m \<noteq> None) s
     @ sort (filter (\<lambda>k. k \<notin> set s) (map fst (keys d)))"

definition encode_doc :: "store \<Rightarrow> document \<Rightarrow> store_error + json" where
  "encode_doc s d =
     (case all_some (map (\<lambda>k. (k, the (map_of (keys d) k))) (write_order s d)) of
        Inl k \<Rightarrow> Inl (EncodeErr k)
      | Inr ms \<Rightarrow> Inr (JObj ((schema_key, JStr schema_url) # ms)))"

text \<open>The legacy per-module files, folded in mount order. A file that holds \<open>null\<close> is a nil map, and stays \<open>null\<close>.\<close>

fun load_legacy :: "(string \<Rightarrow> disk_file) \<Rightarrow> store \<Rightarrow> keymap \<Rightarrow> store_error + keymap" where
  "load_legacy fs [] acc = Inr acc"
| "load_legacy fs (name # names) acc =
     (case fs name of
        Missing \<Rightarrow> load_legacy fs names acc
      | Unreadable \<Rightarrow> Inl ReadErr
      | Text data \<Rightarrow>
          (case unmarshal_map data of
             None \<Rightarrow> Inl ParseErr
           | Some ks \<Rightarrow>
               (case (if data = Some JNull then Inr JNull else marshal_map (AList.delete schema_key ks)) of
                  Inl k \<Rightarrow> Inl (EncodeErr name)
                | Inr raw \<Rightarrow> load_legacy fs names (AList.update name (Some raw) acc))))"

definition load_doc :: "store \<Rightarrow> disk_file \<Rightarrow> (string \<Rightarrow> disk_file) \<Rightarrow> store_error + document" where
  "load_doc s main legacy = (case main of
     Missing \<Rightarrow> bind_res (load_legacy legacy s []) (\<lambda>ks. Inr \<lparr>keys = ks, unknown = []\<rparr>)
   | Unreadable \<Rightarrow> Inl ReadErr
   | Text data \<Rightarrow> decode_doc s data)"

text \<open>
  \<open>RenameKey\<close>: the data, whether it was renamed, and the error of both spellings at once. A
  value that is not an object comes back as it is; \<open>null\<close> too, its map being nil.
\<close>

definition rename_key :: "raw \<Rightarrow> string \<Rightarrow> string \<Rightarrow> store_error + (raw \<times> bool)" where
  "rename_key data from to =
     (if data = Some JNull then Inr (data, False)
      else (case unmarshal_map data of
         None \<Rightarrow> Inr (data, False)
       | Some obj \<Rightarrow>
           (case map_of obj from of
              None \<Rightarrow> Inr (data, False)
            | Some old \<Rightarrow>
                if map_of obj to \<noteq> None then Inl BothKeys
                else (case marshal_map (AList.update to old (AList.delete from obj)) of
                        Inl k \<Rightarrow> Inl (EncodeErr k)
                      | Inr out \<Rightarrow> Inr (Some out, True)))))"

definition mounted :: "store \<Rightarrow> bool" where
  "mounted s = (distinct s \<and> schema_key \<notin> set s)"

section \<open>Maps as lists\<close>

lemma last_wins_distinct: "distinct (map fst (last_wins ms))"
proof -
  have "distinct (map fst acc) \<Longrightarrow>
      distinct (map fst (foldl (\<lambda>acc (k, v). AList.update k (Some v) acc) acc ms))" for acc :: keymap
    by (induction ms arbitrary: acc) (auto simp: distinct_update)
  then show ?thesis by (simp add: last_wins_def)
qed

lemma last_wins_snoc [simp]: "last_wins (ms @ [(k, v)]) = AList.update k (Some v) (last_wins ms)"
  by (simp add: last_wins_def)

lemma map_of_last_wins: "map_of (last_wins ms) k = map_option Some (map_of (rev ms) k)"
proof (induction ms rule: rev_induct)
  case (snoc m ms)
  then show ?case by (cases m) (simp add: update_conv')
qed (simp add: last_wins_def)

lemma map_of_last_wins_distinct:
  "distinct (map fst ms) \<Longrightarrow> map_of (last_wins ms) k = map_option Some (map_of ms k)"
  using map_of_inject_set [of "rev ms" ms] by (simp add: map_of_last_wins rev_map [symmetric])

lemma all_some_Inr: "all_some ms = Inr vs \<Longrightarrow> ms = map (\<lambda>(k, v). (k, Some v)) vs"
  by (induction ms arbitrary: vs rule: all_some.induct) (auto split: sum.splits)

lemma map_of_graph: "map_of (map (\<lambda>k. (k, f k)) ks) k = (if k \<in> set ks then Some (f k) else None)"
  by (induction ks) auto

lemma all_some_graph:
  assumes "\<forall>k \<in> set ks. f k \<noteq> None"
  shows "all_some (map (\<lambda>k. (k, f k)) ks) = Inr (map (\<lambda>k. (k, the (f k))) ks)"
  using assms by (induction ks) auto

text \<open>A document with distinct keys, none of them the schema's, and valid subtrees.\<close>

definition wf_doc :: "document \<Rightarrow> bool" where
  "wf_doc d = (distinct (map fst (keys d)) \<and> schema_key \<notin> fst ` set (keys d) \<and>
     (\<forall>(k, v) \<in> set (keys d). v \<noteq> None))"

lemma wf_docE:
  assumes "wf_doc d" and "map_of (keys d) k = Some r"
  obtains v where "r = Some v"
  using assms map_of_SomeD [OF assms(2)] by (auto simp: wf_doc_def)

lemma set_write_order: "distinct (map fst (keys d)) \<Longrightarrow> set (write_order s d) = fst ` set (keys d)"
  by (auto simp: write_order_def map_of_eq_None_iff)

lemma distinct_write_order:
  "distinct s \<Longrightarrow> distinct (map fst (keys d)) \<Longrightarrow> distinct (write_order s d)"
  by (auto simp: write_order_def)


lemma wf_decode_doc:
  assumes "decode_doc s data = Inr d"
  shows "wf_doc d"
proof -
  obtain ks where ks: "unmarshal_map data = Some ks" "keys d = AList.delete schema_key ks"
    using assms by (auto simp: decode_doc_def Let_def split: option.splits)
  have "distinct (map fst ks) \<and> (\<forall>(k, v) \<in> set ks. v \<noteq> None)"
  proof (cases data rule: unmarshal_map.cases)
    case (3 ms)
    have "v \<noteq> None" if "(k, v) \<in> set (last_wins ms)" for k v
      using map_of_is_SomeI [OF last_wins_distinct that] by (auto simp: map_of_last_wins)
    then show ?thesis using 3 ks last_wins_distinct [of ms] by auto
  qed (use ks in auto)
  moreover from this have "distinct (map fst (AList.delete schema_key ks))"
    by (simp add: distinct_delete)
  ultimately show ?thesis
    using ks by (auto simp: wf_doc_def AList.delete_eq)
qed

lemma encode_members:
  assumes "mounted s" and "wf_doc d"
  shows "\<exists>ms. encode_doc s d = Inr (JObj ((schema_key, JStr schema_url) # ms)) \<and>
    distinct (map fst ms) \<and> schema_key \<notin> fst ` set ms \<and>
    (\<forall>k v. (k, v) \<in> set ms \<longrightarrow> (k, Some v) \<in> set (keys d))"
proof -
  let ?o = "write_order s d" and ?f = "\<lambda>k. the (map_of (keys d) k)"
  have k: "distinct (map fst (keys d))" "schema_key \<notin> fst ` set (keys d)"
    using assms(2) by (auto simp: wf_doc_def)
  have f: "\<exists>v. map_of (keys d) x = Some (Some v)" if "x \<in> set ?o" for x
  proof -
    have "map_of (keys d) x \<noteq> None"
      using k(1) that by (simp add: set_write_order map_of_eq_None_iff)
    then obtain r where "map_of (keys d) x = Some r" by blast
    then show ?thesis using assms(2) by (auto elim: wf_docE)
  qed
  then have "encode_doc s d = Inr (JObj ((schema_key, JStr schema_url) # map (\<lambda>k. (k, the (?f k))) ?o))"
    using all_some_graph [of ?o ?f] by (auto simp: encode_doc_def) fastforce
  moreover have "(x, Some v) \<in> set (keys d)" if "(x, v) \<in> set (map (\<lambda>k. (k, the (?f k))) ?o)" for x v
    using that f [of x] map_of_SomeD [of "keys d" x] by auto
  moreover have "distinct ?o" "schema_key \<notin> set ?o"
    using distinct_write_order [of s d] set_write_order [OF k(1), of s] k assms(1)
    by (simp_all add: mounted_def)
  ultimately show ?thesis
    by (intro exI [of _ "map (\<lambda>k. (k, the (?f k))) ?o"]) (auto simp: o_def image_image)
qed

lemma decode_encoded:
  assumes "wf_doc d" and "distinct s" and "schema_key \<notin> set s"
  shows "\<exists>j d'. encode_doc s d = Inr j \<and> decode_doc s (Some j) = Inr d' \<and> wf_doc d' \<and>
    map_of (keys d') = map_of (keys d) \<and> unknown d' = sort (filter (\<lambda>k. k \<notin> set s) (map fst (keys d)))"
proof -
  let ?o = "write_order s d" and ?f = "\<lambda>k. the (map_of (keys d) k)"
  have k: "distinct (map fst (keys d))" "schema_key \<notin> fst ` set (keys d)"
    using assms(1) by (auto simp: wf_doc_def)
  have some: "\<forall>k \<in> set ?o. ?f k \<noteq> None"
  proof
    fix k assume "k \<in> set ?o"
    then have "map_of (keys d) k \<noteq> None"
      using k(1) by (simp add: set_write_order map_of_eq_None_iff)
    then obtain r where "map_of (keys d) k = Some r" by blast
    then show "?f k \<noteq> None" using assms(1) by (auto elim: wf_docE)
  qed
  let ?ms = "map (\<lambda>k. (k, the (?f k))) ?o"
  have e: "encode_doc s d = Inr (JObj ((schema_key, JStr schema_url) # ?ms))"
    using all_some_graph [OF some] by (simp add: encode_doc_def)
  have dm: "distinct (map fst ((schema_key, JStr schema_url) # ?ms))"
    using distinct_write_order [OF assms(2) k(1)] k set_write_order [OF k(1), of s]
    by (simp add: o_def)
  let ?ks = "AList.delete schema_key (last_wins ((schema_key, JStr schema_url) # ?ms))"
  have m: "map_of ?ks x = map_of (keys d) x" for x
  proof (cases "map_of (keys d) x")
    case None
    then have "x \<notin> set ?o" using k(1) by (simp add: set_write_order map_of_eq_None_iff)
    then show ?thesis
      using None map_of_last_wins_distinct [OF dm, of x] by (simp add: delete_conv' map_of_graph)
  next
    case (Some r)
    then have xi: "x \<in> fst ` set (keys d)" by (force dest: map_of_SomeD)
    then have x: "x \<in> set ?o" using k(1) by (simp add: set_write_order)
    have "x \<noteq> schema_key" using xi k(2) by blast
    moreover obtain v where "r = Some v" using assms(1) Some by (rule wf_docE)
    moreover note x
    ultimately show ?thesis
      using Some map_of_last_wins_distinct [OF dm, of x] by (simp add: delete_conv' map_of_graph)
  qed
  then have me: "map_of ?ks = map_of (keys d)" by blast
  have "sort (filter (\<lambda>k. k \<notin> set s) (map fst ?ks)) = sort (filter (\<lambda>k. k \<notin> set s) (map fst (keys d)))"
  proof (rule sorted_distinct_set_unique)
    show "set (sort (filter (\<lambda>k. k \<notin> set s) (map fst ?ks))) = set (sort (filter (\<lambda>k. k \<notin> set s) (map fst (keys d))))"
      using arg_cong [OF me, of dom] by (simp add: dom_map_of_conv_image_fst)
  qed (use k(1) last_wins_distinct in \<open>simp_all add: distinct_delete\<close>)
  moreover have d: "decode_doc s (Some (JObj ((schema_key, JStr schema_url) # ?ms))) =
      Inr \<lparr>keys = ?ks, unknown = sort (filter (\<lambda>k. k \<notin> set s) (map fst ?ks))\<rparr>"
    by (simp add: decode_doc_def Let_def)
  ultimately show ?thesis
    using e me wf_decode_doc [OF d] by simp
qed

text \<open>
  The document on disk as an interface: what a client that stores a document and reads it
  back may rely on.
\<close>

locale document_codec =
  fixes fits :: "'s \<Rightarrow> bool"
    and enc :: "'s \<Rightarrow> 'd \<Rightarrow> 'e + 't"
    and dec :: "'s \<Rightarrow> 't \<Rightarrow> 'e + 'd"
    and ok :: "'d \<Rightarrow> bool"
    and view :: "'d \<Rightarrow> 'v"
  assumes enc_dec: "fits s \<Longrightarrow> ok d \<Longrightarrow> \<exists>t d'. enc s d = Inr t \<and> dec s t = Inr d' \<and> view d' = view d"
    and dec_ok: "dec s t = Inr d \<Longrightarrow> ok d"
    and enc_view: "ok d \<Longrightarrow> ok d' \<Longrightarrow> view d = view d' \<Longrightarrow> enc s d = enc s d'"
begin

lemma enc_total: "fits s \<Longrightarrow> ok d \<Longrightarrow> \<exists>t. enc s d = Inr t"
  using enc_dec by blast

lemma dec_enc:
  assumes "fits s" and "ok d" and "enc s d = Inr t"
  shows "\<exists>d'. dec s t = Inr d' \<and> view d' = view d \<and> ok d'"
  using enc_dec [OF assms(1,2)] dec_ok [of s t] assms(3) by auto

text \<open>Writing what was read writes the same text again.\<close>

lemma rewrite_stable:
  assumes "fits s" and "dec s t = Inr d" and "enc s d = Inr t'" and "dec s t' = Inr d'"
  shows "enc s d' = Inr t'"
proof -
  have "ok d" "ok d'" using assms dec_ok by blast+
  moreover have "view d' = view d" using dec_enc [OF assms(1) \<open>ok d\<close> assms(3)] assms(4) by auto
  ultimately show ?thesis using enc_view [of d' d] assms(3) by simp
qed

end

text \<open>Encoding reads a document as a map: the order a Go map happens to have is not seen.\<close>

lemma encode_doc_order:
  assumes "distinct (map fst (keys d))" and "distinct (map fst (keys d'))"
    and "map_of (keys d) = map_of (keys d')"
  shows "encode_doc s d = encode_doc s d'"
proof -
  have "fst ` set (keys d) = fst ` set (keys d')"
    using arg_cong [OF assms(3), of dom] by (simp add: dom_map_of_conv_image_fst)
  then have "sort (filter (\<lambda>k. k \<notin> set s) (map fst (keys d))) = sort (filter (\<lambda>k. k \<notin> set s) (map fst (keys d')))"
    using assms(1,2) by (intro sorted_distinct_set_unique) auto
  then have "write_order s d = write_order s d'"
    using assms(3) by (simp add: write_order_def)
  then show ?thesis using assms(3) by (simp add: encode_doc_def)
qed

interpretation doc_codec: document_codec mounted encode_doc "\<lambda>s j. decode_doc s (Some j)" wf_doc
  "\<lambda>d. map_of (keys d)"
proof
  fix s :: store and d assume "mounted s" "wf_doc d"
  then show "\<exists>t d'. encode_doc s d = Inr t \<and> decode_doc s (Some t) = Inr d' \<and>
      map_of (keys d') = map_of (keys d)"
    using decode_encoded [of d s] by (auto simp: mounted_def)
next
  show "wf_doc d" if "decode_doc s (Some t) = Inr d" for s t d
    using that by (rule wf_decode_doc)
next
  fix s d d' assume "wf_doc d" "wf_doc d'" "map_of (keys d) = map_of (keys d')"
  then show "encode_doc s d = encode_doc s d'"
    by (intro encode_doc_order) (auto simp: wf_doc_def)
qed

section \<open>What the store promises\<close>

lemma wf_doc_map:
  "wf_doc d \<longleftrightarrow> distinct (map fst (keys d)) \<and> map_of (keys d) schema_key = None \<and>
    (\<forall>k. map_of (keys d) k \<noteq> Some None)"
proof -
  have "(\<forall>(k, v) \<in> set (keys d). v \<noteq> None) \<longleftrightarrow> (\<forall>k. map_of (keys d) k \<noteq> Some None)"
    if "distinct (map fst (keys d))"
  proof -
    have "(\<forall>(k, v) \<in> set (keys d). v \<noteq> None) \<longleftrightarrow> (\<forall>k. (k, None) \<notin> set (keys d))"
      by (metis (mono_tags, lifting) case_prodD case_prodI2)
    then show ?thesis using that by simp
  qed
  then show ?thesis unfolding wf_doc_def map_of_eq_None_iff by blast
qed

lemma wf_set_raw: "wf_doc d \<Longrightarrow> m \<noteq> schema_key \<Longrightarrow> wf_doc (set_raw d m (Some v))"
  by (simp add: wf_doc_map set_raw_def distinct_update update_conv')

text \<open>
  C20. Saving one module's subtree and reading the file again changes that subtree and nothing
  else: every other key, those of modules this build has never heard of included, keeps its
  value, and the schema key stays out of the document.
\<close>

theorem save_keeps_other_keys:
  assumes "mounted s" and "decode_doc s data = Inr d" and "m \<noteq> schema_key"
  shows "\<exists>j d'. encode_doc s (set_raw d m (Some v)) = Inr j \<and> decode_doc s (Some j) = Inr d' \<and>
    map_of (keys d') = (map_of (keys d))(m \<mapsto> Some v) \<and> map_of (keys d') schema_key = None"
proof -
  have w: "wf_doc (set_raw d m (Some v))"
    using wf_decode_doc [OF assms(2)] assms(3) by (rule wf_set_raw)
  from doc_codec.enc_dec [OF assms(1) this] obtain j d' where e:
    "encode_doc s (set_raw d m (Some v)) = Inr j" "decode_doc s (Some j) = Inr d'"
    "map_of (keys d') = map_of (keys (set_raw d m (Some v)))"
    by blast
  have "map_of (keys d') schema_key = None"
    using wf_decode_doc [OF e(2)] by (auto simp: wf_doc_def map_of_eq_None_iff)
  then show ?thesis using e by (simp add: set_raw_def update_conv')
qed

text \<open>
  Reading a file and writing it back is stable: the second writing is the first one,
  whatever order the maps of the two documents have.
\<close>

theorem rewrite_is_stable:
  assumes "mounted s" and "decode_doc s (Some t) = Inr d" and "encode_doc s d = Inr t'"
  shows "\<exists>d'. decode_doc s (Some t') = Inr d' \<and> encode_doc s d' = Inr t'"
  using doc_codec.dec_enc [OF assms(1) wf_decode_doc [OF assms(2)] assms(3)]
    doc_codec.rewrite_stable [OF assms] by blast

lemma sample_decode:
  "decode_doc [''link'', ''dhcp''] (Some (JObj [(''dhcp'', JNum ''1''), (''future'', JBool True), (''dhcp'', JNum ''2'')]))
     = Inr \<lparr>keys = [(''dhcp'', Some (JNum ''2'')), (''future'', Some (JBool True))], unknown = [''future'']\<rparr>"
  by (simp add: decode_doc_def last_wins_def schema_key_def Let_def)

lemma mounted_sample: "mounted [''link'', ''dhcp'']"
  by (simp add: mounted_def schema_key_def)

lemma save_keeps_other_keys_witness:
  "\<exists>j d'. encode_doc [''link'', ''dhcp''] (set_raw \<lparr>keys = [(''dhcp'', Some (JNum ''2'')), (''future'', Some (JBool True))],
      unknown = [''future'']\<rparr> ''link'' (Some JNull)) = Inr j \<and> decode_doc [''link'', ''dhcp''] (Some j) = Inr d' \<and>
    map_of (keys d') ''future'' = Some (Some (JBool True))"
  using save_keeps_other_keys [OF mounted_sample sample_decode, of "''link''" JNull]
  by (auto simp: schema_key_def)

lemma sample_encode:
  "encode_doc [''link'', ''dhcp''] \<lparr>keys = [(''dhcp'', Some (JNum ''2'')), (''future'', Some (JBool True))], unknown = [''future'']\<rparr>
     = Inr (JObj [(''$schema'', JStr schema_url), (''dhcp'', JNum ''2''), (''future'', JBool True)])"
  by (simp add: encode_doc_def write_order_def schema_key_def)

lemma rewrite_is_stable_witness:
  "\<exists>d'. decode_doc [''link'', ''dhcp''] (Some (JObj [(''$schema'', JStr schema_url), (''dhcp'', JNum ''2''), (''future'', JBool True)])) = Inr d' \<and>
     encode_doc [''link'', ''dhcp''] d' = Inr (JObj [(''$schema'', JStr schema_url), (''dhcp'', JNum ''2''), (''future'', JBool True)])"
  by (rule rewrite_is_stable [OF mounted_sample sample_decode sample_encode])

lemma unmarshal_valid:
  assumes "unmarshal_map data = Some ks"
  shows "distinct (map fst ks)" "map_of ks k \<noteq> Some None"
  using assms
  by (cases data rule: unmarshal_map.cases; auto simp: last_wins_distinct map_of_last_wins)+

lemma marshal_unmarshal:
  assumes "distinct (map fst ks)" and "\<forall>k. map_of ks k \<noteq> Some None"
  shows "\<exists>j ks'. marshal_map ks = Inr j \<and> unmarshal_map (Some j) = Some ks' \<and> map_of ks' = map_of ks"
proof -
  let ?o = "sort (map fst ks)" and ?f = "\<lambda>k. the (map_of ks k)"
  have "\<forall>k \<in> set ?o. ?f k \<noteq> None"
    using assms(2) by (metis list.set_map map_of_eq_None_iff option.collapse set_sort)
  note e = all_some_graph [OF this]
  have "distinct (map fst (map (\<lambda>k. (k, the (?f k))) ?o))"
    using assms(1) by (simp add: o_def)
  note l = map_of_last_wins_distinct [OF this]
  have "map_of (last_wins (map (\<lambda>k. (k, the (?f k))) ?o)) k = map_of ks k" for k
  proof (cases "map_of ks k")
    case None
    then have "k \<notin> set ?o" by (simp add: map_of_eq_None_iff)
    then show ?thesis unfolding l map_of_graph using None by simp
  next
    case (Some r)
    moreover from this have "k \<in> fst ` set ks" by (force dest: map_of_SomeD)
    moreover have "r \<noteq> None" using assms(2) Some by metis
    ultimately show ?thesis using l [of k] by (auto simp: map_of_graph)
  qed
  then show ?thesis using e by (auto simp: marshal_map_def)
qed

text \<open>
  Renaming a legacy key moves its value under the new name, keeps every other member, and
  refuses an object that has both spellings; anything else comes back as it was.
\<close>

theorem rename_key_correct:
  "case rename_key data from to of
     Inl e \<Rightarrow> e = BothKeys \<and> (\<exists>obj. unmarshal_map data = Some obj \<and> map_of obj from \<noteq> None \<and> map_of obj to \<noteq> None)
   | Inr (out, renamed) \<Rightarrow>
       if renamed then (\<exists>obj. unmarshal_map data = Some obj \<and> map_of obj to = None \<and>
           (\<exists>obj'. unmarshal_map out = Some obj' \<and>
              map_of obj' = (map_of obj)(from := None, to := map_of obj from)))
       else out = data"
proof (cases "data = Some JNull \<or> unmarshal_map data = None")
  case True
  then show ?thesis by (auto simp: rename_key_def)
next
  case False
  then obtain obj where o': "unmarshal_map data = Some obj" "data \<noteq> Some JNull" by auto
  show ?thesis
  proof (cases "map_of obj from = None \<or> map_of obj to \<noteq> None")
    case True
    then show ?thesis using o' unfolding rename_key_def by (auto split: option.split)
  next
    case False
    then obtain old where old: "map_of obj from = Some old" "map_of obj to = None" by auto
    then have "old \<noteq> None" using unmarshal_valid(2) [OF o'(1), of "from"] by metis
    let ?new = "AList.update to old (AList.delete from obj)"
    have n: "map_of ?new = (map_of obj)(from := None, to \<mapsto> old)"
      by (simp add: update_conv' delete_conv')
    have "distinct (map fst ?new)" "\<forall>k. map_of ?new k \<noteq> Some None"
      using unmarshal_valid [OF o'(1)] old \<open>old \<noteq> None\<close> unfolding n
      by (auto simp: distinct_update distinct_delete)
    from marshal_unmarshal [OF this] obtain j ks' where
      "marshal_map ?new = Inr j" "unmarshal_map (Some j) = Some ks'" "map_of ks' = map_of ?new"
      by blast
    then show ?thesis using o' old n by (simp add: rename_key_def)
  qed
qed

end
