(* ===== verification/Backup.thy ===== *)
theory Backup
  imports Store
begin

text \<open>
  The parsing half of \<open>internal/core/backup.go\<close>: what a complete replacement of the
  configuration must be before it may discard the live one. The uploaded bytes are their
  length and the JSON documents they hold, one after another; \<open>None\<close> is a syntax error.
\<close>

section \<open>The operations\<close>

record upload =
  size :: nat
  documents :: "json list option"

datatype backup_error = TooLarge | NotOneDocument | DuplicateKeys | NotAnObject
  | WrongSchema | UnknownSections "string list" | Redacted | SectionNotObject string

definition MaxBodyBytes :: nat where "MaxBodyBytes = 4194304"

text \<open>The recursive walk of \<open>uniqueJSON\<close>: no object of the tree repeats a key.\<close>

fun unique_json :: "json \<Rightarrow> bool" where
  "unique_json (JObj ms) = (distinct (map fst ms) \<and> list_all (\<lambda>(k, v). unique_json v) ms)"
| "unique_json (JArr vs) = list_all unique_json vs"
| "unique_json v = True"

fun has_infix :: "string \<Rightarrow> string \<Rightarrow> bool" where
  "has_infix p [] = (p = [])"
| "has_infix p (c # s) = (starts_with p (c # s) \<or> has_infix p s)"

definition credential_key :: "string \<Rightarrow> bool" where
  "credential_key k = (has_infix ''token'' k \<or> has_infix ''password'' k \<or> has_infix ''key'' k
     \<or> has_infix ''secret'' k \<or> k = ''callback_url'' \<or> k = ''hash'')"

fun redacted_backup :: "json \<Rightarrow> bool" where
  "redacted_backup (JObj ms) =
     list_ex (\<lambda>(k, v). (v = JStr ''********'' \<and> credential_key k) \<or> redacted_backup v) ms"
| "redacted_backup (JArr vs) = list_ex redacted_backup vs"
| "redacted_backup v = False"

fun is_object :: "raw \<Rightarrow> bool" where
  "is_object (Some (JObj ms)) = True"
| "is_object r = False"

definition parse_backup :: "store \<Rightarrow> upload \<Rightarrow> backup_error + document" where
  "parse_backup s u =
     (if size u > MaxBodyBytes then Inl TooLarge
      else (case documents u of
         Some [j] \<Rightarrow>
           if \<not> unique_json j then Inl DuplicateKeys
           else (case j of
              JObj ms \<Rightarrow>
                if map_of ms schema_key \<noteq> Some (JStr schema_url) then Inl WrongSchema
                else (case decode_doc s (Some j) of
                   Inl e \<Rightarrow> Inl NotAnObject
                 | Inr doc \<Rightarrow>
                     if unknown doc \<noteq> [] then Inl (UnknownSections (unknown doc))
                     else if redacted_backup j then Inl Redacted
                     else (case find (\<lambda>(k, r). \<not> is_object r) (keys doc) of
                             Some (k, r) \<Rightarrow> Inl (SectionNotObject k)
                           | None \<Rightarrow> Inr doc))
            | _ \<Rightarrow> Inl NotAnObject)
       | _ \<Rightarrow> Inl NotOneDocument))"

section \<open>What an accepted backup promises\<close>

text \<open>The document as it is exported: the schema, then every section.\<close>

definition backup_ok :: "store \<Rightarrow> document \<Rightarrow> bool" where
  "backup_ok s d = (wf_doc d \<and> unknown d = [] \<and> fst ` set (keys d) \<subseteq> set s \<and>
     (\<forall>(k, r) \<in> set (keys d). \<exists>ms. r = Some (JObj ms) \<and> unique_json (JObj ms) \<and>
        \<not> redacted_backup (JObj ms)))"

lemma unknown_empty: "sort (filter P xs) = [] \<longleftrightarrow> (\<forall>x \<in> set xs. \<not> P x)"
  by (metis filter_False filter_empty_conv set_sort set_empty sort_key_simps(1))

lemma is_objectE: "is_object r \<Longrightarrow> (\<And>ms. r = Some (JObj ms) \<Longrightarrow> P) \<Longrightarrow> P"
  by (cases r rule: is_object.cases) auto

lemma parse_backup_cases:
  assumes "parse_backup s u = Inr doc"
  obtains ms where "documents u = Some [JObj ms]" "size u \<le> MaxBodyBytes" "unique_json (JObj ms)"
    "map_of ms schema_key = Some (JStr schema_url)" "decode_doc s (Some (JObj ms)) = Inr doc"
    "unknown doc = []" "\<not> redacted_backup (JObj ms)" "\<forall>(k, r) \<in> set (keys doc). is_object r"
proof -
  obtain j where j: "documents u = Some [j]" "size u \<le> MaxBodyBytes" "unique_json j"
    using assms by (auto simp: parse_backup_def split: if_splits option.splits list.splits)
  then obtain ms where ms: "j = JObj ms"
    using assms by (cases j) (auto simp: parse_backup_def)
  have "find (\<lambda>(k, r). \<not> is_object r) (keys doc) = None" "map_of ms schema_key = Some (JStr schema_url)"
    "decode_doc s (Some (JObj ms)) = Inr doc" "unknown doc = []" "\<not> redacted_backup (JObj ms)"
    using assms j unfolding ms parse_backup_def
    by (simp_all only: option.case list.case json.case if_False not_less simp_thms)
       (auto split: if_splits sum.splits option.splits)
  then show ?thesis
    using j ms by (intro that [of ms]) (auto simp: find_None_iff)
qed

lemma decoded_member:
  assumes "decode_doc s (Some (JObj ms)) = Inr doc" and "(k, Some v) \<in> set (keys doc)"
  shows "(k, v) \<in> set ms"
proof -
  have "map_of (keys doc) k = Some (Some v)"
    using wf_decode_doc [OF assms(1)] assms(2) by (simp add: wf_doc_def)
  then have "map_of (last_wins ms) k = Some (Some v)"
    using assms(1) by (auto simp: decode_doc_def Let_def delete_conv' split: if_splits)
  then have "map_of (rev ms) k = Some v"
    by (auto simp: map_of_last_wins)
  then show ?thesis by (force dest: map_of_SomeD)
qed

lemma decode_unknown:
  assumes "decode_doc s data = Inr d"
  shows "unknown d = [] \<longleftrightarrow> fst ` set (keys d) \<subseteq> set s"
proof -
  have "unknown d = sort (filter (\<lambda>k. k \<notin> set s) (map fst (keys d)))"
    using assms by (auto simp: decode_doc_def Let_def split: option.splits)
  then show ?thesis by (simp only: unknown_empty set_map) blast
qed

text \<open>
  What may be restored, said over the upload: one document, an object whose member \<open>$schema\<close> names this
  build's schema and whose other members are sections of mounted modules, each an object; no object
  anywhere in it repeats a key or has the redaction mark for a credential. A key names a credential
  when one of four words occurs in it, or it is one of two names.
\<close>

inductive part_of :: "json \<Rightarrow> json \<Rightarrow> bool" where
  whole: "part_of j j"
| element: "v \<in> set vs \<Longrightarrow> part_of x v \<Longrightarrow> part_of x (JArr vs)"
| member: "(k, v) \<in> set ms \<Longrightarrow> part_of x v \<Longrightarrow> part_of x (JObj ms)"

inductive_simps part_of_simps:
  "part_of x (JArr vs)" "part_of x (JObj ms)" "part_of x JNull" "part_of x (JBool b)" "part_of x (JNum n)" "part_of x (JStr t)"

definition names_credential :: "string \<Rightarrow> bool" where
  "names_credential k \<longleftrightarrow> (\<exists>a b. k \<in> {a @ ''token'' @ b, a @ ''password'' @ b, a @ ''key'' @ b, a @ ''secret'' @ b}) \<or>
     k \<in> {''callback_url'', ''hash''}"

definition sound_objects :: "json \<Rightarrow> bool" where
  "sound_objects j \<longleftrightarrow> (\<forall>ms. part_of (JObj ms) j \<longrightarrow> distinct (map fst ms) \<and>
     (\<forall>(k, v) \<in> set ms. \<not> (v = JStr ''********'' \<and> names_credential k)))"

definition acceptable :: "store \<Rightarrow> upload \<Rightarrow> (string \<times> json) list \<Rightarrow> bool" where
  "acceptable s u ms \<longleftrightarrow> size u \<le> 4 * 1024 * 1024 \<and> documents u = Some [JObj ms] \<and> sound_objects (JObj ms) \<and>
     (''$schema'', JStr schema_url) \<in> set ms \<and>
     (\<forall>(k, v) \<in> set ms. k = ''$schema'' \<or> k \<in> set s \<and> (\<exists>section. v = JObj section))"

lemma has_infix_iff: "has_infix p s \<longleftrightarrow> (\<exists>a b. s = a @ p @ b)"
proof (induction s)
  case (Cons c s)
  have "(\<exists>a b. c # s = a @ p @ b) \<longleftrightarrow> (\<exists>b. c # s = p @ b) \<or> (\<exists>a b. s = a @ p @ b)" (is "?l \<longleftrightarrow> ?r")
  proof
    assume ?l
    then obtain a b where "c # s = a @ p @ b" by blast
    then show ?r by (cases a) auto
  next
    assume ?r
    then show ?l by (metis append_Cons append_Nil)
  qed
  then show ?case using Cons by (simp add: starts_with_iff)
qed auto

lemma credential_key_iff: "credential_key k \<longleftrightarrow> names_credential k"
  by (auto simp: credential_key_def names_credential_def has_infix_iff)

lemma sound_objects_simps:
  "sound_objects (JArr vs) \<longleftrightarrow> (\<forall>v \<in> set vs. sound_objects v)"
  "sound_objects (JObj ms) \<longleftrightarrow> distinct (map fst ms) \<and> (\<forall>(k, v) \<in> set ms. \<not> (v = JStr ''********'' \<and> names_credential k)) \<and>
     (\<forall>(k, v) \<in> set ms. sound_objects v)"
  "sound_objects JNull" "sound_objects (JBool b)" "sound_objects (JNum n)" "sound_objects (JStr t)"
  unfolding sound_objects_def part_of_simps by blast+

lemma sound_objects_iff: "sound_objects j \<longleftrightarrow> unique_json j \<and> \<not> redacted_backup j"
proof (induction j)
  case (JObj ms)
  then have "(\<forall>(k, v) \<in> set ms. sound_objects v) \<longleftrightarrow> (\<forall>(k, v) \<in> set ms. unique_json v \<and> \<not> redacted_backup v)" by fastforce
  then show ?case unfolding sound_objects_simps by (auto simp: list_all_iff list_ex_iff credential_key_iff)
qed (auto simp: sound_objects_simps list_all_iff list_ex_iff)

lemma decode_members:
  assumes "distinct (map fst ms)" and "decode_doc s (Some (JObj ms)) = Inr doc"
  shows "map_of (keys doc) k = (if k = ''$schema'' then None else map_option Some (map_of ms k))"
proof -
  have "map_of (keys doc) = (map_of (last_wins ms))(schema_key := None)"
    using assms(2) by (auto simp: decode_doc_def Let_def delete_conv')
  then show ?thesis by (simp add: schema_key_def map_of_last_wins_distinct [OF assms(1)])
qed

lemma decoded_acceptable:
  assumes d: "distinct (map fst ms)" and doc: "decode_doc s (Some (JObj ms)) = Inr doc"
  shows "unknown doc = [] \<and> (\<forall>(k, r) \<in> set (keys doc). is_object r) \<longleftrightarrow>
    (\<forall>(k, v) \<in> set ms. k = ''$schema'' \<or> k \<in> set s \<and> (\<exists>section. v = JObj section))"
proof -
  have o: "is_object (Some v) \<longleftrightarrow> (\<exists>section. v = JObj section)" for v by (cases v) auto
  have w: "(k, r) \<in> set (keys doc) \<longleftrightarrow> map_of (keys doc) k = Some r" for k r
    using wf_decode_doc [OF doc] by (auto simp: wf_doc_def intro: map_of_SomeD)
  have k: "(k, r) \<in> set (keys doc) \<longleftrightarrow> k \<noteq> ''$schema'' \<and> (\<exists>v. (k, v) \<in> set ms \<and> r = Some v)" for k r
    unfolding w decode_members [OF d doc] by (auto simp: d)
  have "unknown doc = [] \<longleftrightarrow> (\<forall>(k, v) \<in> set ms. k = ''$schema'' \<or> k \<in> set s)"
  proof -
    have "unknown doc = [] \<longleftrightarrow> (\<forall>k r. (k, r) \<in> set (keys doc) \<longrightarrow> k \<in> set s)"
      unfolding decode_unknown [OF doc] by fastforce
    then show ?thesis unfolding k by blast
  qed
  moreover have "(\<forall>(k, r) \<in> set (keys doc). is_object r) \<longleftrightarrow> (\<forall>(k, v) \<in> set ms. k = ''$schema'' \<or> (\<exists>section. v = JObj section))"
  proof -
    have "(\<forall>(k, r) \<in> set (keys doc). is_object r) \<longleftrightarrow> (\<forall>k r. (k, r) \<in> set (keys doc) \<longrightarrow> is_object r)" by fast
    also have "\<dots> \<longleftrightarrow> (\<forall>k v. k \<noteq> ''$schema'' \<and> (k, v) \<in> set ms \<longrightarrow> is_object (Some v))" unfolding k by blast
    finally show ?thesis unfolding o by blast
  qed
  ultimately show ?thesis by blast
qed

text \<open>
  C26. A backup is accepted exactly when it is one JSON document of at most 4 MiB, an object with this
  build's schema and otherwise only sections of mounted modules, each an object, in which no object
  repeats a key and no credential, at any depth, is the redaction mark. The document that is restored
  then has the sections of the upload, each with the value it has there, and nothing else.
\<close>

theorem parse_backup_exact:
  "case parse_backup s u of
     Inr doc \<Rightarrow> (\<exists>ms. acceptable s u ms \<and>
       (\<forall>k. map_of (keys doc) k = (if k = ''$schema'' then None else map_option Some (map_of ms k))))
   | Inl e \<Rightarrow> \<not> (\<exists>ms. acceptable s u ms)"
proof (cases "parse_backup s u")
  case (Inr doc)
  then obtain ms where p: "documents u = Some [JObj ms]" "size u \<le> MaxBodyBytes" "unique_json (JObj ms)"
    "map_of ms schema_key = Some (JStr schema_url)" "decode_doc s (Some (JObj ms)) = Inr doc"
    "unknown doc = []" "\<not> redacted_backup (JObj ms)" "\<forall>(k, r) \<in> set (keys doc). is_object r"
    by (rule parse_backup_cases)
  then have d: "distinct (map fst ms)" by simp
  have "acceptable s u ms"
    using p decoded_acceptable [OF d p(5)] map_of_SomeD [OF p(4)] sound_objects_iff [of "JObj ms"]
    by (simp add: acceptable_def MaxBodyBytes_def schema_key_def del: unique_json.simps redacted_backup.simps)
  then show ?thesis using Inr decode_members [OF d p(5)] by auto
next
  case (Inl e)
  have False if a: "acceptable s u ms" for ms
  proof -
    have d: "distinct (map fst ms)" and sx: "unique_json (JObj ms)" "\<not> redacted_backup (JObj ms)"
      using a sound_objects_iff [of "JObj ms"] by (simp_all add: acceptable_def)
    obtain doc where doc: "decode_doc s (Some (JObj ms)) = Inr doc" by (simp add: decode_doc_def Let_def)
    have ok: "unknown doc = []" "\<forall>(k, r) \<in> set (keys doc). is_object r"
      using a decoded_acceptable [OF d doc] unfolding acceptable_def by blast+
    then have f: "find (\<lambda>(k, r). \<not> is_object r) (keys doc) = None" by (auto simp: find_None_iff)
    have "map_of ms schema_key = Some (JStr schema_url)" "\<not> size u > MaxBodyBytes" "documents u = Some [JObj ms]"
      using a d by (simp_all add: acceptable_def schema_key_def MaxBodyBytes_def)
    then have "parse_backup s u = Inr doc"
      unfolding parse_backup_def using sx doc ok f by (simp del: unique_json.simps redacted_backup.simps)
    then show False using Inl by simp
  qed
  then show ?thesis using Inl by auto
qed

lemma export_parses:
  assumes "mounted s" and "backup_ok s d" and "n \<le> MaxBodyBytes"
  shows "\<exists>j d'. encode_doc s d = Inr j \<and> parse_backup s \<lparr>size = n, documents = Some [j]\<rparr> = Inr d' \<and>
    map_of (keys d') = map_of (keys d)"
proof -
  have w: "wf_doc d" using assms(2) by (simp add: backup_ok_def)
  from encode_members [OF assms(1) w] obtain ms where
    ms: "encode_doc s d = Inr (JObj ((schema_key, JStr schema_url) # ms))"
    and di: "distinct (map fst ms)" "schema_key \<notin> fst ` set ms"
    and mem: "\<And>k v. (k, v) \<in> set ms \<Longrightarrow> (k, Some v) \<in> set (keys d)"
    by metis
  let ?j = "JObj ((schema_key, JStr schema_url) # ms)"
  have obj: "unique_json v \<and> \<not> redacted_backup v \<and> v \<noteq> JStr ''********''" if "(k, v) \<in> set ms" for k v
    using assms(2) mem [OF that] by (fastforce simp: backup_ok_def)
  then have u: "unique_json ?j" "\<not> redacted_backup ?j"
    using di by (fastforce simp: list_all_iff list_ex_iff credential_key_def schema_key_def schema_url_def)+
  from doc_codec.dec_enc [OF assms(1) w ms] obtain d' where d':
    "decode_doc s (Some ?j) = Inr d'" "map_of (keys d') = map_of (keys d)" "wf_doc d'"
    by blast
  have dom: "fst ` set (keys d') = fst ` set (keys d)"
    using arg_cong [OF d'(2), of dom] by (simp add: dom_map_of_conv_image_fst)
  have "unknown d' = []"
    using d'(1) assms(2) dom by (simp add: decode_unknown backup_ok_def)
  moreover have "is_object r" if "(k, r) \<in> set (keys d')" for k r
  proof -
    have "map_of (keys d) k = Some r"
      using that d' by (simp add: wf_doc_def flip: d'(2))
    then have "(k, r) \<in> set (keys d)" by (rule map_of_SomeD)
    then show ?thesis using assms(2) by (fastforce simp: backup_ok_def)
  qed
  then have "find (\<lambda>(k, r). \<not> is_object r) (keys d') = None"
    by (auto simp: find_None_iff)
  ultimately have "parse_backup s \<lparr>size = n, documents = Some [?j]\<rparr> = Inr d'"
    using u d'(1) assms(3) by (simp add: parse_backup_def del: unique_json.simps redacted_backup.simps)
  then show ?thesis using ms d'(2) by blast
qed

text \<open>
  Restoring what was exported: the text a sound document encodes to is accepted again,
  with every section as it was.
\<close>

theorem export_restores:
  assumes "mounted s" and "backup_ok s d" and "n \<le> MaxBodyBytes"
  shows "\<exists>j d'. encode_doc s d = Inr j \<and> parse_backup s \<lparr>size = n, documents = Some [j]\<rparr> = Inr d' \<and>
    map_of (keys d') = map_of (keys d)"
  using assms by (rule export_parses)

definition sample_doc :: document where
  "sample_doc = \<lparr>keys = [(''dhcp'', Some (JObj [(''lease'', JNum ''12'')]))], unknown = []\<rparr>"

definition sample_upload :: upload where
  "sample_upload = \<lparr>size = 80, documents = Some [JObj [(''$schema'', JStr schema_url),
     (''dhcp'', JObj [(''lease'', JNum ''12'')])]]\<rparr>"

lemma parse_sample: "parse_backup [''link'', ''dhcp''] sample_upload = Inr sample_doc"
  by (simp add: parse_backup_def sample_upload_def sample_doc_def MaxBodyBytes_def decode_doc_def
      last_wins_def schema_key_def schema_url_def Let_def)

lemma parse_backup_exact_witness:
  "map_of (keys sample_doc) ''dhcp'' = Some (Some (JObj [(''lease'', JNum ''12'')])) \<and> map_of (keys sample_doc) ''$schema'' = None"
proof -
  obtain ms where "acceptable [''link'', ''dhcp''] sample_upload ms"
      "\<And>k. map_of (keys sample_doc) k = (if k = ''$schema'' then None else map_option Some (map_of ms k))"
    using parse_backup_exact [of "[''link'', ''dhcp'']" sample_upload, unfolded parse_sample] by auto
  then show ?thesis by (auto simp: acceptable_def sample_upload_def)
qed

lemma export_restores_witness:
  "\<exists>j d'. encode_doc [''link'', ''dhcp''] sample_doc = Inr j \<and>
    parse_backup [''link'', ''dhcp''] \<lparr>size = 80, documents = Some [j]\<rparr> = Inr d' \<and>
    map_of (keys d') = map_of (keys sample_doc)"
  by (rule export_restores [OF mounted_sample])
     (simp_all add: backup_ok_def wf_doc_def sample_doc_def schema_key_def MaxBodyBytes_def)

end
