(* ===== verification/Recovery.thy ===== *)
theory Recovery
  imports Backup
begin

text \<open>
  \<open>internal/core/recovery.go\<close>, the gate of \<open>apply_gate.go\<close> and the restore of \<open>backup.go\<close>:
  a connectivity change is on trial until it is confirmed, and is undone at its deadline, on
  request, or at the next start. The world is the memory of the process, the journal on
  disk, the configuration file, and a \<open>runtime\<close> the model leaves open. The clock, the random
  source, the disk and the rollback hook are the environment of one operation. Operations run
  under the global apply lock, so they are atomic but for a crash.
\<close>

section \<open>The world\<close>

datatype rstate = Pending | Recovering | RFailed

record rtrial =
  t_id :: string
  t_deadline :: int
  t_state :: rstate
  t_error :: string
  t_before :: raw
  t_from :: raw
  t_runtime :: raw

datatype journal_file = Absent | Garbled | Journal rtrial

record 'x world =
  up :: bool
  trial :: "rtrial option"
  journal :: journal_file
  main :: disk_file
  legacy :: "string \<Rightarrow> disk_file"
  runtime :: 'x

text \<open>
  \<open>WriteFileAtomic\<close> leaves the old file or the new one; it may also fail after the rename.
  Removing a file may fail, or succeed and not reach the disk for sure.
\<close>

datatype wrote = Written | KeptOld | NewButError
datatype removed = RemovedOk | RemoveErr | RemovedUnsynced

record 'x env =
  now :: int
  later :: int
  nonce :: "string option"
  timeout :: int
  capture :: "(string + raw) option"
  first_write :: wrote
  second_write :: wrote
  removal :: removed
  hook :: "(document \<Rightarrow> document \<Rightarrow> raw \<Rightarrow> 'x \<Rightarrow> string option \<times> disk_file \<times> 'x) option"

datatype rerror = AwaitingTrial | StoreErr store_error | RandErr | CaptureErr string
  | PersistErr | InvalidJournal | ReadJournalErr | RollbackErr string | RemoveErr'
  | NotPending | DeadlinePassed | NotRunning

section \<open>The operations\<close>

definition persist :: "wrote \<Rightarrow> rtrial \<Rightarrow> 'x world \<Rightarrow> bool \<times> 'x world" where
  "persist o' t w = (case o' of
     Written \<Rightarrow> (True, w\<lparr>journal := Journal t\<rparr>)
   | KeptOld \<Rightarrow> (False, w)
   | NewButError \<Rightarrow> (False, w\<lparr>journal := Journal t\<rparr>))"

definition load_current :: "store \<Rightarrow> 'x world \<Rightarrow> store_error + document" where
  "load_current s w = load_doc s (main w) (legacy w)"

definition default_timeout :: int where "default_timeout = 120 * 1000000000"

definition new_trial :: "string \<Rightarrow> int \<Rightarrow> json \<Rightarrow> raw \<Rightarrow> rtrial" where
  "new_trial i d b r = \<lparr>t_id = i, t_deadline = d, t_state = Pending, t_error = '''',
     t_before = Some b, t_from = None, t_runtime = r\<rparr>"

definition recovery_begin :: "store \<Rightarrow> 'x env \<Rightarrow> 'x world \<Rightarrow> rerror option \<times> 'x world" where
  "recovery_begin s e w =
     (if trial w \<noteq> None then (Some AwaitingTrial, w)
      else (case bind_res (load_current s w) (encode_doc s) of
        Inl x \<Rightarrow> (Some (StoreErr x), w)
      | Inr before \<Rightarrow>
          (case nonce e of
             None \<Rightarrow> (Some RandErr, w)
           | Some i \<Rightarrow>
               (let deadline = now e + (if timeout e = 0 then default_timeout else timeout e)
                in case (case capture e of None \<Rightarrow> Inr None | Some r \<Rightarrow> r) of
                     Inl x \<Rightarrow> (Some (CaptureErr x), w)
                   | Inr rt \<Rightarrow>
                       (let t = new_trial i deadline before rt;
                            (ok, w') = persist (first_write e) t w
                        in if ok then (None, w'\<lparr>trial := Some t\<rparr>)
                           else (Some PersistErr, w'))))))"

definition recovery_clear :: "'x env \<Rightarrow> 'x world \<Rightarrow> rerror option \<times> 'x world" where
  "recovery_clear e w = (case removal e of
     RemoveErr \<Rightarrow> (Some RemoveErr', w)
   | RemovedUnsynced \<Rightarrow> (Some RemoveErr', w\<lparr>journal := Absent\<rparr>)
   | RemovedOk \<Rightarrow> (None, w\<lparr>journal := Absent, trial := None\<rparr>))"

text \<open>
  \<open>revert\<close> in two halves: up to the journal saying \<open>recovering\<close>, with the documents the hook
  will get, and from the hook on.
\<close>

definition revert_from :: "store \<Rightarrow> rtrial \<Rightarrow> 'x world \<Rightarrow> store_error + raw" where
  "revert_from s t w = (if t_from t \<noteq> None then Inr (t_from t)
     else bind_res (load_current s w) (\<lambda>d. bind_res (encode_doc s d) (\<lambda>j. Inr (Some j))))"

definition revert_prepare ::
  "store \<Rightarrow> rtrial \<Rightarrow> 'x world \<Rightarrow> rerror + (document \<times> document \<times> rtrial)" where
  "revert_prepare s t w =
     (case decode_doc s (t_before t) of
        Inl x \<Rightarrow> Inl (StoreErr x)
      | Inr before \<Rightarrow>
          (case revert_from s t w of
             Inl x \<Rightarrow> Inl (StoreErr x)
           | Inr f \<Rightarrow>
               (case decode_doc s f of
                  Inl x \<Rightarrow> Inl (StoreErr x)
                | Inr from \<Rightarrow>
                    Inr (from, before, t\<lparr>t_from := f, t_state := Recovering, t_error := ''''\<rparr>))))"

definition revert_finish ::
  "'x env \<Rightarrow> document \<Rightarrow> document \<Rightarrow> rtrial \<Rightarrow> 'x world \<Rightarrow> rerror option \<times> 'x world" where
  "revert_finish e from before t w =
     (let (err, w') =
        (case hook e of
           None \<Rightarrow> (Some ''connectivity recovery is unavailable'', w)
         | Some h \<Rightarrow>
             (let (err, m, x) = h from before (t_runtime t) (runtime w)
              in (err, w\<lparr>main := m, runtime := x\<rparr>)))
      in case err of
           None \<Rightarrow> recovery_clear e w'
         | Some msg \<Rightarrow>
             (let t' = t\<lparr>t_state := RFailed, t_error := msg, t_deadline := later e + 10 * 1000000000\<rparr>
              in (Some (RollbackErr msg), snd (persist (second_write e) t' (w'\<lparr>trial := Some t'\<rparr>)))))"

definition recovery_revert :: "store \<Rightarrow> 'x env \<Rightarrow> 'x world \<Rightarrow> rerror option \<times> 'x world" where
  "recovery_revert s e w = (case trial w of
     None \<Rightarrow> (None, w)
   | Some t \<Rightarrow>
       (case revert_prepare s t w of
          Inl x \<Rightarrow> (Some x, w)
        | Inr (from, before, t') \<Rightarrow>
            (let (ok, w') = persist (first_write e) t' w
             in if \<not> ok then (Some PersistErr, w')
                else revert_finish e from before t' (w'\<lparr>trial := Some t'\<rparr>))))"

definition unreadable_trial :: rtrial where
  "unreadable_trial = \<lparr>t_id = '''', t_deadline = 0, t_state = RFailed,
     t_error = ''Cannot read recovery journal; repair it from the console: '',
     t_before = None, t_from = None, t_runtime = None\<rparr>"

text \<open>
  \<open>Load\<close>, at the start of the process; \<open>readable\<close> is whether the journal could be read, \<open>held\<close>
  whether the lock was given. The deferred function marks a journal that cannot be used.
\<close>

definition recovery_load ::
  "store \<Rightarrow> bool \<Rightarrow> bool \<Rightarrow> 'x env \<Rightarrow> 'x world \<Rightarrow> rerror option \<times> 'x world" where
  "recovery_load s readable held e w0 =
     (let w = w0\<lparr>up := True, trial := None\<rparr>;
          refuse = (\<lambda>x. (Some x, w\<lparr>trial := Some unreadable_trial\<rparr>))
      in case journal w of
           Absent \<Rightarrow> if readable then (None, w) else refuse ReadJournalErr
         | Garbled \<Rightarrow> refuse (if readable then InvalidJournal else ReadJournalErr)
         | Journal t \<Rightarrow>
             if \<not> readable then refuse ReadJournalErr
             else if t_id t = '''' \<or> t_before t = None then refuse InvalidJournal
             else (case decode_doc s (t_before t) of
                     Inl x \<Rightarrow> refuse (StoreErr x)
                   | Inr d \<Rightarrow>
                       if held then recovery_revert s e (w\<lparr>trial := Some t\<rparr>)
                       else (Some NotRunning, w\<lparr>trial := Some t\<rparr>)))"

text \<open>One tick of \<open>Run\<close>.\<close>

definition recovery_tick :: "store \<Rightarrow> 'x env \<Rightarrow> 'x world \<Rightarrow> rerror option \<times> 'x world" where
  "recovery_tick s e w = (case trial w of
     None \<Rightarrow> (None, w)
   | Some t \<Rightarrow>
       if t_id t = '''' \<or> now e < t_deadline t then (None, w) else recovery_revert s e w)"

text \<open>The body of \<open>finish\<close> under the lock.\<close>

definition view_id :: "'x world \<Rightarrow> string" where
  "view_id w = (case trial w of None \<Rightarrow> '''' | Some t \<Rightarrow> t_id t)"

definition recovery_finish ::
  "store \<Rightarrow> bool \<Rightarrow> string \<Rightarrow> 'x env \<Rightarrow> 'x world \<Rightarrow> rerror option \<times> 'x world" where
  "recovery_finish s undo i e w =
     (if i = '''' \<or> view_id w \<noteq> i then (Some NotPending, w)
      else if undo then recovery_revert s e w
      else (case trial w of
              None \<Rightarrow> (Some DeadlinePassed, w)
            | Some t \<Rightarrow>
                if t_state t \<noteq> Pending \<or> \<not> now e < t_deadline t then (Some DeadlinePassed, w)
                else recovery_clear e w))"

section \<open>Gates\<close>

record apply_gate =
  dry_run :: bool
  confirm :: bool

definition gate_check :: "apply_gate \<Rightarrow> bool \<Rightarrow> bool \<Rightarrow> bool" where
  "gate_check g disruptive repair = (\<not> (dry_run g \<or> (disruptive \<and> \<not> confirm g \<and> \<not> repair)))"

text \<open>\<open>trial_header\<close> is the recovery identifier the request carries, empty for none.\<close>

definition protect_connectivity ::
  "store \<Rightarrow> string \<Rightarrow> bool \<Rightarrow> 'x env \<Rightarrow> 'x world \<Rightarrow> rerror option \<times> 'x world" where
  "protect_connectivity s trial_header needed e w =
     (if \<not> needed then (None, w)
      else if trial_header \<noteq> '''' \<and>
              (case trial w of None \<Rightarrow> False
               | Some t \<Rightarrow> t_id t = trial_header \<and> t_state t = Pending \<and> now e < t_deadline t)
           then (None, w)
      else recovery_begin s e w)"

definition mutation_allowed :: "string \<Rightarrow> int \<Rightarrow> 'x world \<Rightarrow> bool" where
  "mutation_allowed trial_header t0 w = (case trial w of
     None \<Rightarrow> True
   | Some t \<Rightarrow> t_state t = Pending \<and> t0 < t_deadline t \<and> trial_header = t_id t)"

section \<open>Steps\<close>

text \<open>
  What can happen to a router, one operation at a time. An \<open>Edit\<close> is any other writer of the
  configuration and the system; it holds the apply lock and does not touch the journal. A
  \<open>Crash\<close> forgets the memory; a \<open>CrashReverting\<close> comes while the rollback hook is running,
  and leaves whatever it had done.
\<close>

datatype 'x action = Begin "'x env" | Load bool bool "'x env" | Tick "'x env"
  | Finish bool string "'x env" | Edit disk_file 'x | Crash | CrashReverting "'x env" disk_file 'x

definition crash :: "'x world \<Rightarrow> 'x world" where
  "crash w = w\<lparr>up := False, trial := None\<rparr>"

text \<open>Requests and ticks need a running process, a start one that is not.\<close>

fun enabled :: "'x action \<Rightarrow> 'x world \<Rightarrow> bool" where
  "enabled (Load readable held e) w = (\<not> up w)"
| "enabled (Edit m x) w = True"
| "enabled Crash w = True"
| "enabled a w = up w"

fun act :: "store \<Rightarrow> 'x action \<Rightarrow> 'x world \<Rightarrow> rerror option \<times> 'x world" where
  "act s (Begin e) w = recovery_begin s e w"
| "act s (Load readable held e) w = recovery_load s readable held e w"
| "act s (Tick e) w = recovery_tick s e w"
| "act s (Finish undo i e) w = recovery_finish s undo i e w"
| "act s (Edit m x) w = (None, w\<lparr>main := m, runtime := x\<rparr>)"
| "act s Crash w = (None, crash w)"
| "act s (CrashReverting e m x) w =
     (case trial w of
        None \<Rightarrow> (None, crash w)
      | Some t \<Rightarrow>
          (case revert_prepare s t w of
             Inl err \<Rightarrow> (None, crash w)
           | Inr (from, before, t') \<Rightarrow>
               (None, crash (snd (persist (first_write e) t' w)\<lparr>main := m, runtime := x\<rparr>))))"

text \<open>
  The recovery point \<open>b\<close> is held: the journal has it, and a running process either has it in
  memory too or has locked the configuration because it could not read the journal.
\<close>

definition locked_out :: "rtrial \<Rightarrow> bool" where
  "locked_out t = (t_id t = '''' \<and> t_before t = None)"

definition holds :: "raw \<Rightarrow> 'x world \<Rightarrow> bool" where
  "holds b w = ((\<exists>t. journal w = Journal t \<and> t_before t = b) \<and>
     (if up w then \<exists>t. trial w = Some t \<and> (t_before t = b \<or> locked_out t) else trial w = None))"

text \<open>The two ways out of a trial: it was confirmed in time, or the hook restored the old state.\<close>

definition confirmed :: "'x action \<Rightarrow> 'x world \<Rightarrow> bool" where
  "confirmed a w = (\<exists>i e t. a = Finish False i e \<and> trial w = Some t \<and> t_id t = i \<and> i \<noteq> '''' \<and>
     t_state t = Pending \<and> now e < t_deadline t)"

text \<open>The environment of an action that may run the hook.\<close>

fun action_env :: "'x action \<Rightarrow> 'x env option" where
  "action_env (Load readable held e) = Some e"
| "action_env (Tick e) = Some e"
| "action_env (Finish undo i e) = (if undo then Some e else None)"
| "action_env a = None"

definition restored :: "store \<Rightarrow> 'x env \<Rightarrow> raw \<Rightarrow> bool" where
  "restored s e b = (\<exists>h before from rt x. hook e = Some h \<and> decode_doc s b = Inr before \<and>
     fst (h from before rt x) = None)"

lemma persist_simps [simp]:
  "trial (snd (persist o' t w)) = trial w" "up (snd (persist o' t w)) = up w"
  "main (snd (persist o' t w)) = main w" "runtime (snd (persist o' t w)) = runtime w"
  "legacy (snd (persist o' t w)) = legacy w"
  by (simp_all add: persist_def split: wrote.splits)

lemma persist_ok: "fst (persist o' t w) \<Longrightarrow> journal (snd (persist o' t w)) = Journal t"
  by (simp add: persist_def split: wrote.splits)

lemma journal_persist: "journal (snd (persist o' t w)) \<in> {Journal t, journal w}"
  by (simp add: persist_def split: wrote.splits)

lemma decode_doc_None: "decode_doc s r = Inr d \<Longrightarrow> r \<noteq> None"
  by (cases r) (auto simp: decode_doc_def)

lemma revert_prepare_before:
  assumes "revert_prepare s t w = Inr (from, before, t')"
  shows "decode_doc s (t_before t) = Inr before \<and> t_before t' = t_before t \<and> t_id t' = t_id t \<and>
    (t_from t \<noteq> None \<longrightarrow> t_from t' = t_from t) \<and> decode_doc s (t_from t') = Inr from"
  using assms
  by (auto simp: revert_prepare_def revert_from_def bind_res_iffs split: sum.splits if_splits)

text \<open>Writing a trial of the same recovery point keeps it, whatever the disk does.\<close>

lemma holds_persist:
  assumes "holds b w" and "t_before t = b"
  shows "holds b (snd (persist o' t w))" "holds b (snd (persist o' t w)\<lparr>main := m, runtime := x\<rparr>)"
  using assms journal_persist [of o' t w] by (auto simp: holds_def)

lemma holds_memory:
  assumes "holds b w" and "up w" and "t_before t = b"
  shows "holds b (w\<lparr>trial := Some t\<rparr>)"
  using assms by (auto simp: holds_def)

lemma holds_system [simp]: "holds b (w\<lparr>main := m, runtime := x\<rparr>) = holds b w"
  by (simp add: holds_def)

lemma holds_crash: "holds b w \<Longrightarrow> holds b (crash w)"
  by (auto simp: holds_def crash_def)

lemma revert_finish_holds:
  assumes "holds b w" and "up w" and "t_before t = b"
    and "\<not> (\<exists>h. hook e = Some h \<and> fst (h from before (t_runtime t) (runtime w)) = None)"
  shows "holds b (snd (revert_finish e from before t w))"
proof (cases "hook e")
  case None
  then show ?thesis
    using assms by (auto simp: revert_finish_def Let_def intro!: holds_persist(1) holds_memory)
next
  case (Some h)
  obtain err m x where h: "h from before (t_runtime t) (runtime w) = (err, m, x)"
    by (cases "h from before (t_runtime t) (runtime w)") auto
  then obtain msg where "err = Some msg" using assms(4) Some by (cases err) auto
  then show ?thesis
    using Some h assms by (auto simp: revert_finish_def Let_def intro!: holds_persist(1) holds_memory)
qed

lemma revert_holds:
  assumes "holds b w" and "up w" and "\<not> restored s e b"
  shows "holds b (snd (recovery_revert s e w))"
proof -
  obtain t where t: "trial w = Some t" "t_before t = b \<or> locked_out t"
    using assms(1,2) by (auto simp: holds_def)
  show ?thesis
  proof (cases "revert_prepare s t w")
    case (Inl x)
    then show ?thesis using assms t by (simp add: recovery_revert_def)
  next
    case (Inr p)
    obtain "from" before t' where p: "p = (from, before, t')" by (cases p) auto
    note r = revert_prepare_before [OF Inr [unfolded p]]
    then have "t_before t \<noteq> None" using decode_doc_None by blast
    then have b: "t_before t' = b" "decode_doc s b = Inr before"
      using t(2) r by (auto simp: locked_out_def)
    let ?w = "snd (persist (first_write e) t' w)"
    have "holds b (snd (revert_finish e from before t' (?w\<lparr>trial := Some t'\<rparr>)))"
      using assms b by (intro revert_finish_holds holds_memory holds_persist(1)) (auto simp: restored_def)
    then show ?thesis
      using t Inr p holds_persist(1) [OF assms(1) b(1), of "first_write e"]
      by (simp add: recovery_revert_def case_prod_beta Let_def)
  qed
qed

lemma point_kept:
  assumes "holds b w" and "enabled a w" and "\<not> confirmed a w"
    and "\<forall>e. action_env a = Some e \<longrightarrow> \<not> restored s e b"
  shows "holds b (snd (act s a w))"
proof (cases a)
  case (Begin e)
  then show ?thesis using assms by (auto simp: holds_def recovery_begin_def)
next
  case (Load readable held e)
  then have d: "\<not> up w" "trial w = None" using assms by (auto simp: holds_def)
  obtain t where t: "journal w = Journal t" "t_before t = b" using assms(1) by (auto simp: holds_def)
  let ?w = "w\<lparr>up := True, trial := None\<rparr>"
  have refuse: "holds b (?w\<lparr>trial := Some unreadable_trial\<rparr>)" and mem: "holds b (?w\<lparr>trial := Some t\<rparr>)"
    using t by (auto simp: holds_def locked_out_def unreadable_trial_def)
  then have "holds b (snd (recovery_revert s e (?w\<lparr>trial := Some t\<rparr>)))"
    using assms(4) Load by (intro revert_holds) auto
  then show ?thesis
    using Load t refuse mem by (auto simp: recovery_load_def Let_def split: sum.split)
next
  case (Tick e)
  then show ?thesis
    using assms revert_holds [of b w s e] by (auto simp: recovery_tick_def split: option.splits)
next
  case (Finish undo i e)
  then show ?thesis
    using assms revert_holds [of b w s e]
    by (auto simp: recovery_finish_def confirmed_def view_id_def split: option.splits)
next
  case (Edit m x)
  then show ?thesis using assms by simp
next
  case Crash
  then show ?thesis using assms by (simp add: holds_crash)
next
  case (CrashReverting e m x)
  then have u: "up w" using assms(2) by simp
  then obtain t where t: "trial w = Some t" "t_before t = b \<or> locked_out t"
    using assms(1) by (auto simp: holds_def)
  have "holds b (crash (snd (persist (first_write e) t' w)\<lparr>main := m, runtime := x\<rparr>))"
    if "revert_prepare s t w = Inr (from, before, t')" for "from" before t'
  proof -
    note r = revert_prepare_before [OF that]
    then have "t_before t \<noteq> None" using decode_doc_None by blast
    then have "t_before t' = b" using t(2) r by (auto simp: locked_out_def)
    then show ?thesis using assms(1) by (intro holds_crash holds_persist(2))
  qed
  then show ?thesis
    using CrashReverting t holds_crash [OF assms(1)] by (auto split: sum.splits)
qed

text \<open>
  C5. A recovery point survives everything but a confirmation in time and a rollback that
  succeeded: failed writes, failed rollbacks, edits by others, and a crash at any moment, one
  in the middle of a rollback included.
\<close>

theorem recovery_point_kept:
  assumes "holds b w" and "enabled a w" and "\<not> confirmed a w"
    and "\<forall>e. action_env a = Some e \<longrightarrow> \<not> restored s e b"
  shows "holds b (snd (act s a w))"
  using assms by (rule point_kept)

section \<open>Runs\<close>

text \<open>
  A run in which trial \<open>b\<close> stays unresolved: any enabled actions, none of which confirms it in
  time or restores its recovery point.
\<close>

inductive unresolved :: "store \<Rightarrow> raw \<Rightarrow> 'x world \<Rightarrow> 'x world \<Rightarrow> bool" for s b where
  start: "unresolved s b w w"
| step: "unresolved s b w w' \<Longrightarrow> enabled a w' \<Longrightarrow> \<not> confirmed a w' \<Longrightarrow>
    (\<forall>e. action_env a = Some e \<longrightarrow> \<not> restored s e b) \<Longrightarrow> unresolved s b w (snd (act s a w'))"

inductive_cases unresolvedE: "unresolved s b w w'"

lemma begin_succeeds:
  assumes "recovery_begin s e w = (None, w')"
  obtains d j i rt where "trial w = None" "load_current s w = Inr d" "encode_doc s d = Inr j"
    "nonce e = Some i"
    "w' = w\<lparr>journal := Journal (new_trial i (now e + (if timeout e = 0 then default_timeout else timeout e)) j rt),
            trial := Some (new_trial i (now e + (if timeout e = 0 then default_timeout else timeout e)) j rt)\<rparr>"
proof -
  have "trial w = None" using assms by (cases "trial w") (auto simp: recovery_begin_def)
  moreover from this assms obtain j where j: "bind_res (load_current s w) (encode_doc s) = Inr j"
    by (cases "bind_res (load_current s w) (encode_doc s)") (auto simp: recovery_begin_def)
  moreover from calculation assms obtain i where i: "nonce e = Some i"
    by (cases "nonce e") (auto simp: recovery_begin_def)
  moreover from calculation assms obtain rt where
    "(case capture e of None \<Rightarrow> Inr None | Some r \<Rightarrow> r) = Inr rt"
    by (cases "case capture e of None \<Rightarrow> Inr None | Some r \<Rightarrow> r") (auto simp: recovery_begin_def Let_def)
  ultimately show ?thesis
    using assms that [of _ j i rt]
    by (auto simp: recovery_begin_def persist_def Let_def bind_res_Inr_iff split: wrote.splits)
qed

lemma new_trial_simps [simp]:
  "t_id (new_trial i d b r) = i" "t_deadline (new_trial i d b r) = d" "t_state (new_trial i d b r) = Pending"
  "t_before (new_trial i d b r) = Some b" "t_from (new_trial i d b r) = None" "t_runtime (new_trial i d b r) = r"
  by (simp_all add: new_trial_def)

lemma wf_load_legacy:
  assumes "load_legacy fs ns acc = Inr ks" and "wf_doc \<lparr>keys = acc, unknown = []\<rparr>" and "schema_key \<notin> set ns"
  shows "wf_doc \<lparr>keys = ks, unknown = []\<rparr>"
  using assms
proof (induction ns arbitrary: acc)
  case (Cons n ns)
  have "wf_doc \<lparr>keys = AList.update n (Some v) acc, unknown = []\<rparr>" for v
    using wf_set_raw [OF Cons.prems(2), of n v] Cons.prems(3) by (auto simp: set_raw_def)
  then show ?case
    using Cons by (auto split: disk_file.splits option.splits sum.splits)
qed simp

lemma wf_load_current:
  assumes "mounted s" and "load_current s w = Inr d"
  shows "wf_doc d"
proof (cases "main w")
  case Missing
  then obtain ks where "load_legacy (legacy w) s [] = Inr ks" "d = \<lparr>keys = ks, unknown = []\<rparr>"
    using assms(2) by (auto simp: load_current_def load_doc_def bind_res_Inr_iff)
  then show ?thesis
    using wf_load_legacy [of "legacy w" s "[]" ks] assms(1) by (simp add: wf_doc_def mounted_def)
next
  case Unreadable
  then show ?thesis using assms(2) by (simp add: load_current_def load_doc_def)
next
  case (Text data)
  then show ?thesis using assms(2) wf_decode_doc by (simp add: load_current_def load_doc_def)
qed

text \<open>What a revert that reports no error did.\<close>

lemma revert_succeeds:
  assumes "recovery_revert s e w = (None, w')" and "trial w = Some t"
  obtains h "from" before where "hook e = Some h" "decode_doc s (t_before t) = Inr before"
    "h from before (t_runtime t) (runtime w) = (None, main w', runtime w')"
    "trial w' = None" "journal w' = Absent"
proof -
  obtain "from" before t' where p: "revert_prepare s t w = Inr (from, before, t')"
    using assms by (cases "revert_prepare s t w") (auto simp: recovery_revert_def)
  let ?w = "(snd (persist (first_write e) t' w))\<lparr>trial := Some t'\<rparr>"
  have f: "revert_finish e from before t' ?w = (None, w')"
    using assms p by (auto simp: recovery_revert_def case_prod_beta Let_def split: if_splits)
  have rt: "t_runtime t' = t_runtime t"
    using p by (auto simp: revert_prepare_def split: sum.splits)
  obtain h where h: "hook e = Some h"
    using f by (cases "hook e") (auto simp: revert_finish_def Let_def)
  obtain m x where r: "h from before (t_runtime t) (runtime w) = (None, m, x)"
    using f h rt by (cases "h from before (t_runtime t) (runtime w)")
      (auto simp: revert_finish_def Let_def split: option.splits)
  then have "trial w' = None \<and> journal w' = Absent \<and> main w' = m \<and> runtime w' = x"
    using f h rt by (auto simp: revert_finish_def recovery_clear_def Let_def split: removed.splits)
  then show ?thesis
    using that [OF h] revert_prepare_before [OF p] r by auto
qed

lemma unresolved_holds: "unresolved s b w w' \<Longrightarrow> holds b w \<Longrightarrow> holds b w'"
  by (induction rule: unresolved.induct) (auto intro: point_kept)

text \<open>
  C13. A change that was never confirmed is undone by the next start: whatever happened since
  the trial began, a start whose environment works calls the rollback hook with the very
  configuration the trial replaced, and ends the trial with what the hook restored.
\<close>

theorem restart_restores:
  assumes "mounted s" and "up w0" and "load_current s w0 = Inr d0"
    and "recovery_begin s e0 w0 = (None, w1)"
    and "unresolved s (t_before (the (trial w1))) w1 w" and "\<not> up w"
    and "recovery_load s True True e w = (None, w')"
  shows "\<exists>h from before rt. hook e = Some h \<and> map_of (keys before) = map_of (keys d0) \<and>
    h from before rt (runtime w) = (None, main w', runtime w') \<and> trial w' = None \<and> journal w' = Absent"
proof -
  obtain j t1 where w1: "encode_doc s d0 = Inr j" "w1 = w0\<lparr>journal := Journal t1, trial := Some t1\<rparr>"
    "t_before t1 = Some j"
    using assms(3) by (rule_tac begin_succeeds [OF assms(4)]) simp
  then have "holds (Some j) w1" using assms(2) by (simp add: holds_def)
  then have "holds (Some j) w" using unresolved_holds [OF assms(5)] w1 by simp
  then obtain t where t: "journal w = Journal t" "t_before t = Some j" "trial w = None"
    using assms(6) by (auto simp: holds_def)
  let ?w = "w\<lparr>up := True, trial := Some t\<rparr>"
  have "recovery_revert s e ?w = (None, w')"
    using assms(7) t by (auto simp: recovery_load_def Let_def split: if_splits sum.splits)
  then obtain h "from" before where h: "hook e = Some h" "decode_doc s (Some j) = Inr before"
    "h from before (t_runtime t) (runtime w) = (None, main w', runtime w')" "trial w' = None" "journal w' = Absent"
    using t by (rule_tac revert_succeeds [of s e ?w w' t]) auto
  have "map_of (keys before) = map_of (keys d0)"
    using doc_codec.dec_enc [OF assms(1) wf_load_current [OF assms(1,3)] w1(1)] h(2) by simp
  then show ?thesis using h by blast
qed

text \<open>
  C18. A trial ends in its favour only when the request names it, it is still pending, its
  deadline has not passed, and the journal is gone from the disk.
\<close>

theorem confirm_requires_deadline:
  assumes "recovery_finish s False i e w = (None, w')"
  shows "\<exists>t. trial w = Some t \<and> t_id t = i \<and> i \<noteq> '''' \<and> t_state t = Pending \<and> now e < t_deadline t \<and>
    trial w' = None \<and> journal w' = Absent \<and> main w' = main w \<and> runtime w' = runtime w"
  using assms
  by (auto simp: recovery_finish_def view_id_def recovery_clear_def split: if_splits option.splits removed.splits)

text \<open>
  A rollback that failed is tried again with the same two documents, whatever the file says
  by then: the trial's own intent, which names what has to be cleaned up, is not forgotten.
\<close>

theorem retry_same_documents:
  fixes w :: "'x world"
  assumes "revert_prepare s t w = Inr (from, before, t')"
    and "recovery_revert s e w = (Some (RollbackErr msg), w')" and "trial w = Some t"
  shows "\<exists>t''. trial w' = Some t'' \<and> t_state t'' = RFailed \<and> t_error t'' = msg \<and>
    t_deadline t'' = later e + 10 * 1000000000 \<and>
    (\<forall>w2 :: 'x world. \<exists>t3. revert_prepare s t'' w2 = Inr (from, before, t3))"
proof -
  note b = revert_prepare_before [OF assms(1)]
  let ?w = "(snd (persist (first_write e) t' w))\<lparr>trial := Some t'\<rparr>"
  let ?t = "t'\<lparr>t_state := RFailed, t_error := msg, t_deadline := later e + 10 * 1000000000\<rparr>"
  have "revert_finish e from before t' ?w = (Some (RollbackErr msg), w')"
    using assms by (auto simp: recovery_revert_def case_prod_beta Let_def split: if_splits)
  then have "trial w' = Some ?t"
    by (auto simp: revert_finish_def Let_def recovery_clear_def split: option.splits prod.splits removed.splits)
  moreover have "t_from t' \<noteq> None" using b decode_doc_None by blast
  then have "\<exists>t3. revert_prepare s ?t w2 = Inr (from, before, t3)" for w2 :: "'x world"
    using b by (simp add: revert_prepare_def revert_from_def)
  ultimately show ?thesis by (intro exI [of _ ?t]) simp
qed

text \<open>
  \<open>Begin\<close> can fail after its journal has reached the disk (the directory could not be
  synced). Nothing is on trial then, and nothing removes the journal: the next start reads it
  as an unconfirmed trial and restores the configuration of that moment, over whatever was
  saved since.
\<close>

lemma failed_begin_leaves_journal:
  assumes "trial w = None" and "load_current s w = Inr d" and "encode_doc s d = Inr j"
    and "nonce e = Some i" and "capture e = None" and "first_write e = NewButError"
  shows "\<exists>t w'. recovery_begin s e w = (Some PersistErr, w') \<and> trial w' = None \<and>
    journal w' = Journal t \<and> t_before t = Some j"
  using assms by (auto simp: recovery_begin_def persist_def Let_def)

section \<open>Restoring a backup\<close>

text \<open>
  \<open>restore\<close> under the lock, with a body that parsed: the candidate is validated, the trial
  begins, and the rollback hook applies the candidate; a hook that fails is reverted at once.
  \<open>valid\<close> and \<open>matches\<close> are the composition root's validation and the \<open>If-Match\<close> check.
\<close>

datatype restore_result = Unavailable | Invalid | StoreFailed | Preview | NeedsConfirm
  | Mismatch | BeginFailed rerror | ApplyFailed string "rerror option" | Restored

definition backup_restore ::
  "store \<Rightarrow> apply_gate \<Rightarrow> bool \<Rightarrow> bool \<Rightarrow> document \<Rightarrow> 'x env \<Rightarrow> 'x env \<Rightarrow> 'x world
     \<Rightarrow> restore_result \<times> 'x world" where
  "backup_restore s g valid matches doc e e2 w =
     (case hook e of
        None \<Rightarrow> (Unavailable, w)
      | Some h \<Rightarrow>
          if \<not> valid then (Invalid, w)
          else (case load_current s w of
             Inl x \<Rightarrow> (StoreFailed, w)
           | Inr current \<Rightarrow>
               if dry_run g then (Preview, w)
               else if \<not> confirm g then (NeedsConfirm, w)
               else if \<not> matches then (Mismatch, w)
               else (case recovery_begin s e w of
                  (Some x, w1) \<Rightarrow> (BeginFailed x, w1)
                | (None, w1) \<Rightarrow>
                    (let (err, m, x) = h current doc None (runtime w1);
                         w2 = w1\<lparr>main := m, runtime := x\<rparr>
                     in case err of
                          None \<Rightarrow> (Restored, w2)
                        | Some msg \<Rightarrow>
                            (let (rerr, w3) = recovery_revert s e2 w2
                             in (ApplyFailed msg rerr, w3))))))"

text \<open>
  A restore changes the configuration only as a confirmed trial of a valid candidate; the
  old configuration is then held as the recovery point, and a dry run changes nothing.
\<close>

theorem restore_is_a_trial:
  assumes "backup_restore s g valid matches doc e e2 w = (Restored, w')" and "up w"
  shows "valid \<and> confirm g \<and> \<not> dry_run g \<and> matches \<and> trial w = None \<and>
    (\<exists>d j. load_current s w = Inr d \<and> encode_doc s d = Inr j \<and> holds (Some j) w')"
proof -
  obtain h where h: "hook e = Some h"
    using assms(1) by (cases "hook e") (auto simp: backup_restore_def)
  have g: "valid" "confirm g" "\<not> dry_run g" "matches"
    using assms(1) h by (auto simp: backup_restore_def split: if_splits sum.splits)
  obtain current w1 where b: "load_current s w = Inr current" "recovery_begin s e w = (None, w1)"
    using assms(1) h g by (auto simp: backup_restore_def split: sum.splits prod.splits option.splits)
  then have w': "w' = w1\<lparr>main := fst (snd (h current doc None (runtime w1))),
      runtime := snd (snd (h current doc None (runtime w1)))\<rparr>"
    using assms(1) h g by (auto simp: backup_restore_def Let_def split: option.splits prod.splits)
  obtain d j t where "trial w = None" "load_current s w = Inr d" "encode_doc s d = Inr j"
    "w1 = w\<lparr>journal := Journal t, trial := Some t\<rparr>" "t_before t = Some j"
    by (rule begin_succeeds [OF b(2)]) simp
  then show ?thesis
    using g w' assms(2) by (auto simp: holds_def)
qed

section \<open>A run\<close>

definition sample_store :: store where "sample_store = [''link'', ''dhcp'']"

definition sample_hook :: "document \<Rightarrow> document \<Rightarrow> raw \<Rightarrow> nat \<Rightarrow> string option \<times> disk_file \<times> nat" where
  "sample_hook f b rt x = (None, Text (Some (JObj [(''dhcp'', JNum ''1'')])), x + 1)"

definition sample_env :: "nat env" where
  "sample_env = \<lparr>now = 0, later = 0, nonce = Some ''ab'', timeout = 0, capture = None,
     first_write = Written, second_write = Written, removal = RemovedOk, hook = Some sample_hook\<rparr>"

definition failing_env :: "nat env" where
  "failing_env = sample_env\<lparr>hook := Some (\<lambda>f b rt x. (Some ''busy'', Missing, x))\<rparr>"

definition sample_world :: "nat world" where
  "sample_world = \<lparr>up = True, trial = None, journal = Absent,
     main = Text (Some (JObj [(''dhcp'', JNum ''1'')])), legacy = (\<lambda>n. Missing), runtime = 0\<rparr>"

definition sample_before :: json where
  "sample_before = JObj [(''$schema'', JStr schema_url), (''dhcp'', JNum ''1'')]"

definition sample_trial :: rtrial where
  "sample_trial = new_trial ''ab'' default_timeout sample_before None"

definition sample_tried :: "nat world" where
  "sample_tried = sample_world\<lparr>journal := Journal sample_trial, trial := Some sample_trial\<rparr>"

lemmas recovery_samples = sample_store_def sample_env_def failing_env_def sample_world_def
  sample_before_def sample_trial_def sample_tried_def

lemma sample_load: "load_current sample_store sample_world
    = Inr \<lparr>keys = [(''dhcp'', Some (JNum ''1''))], unknown = []\<rparr>"
  by (simp add: load_current_def load_doc_def decode_doc_def last_wins_def schema_key_def recovery_samples Let_def)

lemma sample_begin: "recovery_begin sample_store sample_env sample_world = (None, sample_tried)"
  unfolding recovery_begin_def sample_load
  by (simp add: encode_doc_def write_order_def persist_def recovery_samples schema_key_def Let_def)

lemma sample_holds: "holds (Some sample_before) sample_tried"
  by (simp add: holds_def recovery_samples)

lemma recovery_point_kept_witness: "holds (Some sample_before) (snd (act sample_store Crash sample_tried))"
  by (rule recovery_point_kept [OF sample_holds]) (simp_all add: confirmed_def)

lemma sample_decode_before: "decode_doc sample_store (Some sample_before)
    = Inr \<lparr>keys = [(''dhcp'', Some (JNum ''1''))], unknown = []\<rparr>"
  by (simp add: decode_doc_def last_wins_def schema_key_def recovery_samples Let_def)

lemma sample_prepare:
  assumes "trial w = Some t" "t_before t = Some sample_before" "t_from t = None"
    and "main w = main sample_world" "legacy w = legacy sample_world"
  shows "\<exists>t'. revert_prepare sample_store t w = Inr
    (\<lparr>keys = [(''dhcp'', Some (JNum ''1''))], unknown = []\<rparr>,
     \<lparr>keys = [(''dhcp'', Some (JNum ''1''))], unknown = []\<rparr>, t')"
proof -
  have "load_current sample_store w = Inr \<lparr>keys = [(''dhcp'', Some (JNum ''1''))], unknown = []\<rparr>"
    using sample_load assms(4,5) by (simp add: load_current_def)
  moreover have "encode_doc sample_store \<lparr>keys = [(''dhcp'', Some (JNum ''1''))], unknown = []\<rparr> = Inr sample_before"
    by (simp add: encode_doc_def write_order_def recovery_samples schema_key_def)
  ultimately show ?thesis
    using assms(2,3) sample_decode_before by (simp add: revert_prepare_def revert_from_def)
qed

lemma sample_restart: "recovery_load sample_store True True sample_env (crash sample_tried)
    = (None, sample_world\<lparr>main := Text (Some (JObj [(''dhcp'', JNum ''1'')])), runtime := 1\<rparr>)"
proof -
  let ?w = "(crash sample_tried)\<lparr>up := True, trial := Some sample_trial\<rparr>"
  from sample_prepare [of ?w sample_trial] obtain t' where
    "revert_prepare sample_store sample_trial ?w = Inr
      (\<lparr>keys = [(''dhcp'', Some (JNum ''1''))], unknown = []\<rparr>,
       \<lparr>keys = [(''dhcp'', Some (JNum ''1''))], unknown = []\<rparr>, t')"
    by (auto simp: sample_trial_def crash_def sample_tried_def)
  moreover have "t_id sample_trial = ''ab''" "t_before sample_trial = Some sample_before"
    by (simp_all add: sample_trial_def)
  ultimately show ?thesis
    using sample_decode_before
    by (simp add: recovery_load_def recovery_revert_def revert_finish_def recovery_clear_def persist_def
        crash_def sample_hook_def sample_env_def sample_tried_def sample_world_def Let_def)
qed

lemma restart_restores_witness:
  "\<exists>h from before rt. hook sample_env = Some h \<and>
     map_of (keys before) = map_of (keys \<lparr>keys = [(''dhcp'', Some (JNum ''1''))], unknown = []\<rparr>) \<and>
     fst (h from before rt 0) = None"
proof -
  have u: "unresolved sample_store (t_before (the (trial sample_tried))) sample_tried (crash sample_tried)"
    using unresolved.step [OF unresolved.start, of Crash sample_tried sample_store]
    by (simp add: confirmed_def)
  have m: "mounted sample_store" "up sample_world" "\<not> up (crash sample_tried)"
    "runtime (crash sample_tried) = 0"
    by (simp_all add: mounted_def sample_store_def schema_key_def sample_world_def crash_def sample_tried_def)
  from restart_restores [OF m(1,2) sample_load sample_begin u m(3) sample_restart] m(4)
  show ?thesis by (metis fst_conv)
qed

lemma confirm_requires_deadline_witness:
  "recovery_finish sample_store False ''ab'' sample_env sample_tried = (None, sample_world) \<and>
   (\<exists>t. trial sample_tried = Some t \<and> now sample_env < t_deadline t)"
proof -
  have "recovery_finish sample_store False ''ab'' sample_env sample_tried = (None, sample_world)"
    by (simp add: recovery_finish_def view_id_def recovery_clear_def recovery_samples default_timeout_def)
  with confirm_requires_deadline [OF this] show ?thesis by blast
qed

lemma retry_same_documents_witness:
  "\<exists>t'. trial (snd (recovery_revert sample_store failing_env sample_tried)) = Some t' \<and> t_state t' = RFailed"
proof -
  have t: "trial sample_tried = Some sample_trial" by (simp add: sample_tried_def)
  from sample_prepare [OF t] obtain t' where p:
    "revert_prepare sample_store sample_trial sample_tried = Inr
      (\<lparr>keys = [(''dhcp'', Some (JNum ''1''))], unknown = []\<rparr>,
       \<lparr>keys = [(''dhcp'', Some (JNum ''1''))], unknown = []\<rparr>, t')"
    by (auto simp: sample_trial_def sample_tried_def)
  then have "recovery_revert sample_store failing_env sample_tried
      = (Some (RollbackErr ''busy''), snd (recovery_revert sample_store failing_env sample_tried))"
    using t by (simp add: recovery_revert_def revert_finish_def persist_def failing_env_def sample_env_def Let_def)
  from retry_same_documents [OF p this t] show ?thesis by blast
qed

lemma restore_is_a_trial_witness:
  "\<exists>w'. backup_restore sample_store \<lparr>dry_run = False, confirm = True\<rparr> True True sample_doc sample_env sample_env
     sample_world = (Restored, w') \<and> (\<exists>j. holds (Some j) w')"
proof -
  have "\<exists>w'. backup_restore sample_store \<lparr>dry_run = False, confirm = True\<rparr> True True sample_doc sample_env sample_env
     sample_world = (Restored, w')"
    using sample_load sample_begin
    by (simp add: backup_restore_def sample_env_def sample_hook_def Let_def)
  moreover have "up sample_world" by (simp add: sample_world_def)
  ultimately show ?thesis using restore_is_a_trial by blast
qed

end
