(* ===== verification/AddrText.thy ===== *)
theory AddrText
  imports GoNet GoStrings Mac
begin

text \<open>
  How \<open>net/netip\<close> prints an address and a prefix, which the tables use to break ties in a
  sort. IPv6 follows the library's rule: the first longest run of at least two zero groups is
  written as two colons.
\<close>

definition v4_string :: "u32 \<Rightarrow> string" where
  "v4_string a = join_with ''.'' (map (\<lambda>i. itoa (unat (drop_bit i a AND 0xff))) [24, 16, 8, 0])"

fun hex_digits_of :: "nat \<Rightarrow> string" where
  "hex_digits_of n =
     (if n < 16 then [hex_char n] else hex_digits_of (n div 16) @ [hex_char (n mod 16)])"

declare hex_digits_of.simps [simp del]

definition v6_groups :: "128 word \<Rightarrow> nat list" where
  "v6_groups a = map (\<lambda>i. unat (drop_bit (112 - 16 * i) a AND 0xffff)) [0 ..< 8]"

definition zero_run :: "nat list \<Rightarrow> nat \<Rightarrow> nat" where
  "zero_run gs i = length (takeWhile (\<lambda>g. g = 0) (drop i gs))"

text \<open>The first longest zero run, as its start and end; 255 for none.\<close>

definition longest_zeros :: "nat list \<Rightarrow> nat \<times> nat" where
  "longest_zeros gs = foldl (\<lambda>(zs, ze) i.
     let l = zero_run gs i in if l \<ge> 2 \<and> l > ze - zs then (i, i + l) else (zs, ze)) (255, 255) [0 ..< 8]"

function v6_text :: "nat list \<Rightarrow> nat \<Rightarrow> nat \<Rightarrow> nat \<Rightarrow> string" where
  "v6_text gs zs ze i =
     (if i \<ge> 8 then []
      else if i = zs then
        (if ze \<ge> 8 \<or> ze < i then ''::''
         else ''::'' @ hex_digits_of (gs ! ze) @ v6_text gs zs ze (ze + 1))
      else (if i > 0 then '':'' else []) @ hex_digits_of (gs ! i) @ v6_text gs zs ze (i + 1))"
  by pat_completeness auto
termination
  by (relation "measure (\<lambda>(gs, zs, ze, i). 8 - i)") auto

declare v6_text.simps [simp del]

fun addr_string :: "addr \<Rightarrow> string" where
  "addr_string AddrNone = ''invalid IP''"
| "addr_string (V4 a) = v4_string a"
| "addr_string (V6 a z) =
     (if drop_bit 32 a = 0xffff then ''::ffff:'' @ v4_string (ucast a)
      else (let gs = v6_groups a; (zs, ze) = longest_zeros gs in v6_text gs zs ze 0))
     @ (if z = [] then [] else ''%'' @ z)"

definition prefix_string :: "prefix \<Rightarrow> string" where
  "prefix_string p = (if \<not> prefix_valid p then ''invalid Prefix''
     else addr_string (paddr p) @ ''/'' @ itoa (nat (pbits p)))"

definition is_unspecified :: "addr \<Rightarrow> bool" where
  "is_unspecified a = (a = V4 0 \<or> a = V6 0 [])"

fun is_multicast :: "addr \<Rightarrow> bool" where
  "is_multicast AddrNone = False"
| "is_multicast (V4 a) = (drop_bit 28 a = 0xe)"
| "is_multicast (V6 a z) =
     (if drop_bit 32 a = 0xffff then drop_bit 28 (ucast a :: u32) = 0xe else drop_bit 120 a = 0xff)"

end
