(* ===== verification/Interfaces.thy ===== *)
theory Interfaces
  imports Prelude
begin

text \<open>
  The contracts several components share: a table searched for its first match, a store
  that stays within a bound, and a log that keeps the most recent entries. Each is
  interpreted in the theories of the components that provide it.
\<close>

section \<open>First match in a table ordered by specificity\<close>

locale match_table =
  fixes covers :: "'p \<Rightarrow> 'k \<Rightarrow> bool"
    and rank :: "'p \<Rightarrow> int"
    and build :: "'p list \<Rightarrow> 'p list"
    and lookup :: "'p list \<Rightarrow> 'k \<Rightarrow> 'p option"
  assumes lookup_first: "lookup t k = find (\<lambda>p. covers p k) t"
    and build_sorted: "sorted_wrt (\<lambda>p q. rank q \<le> rank p) (build ps)"
    and build_set: "set (build ps) = set ps"
begin

text \<open>The first match of a built table is a most specific one.\<close>

lemma lookup_most_specific:
  assumes "lookup (build ps) k = Some p"
  shows "p \<in> set ps" "covers p k" "\<And>q. q \<in> set ps \<Longrightarrow> covers q k \<Longrightarrow> rank q \<le> rank p"
proof -
  obtain i where i: "i < length (build ps)" "build ps ! i = p" "covers p k"
    "\<forall>j < i. \<not> covers (build ps ! j) k"
    using assms by (auto simp: lookup_first find_Some_iff)
  then have "p \<in> set (build ps)" using nth_mem by blast
  then show "p \<in> set ps" "covers p k" using i by (simp_all add: build_set)
  fix q assume "q \<in> set ps" "covers q k"
  then obtain j where j: "j < length (build ps)" "build ps ! j = q"
    by (metis build_set in_set_conv_nth)
  then have "i \<le> j" using i \<open>covers q k\<close> by (metis not_le)
  then show "rank q \<le> rank p"
    using build_sorted [of ps] i j by (cases "i = j") (auto simp: sorted_wrt_iff_nth_less)
qed

lemma lookup_None: "lookup (build ps) k = None \<longleftrightarrow> (\<forall>p \<in> set ps. \<not> covers p k)"
  by (auto simp: lookup_first find_None_iff build_set)

end

section \<open>Bounded stores\<close>

locale bounded_store =
  fixes put :: "'i \<Rightarrow> 's \<Rightarrow> 's"
    and size :: "'s \<Rightarrow> nat"
    and bound :: nat
    and ok :: "'s \<Rightarrow> bool"
  assumes put_ok: "ok s \<Longrightarrow> ok (put i s)"
    and put_bound: "ok s \<Longrightarrow> size s \<le> bound \<Longrightarrow> size (put i s) \<le> bound"
begin

text \<open>Whatever is put, and however much of it, the store stays within its bound.\<close>

lemma fold_bound:
  assumes "ok s" and "size s \<le> bound"
  shows "ok (fold put is s) \<and> size (fold put is s) \<le> bound"
  using assms by (induction "is" arbitrary: s) (auto simp: put_ok put_bound)

end

section \<open>The most recent entries\<close>

locale recent_log =
  fixes add :: "'q \<Rightarrow> 's \<Rightarrow> 's"
    and entries :: "'s \<Rightarrow> 'q list"
    and capacity :: "'s \<Rightarrow> nat"
    and ok :: "'s \<Rightarrow> bool"
  assumes add_ok: "ok s \<Longrightarrow> ok (add q s)"
    and add_entries: "ok s \<Longrightarrow> entries (add q s) = take (capacity s) (q # entries s)"
    and add_capacity: "ok s \<Longrightarrow> capacity (add q s) = capacity s"
    and entries_bound: "ok s \<Longrightarrow> length (entries s) \<le> capacity s"
begin

text \<open>After any number of additions the log has the latest of them, newest first.\<close>

lemma fold_entries:
  assumes "ok s"
  shows "ok (fold add qs s) \<and> capacity (fold add qs s) = capacity s \<and>
    entries (fold add qs s) = take (capacity s) (rev qs @ entries s)"
  using assms
proof (induction qs arbitrary: s)
  case Nil
  then show ?case by (simp add: entries_bound)
next
  case (Cons q qs)
  have "take n (rev qs @ take n (q # es)) = take n (rev qs @ q # es)" for n es
    by (simp add: take_append)
  then show ?case
    using Cons.IH [OF add_ok [OF Cons.prems]] Cons.prems by (simp add: add_entries add_capacity)
qed

end

end
