(* ===== verification/Policy.thy ===== *)
theory Policy
  imports GoNet GoStrings Interfaces
begin

text \<open>
  \<open>internal/dnsrelay/policy.go\<close>: which client may look up which name. A set of names is the
  list a Go map was built from; only membership in it is used.
\<close>

section \<open>The operations\<close>

record policy =
  p_name :: string
  p_clients :: "prefix list"
  p_response :: string
  p_block :: "string list"
  p_allow :: "string list"

definition RespondNXDOMAIN :: string where "RespondNXDOMAIN = ''nxdomain''"

record compiled_policy =
  c_name :: string
  c_response :: string
  c_block :: "string list"
  c_allow :: "string list"

record policy_set =
  by_prefix :: "(prefix \<times> compiled_policy) list"
  fallback :: "compiled_policy option"

definition compile_one :: "policy \<Rightarrow> compiled_policy" where
  "compile_one p = \<lparr>c_name = p_name p,
     c_response = (if p_response p = [] then RespondNXDOMAIN else p_response p),
     c_block = p_block p, c_allow = p_allow p\<rparr>"

text \<open>The loop of \<open>Compile\<close>, before its sort.\<close>

fun compile_step :: "policy_set \<Rightarrow> policy \<Rightarrow> policy_set" where
  "compile_step s p =
     (let c = compile_one p
      in if p_clients p = [] then s\<lparr>fallback := Some c\<rparr>
         else s\<lparr>by_prefix := by_prefix s @ map (\<lambda>x. (masked x, c)) (p_clients p)\<rparr>)"

definition most_bits_first :: "('a \<Rightarrow> prefix) \<Rightarrow> 'a \<Rightarrow> 'a \<Rightarrow> bool" where
  "most_bits_first f a b = (pbits (f b) \<le> pbits (f a))"

lemma sorted_most_bits_first:
  "sorted_wrt (\<lambda>a b. pbits (f b) \<le> pbits (f a)) (sort_by (most_bits_first f) xs)"
proof -
  have "most_bits_first f = (\<lambda>a b. pbits (f b) \<le> pbits (f a))"
    by (intro ext) (simp add: most_bits_first_def)
  then show ?thesis by (simp only:) (rule sorted_sort_by; linarith)
qed

definition sort_claims :: "(prefix \<times> compiled_policy) list \<Rightarrow> (prefix \<times> compiled_policy) list" where
  "sort_claims = sort_by (most_bits_first fst)"

definition compile :: "policy list \<Rightarrow> policy_set" where
  "compile ps = (let s = foldl compile_step \<lparr>by_prefix = [], fallback = None\<rparr> ps
     in s\<lparr>by_prefix := sort_claims (by_prefix s)\<rparr>)"

text \<open>\<open>matches\<close>: the name or one of its parents; the part after the first dot.\<close>

function parents_match :: "string list \<Rightarrow> string \<Rightarrow> bool" where
  "parents_match set' name =
     (if name \<in> set set' then True
      else (case dropWhile (\<lambda>c. c \<noteq> CHR ''.'') name of
              [] \<Rightarrow> False
            | dot # parent \<Rightarrow> parents_match set' parent))"
  by pat_completeness auto
termination
  by (relation "measure (\<lambda>(s, n). length n)")
     (auto dest!: arg_cong [where f = length], metis length_dropWhile_le less_eq_Suc_le)

declare parents_match.simps [simp del]

definition matches :: "string list \<Rightarrow> string \<Rightarrow> bool" where
  "matches set' name = (if set' = [] \<or> name = [] then False else parents_match set' name)"

definition first_claim :: "(prefix \<times> 'a) list \<Rightarrow> addr \<Rightarrow> (prefix \<times> 'a) option" where
  "first_claim ps client = find (\<lambda>(p, c). contains p client) ps"

definition policy_for :: "policy_set \<Rightarrow> addr \<Rightarrow> compiled_policy option" where
  "policy_for s client0 =
     (let client = unmap client0
      in case first_claim (by_prefix s) client of
           Some (p, c) \<Rightarrow> Some c
         | None \<Rightarrow> fallback s)"

record decision =
  blocked :: bool
  d_policy :: string
  d_response :: string

text \<open>\<open>Decide\<close>; \<open>None\<close> is the nil receiver.\<close>

definition decide :: "policy_set option \<Rightarrow> addr \<Rightarrow> string \<Rightarrow> decision" where
  "decide s client name =
     (case s of
        None \<Rightarrow> \<lparr>blocked = False, d_policy = [], d_response = []\<rparr>
      | Some s \<Rightarrow>
          (case policy_for s client of
             None \<Rightarrow> \<lparr>blocked = False, d_policy = [], d_response = []\<rparr>
           | Some p \<Rightarrow>
               if matches (c_allow p) name then \<lparr>blocked = False, d_policy = c_name p, d_response = []\<rparr>
               else if matches (c_block p) name
               then \<lparr>blocked = True, d_policy = c_name p, d_response = c_response p\<rparr>
               else \<lparr>blocked = False, d_policy = c_name p, d_response = []\<rparr>))"

definition policy_name_for :: "policy_set option \<Rightarrow> addr \<Rightarrow> string" where
  "policy_name_for s client = (case s of
     None \<Rightarrow> []
   | Some s \<Rightarrow> (case policy_for s client of None \<Rightarrow> [] | Some p \<Rightarrow> c_name p))"

section \<open>Names and their parents\<close>

text \<open>A pattern covers a name that is it, or ends in a dot and it.\<close>

definition covers_name :: "string \<Rightarrow> string \<Rightarrow> bool" where
  "covers_name pat name = (name = pat \<or> (\<exists>x. name = x @ CHR ''.'' # pat))"

lemma covers_name_no_dot:
  assumes "CHR ''.'' \<notin> set name" shows "covers_name pat name \<longleftrightarrow> name = pat"
  using assms by (auto simp: covers_name_def)

lemma covers_name_dot:
  assumes "CHR ''.'' \<notin> set l"
  shows "covers_name pat (l @ CHR ''.'' # parent) \<longleftrightarrow>
    l @ CHR ''.'' # parent = pat \<or> covers_name pat parent"
proof -
  have "(\<exists>x. l @ CHR ''.'' # parent = x @ CHR ''.'' # pat) \<longleftrightarrow> covers_name pat parent"
    (is "?L = ?R")
  proof
    assume ?L
    then obtain x where x: "l @ CHR ''.'' # parent = x @ CHR ''.'' # pat" by blast
    then obtain us where "l = x @ us \<and> us @ CHR ''.'' # parent = CHR ''.'' # pat \<or>
        l @ us = x \<and> CHR ''.'' # parent = us @ CHR ''.'' # pat"
      by (auto simp: append_eq_append_conv2)
    then show ?R
      using assms by (cases us) (auto simp: covers_name_def)
  next
    assume ?R
    then show ?L
      by (auto simp: covers_name_def)
  qed
  then show ?thesis by (auto simp: covers_name_def)
qed

lemma parents_match_iff: "parents_match set' name \<longleftrightarrow> (\<exists>p \<in> set set'. covers_name p name)"
proof (induction set' name rule: parents_match.induct)
  case (1 set' name)
  show ?case
  proof (cases "dropWhile (\<lambda>c. c \<noteq> CHR ''.'') name")
    case Nil
    then have "CHR ''.'' \<notin> set name" by (auto simp: dropWhile_eq_Nil_conv)
    then show ?thesis
      by (subst parents_match.simps) (auto simp: Nil covers_name_no_dot)
  next
    case (Cons d parent)
    let ?l = "takeWhile (\<lambda>c. c \<noteq> CHR ''.'') name"
    have d: "d = CHR ''.''" using hd_dropWhile [of "\<lambda>c. c \<noteq> CHR ''.''" name] Cons by auto
    then have n: "name = ?l @ CHR ''.'' # parent" using Cons by (metis takeWhile_dropWhile_id)
    have l: "CHR ''.'' \<notin> set ?l" by (auto dest: set_takeWhileD)
    have "parents_match set' name \<longleftrightarrow> name \<in> set set' \<or> parents_match set' parent"
      by (subst parents_match.simps) (simp add: Cons)
    also have "\<dots> \<longleftrightarrow> name \<in> set set' \<or> (\<exists>p \<in> set set'. covers_name p parent)"
      using "1.IH" Cons d by (cases "name \<in> set set'") auto
    also have "\<dots> \<longleftrightarrow> (\<exists>p \<in> set set'. covers_name p name)"
      using covers_name_dot [OF l, of _ parent] by (subst (2) n) (auto simp flip: n)
    finally show ?thesis .
  qed
qed

lemma matches_iff: "matches set' name \<longleftrightarrow> name \<noteq> [] \<and> (\<exists>p \<in> set set'. covers_name p name)"
  by (auto simp: matches_def parents_match_iff)

section \<open>Which policy governs a client\<close>

interpretation claims: match_table "\<lambda>(p, c :: compiled_policy) a. contains p a" "\<lambda>(p, c). pbits p"
  sort_claims first_claim
proof
  show "first_claim t k = find (\<lambda>p. (case p of (p, c) \<Rightarrow> \<lambda>a. contains p a) k) t"
    for t :: "(prefix \<times> compiled_policy) list" and k
    unfolding first_claim_def by (rule arg_cong [of _ _ "\<lambda>P. find P t"]) auto
  show "sorted_wrt (\<lambda>p q. (case q of (p, c) \<Rightarrow> pbits p) \<le> (case p of (p, c) \<Rightarrow> pbits p)) (sort_claims ps)" for ps
    using sorted_most_bits_first [of fst ps] by (simp add: sort_claims_def case_prod_beta)
  show "set (sort_claims ps) = set ps" for ps
    by (simp add: sort_claims_def)
qed

text \<open>What the files say: every client network with its policy, and the last default.\<close>

definition claims_of :: "policy list \<Rightarrow> (prefix \<times> compiled_policy) list" where
  "claims_of ps = concat (map (\<lambda>p. map (\<lambda>x. (masked x, compile_one p)) (p_clients p)) ps)"

definition default_of :: "policy list \<Rightarrow> compiled_policy option" where
  "default_of ps = map_option compile_one (find (\<lambda>p. p_clients p = []) (rev ps))"

lemma compile_steps:
  "foldl compile_step s ps = \<lparr>by_prefix = by_prefix s @ claims_of ps,
     fallback = (case default_of ps of None \<Rightarrow> fallback s | Some c \<Rightarrow> Some c)\<rparr>"
proof (induction ps rule: rev_induct)
  case (snoc p ps)
  then show ?case by (simp add: claims_of_def default_of_def Let_def)
qed (simp add: claims_of_def default_of_def)

lemma compile_eq: "compile ps = \<lparr>by_prefix = sort_claims (claims_of ps), fallback = default_of ps\<rparr>"
  by (simp add: compile_def compile_steps Let_def split: option.split)

text \<open>
  C14. The policy that governs a client is a most specific one: some file claims a network the
  client is in for it, and no file claims a longer prefix the client is in; a client nobody
  claims gets the last default policy. A 4-in-6 client is judged as the IPv4 client it is.
\<close>

theorem policy_for_most_specific:
  "case policy_for (compile ps) client of
     Some c \<Rightarrow> (\<exists>x. (x, c) \<in> set (claims_of ps) \<and> contains x (unmap client) \<and>
         \<not> (\<exists>(y, c') \<in> set (claims_of ps). contains y (unmap client) \<and> pbits x < pbits y)) \<or>
       default_of ps = Some c \<and> \<not> (\<exists>(y, c') \<in> set (claims_of ps). contains y (unmap client))
   | None \<Rightarrow> default_of ps = None \<and> \<not> (\<exists>(y, c') \<in> set (claims_of ps). contains y (unmap client))"
proof (cases "first_claim (sort_claims (claims_of ps)) (unmap client)")
  case None
  then show ?thesis
    using claims.lookup_None [of "claims_of ps" "unmap client"]
    by (auto simp: policy_for_def compile_eq split: option.splits)
next
  case (Some xc)
  obtain x c where x: "xc = (x, c)" by (cases xc)
  note m = claims.lookup_most_specific [OF Some [unfolded x]]
  have "\<not> (\<exists>(y, c') \<in> set (claims_of ps). contains y (unmap client) \<and> pbits x < pbits y)"
    using m(3) by force
  then show ?thesis
    using Some x m(1,2) by (auto simp: policy_for_def compile_eq)
qed

text \<open>
  The same over the files, where no two of them claim a client by prefixes of one length: the policy
  governs a client when one of its networks holds the client and every other file that claims the client
  does so by a shorter prefix; a default governs the clients nobody claims.
\<close>

definition governs :: "policy \<Rightarrow> policy list \<Rightarrow> addr \<Rightarrow> bool" where
  "governs p ps client \<longleftrightarrow>
     (if p_clients p = []
      then find (\<lambda>d. p_clients d = []) (rev ps) = Some p \<and>
        (\<forall>o' \<in> set ps. \<forall>y \<in> set (p_clients o'). \<not> contains (masked y) (unmap client))
      else p \<in> set ps \<and> (\<exists>x \<in> set (p_clients p). contains (masked x) (unmap client) \<and>
        (\<forall>o' \<in> set ps. \<forall>y \<in> set (p_clients o').
           contains (masked y) (unmap client) \<longrightarrow> o' = p \<or> pbits (masked y) < pbits (masked x))))"

lemma claims_of_iff: "(x, c) \<in> set (claims_of ps) \<longleftrightarrow> (\<exists>p \<in> set ps. \<exists>y \<in> set (p_clients p). x = masked y \<and> c = compile_one p)"
  by (auto simp: claims_of_def)

lemma governs_policy_for:
  assumes "governs p ps client"
  shows "policy_for (compile ps) client = Some (compile_one p)"
proof (cases "p_clients p = []")
  case True
  then have "first_claim (sort_claims (claims_of ps)) (unmap client) = None"
    using assms claims.lookup_None [of "claims_of ps" "unmap client"] by (auto simp: governs_def claims_of_iff)
  then show ?thesis using assms True by (simp add: policy_for_def compile_eq governs_def default_of_def)
next
  case False
  then obtain x where x: "p \<in> set ps" "x \<in> set (p_clients p)" "contains (masked x) (unmap client)"
      "\<And>o' y. o' \<in> set ps \<Longrightarrow> y \<in> set (p_clients o') \<Longrightarrow> contains (masked y) (unmap client) \<Longrightarrow>
        o' = p \<or> pbits (masked y) < pbits (masked x)"
    using assms unfolding governs_def by auto
  have here: "(masked x, compile_one p) \<in> set (claims_of ps)" using x(1,2) unfolding claims_of_iff by blast
  then obtain z c where z: "first_claim (sort_claims (claims_of ps)) (unmap client) = Some (z, c)"
    using claims.lookup_None [of "claims_of ps" "unmap client"] x(3)
    by (cases "first_claim (sort_claims (claims_of ps)) (unmap client)") auto
  note m = claims.lookup_most_specific [OF z]
  have "pbits (masked x) \<le> pbits z" using m(3) [OF here] x(3) by simp
  moreover obtain o' y where "o' \<in> set ps" "y \<in> set (p_clients o')" "z = masked y" "c = compile_one o'"
    using m(1) unfolding claims_of_iff by blast
  ultimately have "c = compile_one p" using x(4) m(2) by force
  then show ?thesis using z by (simp add: policy_for_def compile_eq)
qed

text \<open>
  A query is blocked exactly when the client's policy blocks the name or a parent of it,
  and allows neither the name nor a parent.
\<close>

theorem decide_blocked_iff:
  "blocked (decide s client name) \<longleftrightarrow>
     (\<exists>set' p. s = Some set' \<and> policy_for set' client = Some p \<and> name \<noteq> [] \<and>
        (\<exists>b \<in> set (c_block p). covers_name b name) \<and>
        \<not> (\<exists>a \<in> set (c_allow p). covers_name a name))"
  by (auto simp: decide_def matches_iff split: option.splits)

end
