(* ===== verification/DnsMessage.thy ===== *)
theory DnsMessage
  imports AddrText Mac Policy
begin

text \<open>
  \<open>internal/dnsrelay/message.go\<close>: what the relay reads out of a DNS message and the answers
  it builds itself. The wire format is the package \<open>dnsmessage\<close>'s: its parser is a parameter
  that gives the steps the code asks it for, \<open>None\<close> standing for a panic, and its builder a
  parameter from the message described to its bytes. Domain names are ASCII.
\<close>

section \<open>What the parser and the builder exchange with the code\<close>

record dns_header =
  h_id :: u16
  h_opcode :: u16
  h_rd :: bool
  h_rcode :: u16

record wire_question =
  w_name :: string
  w_type :: u16
  w_class :: u16

datatype rdata = RCNAME string | RA u32 | RAAAA "128 word" | ROther

text \<open>One step over the answer section: a header that fails, a body that fails, a record.\<close>

datatype answer_step = BadHeader | BadBody | Rec string u32 rdata

record parsed =
  pm_header :: "dns_header option"
  pm_question :: "wire_question option"
  pm_skipped :: bool
  pm_answers :: "answer_step list"

type_synonym parser = "byte list \<Rightarrow> parsed option"

record built =
  b_id :: u16
  b_opcode :: u16
  b_authoritative :: bool
  b_rd :: bool
  b_rcode :: u16
  b_question :: wire_question
  b_answers :: "(u32 \<times> rdata) list"

type_synonym builder = "built \<Rightarrow> byte list option"

abbreviation TypeA :: u16 where "TypeA \<equiv> 1"
abbreviation TypeAAAA :: u16 where "TypeAAAA \<equiv> 28"
abbreviation RCodeServerFailure :: u16 where "RCodeServerFailure \<equiv> 2"
abbreviation RCodeNameError :: u16 where "RCodeNameError \<equiv> 3"

section \<open>Names\<close>

definition BlockTTL :: u32 where "BlockTTL = 60"
definition RespondZero :: string where "RespondZero = ''zero''"

definition trim_root :: "string \<Rightarrow> string" where
  "trim_root s = (if s \<noteq> [] \<and> last s = CHR ''.'' then butlast s else s)"

definition canonical_name :: "string \<Rightarrow> string" where
  "canonical_name s = (let l = map lower s in if l = ''.'' then ''.'' else trim_root l)"

definition type_names :: "(u16 \<times> string) list" where
  "type_names = [(1, ''A''), (2, ''NS''), (5, ''CNAME''), (6, ''SOA''), (12, ''PTR''), (15, ''MX''),
     (16, ''TXT''), (28, ''AAAA''), (33, ''SRV''), (41, ''OPT''), (64, ''SVCB''), (65, ''HTTPS'')]"

definition type_name :: "u16 \<Rightarrow> string" where
  "type_name t = (case map_of type_names t of Some n \<Rightarrow> n | None \<Rightarrow> ''TYPE'' @ itoa (unat t))"

definition rcode_names :: "(u16 \<times> string) list" where
  "rcode_names = [(0, ''NOERROR''), (1, ''FORMERR''), (2, ''SERVFAIL''), (3, ''NXDOMAIN''),
     (4, ''NOTIMP''), (5, ''REFUSED'')]"

definition rcode_name :: "u16 \<Rightarrow> string" where
  "rcode_name r = (case map_of rcode_names r of Some n \<Rightarrow> n | None \<Rightarrow> ''RCODE'' @ itoa (unat r))"

section \<open>Reading a query\<close>

record question =
  q_name :: string
  q_type :: u16
  q_type_name :: string

definition question_of :: "wire_question \<Rightarrow> question" where
  "question_of q = \<lparr>q_name = canonical_name (w_name q), q_type = w_type q, q_type_name = type_name (w_type q)\<rparr>"

definition parse_question :: "parsed \<Rightarrow> question option" where
  "parse_question p = (case pm_header p of
     None \<Rightarrow> None | Some h \<Rightarrow> map_option question_of (pm_question p))"

section \<open>Answers of our own\<close>

text \<open>The preamble the three builders share: the header and the first question of the query.\<close>

definition query_head :: "parsed \<Rightarrow> (dns_header \<times> wire_question) option" where
  "query_head p = (case (pm_header p, pm_question p) of (Some h, Some q) \<Rightarrow> Some (h, q) | _ \<Rightarrow> None)"

definition synthesize :: "builder \<Rightarrow> parsed \<Rightarrow> string \<Rightarrow> byte list option" where
  "synthesize build p response = (case query_head p of
     None \<Rightarrow> None
   | Some (h, q) \<Rightarrow>
       build \<lparr>b_id = h_id h, b_opcode = h_opcode h, b_authoritative = False, b_rd = h_rd h,
         b_rcode = (if response \<noteq> RespondZero then RCodeNameError else 0), b_question = q,
         b_answers = (if response = RespondZero then
             (if w_type q = TypeA then [(BlockTTL, RA 0)]
              else if w_type q = TypeAAAA then [(BlockTTL, RAAAA 0)] else [])
           else [])\<rparr>)"

definition synthesize_failure :: "builder \<Rightarrow> parsed \<Rightarrow> byte list option" where
  "synthesize_failure build p = (case query_head p of
     None \<Rightarrow> None
   | Some (h, q) \<Rightarrow>
       build \<lparr>b_id = h_id h, b_opcode = 0, b_authoritative = False, b_rd = h_rd h,
         b_rcode = RCodeServerFailure, b_question = q, b_answers = []\<rparr>)"

fun answer_record :: "u16 \<Rightarrow> u32 \<Rightarrow> addr \<Rightarrow> (u32 \<times> rdata) list" where
  "answer_record t ttl (V4 a) = (if t = TypeA then [(ttl, RA a)] else [])"
| "answer_record t ttl (V6 a z) =
     (if t = TypeAAAA \<and> \<not> is4in6 (V6 a z) then [(ttl, RAAAA a)] else [])"
| "answer_record t ttl AddrNone = []"

definition answer_query :: "builder \<Rightarrow> parsed \<Rightarrow> addr list \<Rightarrow> u32 \<Rightarrow> byte list option" where
  "answer_query build p addrs ttl = (case query_head p of
     None \<Rightarrow> None
   | Some (h, q) \<Rightarrow>
       build \<lparr>b_id = h_id h, b_opcode = h_opcode h, b_authoritative = True, b_rd = h_rd h,
         b_rcode = 0, b_question = q,
         b_answers = concat (map (answer_record (w_type q) ttl) addrs)\<rparr>)"

section \<open>Observing a response\<close>

record seen =
  s_name :: string
  s_type_name :: string
  s_rcode :: string
  s_addrs :: "addr list"
  s_chain :: "string list"
  s_ttl :: int

text \<open>The loop over the answers, with the target name and the smallest TTL; \<open>None\<close> is an error.\<close>

fun observe_answers :: "answer_step list \<Rightarrow> string \<Rightarrow> u32 \<Rightarrow> seen \<Rightarrow> (u32 \<times> seen) option" where
  "observe_answers [] target min_ttl obs = Some (min_ttl, obs)"
| "observe_answers (BadHeader # as) target min_ttl obs = None"
| "observe_answers (BadBody # as) target min_ttl obs = None"
| "observe_answers (Rec owner ttl (RCNAME c) # as) target min_ttl obs =
     (let nxt = canonical_name c
      in if canonical_name owner = target
         then observe_answers as nxt min_ttl (obs\<lparr>s_chain := s_chain obs @ [nxt]\<rparr>)
         else observe_answers as target min_ttl obs)"
| "observe_answers (Rec owner ttl (RA a) # as) target min_ttl obs =
     (if canonical_name owner = target
      then observe_answers as target (min min_ttl ttl) (obs\<lparr>s_addrs := s_addrs obs @ [V4 a]\<rparr>)
      else observe_answers as target min_ttl obs)"
| "observe_answers (Rec owner ttl (RAAAA a) # as) target min_ttl obs =
     (if canonical_name owner = target
      then observe_answers as target (min min_ttl ttl) (obs\<lparr>s_addrs := s_addrs obs @ [V6 a []]\<rparr>)
      else observe_answers as target min_ttl obs)"
| "observe_answers (Rec owner ttl ROther # as) target min_ttl obs =
     observe_answers as target min_ttl obs"

definition observe_message :: "parsed \<Rightarrow> seen option" where
  "observe_message p = (case query_head p of
     None \<Rightarrow> None
   | Some (h, q) \<Rightarrow>
       if \<not> pm_skipped p then None
       else (let obs = \<lparr>s_name = canonical_name (w_name q), s_type_name = type_name (w_type q),
                   s_rcode = rcode_name (h_rcode h), s_addrs = [], s_chain = [], s_ttl = 0\<rparr>
             in case observe_answers (pm_answers p) (s_name obs) (- 1) obs of
                  None \<Rightarrow> None
                | Some (min_ttl, obs') \<Rightarrow>
                    Some (if s_addrs obs' \<noteq> [] \<and> min_ttl \<noteq> - 1
                          then obs'\<lparr>s_ttl := uint min_ttl * 1000000000\<rparr> else obs')))"

section \<open>What an observation promises\<close>

text \<open>The names a question stands for: itself, and the targets of the aliases it meets.\<close>

inductive alias_of :: "answer_step list \<Rightarrow> string \<Rightarrow> string \<Rightarrow> bool" for ans n where
  itself: "alias_of ans n n"
| step: "alias_of ans n t \<Longrightarrow> Rec owner ttl (RCNAME c) \<in> set ans \<Longrightarrow> canonical_name owner = t \<Longrightarrow>
    alias_of ans n (canonical_name c)"

inductive_cases alias_ofE: "alias_of ans n t"

definition addr_of :: "rdata \<Rightarrow> addr \<Rightarrow> bool" where
  "addr_of r a = (case r of RA x \<Rightarrow> a = V4 x | RAAAA x \<Rightarrow> a = V6 x [] | _ \<Rightarrow> False)"

text \<open>An address is attributed when a record of the answer has it under an alias of the name.\<close>

definition attributed :: "answer_step list \<Rightarrow> string \<Rightarrow> u32 \<Rightarrow> addr \<Rightarrow> bool" where
  "attributed ans n m a = (\<exists>owner ttl r. Rec owner ttl r \<in> set ans \<and> addr_of r a \<and>
     alias_of ans n (canonical_name owner) \<and> m \<le> ttl)"

lemma observe_answers_name:
  "observe_answers as target m obs = Some (m', obs') \<Longrightarrow> s_name obs' = s_name obs \<and> m' \<le> m"
  by (induction as target m obs rule: observe_answers.induct)
     (auto simp: Let_def split: if_splits dest: order.trans)

lemma attributed_mono: "attributed ans n m a \<Longrightarrow> m' \<le> m \<Longrightarrow> attributed ans n m' a"
  by (auto simp: attributed_def) (meson order.trans)

lemma observe_answers_sound:
  assumes "observe_answers as target m obs = Some (m', obs')" and "set as \<subseteq> set ans"
    and "alias_of ans n target" and "\<forall>a \<in> set (s_addrs obs). attributed ans n m a"
    and "\<forall>t \<in> set (s_chain obs). alias_of ans n t"
  shows "(\<forall>a \<in> set (s_addrs obs'). attributed ans n m' a) \<and> (\<forall>t \<in> set (s_chain obs'). alias_of ans n t)"
  using assms
proof (induction as target m obs rule: observe_answers.induct)
  case (4 owner ttl c as target m obs)
  then show ?case
    using alias_of.step [of ans n target owner ttl c] by (auto simp: Let_def split: if_splits)
next
  case (5 owner ttl a as target m obs)
  have "attributed ans n (min m ttl) (V4 a)" if "canonical_name owner = target"
    using 5(4,5) that by (auto simp: attributed_def addr_of_def split: rdata.split
        intro!: exI [of _ owner] exI [of _ ttl] exI [of _ "RA a"])
  then show ?case
    using 5 attributed_mono [of ans n m _ "min m ttl"] by (auto split: if_splits)
next
  case (6 owner ttl a as target m obs)
  have "attributed ans n (min m ttl) (V6 a [])" if "canonical_name owner = target"
    using 6(4,5) that by (auto simp: attributed_def addr_of_def split: rdata.split
        intro!: exI [of _ owner] exI [of _ ttl] exI [of _ "RAAAA a"])
  then show ?case
    using 6 attributed_mono [of ans n m _ "min m ttl"] by (auto split: if_splits)
qed simp_all

text \<open>
  C24. An observation attributes to the name asked for only addresses the answer gives for it:
  each is in a record owned by the name or by an alias the answer's CNAMEs lead to from it,
  and the pairing is never kept longer than that record lives.
\<close>

theorem observe_attributes:
  assumes "observe_message p = Some obs" and "a \<in> set (s_addrs obs)"
  shows "\<exists>owner ttl r. Rec owner ttl r \<in> set (pm_answers p) \<and> addr_of r a \<and>
    alias_of (pm_answers p) (s_name obs) (canonical_name owner) \<and> s_ttl obs \<le> uint ttl * 1000000000"
proof -
  obtain h q where hq: "query_head p = Some (h, q)"
    using assms(1) by (auto simp: observe_message_def split: option.splits)
  let ?o = "\<lparr>s_name = canonical_name (w_name q), s_type_name = type_name (w_type q),
    s_rcode = rcode_name (h_rcode h), s_addrs = [], s_chain = [], s_ttl = 0\<rparr>"
  obtain m obs' where o': "observe_answers (pm_answers p) (canonical_name (w_name q)) (- 1) ?o = Some (m, obs')"
    and obs: "obs = (if s_addrs obs' \<noteq> [] \<and> m \<noteq> - 1 then obs'\<lparr>s_ttl := uint m * 1000000000\<rparr> else obs')"
    using assms(1) hq by (auto simp: observe_message_def Let_def split: if_splits option.splits)
  have "s_ttl obs' = 0"
  proof -
    have "observe_answers as t m o' = Some (m2, o2) \<Longrightarrow> s_ttl o2 = s_ttl o'" for as t m o' m2 o2
      by (induction as t m o' rule: observe_answers.induct) (auto simp: Let_def split: if_splits)
    from this [OF o'] show ?thesis by simp
  qed
  then have ttl: "s_ttl obs \<le> uint m * 1000000000" unfolding obs by simp
  have n: "s_name obs = canonical_name (w_name q)"
    using observe_answers_name [OF o'] obs by (auto split: if_splits)
  have "attributed (pm_answers p) (canonical_name (w_name q)) m a"
    using observe_answers_sound [OF o' subset_refl alias_of.itself] assms(2) obs by (auto split: if_splits)
  then obtain owner t r where "Rec owner t r \<in> set (pm_answers p)" "addr_of r a"
    "alias_of (pm_answers p) (s_name obs) (canonical_name owner)" "m \<le> t"
    unfolding attributed_def n by blast
  moreover from this(4) have "uint m * 1000000000 \<le> uint t * 1000000000"
    by (simp add: word_le_def)
  ultimately show ?thesis using ttl by (meson order.trans)
qed

definition sample_parsed :: parsed where
  "sample_parsed = \<lparr>pm_header = Some \<lparr>h_id = 7, h_opcode = 0, h_rd = True, h_rcode = 0\<rparr>,
     pm_question = Some \<lparr>w_name = ''w.x.'', w_type = 1, w_class = 1\<rparr>, pm_skipped = True,
     pm_answers = [Rec ''W.x.'' 60 (RCNAME ''cdn.''), Rec ''cdn.'' 30 (RA 9), Rec ''other.'' 5 (RA 8)]\<rparr>"

definition sample_seen :: seen where
  "sample_seen = \<lparr>s_name = ''w.x'', s_type_name = ''A'', s_rcode = ''NOERROR'', s_addrs = [V4 9],
     s_chain = [''cdn''], s_ttl = 30 * 1000000000\<rparr>"

lemma sample_canonical: "canonical_name ''w.x.'' = ''w.x''" "canonical_name ''W.x.'' = ''w.x''"
  "canonical_name ''cdn.'' = ''cdn''" "canonical_name ''other.'' = ''other''"
  by code_simp+

lemma sample_observe: "observe_message sample_parsed = Some sample_seen"
  by (simp add: observe_message_def query_head_def sample_parsed_def sample_seen_def sample_canonical
      type_name_def type_names_def rcode_name_def rcode_names_def Let_def min_def word_le_def
      unsigned_minus_1_eq_mask mask_eq_exp_minus_1)

lemma observe_attributes_witness:
  "\<exists>owner. alias_of (pm_answers sample_parsed) ''w.x'' (canonical_name owner)"
  using observe_attributes [OF sample_observe, of "V4 9"] by (auto simp: sample_seen_def)

text \<open>What the three builders put on the wire for a query.\<close>

definition echoes :: "parsed \<Rightarrow> built \<Rightarrow> bool" where
  "echoes p b = (\<exists>h q. query_head p = Some (h, q) \<and> b_id b = h_id h \<and> b_question b = q \<and> b_rd b = h_rd h)"

fun given :: "addr \<Rightarrow> rdata \<Rightarrow> bool" where
  "given (V4 a) (RA x) = (x = a)"
| "given (V6 a z) (RAAAA x) = (x = a)"
| "given _ _ = False"

lemma answer_record_given: "(t, r) \<in> set (answer_record ty ttl a) \<Longrightarrow> t = ttl \<and> given a r"
  by (cases a) (auto split: if_splits)

lemma built_case:
  assumes "P b"
  shows "case build b of None \<Rightarrow> True | Some bytes \<Rightarrow> \<exists>b. build b = Some bytes \<and> P b"
  using assms by (auto split: option.split)

text \<open>
  Every answer the relay builds itself repeats the identifier and the question of its
  query, and holds no address of anyone else: a refusal none but the unspecified one, a
  failure none, an authoritative answer none but those it was given.
\<close>

theorem own_answers_echo:
  "(case synthesize build p resp of None \<Rightarrow> True | Some bytes \<Rightarrow>
     (\<exists>b. build b = Some bytes \<and> echoes p b \<and> snd ` set (b_answers b) \<subseteq> {RA 0, RAAAA 0})) \<and>
   (case synthesize_failure build p of None \<Rightarrow> True | Some bytes \<Rightarrow>
     (\<exists>b. build b = Some bytes \<and> echoes p b \<and> b_answers b = [] \<and> b_rcode b = RCodeServerFailure)) \<and>
   (case answer_query build p addrs ttl of None \<Rightarrow> True | Some bytes \<Rightarrow>
     (\<exists>b. build b = Some bytes \<and> echoes p b \<and> b_authoritative b \<and>
        list_all (\<lambda>(t, r). t = ttl \<and> list_ex (\<lambda>a. given a r) addrs) (b_answers b)))"
proof (cases "query_head p")
  case None
  then show ?thesis by (simp add: synthesize_def synthesize_failure_def answer_query_def)
next
  case (Some hq)
  obtain h q where hq: "hq = (h, q)" by (cases hq)
  let ?rs = "concat (map (answer_record (w_type q) ttl) addrs)"
  have "list_all (\<lambda>(t, r). t = ttl \<and> list_ex (\<lambda>a. given a r) addrs) ?rs"
    by (auto simp: list_all_iff list_ex_iff dest!: answer_record_given)
  then show ?thesis
    unfolding synthesize_def synthesize_failure_def answer_query_def Some hq option.case prod.case
    using Some hq by (intro conjI built_case) (auto simp: echoes_def)
qed

end
