(* ===== verification/Routes.thy ===== *)
theory Routes
  imports AddrText Policy "HOL-Library.Char_ord" "HOL-Library.List_Lexorder"
begin

text \<open>
  \<open>internal/dnsrelay/routes.go\<close>: which DNS server answers a client's queries. The file has
  been parsed; what follows the parsing is modelled. Domain names and MAC addresses are
  ASCII, so \<open>ToLower\<close> and \<open>EqualFold\<close> are those of ASCII.
\<close>

section \<open>The operations\<close>

record addr_port =
  ap_addr :: addr
  ap_port :: u16

definition no_addr_port :: addr_port where
  "no_addr_port = \<lparr>ap_addr = AddrNone, ap_port = 0\<rparr>"

definition ap_valid :: "addr_port \<Rightarrow> bool" where
  "ap_valid a = is_valid (ap_addr a)"

record route_network =
  n_prefix :: prefix
  n_exit :: string

record route_device =
  dev_mac :: string
  dev_exit :: string
  dev_prefixes :: "prefix list"

record route_exit =
  e_name :: string
  e_dns :: addr_port

record routes =
  local_domain :: string
  r_default :: string
  networks :: "route_network list"
  devices :: "route_device list"
  exits :: "route_exit list"

datatype route_error = BadExitName string | UnusableUpstream string | InvalidMAC string
  | DuplicateMAC string | BadClientPrefix string | BadNetworkPrefix

definition usable_upstream :: "addr_port \<Rightarrow> bool" where
  "usable_upstream a = (ap_valid a \<and> ap_port a \<noteq> 0 \<and> \<not> is_unspecified (ap_addr a) \<and>
     \<not> is_multicast (ap_addr a))"

definition v4_prefix :: "prefix \<Rightarrow> bool" where
  "v4_prefix p = (prefix_valid p \<and> is4 (paddr p))"

fun check_exits :: "string list \<Rightarrow> route_exit list \<Rightarrow> route_error option" where
  "check_exits seen [] = None"
| "check_exits seen (e # es) =
     (if e_name e = [] \<or> e_name e \<in> set seen then Some (BadExitName (e_name e))
      else if \<not> usable_upstream (e_dns e) then Some (UnusableUpstream (e_name e))
      else check_exits (e_name e # seen) es)"

fun check_devices :: "string list \<Rightarrow> route_device list \<Rightarrow> route_error option" where
  "check_devices seen [] = None"
| "check_devices seen (d # ds) =
     (case parse_mac (dev_mac d) of
        None \<Rightarrow> Some (InvalidMAC (dev_mac d))
      | Some mac \<Rightarrow>
          if length mac \<noteq> 6 then Some (InvalidMAC (dev_mac d))
          else (let key = map lower (mac_string mac)
                in if key \<in> set seen then Some (DuplicateMAC key)
                   else if \<not> list_all v4_prefix (dev_prefixes d) then Some (BadClientPrefix (dev_mac d))
                   else check_devices (key # seen) ds))"

definition network_before :: "route_network \<Rightarrow> route_network \<Rightarrow> bool" where
  "network_before a b =
     (if pbits (n_prefix a) \<noteq> pbits (n_prefix b) then pbits (n_prefix b) \<le> pbits (n_prefix a)
      else prefix_string (n_prefix a) \<le> prefix_string (n_prefix b))"

definition sort_networks :: "route_network list \<Rightarrow> route_network list" where
  "sort_networks = sort_by network_before"

definition trim_dot :: "string \<Rightarrow> string" where
  "trim_dot s = (if s \<noteq> [] \<and> last s = CHR ''.'' then butlast s else s)"

definition check_routes :: "routes \<Rightarrow> route_error + routes" where
  "check_routes r =
     (case check_exits [] (exits r) of
        Some e \<Rightarrow> Inl e
      | None \<Rightarrow>
          (case check_devices [] (devices r) of
             Some e \<Rightarrow> Inl e
           | None \<Rightarrow>
               if \<not> list_all (\<lambda>n. v4_prefix (n_prefix n)) (networks r) then Inl BadNetworkPrefix
               else (let d = map lower (trim_dot (local_domain r))
                     in Inr (r\<lparr>local_domain := (if d = [] then ''home.arpa'' else d),
                               networks := sort_networks (networks r)\<rparr>))))"

definition dns_for :: "routes \<Rightarrow> string \<Rightarrow> addr_port" where
  "dns_for r name = (case find (\<lambda>e. e_name e = name) (exits r) of
     None \<Rightarrow> no_addr_port | Some e \<Rightarrow> e_dns e)"

definition contains_any :: "prefix list \<Rightarrow> addr \<Rightarrow> bool" where
  "contains_any ps a = list_ex (\<lambda>p. contains p a) ps"

definition first_network :: "route_network list \<Rightarrow> addr \<Rightarrow> route_network option" where
  "first_network ns ip = find (\<lambda>n. contains (n_prefix n) ip) ns"

definition network_exit :: "routes \<Rightarrow> addr \<Rightarrow> string" where
  "network_exit r ip = (case first_network (networks r) ip of
     None \<Rightarrow> r_default r | Some n \<Rightarrow> n_exit n)"

definition same_mac :: "string \<Rightarrow> string \<Rightarrow> bool" where
  "same_mac a b = (map lower a = map lower b)"

definition select :: "routes \<Rightarrow> addr \<Rightarrow> string \<Rightarrow> addr_port \<times> bool \<times> bool" where
  "select r ip0 mac =
     (if \<not> is_valid ip0 then (no_addr_port, False, False)
      else (let ip = unmap ip0;
                name0 = network_exit r ip;
                name = (if mac \<noteq> [] then
                          (case find (\<lambda>d. same_mac (dev_mac d) mac \<and> contains_any (dev_prefixes d) ip) (devices r) of
                             None \<Rightarrow> name0 | Some d \<Rightarrow> dev_exit d)
                        else name0)
            in if mac = [] \<and> list_ex (\<lambda>d. contains_any (dev_prefixes d) ip \<and> dev_exit d \<noteq> name \<and>
                    dns_for r (dev_exit d) \<noteq> dns_for r name) (devices r)
               then (no_addr_port, False, True)
               else (let dns = dns_for r name
                     in if ap_valid dns then (dns, True, False) else (no_addr_port, False, False))))"

definition device_dns_may_differ :: "routes \<Rightarrow> addr \<Rightarrow> bool" where
  "device_dns_may_differ r ip0 =
     (if \<not> is_valid ip0 then False
      else (let name = network_exit r (unmap ip0)
            in list_ex (\<lambda>d. contains_any (dev_prefixes d) (unmap ip0) \<and>
                 dns_for r (dev_exit d) \<noteq> dns_for r name) (devices r)))"

section \<open>The table of networks\<close>

lemma sort_networks_bits:
  "sorted_wrt (\<lambda>a b. pbits (n_prefix b) \<le> pbits (n_prefix a)) (sort_networks ns)"
proof -
  have "sorted_wrt network_before (sort_networks ns)"
    unfolding sort_networks_def
    by (rule sorted_sort_by) (auto simp: network_before_def split: if_splits)
  then show ?thesis
    by (rule sorted_wrt_mono_rel [rotated]) (auto simp: network_before_def split: if_splits)
qed

interpretation nets: match_table "\<lambda>n a. contains (n_prefix n) a" "\<lambda>n. pbits (n_prefix n)"
  sort_networks first_network
  by unfold_locales (simp_all add: first_network_def sort_networks_bits, simp add: sort_networks_def)

section \<open>What the routes promise\<close>

text \<open>
  The network route of a client is a most specific one: no other network of the file
  that contains the client has a longer prefix.
\<close>

theorem network_most_specific:
  assumes "check_routes raw = Inr r" and "first_network (networks r) ip = Some n"
  shows "n \<in> set (networks raw) \<and> contains (n_prefix n) ip \<and>
    \<not> (\<exists>m \<in> set (networks raw). contains (n_prefix m) ip \<and> pbits (n_prefix n) < pbits (n_prefix m))"
proof -
  have "networks r = sort_networks (networks raw)"
    using assms(1) by (auto simp: check_routes_def Let_def split: option.splits if_splits)
  then have f: "first_network (sort_networks (networks raw)) ip = Some n" using assms(2) by simp
  show ?thesis
    using nets.lookup_most_specific [OF f] by force
qed

lemma select_certain:
  assumes "select r ip [] = (dns, ok, False)"
  shows "select r ip mac = (dns, ok, False)"
proof (cases "mac = []")
  case False
  let ?ip = "unmap ip" and ?name = "network_exit r (unmap ip)"
  show ?thesis
  proof (cases "is_valid ip")
    case v: True
    have same: "dns_for r (dev_exit d) = dns_for r ?name"
      if "d \<in> set (devices r)" "contains_any (dev_prefixes d) ?ip" for d
      using that assms v by (auto simp: select_def Let_def list_ex_iff split: if_splits)
    have d: "(if ap_valid (dns_for r ?name) then (dns_for r ?name, True, False) else (no_addr_port, False, False))
        = (dns, ok, False)"
      using assms v by (auto simp: select_def Let_def split: if_splits)
    show ?thesis
    proof (cases "find (\<lambda>d. same_mac (dev_mac d) mac \<and> contains_any (dev_prefixes d) ?ip) (devices r)")
      case None
      then show ?thesis using False v d by (auto simp: select_def Let_def split: if_splits)
    next
      case (Some e)
      then have "e \<in> set (devices r)" "contains_any (dev_prefixes e) ?ip"
        by (auto simp: find_Some_iff)
      then show ?thesis using False v d same Some by (auto simp: select_def Let_def split: if_splits)
    qed
  qed (use assms in \<open>simp add: select_def\<close>)
qed (use assms in simp)

text \<open>
  The relay never guesses: an unidentified client is given an upstream, or none, only when
  every MAC address it could turn out to have would be given the very same answer.
\<close>

theorem select_never_guesses:
  assumes "select r ip [] = (dns, ok, False)"
  shows "select r ip mac = (dns, ok, False)"
  using assms by (rule select_certain)

text \<open>
  The conservative answer agrees with the selection: a device override may matter exactly
  when the selection for an unidentified client is uncertain.
\<close>

theorem may_differ_iff_uncertain:
  "device_dns_may_differ r ip = snd (snd (select r ip []))"
  by (auto simp: device_dns_may_differ_def select_def Let_def list_ex_iff)

lemma check_exits_usable:
  "check_exits seen es = None \<Longrightarrow> e \<in> set es \<Longrightarrow> usable_upstream (e_dns e)"
  by (induction seen es rule: check_exits.induct) (auto split: if_splits)

text \<open>
  Every upstream a selection over accepted routes names is one the relay can ask: a valid
  address that is neither unspecified nor multicast, with a port.
\<close>

theorem select_usable:
  assumes "check_routes raw = Inr r" and "select r ip mac = (dns, True, u)"
  shows "usable_upstream dns \<and> \<not> u"
proof -
  obtain name where n: "dns = dns_for r name" "ap_valid dns" "\<not> u"
    using assms(2) by (auto simp: select_def Let_def split: if_splits)
  have c: "check_exits [] (exits r) = None"
    using assms(1) by (auto simp: check_routes_def Let_def split: option.splits if_splits)
  obtain e where "find (\<lambda>e. e_name e = name) (exits r) = Some e" "dns = e_dns e"
    using n(1,2) by (cases "find (\<lambda>e. e_name e = name) (exits r)")
      (auto simp: dns_for_def ap_valid_def no_addr_port_def)
  moreover from this have "e \<in> set (exits r)" by (auto simp: find_Some_iff)
  ultimately show ?thesis
    using n(3) check_exits_usable [OF c] by simp
qed

section \<open>A run\<close>

definition sample_routes :: routes where
  "sample_routes = \<lparr>local_domain = [], r_default = ''wan'',
     networks = [\<lparr>n_prefix = prefix_from (V4 0xc0a80000) 16, n_exit = ''wan''\<rparr>,
                 \<lparr>n_prefix = prefix_from (V4 0xc0a80100) 24, n_exit = ''vpn''\<rparr>],
     devices = [\<lparr>dev_mac = ''aa:bb:cc:dd:ee:ff'', dev_exit = ''vpn'',
                  dev_prefixes = [prefix_from (V4 0xc0a80100) 24]\<rparr>],
     exits = [\<lparr>e_name = ''wan'', e_dns = \<lparr>ap_addr = V4 0x08080808, ap_port = 53\<rparr>\<rparr>,
              \<lparr>e_name = ''vpn'', e_dns = \<lparr>ap_addr = V4 0x0a000001, ap_port = 53\<rparr>\<rparr>]\<rparr>"

definition sample_checked :: routes where
  "sample_checked = sample_routes\<lparr>local_domain := ''home.arpa'',
     networks := [\<lparr>n_prefix = prefix_from (V4 0xc0a80100) 24, n_exit = ''vpn''\<rparr>,
                  \<lparr>n_prefix = prefix_from (V4 0xc0a80000) 16, n_exit = ''wan''\<rparr>]\<rparr>"

lemma sample_mac: "parse_mac ''aa:bb:cc:dd:ee:ff'' = Some [0xAA, 0xBB, 0xCC, 0xDD, 0xEE, 0xFF]"
  by code_simp

lemma sample_check: "check_routes sample_routes = Inr sample_checked"
  by (simp add: check_routes_def sample_routes_def sample_checked_def usable_upstream_def ap_valid_def
      is_unspecified_def sample_mac v4_prefix_def prefix_valid_def prefix_from_def sort_networks_def
      network_before_def trim_dot_def Let_def)

lemma network_most_specific_witness:
  "n_exit (the (first_network (networks sample_checked) (V4 0xc0a80107))) = ''vpn'' \<and>
   the (first_network (networks sample_checked) (V4 0xc0a80107)) \<in> set (networks sample_routes)"
proof -
  have "first_network (networks sample_checked) (V4 0xc0a80107)
      = Some \<lparr>n_prefix = prefix_from (V4 0xc0a80100) 24, n_exit = ''vpn''\<rparr>"
    by (simp add: first_network_def sample_checked_def contains_def prefix_from_def prefix_valid_def)
  with network_most_specific [OF sample_check this] show ?thesis by simp
qed

lemma sample_select:
  "select sample_checked (V4 0xc0a80107) [] = (\<lparr>ap_addr = V4 0x0a000001, ap_port = 53\<rparr>, True, False)"
  by (simp add: select_def network_exit_def first_network_def sample_checked_def sample_routes_def contains_def
      contains_any_def dns_for_def ap_valid_def prefix_from_def prefix_valid_def Let_def)

lemma select_never_guesses_witness:
  "select sample_checked (V4 0xc0a80107) ''02:00:00:00:00:01''
     = (\<lparr>ap_addr = V4 0x0a000001, ap_port = 53\<rparr>, True, False)"
  by (rule select_never_guesses [OF sample_select])

lemma select_usable_witness: "usable_upstream \<lparr>ap_addr = V4 0x0a000001, ap_port = 53\<rparr>"
  using select_usable [OF sample_check sample_select] by simp

end
