(* ===== verification/Observed.thy ===== *)
theory Observed
  imports AddrText Interfaces "HOL-Library.AList" "HOL-Library.Char_ord" "HOL-Library.List_Lexorder"
begin

text \<open>
  What the DNS relay remembers: \<open>names.go\<close>, \<open>log.go\<close> and \<open>stats.go\<close> of
  \<open>internal/dnsrelay\<close>. A Go map is an association list with distinct keys, in an order that
  stands for the arbitrary one of the map. Times are nanoseconds.
\<close>

section \<open>The map from names to addresses\<close>

definition MaxNames :: nat where "MaxNames = 20000"

record name_entry =
  ne_client :: addr
  ne_name :: string
  ne_addr :: addr
  ne_chain :: "string list"
  ne_seen :: int

type_synonym name_map = "((addr \<times> addr) \<times> name_entry) list"

definition older_first :: "(addr \<times> addr) \<times> name_entry \<Rightarrow> (addr \<times> addr) \<times> name_entry \<Rightarrow> bool" where
  "older_first a b = (ne_seen (snd a) \<le> ne_seen (snd b))"

definition evict :: "name_map \<Rightarrow> name_map" where
  "evict m =
     (if length m < MaxNames then m
      else (let all = sort_by older_first m;
                drop = (if length all div 10 = 0 then 1 else length all div 10)
            in foldl (\<lambda>m a. AList.delete (fst a) m) m (take drop all)))"

text \<open>The observation of one answer, as far as the map reads it.\<close>

record answer_seen =
  as_name :: string
  as_addrs :: "addr list"
  as_chain :: "string list"

definition record_one :: "addr \<Rightarrow> answer_seen \<Rightarrow> int \<Rightarrow> addr \<Rightarrow> name_map \<Rightarrow> name_map" where
  "record_one client obs now a m =
     (let m' = (if length m \<ge> MaxNames then evict m else m);
          key = (unmap client, unmap a)
      in AList.update key \<lparr>ne_client = fst key, ne_name = as_name obs, ne_addr = snd key,
           ne_chain = as_chain obs, ne_seen = now\<rparr> m')"

definition record_names :: "addr \<Rightarrow> answer_seen \<Rightarrow> int \<Rightarrow> name_map \<Rightarrow> name_map" where
  "record_names client obs now m = fold (record_one client obs now) (as_addrs obs) m"

definition newer_first :: "name_entry \<Rightarrow> name_entry \<Rightarrow> bool" where
  "newer_first a b =
     (if ne_seen a \<noteq> ne_seen b then ne_seen b \<le> ne_seen a
      else if ne_client a \<noteq> ne_client b
      then addr_string (ne_client a) \<le> addr_string (ne_client b)
      else addr_string (ne_addr a) \<le> addr_string (ne_addr b))"

definition limited :: "int \<Rightarrow> 'a list \<Rightarrow> 'a list" where
  "limited limit xs = (if 0 \<le> limit \<and> limit < int (length xs) then take (nat limit) xs else xs)"

definition names_snapshot :: "int \<Rightarrow> name_map \<Rightarrow> name_entry list" where
  "names_snapshot limit m = limited limit (sort_by newer_first (map snd m))"

section \<open>The query log\<close>

record 'q query_log =
  ql_entries :: "'q list"
  ql_next :: nat
  ql_full :: bool
  ql_capacity :: nat

text \<open>\<open>make([]Query, capacity)\<close> fills the slots with the zero query.\<close>

definition new_query_log :: "'q \<Rightarrow> int \<Rightarrow> 'q query_log" where
  "new_query_log zero cap =
     (if cap \<le> 0 then \<lparr>ql_entries = [], ql_next = 0, ql_full = False, ql_capacity = 0\<rparr>
      else \<lparr>ql_entries = replicate (nat cap) zero, ql_next = 0, ql_full = False, ql_capacity = nat cap\<rparr>)"

definition ql_enabled :: "'q query_log \<Rightarrow> bool" where
  "ql_enabled l = (ql_capacity l > 0)"

definition ql_add :: "'q \<Rightarrow> 'q query_log \<Rightarrow> 'q query_log" where
  "ql_add q l =
     (if \<not> ql_enabled l then l
      else (let l' = l\<lparr>ql_entries := (ql_entries l)[ql_next l := q], ql_next := ql_next l + 1\<rparr>
            in if ql_next l' = ql_capacity l' then l'\<lparr>ql_next := 0, ql_full := True\<rparr> else l'))"

definition ql_held :: "'q query_log \<Rightarrow> nat" where
  "ql_held l = (if \<not> ql_enabled l then 0 else if ql_full l then ql_capacity l else ql_next l)"

text \<open>Slot \<open>i\<close> back from the most recent one.\<close>

definition ql_slot :: "'q query_log \<Rightarrow> nat \<Rightarrow> nat" where
  "ql_slot l i = (let idx = int (ql_next l) - 1 - int i
     in nat (if idx < 0 then idx + int (ql_capacity l) else idx))"

definition ql_snapshot :: "int \<Rightarrow> 'q query_log \<Rightarrow> 'q list" where
  "ql_snapshot limit l =
     (if \<not> ql_enabled l then []
      else (let held0 = (if ql_full l then ql_capacity l else ql_next l);
                held = (if 0 \<le> limit \<and> limit < int held0 then nat limit else held0)
            in map (\<lambda>i. ql_entries l ! ql_slot l i) [0 ..< held]))"

section \<open>The table of clients\<close>

definition MaxTrackedClients :: nat where "MaxTrackedClients = 4096"

record client_count =
  cc_queries :: u64
  cc_seen :: int

record client_table =
  ct_clients :: "(addr \<times> client_count) list"
  ct_overflow :: u64

definition client_seen :: "addr \<Rightarrow> int \<Rightarrow> client_table \<Rightarrow> client_table" where
  "client_seen a now t =
     (let k = unmap a
      in case map_of (ct_clients t) k of
           Some c \<Rightarrow> t\<lparr>ct_clients := AList.update k \<lparr>cc_queries = cc_queries c + 1, cc_seen = now\<rparr> (ct_clients t)\<rparr>
         | None \<Rightarrow>
             if length (ct_clients t) \<ge> MaxTrackedClients then t\<lparr>ct_overflow := ct_overflow t + 1\<rparr>
             else t\<lparr>ct_clients := AList.update k \<lparr>cc_queries = 1, cc_seen = now\<rparr> (ct_clients t)\<rparr>)"

definition busier_first :: "addr \<times> client_count \<Rightarrow> addr \<times> client_count \<Rightarrow> bool" where
  "busier_first a b =
     (if cc_queries (snd a) \<noteq> cc_queries (snd b) then cc_queries (snd b) \<le> cc_queries (snd a)
      else addr_string (fst a) \<le> addr_string (fst b))"

definition clients_snapshot :: "client_table \<Rightarrow> (addr \<times> client_count) list" where
  "clients_snapshot t = sort_by busier_first (ct_clients t)"

section \<open>The map stays bounded and keeps what is recent\<close>

definition wf_names :: "name_map \<Rightarrow> bool" where
  "wf_names m = distinct (map fst m)"

lemma foldl_delete: "foldl (\<lambda>m a. AList.delete (fst a) m) m ds = filter (\<lambda>e. fst e \<notin> fst ` set ds) m"
  by (induction ds arbitrary: m) (auto simp: AList.delete_eq case_prod_beta intro: filter_cong)

lemma evict_eq:
  assumes "wf_names m" and "MaxNames \<le> length m"
  shows "set (evict m) = set (drop (length m div 10) (sort_by older_first m))"
    and "length (evict m) = length m - length m div 10" and "wf_names (evict m)"
proof -
  let ?s = "sort_by older_first m" and ?d = "length m div 10"
  have d: "?d \<noteq> 0" using assms(2) by (simp add: MaxNames_def)
  have ds: "distinct ?s" using assms(1) by (simp add: wf_names_def distinct_sort_by distinct_map)
  have e: "evict m = filter (\<lambda>e. fst e \<notin> fst ` set (take ?d ?s)) m"
    using assms(2) d by (simp add: evict_def foldl_delete)
  have inj: "inj_on fst (set m)" using assms(1) by (simp add: wf_names_def distinct_map)
  have sub: "set (take ?d ?s) \<subseteq> set m" using set_take_subset [of ?d ?s] by simp
  then have "evict m = filter (\<lambda>e. e \<notin> set (take ?d ?s)) m"
    unfolding e using inj by (intro filter_cong) (auto dest: inj_onD)
  moreover have "set m = set (take ?d ?s) \<union> set (drop ?d ?s)"
    by (metis append_take_drop_id set_append set_sort_by)
  moreover have "set (take ?d ?s) \<inter> set (drop ?d ?s) = {}"
    using ds by (metis append_take_drop_id distinct_append)
  ultimately show s: "set (evict m) = set (drop ?d ?s)" by auto
  show w: "wf_names (evict m)"
    unfolding e using assms(1) by (simp add: wf_names_def distinct_map_filter)
  have "length (evict m) = card (set (evict m))"
    using w by (simp add: wf_names_def distinct_card distinct_map)
  also have "\<dots> = length m - ?d" unfolding s using ds by (simp add: distinct_card)
  finally show "length (evict m) = length m - ?d" .
qed

lemma length_update_le: "length (AList.update k v m) \<le> Suc (length m)"
  by (induction m) auto

lemma record_one_ok: "wf_names m \<Longrightarrow> wf_names (record_one c obs now a m)"
  using evict_eq(3) [of m] by (auto simp: record_one_def Let_def wf_names_def distinct_update)

lemma record_one_bound:
  assumes "wf_names m" and "length m \<le> MaxNames"
  shows "length (record_one c obs now a m) \<le> MaxNames"
proof -
  have "length (if MaxNames \<le> length m then evict m else m) < MaxNames"
    using assms evict_eq(2) [of m] by (auto simp: MaxNames_def)
  then show ?thesis
    by (simp only: record_one_def Let_def) (meson Suc_leI le_trans length_update_le)
qed

interpretation names: bounded_store "\<lambda>(c, obs, now, a). record_one c obs now a" length MaxNames wf_names
  by unfold_locales (auto simp: record_one_ok record_one_bound)

lemma record_names_fold: "record_names c obs now m
    = fold (\<lambda>(c, obs, now, a). record_one c obs now a) (map (\<lambda>a. (c, obs, now, a)) (as_addrs obs)) m"
  by (simp add: record_names_def fold_map o_def)

lemma record_names_bound:
  "wf_names m \<Longrightarrow> length m \<le> MaxNames \<Longrightarrow>
    wf_names (record_names c obs now m) \<and> length (record_names c obs now m) \<le> MaxNames"
  unfolding record_names_fold by (rule names.fold_bound)

lemma observations_bound:
  assumes "wf_names m" and "length m \<le> MaxNames"
  shows "wf_names (fold (\<lambda>(c, obs, now). record_names c obs now) os m) \<and>
    length (fold (\<lambda>(c, obs, now). record_names c obs now) os m) \<le> MaxNames"
  using assms
proof (induction os arbitrary: m)
  case (Cons q os)
  obtain c obs now where q: "q = (c, obs, now)" by (cases q)
  show ?case
    using Cons.IH [OF conjunct1 conjunct2, OF record_names_bound record_names_bound, OF Cons.prems Cons.prems]
    by (simp add: q)
qed simp

lemma record_one_lookup: "map_of (record_one c obs now a m) (unmap c, unmap a)
    = Some \<lparr>ne_client = unmap c, ne_name = as_name obs, ne_addr = unmap a, ne_chain = as_chain obs, ne_seen = now\<rparr>"
  by (simp add: record_one_def Let_def update_conv')

text \<open>
  The name map never holds more than \<open>MaxNames\<close> pairings, one per client and address,
  however many answers are folded in; and the pairing recorded last is in it.
\<close>

theorem names_bounded:
  assumes "m = fold (\<lambda>(c, obs, now). record_names c obs now) observations []"
  shows "distinct (map fst m) \<and> length m \<le> MaxNames \<and>
    map_of (record_names c (obs\<lparr>as_addrs := as_addrs obs @ [a]\<rparr>) now m) (unmap c, unmap a)
      = Some \<lparr>ne_client = unmap c, ne_name = as_name obs, ne_addr = unmap a,
              ne_chain = as_chain obs, ne_seen = now\<rparr>"
proof -
  have m: "wf_names m \<and> length m \<le> MaxNames"
    unfolding assms by (rule observations_bound) (simp_all add: wf_names_def)
  have "record_names c (obs\<lparr>as_addrs := as_addrs obs @ [a]\<rparr>) now m
      = record_one c (obs\<lparr>as_addrs := as_addrs obs @ [a]\<rparr>) now a
          (fold (record_one c (obs\<lparr>as_addrs := as_addrs obs @ [a]\<rparr>) now) (as_addrs obs) m)"
    by (simp add: record_names_def)
  then show ?thesis
    using m by (simp only: wf_names_def record_one_lookup simp_thms) simp
qed

lemma names_bounded_witness:
  "length (fold (\<lambda>(c, obs, now). record_names c obs now)
     [(V4 1, \<lparr>as_name = ''a'', as_addrs = [V4 9], as_chain = []\<rparr>, 5 :: int)] []) \<le> MaxNames"
  using names_bounded [OF refl] by blast

text \<open>
  Eviction drops a tenth of a full map, and what it drops no answer has confirmed more
  recently than anything it keeps.
\<close>

theorem evict_drops_oldest:
  assumes "distinct (map fst m)" and "MaxNames \<le> length m"
  shows "length (evict m) = length m - length m div 10 \<and> set (evict m) \<subseteq> set m \<and>
    (\<forall>d \<in> set m - set (evict m). \<forall>k \<in> set (evict m). ne_seen (snd d) \<le> ne_seen (snd k))"
proof -
  let ?s = "sort_by older_first m" and ?d = "length m div 10"
  have w: "wf_names m" using assms(1) by (simp add: wf_names_def)
  have "sorted_by older_first ?s"
    by (rule sorted_sort_by) (auto simp: older_first_def)
  then have "\<forall>x \<in> set (take ?d ?s). \<forall>y \<in> set (drop ?d ?s). older_first x y"
    by (metis append_take_drop_id sorted_wrt_append)
  moreover have "set m = set (take ?d ?s) \<union> set (drop ?d ?s)"
    by (metis append_take_drop_id set_append set_sort_by)
  ultimately show ?thesis
    using evict_eq [OF w assms(2)] by (auto simp: older_first_def)
qed

section \<open>The log is its most recent queries\<close>

definition wf_log :: "'q query_log \<Rightarrow> bool" where
  "wf_log l = (length (ql_entries l) = ql_capacity l \<and>
     (ql_next l < ql_capacity l \<or> ql_capacity l = 0 \<and> ql_next l = 0))"

text \<open>The abstract log: what it holds, newest first.\<close>

definition recent :: "'q query_log \<Rightarrow> 'q list" where
  "recent l = map (\<lambda>i. ql_entries l ! ql_slot l i) [0 ..< ql_held l]"

lemma ql_slot_simps:
  assumes "i < ql_capacity l" and "ql_next l < ql_capacity l"
  shows "ql_slot l i = (if i < ql_next l then ql_next l - 1 - i else ql_next l + ql_capacity l - 1 - i)"
  using assms by (auto simp: ql_slot_def Let_def nat_diff_distrib)

lemma recent_add:
  assumes "wf_log l"
  shows "wf_log (ql_add q l)" "ql_capacity (ql_add q l) = ql_capacity l"
    "recent (ql_add q l) = take (ql_capacity l) (q # recent l)" "length (recent l) \<le> ql_capacity l"
proof -
  let ?l = "ql_add q l"
  show w: "wf_log ?l" and c: "ql_capacity ?l = ql_capacity l"
    using assms by (auto simp: ql_add_def wf_log_def ql_enabled_def Let_def)
  show le: "length (recent l) \<le> ql_capacity l"
    using assms by (auto simp: recent_def ql_held_def wf_log_def)
  show "recent ?l = take (ql_capacity l) (q # recent l)"
  proof (cases "ql_enabled l")
    case False
    then show ?thesis by (simp add: ql_add_def recent_def ql_held_def ql_enabled_def)
  next
    case True
    then have n: "ql_next l < ql_capacity l" "length (ql_entries l) = ql_capacity l"
      using assms by (auto simp: wf_log_def ql_enabled_def)
    have h: "ql_held ?l = min (ql_capacity l) (Suc (ql_held l))"
      using True n by (auto simp: ql_add_def ql_held_def ql_enabled_def Let_def)
    have hl: "ql_held l \<le> ql_capacity l" using n by (auto simp: ql_held_def)
    have n': "ql_next ?l < ql_capacity ?l" using w True c by (auto simp: wf_log_def ql_enabled_def)
    have nx: "ql_next ?l = (if Suc (ql_next l) = ql_capacity l then 0 else Suc (ql_next l))"
      and en: "ql_entries ?l = (ql_entries l)[ql_next l := q]"
      using True by (auto simp: ql_add_def Let_def)
    have "ql_entries ?l ! ql_slot ?l i = (q # recent l) ! i" if "i < ql_held ?l" for i
    proof (cases i)
      case 0
      have "ql_slot ?l 0 = ql_next l" using n n' nx by (auto simp: ql_slot_simps c)
      then show ?thesis using 0 n en by simp
    next
      case (Suc j)
      then have j: "j < ql_held l" "Suc j < ql_capacity l" using that h by auto
      have "ql_slot ?l i = ql_slot l j" "ql_slot l j \<noteq> ql_next l"
        using Suc j n n' nx hl by (auto simp: ql_slot_simps c)
      then show ?thesis using Suc j en by (simp add: recent_def)
    qed
    then show ?thesis
      using h by (intro nth_equalityI) (auto simp: recent_def)
  qed
qed

interpretation log: recent_log ql_add recent ql_capacity wf_log
  by unfold_locales (auto simp: recent_add)

lemma snapshot_recent:
  "ql_snapshot limit l = limited limit (recent l)"
  by (auto simp: ql_snapshot_def limited_def recent_def ql_held_def ql_enabled_def Let_def take_map)

lemma ring_snapshot:
  "ql_snapshot limit (fold ql_add qs (new_query_log zero cap)) = limited limit (take (nat cap) (rev qs))"
proof -
  have "wf_log (new_query_log zero cap)" "recent (new_query_log zero cap) = []"
    "ql_capacity (new_query_log zero cap) = nat cap"
    by (auto simp: new_query_log_def wf_log_def recent_def ql_held_def ql_enabled_def)
  then show ?thesis
    using log.fold_entries [of "new_query_log zero cap" qs] by (simp add: snapshot_recent)
qed

text \<open>
  C22. The ring is the list of the most recent queries: after any number of additions a
  snapshot is the newest of them, newest first, as many as the limit and the capacity allow.
\<close>

theorem log_refines_recent:
  "ql_snapshot limit (fold ql_add qs (new_query_log zero cap)) = limited limit (take (nat cap) (rev qs))"
  by (rule ring_snapshot)

section \<open>The table of clients counts every query\<close>

definition ct_total :: "client_table \<Rightarrow> u64" where
  "ct_total t = sum_list (map (\<lambda>(a, c). cc_queries c) (ct_clients t)) + ct_overflow t"

definition wf_clients :: "client_table \<Rightarrow> bool" where
  "wf_clients t = distinct (map fst (ct_clients t))"

lemma sum_update:
  fixes f :: "'b \<Rightarrow> 'c::comm_ring_1"
  assumes "distinct (map fst m)"
  shows "sum_list (map (\<lambda>(k, c). f c) (AList.update k v m)) =
    sum_list (map (\<lambda>(k, c). f c) m) - (case map_of m k of None \<Rightarrow> 0 | Some c \<Rightarrow> f c) + f v"
  using assms by (induction m) (auto simp: algebra_simps split: option.splits)

lemma length_update_found: "map_of m k = Some c \<Longrightarrow> length (AList.update k v m) = length m"
  by (induction m) (auto split: if_splits)

lemma client_seen_step:
  assumes "wf_clients t"
  shows "wf_clients (client_seen a now t)" "ct_total (client_seen a now t) = ct_total t + 1"
    "length (ct_clients t) \<le> MaxTrackedClients \<Longrightarrow> length (ct_clients (client_seen a now t)) \<le> MaxTrackedClients"
proof -
  have s: "sum_list (map (\<lambda>(a, c). cc_queries c) (AList.update k v (ct_clients t))) =
      sum_list (map (\<lambda>(a, c). cc_queries c) (ct_clients t))
      - (case map_of (ct_clients t) k of None \<Rightarrow> 0 | Some c \<Rightarrow> cc_queries c) + cc_queries v" for k v
    using sum_update [of "ct_clients t" cc_queries k v] assms by (simp add: wf_clients_def)
  show "wf_clients (client_seen a now t)"
    using assms by (auto simp: client_seen_def wf_clients_def Let_def distinct_update split: option.split)
  show "ct_total (client_seen a now t) = ct_total t + 1"
    by (auto simp: client_seen_def ct_total_def Let_def s split: option.split)
  show "length (ct_clients (client_seen a now t)) \<le> MaxTrackedClients"
    if "length (ct_clients t) \<le> MaxTrackedClients"
  proof (cases "map_of (ct_clients t) (unmap a)")
    case None
    then show ?thesis
      using that length_update_le [of "unmap a" "\<lparr>cc_queries = 1, cc_seen = now\<rparr>" "ct_clients t"]
      by (simp add: client_seen_def Let_def)
  next
    case (Some c)
    then have "length (AList.update (unmap a) v (ct_clients t)) = length (ct_clients t)" for v
      by (simp add: length_update_found)
    then show ?thesis using that Some by (simp add: client_seen_def Let_def)
  qed
qed

interpretation clients: bounded_store "\<lambda>(a, now). client_seen a now" "\<lambda>t. length (ct_clients t)"
  MaxTrackedClients wf_clients
  by unfold_locales (auto simp: client_seen_step)

text \<open>
  The client table is bounded and loses no query: what its rows count and what it counts
  as overflow are together the queries seen, as a 64-bit number.
\<close>

theorem clients_count_every_query:
  "length (ct_clients (fold (\<lambda>(a, now). client_seen a now) qs \<lparr>ct_clients = [], ct_overflow = 0\<rparr>)) \<le> MaxTrackedClients \<and>
   ct_total (fold (\<lambda>(a, now). client_seen a now) qs \<lparr>ct_clients = [], ct_overflow = 0\<rparr>) = of_nat (length qs)"
proof -
  let ?t = "\<lparr>ct_clients = [], ct_overflow = 0\<rparr>"
  have w: "wf_clients ?t" by (simp add: wf_clients_def)
  have "wf_clients t \<Longrightarrow> ct_total (fold (\<lambda>(a, now). client_seen a now) qs t) = ct_total t + of_nat (length qs)" for t
    by (induction qs arbitrary: t) (auto simp: client_seen_step)
  from this [OF w] show ?thesis
    using clients.fold_bound [OF w] by (simp add: ct_total_def)
qed

text \<open>The hypotheses of the eviction theorem hold of a full map.\<close>

definition full_map :: name_map where
  "full_map = map (\<lambda>i. ((V4 1, V4 (of_nat i)), \<lparr>ne_client = V4 1, ne_name = ''a'', ne_addr = V4 (of_nat i),
     ne_chain = [], ne_seen = int i\<rparr>)) [0 ..< MaxNames]"

lemma evict_drops_oldest_witness: "length (evict full_map) = 18000"
proof -
  have l: "length full_map = MaxNames" by (simp add: full_map_def)
  have "inj_on (\<lambda>i. (V4 1, V4 (of_nat i))) (set [0 ..< MaxNames])"
  proof (rule inj_onI)
    have b: "unat (of_nat i :: u32) = i" if "i \<in> set [0 ..< MaxNames]" for i
    proof -
      have "i < 2 ^ 32" using that unfolding set_upt by (simp add: MaxNames_def)
      then show ?thesis by (simp add: unsigned_of_nat take_bit_nat_eq_self)
    qed
    fix i j assume "i \<in> set [0 ..< MaxNames]" "j \<in> set [0 ..< MaxNames]"
      "(V4 1, V4 (of_nat i)) = (V4 1, V4 (of_nat j))"
    then show "i = j" by (metis b addr.inject(1) prod.inject)
  qed
  then have d: "distinct (map fst full_map)"
    by (simp add: full_map_def o_def distinct_map)
  show ?thesis
    using evict_drops_oldest [OF d] l by (simp add: MaxNames_def)
qed

end
