(* ===== verification/Relay.thy ===== *)
theory Relay
  imports DnsMessage Routes Observed
begin

text \<open>
  \<open>internal/dnsrelay/relay.go\<close>: deciding one query, and the tee behind which everything that
  merely watches runs. The upstream's answer, the wire format and the identity of the client
  are parameters. A reload reads the policies and the routes.
\<close>

section \<open>State\<close>

record counters =
  n_queries :: u64
  n_blocked :: u64
  n_failed :: u64
  n_dropped :: u64
  n_unparsed :: u64

record rules =
  r_policies :: policy_set
  r_routes :: routes

record relay_config =
  filter_aaaa :: bool
  upstream :: addr_port

record result =
  response :: "byte list"
  r_question :: "question option"
  r_decision :: decision
  r_upstream :: string
  r_local :: bool

definition no_decision :: decision where
  "no_decision = \<lparr>blocked = False, d_policy = [], d_response = []\<rparr>"

definition no_result :: result where
  "no_result = \<lparr>response = [], r_question = None, r_decision = no_decision, r_upstream = [], r_local = False\<rparr>"

fun addr_port_string :: "addr_port \<Rightarrow> string" where
  "addr_port_string a = (case ap_addr a of
     AddrNone \<Rightarrow> ''invalid AddrPort''
   | V4 x \<Rightarrow> addr_string (V4 x) @ '':'' @ itoa (unat (ap_port a))
   | V6 x z \<Rightarrow> ''['' @ addr_string (V6 x z) @ '']:'' @ itoa (unat (ap_port a)))"

section \<open>Reloading\<close>

text \<open>A directory entry: its name, whether it is a directory, and the policy read from it.\<close>

record dir_entry =
  de_name :: string
  de_dir :: bool
  de_policy :: "policy option"

definition ends_with :: "string \<Rightarrow> string \<Rightarrow> bool" where
  "ends_with suf s = starts_with (rev suf) (rev s)"

definition policy_file :: "dir_entry \<Rightarrow> bool" where
  "policy_file e = (\<not> (de_dir e \<or> \<not> ends_with ''.json'' (de_name e) \<or> starts_with ''.'' (de_name e)))"

fun read_policies :: "dir_entry list \<Rightarrow> policy list option" where
  "read_policies [] = Some []"
| "read_policies (e # es) =
     (if \<not> policy_file e then read_policies es
      else (case de_policy e of
              None \<Rightarrow> None
            | Some p \<Rightarrow> map_option (Cons p) (read_policies es)))"

definition by_name :: "policy \<Rightarrow> policy \<Rightarrow> bool" where
  "by_name a b = (p_name a \<le> p_name b)"

definition load_policies :: "dir_entry list \<Rightarrow> policy list option" where
  "load_policies es = map_option (sort_by by_name) (read_policies es)"

text \<open>\<open>Reload\<close>: both files, or neither; an error leaves the rules that were in force.\<close>

definition reload :: "dir_entry list option \<Rightarrow> (route_error + routes) \<Rightarrow> rules \<Rightarrow> bool \<times> rules" where
  "reload dir routes old =
     (case dir of
        None \<Rightarrow> (False, old)
      | Some es \<Rightarrow>
          (case load_policies es of
             None \<Rightarrow> (False, old)
           | Some ps \<Rightarrow>
               (case routes of
                  Inl e \<Rightarrow> (False, old)
                | Inr r \<Rightarrow> (True, \<lparr>r_policies = compile ps, r_routes = r\<rparr>))))"

section \<open>Resolving a query\<close>

definition local_name :: "routes \<Rightarrow> string \<Rightarrow> bool" where
  "local_name r name = (local_domain r \<noteq> [] \<and>
     (name = local_domain r \<or> ends_with (CHR ''.'' # local_domain r) name))"

text \<open>The upstream of a query that is not answered here; \<open>None\<close> is an uncertain client.\<close>

definition choose_upstream ::
  "relay_config \<Rightarrow> routes \<Rightarrow> (string \<times> bool) \<Rightarrow> addr \<Rightarrow> question option \<Rightarrow> addr_port option" where
  "choose_upstream cfg r ident client q =
     (case q of
        None \<Rightarrow> Some (upstream cfg)
      | Some q \<Rightarrow>
          if exits r = [] \<or> local_name r (q_name q) then Some (upstream cfg)
          else (let (mac, ambiguous) = ident;
                    (selected, ok, uncertain) = select r client mac
                in if uncertain \<or> (ambiguous \<and> device_dns_may_differ r client) then None
                   else Some (if ok then selected else upstream cfg)))"

text \<open>
  \<open>resolve\<close>: the result, whether there was no error, and the counters. \<open>forward\<close> is what the
  upstream answered. The parser does not panic on the fast path: it reads the question only.
\<close>

definition relay_query ::
  "builder \<Rightarrow> (addr_port \<Rightarrow> byte list \<Rightarrow> byte list option) \<Rightarrow> relay_config \<Rightarrow> rules \<Rightarrow> (string \<times> bool) \<Rightarrow>
   addr \<Rightarrow> byte list \<Rightarrow> parsed \<Rightarrow> result \<Rightarrow> counters \<Rightarrow> (result \<times> bool) \<times> counters" where
  "relay_query build forward cfg ru ident client query p res n =
     (case choose_upstream cfg (r_routes ru) ident client (r_question res) of
        None \<Rightarrow>
          (case synthesize_failure build p of
             None \<Rightarrow> ((res\<lparr>response := []\<rparr>, False), n\<lparr>n_failed := n_failed n + 1\<rparr>)
           | Some b \<Rightarrow> ((res\<lparr>response := b\<rparr>, True), n\<lparr>n_failed := n_failed n + 1\<rparr>))
      | Some up \<Rightarrow>
          (let res' = res\<lparr>r_upstream := addr_port_string up\<rparr>
           in case forward up query of
                None \<Rightarrow> ((res', False), n\<lparr>n_failed := n_failed n + 1\<rparr>)
              | Some b \<Rightarrow> ((res'\<lparr>response := b\<rparr>, True), n)))"

definition resolve ::
  "builder \<Rightarrow> (byte list \<Rightarrow> parsed) \<Rightarrow> (addr_port \<Rightarrow> byte list \<Rightarrow> byte list option) \<Rightarrow> relay_config \<Rightarrow> rules \<Rightarrow>
   (string \<times> bool) \<Rightarrow> addr \<Rightarrow> byte list \<Rightarrow> counters \<Rightarrow> (result \<times> bool) \<times> counters" where
  "resolve build parse forward cfg ru ident client query n =
     (let p = parse query
      in case parse_question p of
           None \<Rightarrow> relay_query build forward cfg ru ident client query p no_result n
         | Some q \<Rightarrow>
             (let res = no_result\<lparr>r_question := Some q\<rparr>
              in if filter_aaaa cfg \<and> q_type q = TypeAAAA then
                   (case answer_query build p [] 0 of
                      None \<Rightarrow> ((res\<lparr>r_local := True\<rparr>, False), n)
                    | Some b \<Rightarrow> ((res\<lparr>response := b, r_local := True\<rparr>, True), n))
                 else (let d = decide (Some (r_policies ru)) client (q_name q);
                           res = res\<lparr>r_decision := d\<rparr>
                       in if blocked d then
                            (case synthesize build p (d_response d) of
                               None \<Rightarrow> relay_query build forward cfg ru ident client query p
                                 (res\<lparr>r_decision := d\<lparr>blocked := False\<rparr>\<rparr>) n
                             | Some b \<Rightarrow> ((res\<lparr>response := b\<rparr>, True), n\<lparr>n_blocked := n_blocked n + 1\<rparr>))
                          else relay_query build forward cfg ru ident client query p res n)))"

section \<open>The tee\<close>

definition TeeBuffer :: nat where "TeeBuffer = 256"

record observation =
  o_at :: int
  o_client :: addr
  o_msg :: "byte list"
  o_blocked :: bool
  o_local :: bool
  o_policy :: string
  o_upstream :: string
  o_question :: "question option"

record query_row =
  q_at :: int
  q_client :: addr
  q_row_name :: string
  q_row_type :: string
  q_rcode :: string
  q_blocked :: bool
  q_policy :: string
  q_upstream :: string
  q_answers :: "addr list"
  q_chain :: "string list"

record relay =
  rl_log :: "query_row query_log"
  rl_names :: name_map
  rl_clients :: client_table
  rl_counters :: counters
  rl_tee :: "observation list"

text \<open>A read query is counted, and its client; the two loops of \<open>server.go\<close> begin so.\<close>

definition arrive :: "addr \<Rightarrow> int \<Rightarrow> relay \<Rightarrow> relay" where
  "arrive client now r = r\<lparr>rl_counters := (rl_counters r)\<lparr>n_queries := n_queries (rl_counters r) + 1\<rparr>,
     rl_clients := client_seen client now (rl_clients r)\<rparr>"

text \<open>\<open>observe\<close>: a copy of the answer, or one more drop; never a wait. The map is never nil.\<close>

definition observe :: "addr \<Rightarrow> result \<Rightarrow> int \<Rightarrow> relay \<Rightarrow> relay" where
  "observe client res now r =
     (if length (rl_tee r) < TeeBuffer
      then r\<lparr>rl_tee := rl_tee r @ [\<lparr>o_at = now, o_client = client, o_msg = response res,
             o_blocked = blocked (r_decision res), o_local = r_local res, o_policy = d_policy (r_decision res),
             o_upstream = r_upstream res, o_question = r_question res\<rparr>]\<rparr>
      else r\<lparr>rl_counters := (rl_counters r)\<lparr>n_dropped := n_dropped (rl_counters r) + 1\<rparr>\<rparr>)"

definition unparsed_row :: "observation \<Rightarrow> question \<Rightarrow> query_row" where
  "unparsed_row o' q = \<lparr>q_at = o_at o', q_client = o_client o', q_row_name = q_name q,
     q_row_type = q_type_name q, q_rcode = ''UNPARSED'', q_blocked = o_blocked o', q_policy = o_policy o',
     q_upstream = o_upstream o', q_answers = [], q_chain = []\<rparr>"

definition seen_row :: "observation \<Rightarrow> seen \<Rightarrow> query_row" where
  "seen_row o' s = \<lparr>q_at = o_at o', q_client = o_client o', q_row_name = s_name s,
     q_row_type = s_type_name s, q_rcode = s_rcode s, q_blocked = o_blocked o', q_policy = o_policy o',
     q_upstream = o_upstream o', q_answers = s_addrs s, q_chain = s_chain s\<rparr>"

definition count_unparsed :: "relay \<Rightarrow> relay" where
  "count_unparsed r = r\<lparr>rl_counters := (rl_counters r)\<lparr>n_unparsed := n_unparsed (rl_counters r) + 1\<rparr>\<rparr>"

definition record_observation :: "parser \<Rightarrow> observation \<Rightarrow> relay \<Rightarrow> relay" where
  "record_observation parse o' r =
     (case parse (o_msg o') of
        None \<Rightarrow> count_unparsed r
      | Some p \<Rightarrow>
          (case observe_message p of
             None \<Rightarrow>
               (let r' = count_unparsed r
                in case o_question o' of
                     None \<Rightarrow> r'
                   | Some q \<Rightarrow> r'\<lparr>rl_log := ql_add (unparsed_row o' q) (rl_log r')\<rparr>)
           | Some s \<Rightarrow>
               (let r' = r\<lparr>rl_log := ql_add (seen_row o' s) (rl_log r)\<rparr>
                in if \<not> o_blocked o' \<and> \<not> o_local o'
                   then r'\<lparr>rl_names := record_names (o_client o')
                          \<lparr>as_name = s_name s, as_addrs = s_addrs s, as_chain = s_chain s\<rparr> (o_at o') (rl_names r')\<rparr>
                   else r')))"

text \<open>One turn of \<open>observeLoop\<close>.\<close>

definition observe_next :: "parser \<Rightarrow> relay \<Rightarrow> relay" where
  "observe_next parse r = (case rl_tee r of
     [] \<Rightarrow> r
   | o' # rest \<Rightarrow> record_observation parse o' (r\<lparr>rl_tee := rest\<rparr>))"

section \<open>What resolving promises\<close>

text \<open>
  The refusal of a question, as the operator's policy spells it: the name does not exist, or (for ''zero'')
  it exists and its address is zero.
\<close>

definition refusal :: "dns_header \<Rightarrow> wire_question \<Rightarrow> policy \<Rightarrow> built" where
  "refusal h w pol = \<lparr>b_id = h_id h, b_opcode = h_opcode h, b_authoritative = False, b_rd = h_rd h,
     b_rcode = (if p_response pol = ''zero'' then 0 else 3), b_question = w,
     b_answers = (if p_response pol = ''zero'' \<and> w_type w = 1 then [(60, RA 0)]
       else if p_response pol = ''zero'' \<and> w_type w = 28 then [(60, RAAAA 0)] else [])\<rparr>"

lemma synthesize_refusal:
  assumes "pm_header p = Some h" and "pm_question p = Some w"
  shows "synthesize build p (c_response (compile_one pol)) = build (refusal h w pol)"
  using assms
  by (auto simp: synthesize_def query_head_def refusal_def compile_one_def RespondZero_def RespondNXDOMAIN_def BlockTTL_def)

lemma decide_governed:
  assumes "governs pol ps client" and "name \<noteq> []"
    and "\<exists>b \<in> set (p_block pol). covers_name b name" and "\<not> (\<exists>a \<in> set (p_allow pol). covers_name a name)"
  shows "decide (Some (compile ps)) client name = \<lparr>blocked = True, d_policy = p_name pol, d_response = c_response (compile_one pol)\<rparr>"
  using assms(2-4) by (simp add: decide_def governs_policy_for [OF assms(1)] matches_iff) (simp add: compile_one_def)

lemma decide_none [simp]: "decide (Some (compile [])) client name = no_decision"
proof -
  have "policy_for (compile []) client = None"
    by (simp add: policy_for_def compile_eq claims_of_def default_of_def sort_claims_def first_claim_def)
  then show ?thesis by (simp add: decide_def no_decision_def)
qed

text \<open>A relayed result carries the decision along and does not look at it.\<close>

lemma relay_query_decision:
  "relay_query build forward cfg ru ident client query p (res\<lparr>r_decision := d\<rparr>) n =
     (case relay_query build forward cfg ru ident client query p res n of ((res', ok), n') \<Rightarrow> ((res'\<lparr>r_decision := d\<rparr>, ok), n'))"
  by (auto simp: relay_query_def Let_def split: option.splits)

text \<open>
  C6. A name is refused here when the policy that governs the client has an entry for it or for a parent
  of it and allows neither: what comes back is the refusal the policy spells, it is the same whatever the
  upstreams would say and whoever the client is taken for, no upstream is named and the refusal is
  counted. There are two exceptions, both from the code. A question for IPv6 addresses on a box that
  filters them is answered here before any policy is asked. And a refusal that the builder cannot put into
  bytes is given up: the name is then relayed, exactly as on a box without policies.
\<close>

theorem blocked_never_forwarded:
  assumes "r_policies ru = compile ps" and "governs pol ps client"
    and "pm_header (parse query) = Some h" and "pm_question (parse query) = Some w" and "name = canonical_name (w_name w)"
    and "name \<noteq> []" and "\<exists>b \<in> set (p_block pol). covers_name b name" and "\<not> (\<exists>a \<in> set (p_allow pol). covers_name a name)"
  shows "let here = \<lambda>ru forward ident. resolve build parse forward cfg ru ident client query n;
             out = here ru forward ident; res = fst (fst out)
    in if filter_aaaa cfg \<and> w_type w = 28
       then r_upstream res = [] \<and> r_local res \<and> (\<forall>forward' ident'. here ru forward' ident' = out)
       else (case build (refusal h w pol) of
               Some b \<Rightarrow> response res = b \<and> r_upstream res = [] \<and> snd (fst out) \<and> snd out = n\<lparr>n_blocked := n_blocked n + 1\<rparr> \<and>
                 (\<forall>forward' ident'. here ru forward' ident' = out)
             | None \<Rightarrow> out = (case here (ru\<lparr>r_policies := compile []\<rparr>) forward ident of ((r, ok), n') \<Rightarrow>
                 ((r\<lparr>r_decision := \<lparr>blocked = False, d_policy = p_name pol, d_response = c_response (compile_one pol)\<rparr>\<rparr>, ok), n')))"
proof -
  have q: "parse_question (parse query) = Some (question_of w)" using assms(3,4) by (simp add: parse_question_def)
  have d: "decide (Some (r_policies ru)) client (q_name (question_of w)) =
      \<lparr>blocked = True, d_policy = p_name pol, d_response = c_response (compile_one pol)\<rparr>"
    unfolding assms(1) question_of_def question.select_convs assms(5) [symmetric]
    by (rule decide_governed [of pol ps client name, OF assms(2) assms(6) assms(7) assms(8)])
  have t: "q_type (question_of w) = w_type w" by (simp add: question_of_def)
  show ?thesis
  proof (cases "filter_aaaa cfg \<and> w_type w = 28")
    case True
    then show ?thesis by (simp add: resolve_def Let_def q t no_result_def split: option.split)
  next
    case False
    then have not_filtered: "(filter_aaaa cfg \<and> w_type w = 28) = False" by blast
    have r: "resolve build parse f cfg ru' i client query n =
        (let d = decide (Some (r_policies ru')) client (q_name (question_of w)); res = no_result\<lparr>r_question := Some (question_of w), r_decision := d\<rparr>
         in if blocked d then (case synthesize build (parse query) (d_response d) of
              None \<Rightarrow> relay_query build f cfg ru' i client query (parse query) (res\<lparr>r_decision := d\<lparr>blocked := False\<rparr>\<rparr>) n
            | Some b \<Rightarrow> ((res\<lparr>response := b\<rparr>, True), n\<lparr>n_blocked := n_blocked n + 1\<rparr>))
            else relay_query build f cfg ru' i client query (parse query) res n)" for f ru' i
      unfolding resolve_def Let_def q option.case t not_filtered if_False by (rule refl)
    note s = synthesize_refusal [OF assms(3,4), of build pol]
    have u: "relay_query build f cfg (ru\<lparr>r_policies := x\<rparr>) i client query p res n = relay_query build f cfg ru i client query p res n" for f x i p res
      by (simp add: relay_query_def)
    have nb: "\<not> blocked no_decision" by (simp add: no_decision_def)
    show ?thesis
    proof (cases "build (refusal h w pol)")
      case None
      show ?thesis
        unfolding Let_def not_filtered if_False None option.case r
        using None nb by (simp add: d s u relay_query_decision split: prod.split)
    next
      case (Some b)
      show ?thesis
        unfolding Let_def not_filtered if_False Some option.case r
        using Some by (simp add: d s no_result_def)
    qed
  qed
qed

lemma relay_query_cases:
  obtains up b where "choose_upstream cfg (r_routes ru) ident client (r_question res) = Some up"
    "forward up query = Some b"
    "relay_query build forward cfg ru ident client query p res n =
       ((res\<lparr>r_upstream := addr_port_string up, response := b\<rparr>, True), n)"
  | up where "choose_upstream cfg (r_routes ru) ident client (r_question res) = Some up"
    "forward up query = None"
    "relay_query build forward cfg ru ident client query p res n =
       ((res\<lparr>r_upstream := addr_port_string up\<rparr>, False), n\<lparr>n_failed := n_failed n + 1\<rparr>)"
  | b where "choose_upstream cfg (r_routes ru) ident client (r_question res) = None"
    "synthesize_failure build p = Some b"
    "relay_query build forward cfg ru ident client query p res n =
       ((res\<lparr>response := b\<rparr>, True), n\<lparr>n_failed := n_failed n + 1\<rparr>)"
  | "choose_upstream cfg (r_routes ru) ident client (r_question res) = None"
    "synthesize_failure build p = None"
    "relay_query build forward cfg ru ident client query p res n =
       ((res\<lparr>response := []\<rparr>, False), n\<lparr>n_failed := n_failed n + 1\<rparr>)"
  by (cases "choose_upstream cfg (r_routes ru) ident client (r_question res)")
     (auto simp: relay_query_def Let_def split: option.splits)

lemma resolve_cases:
  assumes "resolve build parse forward cfg ru ident client query n = ((res, True), n')"
  obtains (own) "r_upstream res = []"
  | (relayed) up where "forward up query = Some (response res)" "r_upstream res = addr_port_string up"
      "choose_upstream cfg (r_routes ru) ident client (r_question res) = Some up" "n' = n"
      "r_question res = parse_question (parse query)"
proof -
  have q: "r_upstream r0 = [] \<Longrightarrow> relay_query build forward cfg ru ident client query p r0 n = ((res, True), n') \<Longrightarrow>
      r_upstream res = [] \<or> (\<exists>up. forward up query = Some (response res) \<and> r_upstream res = addr_port_string up \<and>
        choose_upstream cfg (r_routes ru) ident client (r_question res) = Some up \<and> n' = n \<and> r_question res = r_question r0)"
    for p r0
    by (rule relay_query_cases [of cfg ru ident client r0 forward query build p n]) auto
  show ?thesis
    using assms that
    by (auto simp: resolve_def Let_def no_result_def dest!: q [rotated] split: option.splits if_splits)
qed

text \<open>
  A relayed answer is the upstream's, byte for byte: when a resolution that succeeded
  names an upstream, its response is exactly what that upstream sent for the client's own
  query, nothing was counted as failed, and the upstream is the one the routes chose.
\<close>

theorem relayed_verbatim:
  assumes "resolve build parse forward cfg ru ident client query n = ((res, True), n')" and "r_upstream res \<noteq> []"
  shows "\<exists>up. forward up query = Some (response res) \<and> r_upstream res = addr_port_string up \<and> n' = n \<and>
    choose_upstream cfg (r_routes ru) ident client (parse_question (parse query)) = Some up"
  by (rule resolve_cases [OF assms(1)]) (use assms(2) in auto)

lemma addr_port_string_nonempty: "addr_port_string a \<noteq> []"
  by (cases "ap_addr a") auto

text \<open>
  C15. The upstream never depends on a guess: for a name outside the local zone an unidentified
  client gets the upstream that every identity it may have would get, and a name of the local
  zone always goes to the resolver of this box.
\<close>

theorem upstream_without_guessing:
  assumes "choose_upstream cfg r ([], ambiguous) client q = Some up"
  shows "choose_upstream cfg r (mac, False) client q = Some up \<and>
    (\<forall>qu. q = Some qu \<longrightarrow> local_name r (q_name qu) \<longrightarrow> up = upstream cfg)"
proof (cases "\<exists>qu. q = Some qu \<and> \<not> (exits r = [] \<or> local_name r (q_name qu))")
  case True
  obtain dns ok u where s: "select r client [] = (dns, ok, u)" by (cases "select r client []") auto
  then have "u = False" using assms True by (auto simp: choose_upstream_def split: if_splits)
  then have "select r client mac = (dns, ok, False)" using s select_certain by blast
  then show ?thesis using assms True s \<open>u = False\<close> by (auto simp: choose_upstream_def split: if_splits)
next
  case False
  then show ?thesis using assms by (auto simp: choose_upstream_def split: option.splits if_splits)
qed

text \<open>
  C29. A reload is all or nothing: unless every policy file and the routes could be read, the
  rules that were in force stay in force.
\<close>

theorem reload_all_or_nothing:
  "case reload dir routes old of (ok, new) \<Rightarrow>
     if ok then (\<exists>es ps r. dir = Some es \<and> load_policies es = Some ps \<and> routes = Inr r \<and>
         sorted_by by_name ps \<and> new = \<lparr>r_policies = compile ps, r_routes = r\<rparr>)
     else new = old"
proof -
  have "sorted_by by_name (sort_by by_name ps)" for ps
    by (rule sorted_sort_by) (auto simp: by_name_def)
  then show ?thesis
    by (auto simp: reload_def load_policies_def split: option.splits sum.splits)
qed

section \<open>What the far side of the tee promises\<close>

text \<open>
  The relay running: queries arrive, results are offered to the tee, the observer takes one. The lists
  are the queries that came and the results offered, each with whether the queue held 256 at the time;
  the number is how many the observer took.
\<close>

definition as_observed :: "addr \<Rightarrow> result \<Rightarrow> int \<Rightarrow> observation" where
  "as_observed client res now = \<lparr>o_at = now, o_client = client, o_msg = response res, o_blocked = blocked (r_decision res),
     o_local = r_local res, o_policy = d_policy (r_decision res), o_upstream = r_upstream res, o_question = r_question res\<rparr>"

inductive running :: "parser \<Rightarrow> relay \<Rightarrow> (addr \<times> int) list \<Rightarrow> (observation \<times> bool) list \<Rightarrow> nat \<Rightarrow> relay \<Rightarrow> bool"
  for parse r0 where
  start: "running parse r0 [] [] 0 r0"
| arrive: "running parse r0 qs os j r \<Longrightarrow> running parse r0 (qs @ [(client, now)]) os j (arrive client now r)"
| offer: "running parse r0 qs os j r \<Longrightarrow>
    running parse r0 qs (os @ [(as_observed client res now, 256 \<le> length (rl_tee r))]) j (observe client res now r)"
| take: "running parse r0 qs os j r \<Longrightarrow> rl_tee r \<noteq> [] \<Longrightarrow> running parse r0 qs os (Suc j) (observe_next parse r)"

inductive_cases runningE: "running parse r0 qs os j r"




text \<open>The results that had room in the queue, and those that had not.\<close>

definition accepted :: "(observation \<times> bool) list \<Rightarrow> observation list" where
  "accepted os = map fst (filter (\<lambda>(o', full). \<not> full) os)"

definition turned_away :: "(observation \<times> bool) list \<Rightarrow> nat" where
  "turned_away os = length (filter snd os)"

lemma accepted_simps [simp]:
  "accepted [] = []" "accepted (os @ [(o', full)]) = accepted os @ (if full then [] else [o'])"
  "turned_away [] = 0" "turned_away (os @ [(o', full)]) = turned_away os + (if full then 1 else 0)"
  by (simp_all add: accepted_def turned_away_def)











section \<open>A run\<close>

definition sample_policy :: policy where
  "sample_policy = \<lparr>p_name = ''kids'', p_clients = [], p_response = [], p_block = [''w.x''], p_allow = []\<rparr>"

definition sample_rules :: "policy list \<Rightarrow> rules" where
  "sample_rules ps = \<lparr>r_policies = compile ps, r_routes = sample_checked\<rparr>"

definition sample_config :: relay_config where
  "sample_config = \<lparr>filter_aaaa = False, upstream = \<lparr>ap_addr = V4 0x7f000001, ap_port = 5335\<rparr>\<rparr>"

definition zero_counters :: counters where
  "zero_counters = \<lparr>n_queries = 0, n_blocked = 0, n_failed = 0, n_dropped = 0, n_unparsed = 0\<rparr>"

lemma sample_question: "parse_question sample_parsed
    = Some \<lparr>q_name = ''w.x'', q_type = 1, q_type_name = ''A''\<rparr>"
  by (simp add: parse_question_def sample_parsed_def question_of_def sample_canonical type_name_def type_names_def)

lemma sample_policy_for: "policy_for (r_policies (sample_rules [sample_policy])) a = Some (compile_one sample_policy)"
proof -
  have "claims_of [sample_policy] = []" "default_of [sample_policy] = Some (compile_one sample_policy)"
    by (simp_all add: claims_of_def default_of_def sample_policy_def)
  then show ?thesis
    by (simp add: policy_for_def sample_rules_def compile_eq sort_claims_def first_claim_def)
qed

lemma sample_decide: "decide (Some (r_policies (sample_rules [sample_policy]))) (V4 5) ''w.x''
    = \<lparr>blocked = True, d_policy = ''kids'', d_response = ''nxdomain''\<rparr>"
proof -
  have c: "c_allow (compile_one sample_policy) = []" "c_block (compile_one sample_policy) = [''w.x'']"
    "c_name (compile_one sample_policy) = ''kids''" "c_response (compile_one sample_policy) = ''nxdomain''"
    by (simp_all add: compile_one_def sample_policy_def RespondNXDOMAIN_def)
  have "matches [''w.x''] ''w.x''"
    unfolding matches_def parents_match.simps [of _ "''w.x''"] by simp
  moreover have "\<not> matches [] ''w.x''" by (simp add: matches_def)
  ultimately show ?thesis
    unfolding decide_def option.case sample_policy_for c by simp
qed

lemma sample_synthesize: "synthesize (\<lambda>b. Some [1]) sample_parsed ''nxdomain'' = Some [1]"
  by (simp add: synthesize_def query_head_def sample_parsed_def)

lemma blocked_never_forwarded_witness:
  "let out = resolve (\<lambda>b. Some [1]) (\<lambda>m. sample_parsed) (\<lambda>u q. None) sample_config (sample_rules [sample_policy]) ([], False) (V4 5) [0] zero_counters
   in response (fst (fst out)) = [1] \<and> r_upstream (fst (fst out)) = [] \<and> snd out = zero_counters\<lparr>n_blocked := n_blocked zero_counters + 1\<rparr>"
proof -
  let ?w = "\<lparr>w_name = ''w.x.'', w_type = 1, w_class = 1\<rparr>" and ?h = "\<lparr>h_id = 7, h_opcode = 0, h_rd = True, h_rcode = 0\<rparr>"
  have g: "governs sample_policy [sample_policy] (V4 5)" by (simp add: governs_def sample_policy_def)
  have n: "''w.x'' = canonical_name (w_name ?w)" by code_simp
  have p: "pm_header sample_parsed = Some ?h" "pm_question sample_parsed = Some ?w" by (simp_all add: sample_parsed_def)
  have f: "\<not> (filter_aaaa sample_config \<and> w_type ?w = 28)" by (simp add: sample_config_def)
  have c: "r_policies (sample_rules [sample_policy]) = compile [sample_policy]" by (simp add: sample_rules_def)
  have m: "\<exists>b \<in> set (p_block sample_policy). covers_name b ''w.x''" "\<not> (\<exists>a \<in> set (p_allow sample_policy). covers_name a ''w.x'')"
    by (simp_all add: sample_policy_def covers_name_def)
  show ?thesis
    using blocked_never_forwarded [where parse = "\<lambda>m. sample_parsed" and build = "\<lambda>b. Some [1]" and cfg = sample_config and query = "[0]"
      and forward = "\<lambda>u q. None" and ident = "([], False)" and n = zero_counters, OF c g p n _ m] f
    by (simp add: Let_def)
qed

lemma sample_choice:
  "choose_upstream sample_config sample_checked ([], False) (V4 0xc0a80107)
     (Some \<lparr>q_name = ''w.x'', q_type = 1, q_type_name = ''A''\<rparr>) = Some \<lparr>ap_addr = V4 0x0a000001, ap_port = 53\<rparr>"
proof -
  have "\<not> local_name sample_checked ''w.x''"
    by (simp add: local_name_def sample_checked_def ends_with_def)
  moreover have "exits sample_checked \<noteq> []"
    by (simp add: sample_checked_def sample_routes_def)
  ultimately show ?thesis using sample_select by (simp add: choose_upstream_def)
qed

lemma no_policy_decides: "decide (Some (r_policies (sample_rules []))) a n = no_decision"
proof -
  have "policy_for (r_policies (sample_rules [])) a = None"
    by (simp add: policy_for_def sample_rules_def compile_eq claims_of_def default_of_def
        sort_claims_def first_claim_def)
  then show ?thesis by (simp add: decide_def no_decision_def)
qed

lemma sample_relayed:
  "resolve (\<lambda>b. None) (\<lambda>m. sample_parsed) (\<lambda>u q. Some [7, 7]) sample_config
     (sample_rules []) ([], False) (V4 0xc0a80107) [0] zero_counters
   = ((no_result\<lparr>r_question := Some \<lparr>q_name = ''w.x'', q_type = 1, q_type_name = ''A''\<rparr>, r_decision := no_decision,
        r_upstream := addr_port_string \<lparr>ap_addr = V4 0x0a000001, ap_port = 53\<rparr>, response := [7, 7]\<rparr>, True), zero_counters)"
proof -
  have r: "r_routes (sample_rules []) = sample_checked" unfolding sample_rules_def by (rule rules.select_convs)
  have f: "filter_aaaa sample_config = False" unfolding sample_config_def by (rule relay_config.select_convs)
  have b: "blocked no_decision = False" unfolding no_decision_def by (rule decision.select_convs)
  show ?thesis
    unfolding resolve_def Let_def sample_question option.case f simp_thms if_False no_policy_decides b
      relay_query_def r
    by (simp add: sample_choice del: addr_port_string.simps)
qed

lemma relayed_verbatim_witness:
  "\<exists>up. addr_port_string up = addr_port_string \<lparr>ap_addr = V4 0x0a000001, ap_port = 53\<rparr>"
proof -
  have "r_upstream (no_result\<lparr>r_question := Some \<lparr>q_name = ''w.x'', q_type = 1, q_type_name = ''A''\<rparr>,
      r_decision := no_decision, r_upstream := addr_port_string \<lparr>ap_addr = V4 0x0a000001, ap_port = 53\<rparr>,
      response := [7, 7]\<rparr>) = addr_port_string \<lparr>ap_addr = V4 0x0a000001, ap_port = 53\<rparr>"
    by (simp del: addr_port_string.simps)
  then show ?thesis
    using relayed_verbatim [OF sample_relayed] addr_port_string_nonempty by (metis (no_types))
qed

lemma upstream_without_guessing_witness:
  "choose_upstream sample_config sample_checked (''02:00:00:00:00:01'', False) (V4 0xc0a80107)
     (Some \<lparr>q_name = ''w.x'', q_type = 1, q_type_name = ''A''\<rparr>) = Some \<lparr>ap_addr = V4 0x0a000001, ap_port = 53\<rparr>"
  using upstream_without_guessing [OF sample_choice] by blast






end
