(* ===== verification/Identity.thy ===== *)
theory Identity
  imports AddrText "HOL-Library.AList"
begin

text \<open>
  \<open>internal/dnsrelay/identity.go\<close>: the MAC address behind a client address, from the lease
  file and the neighbour table, and the addresses two of them disagree about. A file is its
  text; \<open>None\<close> is one that could not be read. \<open>byIP\<close> and \<open>unknown\<close> are association lists
  with distinct keys.
\<close>

section \<open>The text of the two files\<close>

text \<open>\<open>strings.Fields\<close>: the runs between spaces.\<close>

function fields_from :: "string \<Rightarrow> string \<Rightarrow> string list" where
  "fields_from cur s =
     (case s of
        [] \<Rightarrow> if cur = [] then [] else [cur]
      | c # cs \<Rightarrow>
          if space_len spaces s = 0 then fields_from (cur @ [c]) cs
          else (if cur = [] then [] else [cur]) @ fields_from [] (drop (space_len spaces s) s))"
  by pat_completeness auto
termination
  by (relation "measure (\<lambda>(cur, s). length s)") auto

declare fields_from.simps [simp del]

definition string_fields :: "string \<Rightarrow> string list" where
  "string_fields s = fields_from [] s"

text \<open>
  \<open>netip.ParseAddr\<close>, as far as it answers an IPv4 address; the callers drop every other
  result. An octet is one to three digits, at most 255, with no leading zero.
\<close>

definition parse_octet :: "string \<Rightarrow> nat option" where
  "parse_octet s =
     (if s = [] \<or> length s > 3 \<or> (length s > 1 \<and> hd s = CHR ''0'') then None
      else (case digits_value 0 s of None \<Rightarrow> None | Some n \<Rightarrow> if n > 255 then None else Some n))"

definition parse_v4 :: "string \<Rightarrow> addr option" where
  "parse_v4 s = (case map parse_octet (split_on CHR ''.'' s) of
     [Some a, Some b, Some c, Some d] \<Rightarrow>
       Some (V4 (of_nat (((a * 256 + b) * 256 + c) * 256 + d)))
   | _ \<Rightarrow> None)"

text \<open>\<open>strconv.ParseUint(s, 16, 32)\<close>.\<close>

fun hex_value :: "nat \<Rightarrow> string \<Rightarrow> nat option" where
  "hex_value acc [] = Some acc"
| "hex_value acc (c # cs) = (case hex_digit c of None \<Rightarrow> None | Some d \<Rightarrow> hex_value (acc * 16 + d) cs)"

definition parse_hex32 :: "string \<Rightarrow> u32 option" where
  "parse_hex32 s = (if s = [] then None
     else (case hex_value 0 s of None \<Rightarrow> None | Some n \<Rightarrow> if n \<ge> 2 ^ 32 then None else Some (of_nat n)))"

definition trim_0x :: "string \<Rightarrow> string" where
  "trim_0x s = (if starts_with ''0x'' s then drop 2 s else s)"

section \<open>The operations\<close>

definition maxIdentityEntries :: nat where "maxIdentityEntries = 8192"

type_synonym identity = "(addr \<times> string) list \<times> addr list"

definition identity_mac :: "string \<Rightarrow> string option" where
  "identity_mac mac = (case parse_mac mac of
     None \<Rightarrow> None
   | Some hw \<Rightarrow> if length hw \<noteq> 6 then None else Some (map lower (mac_string hw)))"

text \<open>The closure \<open>add\<close>, on an address and a MAC address it accepted.\<close>

definition add_known :: "addr \<Rightarrow> string \<Rightarrow> identity \<Rightarrow> identity" where
  "add_known a mac st =
     (let (found, amb) = st
      in if length found \<ge> maxIdentityEntries \<and> map_of found a = None then st
         else (AList.update a mac found,
               if map_of found a \<noteq> None \<and> map_of found a \<noteq> Some mac then List.insert a amb else amb))"

definition add_identity :: "addr \<Rightarrow> string \<Rightarrow> identity \<Rightarrow> identity" where
  "add_identity a mac st =
     (case identity_mac mac of
        None \<Rightarrow> st
      | Some m \<Rightarrow> if \<not> is4 a then st else add_known a m st)"

definition lease_line :: "int \<Rightarrow> string \<Rightarrow> identity \<Rightarrow> identity" where
  "lease_line now line st =
     (let f = string_fields line
      in if length f < 3 then st
         else (case atoi (f ! 0) of
                 None \<Rightarrow> st
               | Some expiry \<Rightarrow>
                   if expiry \<noteq> 0 \<and> expiry \<le> now then st
                   else (case parse_v4 (f ! 2) of None \<Rightarrow> st | Some a \<Rightarrow> add_identity a (f ! 1) st)))"

definition arp_line :: "string \<Rightarrow> identity \<Rightarrow> identity" where
  "arp_line line st =
     (let f = string_fields line
      in if length f < 6 then st
         else (case parse_hex32 (trim_0x (f ! 2)) of
                 None \<Rightarrow> st
               | Some flags \<Rightarrow>
                   if \<not> bit flags 1 then st
                   else (case parse_v4 (f ! 0) of None \<Rightarrow> st | Some a \<Rightarrow> add_identity a (f ! 3) st)))"

definition file_lines :: "string option \<Rightarrow> string list" where
  "file_lines data = (case data of None \<Rightarrow> [] | Some d \<Rightarrow> split_on CHR 0x0A d)"

text \<open>The neighbour table is read by a \<open>bufio.Scanner\<close>, which stops at a line that does not fit its 64 KiB.\<close>

definition scanned_lines :: "string option \<Rightarrow> string list" where
  "scanned_lines data = takeWhile (\<lambda>l. length l < 65536) (file_lines data)"

definition collect_identity_state :: "string option \<Rightarrow> string option \<Rightarrow> int \<Rightarrow> identity" where
  "collect_identity_state leases arp now =
     (let st = fold (lease_line now) (file_lines leases) ([], []);
          (found, amb) = fold arp_line (scanned_lines arp) st
      in (filter (\<lambda>(a, m). a \<notin> set amb) found, amb))"

record identity_cache =
  until :: int
  by_ip :: identity

text \<open>
  \<open>identityCache.mac\<close>: \<open>configured\<close> is whether either file is named; the answer is the MAC
  address, empty for none, and whether the address is contested.
\<close>

definition cache_mac ::
  "bool \<Rightarrow> string option \<Rightarrow> string option \<Rightarrow> int \<Rightarrow> addr \<Rightarrow> identity_cache \<Rightarrow> (string \<times> bool) \<times> identity_cache" where
  "cache_mac configured leases arp now ip c =
     (if \<not> configured \<or> \<not> is_valid ip then (([], False), c)
      else (let c' = (if now > until c
                      then \<lparr>until = now + 1000000000, by_ip = collect_identity_state leases arp (now div 1000000000)\<rparr>
                      else c);
                (found, amb) = by_ip c'
            in ((case map_of found (unmap ip) of None \<Rightarrow> [] | Some m \<Rightarrow> m, unmap ip \<in> set amb), c')))"

section \<open>What an identity promises\<close>

text \<open>The observations the two files make, in their order.\<close>

definition known :: "addr option \<Rightarrow> string \<Rightarrow> (addr \<times> string) list" where
  "known a mac = (case (a, identity_mac mac) of (Some a, Some m) \<Rightarrow> if is4 a then [(a, m)] else [] | _ \<Rightarrow> [])"

definition lease_seen :: "int \<Rightarrow> string \<Rightarrow> (addr \<times> string) list" where
  "lease_seen now line =
     (let f = string_fields line
      in if length f < 3 then []
         else (case atoi (f ! 0) of None \<Rightarrow> []
               | Some e \<Rightarrow> if e \<noteq> 0 \<and> e \<le> now then [] else known (parse_v4 (f ! 2)) (f ! 1)))"

definition arp_seen :: "string \<Rightarrow> (addr \<times> string) list" where
  "arp_seen line =
     (let f = string_fields line
      in if length f < 6 then []
         else (case parse_hex32 (trim_0x (f ! 2)) of None \<Rightarrow> []
               | Some flags \<Rightarrow> if \<not> bit flags 1 then [] else known (parse_v4 (f ! 0)) (f ! 3)))"

definition observations :: "string option \<Rightarrow> string option \<Rightarrow> int \<Rightarrow> (addr \<times> string) list" where
  "observations leases arp now =
     concat (map (lease_seen now) (file_lines leases)) @ concat (map arp_seen (scanned_lines arp))"

abbreviation add_all :: "(addr \<times> string) list \<Rightarrow> identity \<Rightarrow> identity" where
  "add_all obs st \<equiv> fold (\<lambda>(a, m). add_known a m) obs st"

lemma lease_line_eq: "lease_line now line st = add_all (lease_seen now line) st"
  by (simp add: lease_line_def lease_seen_def known_def add_identity_def Let_def split: option.split)

lemma arp_line_eq: "arp_line line st = add_all (arp_seen line) st"
  by (simp add: arp_line_def arp_seen_def known_def add_identity_def Let_def split: option.split)

lemma fold_lines:
  assumes "\<And>l st. step l st = add_all (seen l) st"
  shows "fold step ls st = add_all (concat (map seen ls)) st"
  using assms by (induction ls arbitrary: st) simp_all

definition consistent :: "(addr \<times> string) list \<Rightarrow> identity \<Rightarrow> bool" where
  "consistent obs st = (distinct (map fst (fst st)) \<and>
     (\<forall>a m. map_of (fst st) a = Some m \<longrightarrow>
        (a, m) \<in> set obs \<and> (a \<notin> set (snd st) \<longrightarrow> (\<forall>m'. (a, m') \<in> set obs \<longrightarrow> m' = m))) \<and>
     (\<forall>a m. map_of (fst st) a = None \<longrightarrow> (a, m) \<in> set obs \<longrightarrow> length (fst st) \<ge> maxIdentityEntries))"

lemma length_update: "length (AList.update k v m) = (if map_of m k = None then Suc (length m) else length m)"
  by (induction m) auto

lemma consistent_add:
  assumes "consistent obs st"
  shows "consistent (obs @ [(a, m)]) (add_known a m st)"
proof -
  obtain found amb where st: "st = (found, amb)" by (cases st)
  show ?thesis
    using assms unfolding st consistent_def add_known_def
    by (auto simp: update_conv' distinct_update length_update simp del: map_of_eq_Some_iff
        split: if_splits)
qed

lemma consistent_all: "consistent obs (add_all obs ([], []))"
proof (induction obs rule: rev_induct)
  case (snoc o' obs)
  then show ?case using consistent_add by (cases o') auto
qed (simp add: consistent_def)

text \<open>
  C25. A MAC address is believed only when nothing contradicts it: the address it is given for
  was seen with it, and with no other, in either file.
\<close>

theorem identity_unambiguous:
  assumes "map_of (fst (collect_identity_state leases arp now)) a = Some m"
  shows "(a, m) \<in> set (observations leases arp now) \<and>
    \<not> (\<exists>m'. (a, m') \<in> set (observations leases arp now) \<and> m' \<noteq> m)"
proof -
  define st where "st = add_all (observations leases arp now) ([], [])"
  have c: "consistent (observations leases arp now) st"
    unfolding st_def by (rule consistent_all)
  have "fold arp_line (scanned_lines arp) (fold (lease_line now) (file_lines leases) ([], [])) = st"
    by (simp add: fold_lines [OF lease_line_eq] fold_lines [OF arp_line_eq] st_def observations_def)
  then have e: "collect_identity_state leases arp now = (filter (\<lambda>(a, m). a \<notin> set (snd st)) (fst st), snd st)"
    by (simp add: collect_identity_state_def case_prod_beta Let_def)
  then have "(a, m) \<in> set (fst st)" "a \<notin> set (snd st)"
    using map_of_SomeD [OF assms] by auto
  moreover from this have "map_of (fst st) a = Some m"
    using c by (simp add: consistent_def)
  ultimately show ?thesis using c by (auto simp: consistent_def)
qed

definition sample_leases :: string where
  "sample_leases = ''0 AA:BB:CC:DD:EE:FF 10.0.0.5''"

lemma sample_fields: "string_fields sample_leases = [''0'', ''AA:BB:CC:DD:EE:FF'', ''10.0.0.5'']"
  by (simp add: sample_leases_def string_fields_def fields_from.simps space_len_def spaces_def)

lemma sample_identity: "identity_mac ''AA:BB:CC:DD:EE:FF'' = Some ''aa:bb:cc:dd:ee:ff''"
  by code_simp

lemma sample_v4: "parse_v4 ''10.0.0.5'' = Some (V4 0x0a000005)"
  by (simp add: parse_v4_def parse_octet_def digit_def)

lemma sample_lines: "file_lines (Some sample_leases) = [sample_leases]" "scanned_lines None = []"
  by (simp_all add: file_lines_def scanned_lines_def sample_leases_def)

lemma sample_expiry: "atoi ''0'' = Some 0"
  by (simp add: atoi_def digit_def)

lemma identity_unambiguous_witness:
  "(V4 0x0a000005, ''aa:bb:cc:dd:ee:ff'') \<in> set (observations (Some sample_leases) None 7)"
proof -
  have "map_of (fst (collect_identity_state (Some sample_leases) None 7)) (V4 0x0a000005)
      = Some ''aa:bb:cc:dd:ee:ff''"
    by (simp add: collect_identity_state_def sample_lines lease_line_def sample_fields sample_expiry
        sample_v4 add_identity_def sample_identity add_known_def maxIdentityEntries_def Let_def)
  from identity_unambiguous [OF this] show ?thesis by blast
qed

end
