(* ===== verification/Slots.thy ===== *)
theory Slots
  imports Main
begin

text \<open>
  Slot allocation, over the slots alone: the contract of \<open>allocateSlots\<close> in
  \<open>internal/gateway/resources.go\<close> and \<open>internal/gateway/nat/resources.go\<close>, which are the same loop
  over different records. Zero is no slot, and \<open>m\<close> is the largest one.
\<close>

section \<open>The loops\<close>

definition slot_in :: "int \<Rightarrow> int \<Rightarrow> bool" where
  "slot_in m s \<longleftrightarrow> 1 \<le> s \<and> s \<le> m"

text \<open>\<open>taken\<close> lists the keys of the loop's map.\<close>

fun drop_taken :: "int \<Rightarrow> int list \<Rightarrow> int list \<Rightarrow> int list \<times> int list" where
  "drop_taken m taken [] = ([], taken)"
| "drop_taken m taken (s # ss) =
     (if \<not> slot_in m s \<or> s \<in> set taken then apfst (Cons 0) (drop_taken m taken ss)
      else apfst (Cons s) (drop_taken m (s # taken) ss))"

function free_from :: "int \<Rightarrow> int list \<Rightarrow> int \<Rightarrow> int" where
  "free_from m taken n = (if n \<le> m \<and> n \<in> set taken then free_from m taken (n + 1) else n)"
  by pat_completeness auto
termination
  by (relation "measure (\<lambda>(m, t, n). nat (m + 1 - n))") auto

declare free_from.simps [simp del]

fun fill_free :: "int \<Rightarrow> int \<Rightarrow> int list \<Rightarrow> int list \<Rightarrow> int list" where
  "fill_free m n taken [] = []"
| "fill_free m n taken (s # ss) =
     (if s \<noteq> 0 then s # fill_free m n taken ss
      else (let n' = free_from m taken n
            in if n' > m then s # ss else n' # fill_free m n' (n' # taken) ss))"

definition allocate :: "int \<Rightarrow> int list \<Rightarrow> int list" where
  "allocate m ss = (let (ss', taken) = drop_taken m [] ss in fill_free m 1 taken ss')"

section \<open>What they promise\<close>

abbreviation used :: "int list \<Rightarrow> int list" where
  "used \<equiv> filter (\<lambda>s. s \<noteq> 0)"

lemma slot_in_nonzero: "slot_in m s \<Longrightarrow> s \<noteq> 0"
  by (simp add: slot_in_def)

lemma drop_taken_props:
  assumes "drop_taken m taken ss = (ss', t)" and "distinct taken" and "\<forall>s \<in> set taken. slot_in m s"
  shows "distinct t \<and> (\<forall>s \<in> set t. slot_in m s) \<and> set t = set taken \<union> set (used ss') \<and> distinct (used ss') \<and>
    set (used ss') \<inter> set taken = {} \<and> length t = length taken + length (used ss') \<and> length ss' = length ss"
  using assms
proof (induction m taken ss arbitrary: ss' t rule: drop_taken.induct)
  case (2 m taken s ss)
  show ?case
  proof (cases "\<not> slot_in m s \<or> s \<in> set taken")
    case True
    then obtain us where u: "drop_taken m taken ss = (us, t)" "ss' = 0 # us"
      using "2.prems"(1) by (auto simp: apfst_def map_prod_def split: prod.splits)
    then show ?thesis using "2.IH"(1) [OF True u(1) "2.prems"(2,3)] by simp
  next
    case False
    then obtain us where u: "drop_taken m (s # taken) ss = (us, t)" "ss' = s # us"
      using "2.prems"(1) by (auto simp: apfst_def map_prod_def split: prod.splits)
    then show ?thesis
      using "2.IH"(2) [OF False u(1)] "2.prems"(2,3) False slot_in_nonzero [of m s] by auto
  qed
qed simp

lemma drop_taken_keeps:
  assumes "drop_taken m taken ss = (ss', t)" and "i < length ss" and "slot_in m (ss ! i)"
    and "ss ! i \<notin> set taken" and "\<forall>j < i. ss ! j \<noteq> ss ! i"
  shows "ss' ! i = ss ! i"
  using assms
proof (induction m taken ss arbitrary: ss' t i rule: drop_taken.induct)
  case (2 m taken s ss)
  have later: "ss ! k \<noteq> s \<and> (\<forall>j < k. ss ! j \<noteq> ss ! k)" if "i = Suc k" for k
    using "2.prems"(5) that by (metis Suc_less_eq nth_Cons_0 nth_Cons_Suc zero_less_Suc)
  show ?case
  proof (cases "\<not> slot_in m s \<or> s \<in> set taken")
    case True
    then obtain us where u: "drop_taken m taken ss = (us, t)" "ss' = 0 # us"
      using "2.prems"(1) by (auto simp: apfst_def map_prod_def split: prod.splits)
    then show ?thesis using "2.IH"(1) [OF True u(1)] "2.prems"(2-4) later True by (cases i) auto
  next
    case False
    then obtain us where u: "drop_taken m (s # taken) ss = (us, t)" "ss' = s # us"
      using "2.prems"(1) by (auto simp: apfst_def map_prod_def split: prod.splits)
    then show ?thesis using "2.IH"(2) [OF False u(1)] "2.prems"(2-4) later by (cases i) auto
  qed
qed simp

lemma free_from_props:
  "n \<le> free_from m taken n \<and> (free_from m taken n \<le> m \<longrightarrow> free_from m taken n \<notin> set taken) \<and>
   (\<forall>i. n \<le> i \<and> i < free_from m taken n \<longrightarrow> i \<in> set taken)"
proof (induction m taken n rule: free_from.induct)
  case (1 m taken n)
  show ?case
  proof (cases "n \<le> m \<and> n \<in> set taken")
    case True
    then have e: "free_from m taken n = free_from m taken (n + 1)" by (subst free_from.simps) simp
    have "i \<in> set taken" if "n \<le> i \<and> i < free_from m taken n" for i
      using "1.IH" [OF True] True that e by (cases "i = n") auto
    then show ?thesis using "1.IH" [OF True] e by auto
  next
    case False
    then show ?thesis by (subst (1 2 3) free_from.simps) (auto simp: free_from.simps)
  qed
qed

lemma full_taken:
  assumes "\<forall>i. 1 \<le> i \<and> i < n \<longrightarrow> i \<in> set taken" and "m < (n :: int)"
  shows "m \<le> int (length taken)"
proof -
  have "{1 .. m} \<subseteq> set taken" using assms by auto
  then have "card {1 .. m} \<le> card (set taken)" by (rule card_mono [rotated]) simp
  also have "\<dots> \<le> length taken" by (rule card_length)
  finally show ?thesis by simp
qed

lemma fill_free_props:
  assumes "set (used ss) \<subseteq> set taken" and "distinct (used ss)" and "\<forall>s \<in> set taken. slot_in m s"
    and "1 \<le> n" and "\<forall>i. 1 \<le> i \<and> i < n \<longrightarrow> i \<in> set taken"
  shows "distinct (used (fill_free m n taken ss)) \<and> (\<forall>s \<in> set (used (fill_free m n taken ss)). slot_in m s) \<and>
    set (used (fill_free m n taken ss)) \<inter> set taken = set (used ss) \<and>
    list_all2 (\<lambda>a b. a = 0 \<or> a = b) ss (fill_free m n taken ss) \<and>
    (int (length taken + length (filter (\<lambda>s. s = 0) ss)) \<le> m \<longrightarrow> 0 \<notin> set (fill_free m n taken ss))"
  using assms
proof (induction m n taken ss rule: fill_free.induct)
  case (2 m n taken s ss)
  define n' where "n' = free_from m taken n"
  show ?case
  proof (cases "s = 0")
    case False
    then show ?thesis using "2.IH"(1) [OF False] "2.prems" by auto
  next
    case z: True
    have refl: "list_all2 (\<lambda>a b. a = 0 \<or> a = b) us us" for us :: "int list" by (simp add: list_all2_same)
    note nf = free_from_props [of n m taken, folded n'_def]
    have below: "\<forall>i. 1 \<le> i \<and> i < n' \<longrightarrow> i \<in> set taken" using nf "2.prems"(5) by (metis not_le)
    show ?thesis
    proof (cases "n' > m")
      case True
      then have "m \<le> int (length taken)" using full_taken below by blast
      then show ?thesis using True z "2.prems" refl by (auto simp: n'_def [symmetric] Let_def)
    next
      case False
      have n1: "n' \<notin> set taken" "1 \<le> n'" "slot_in m n'" using nf "2.prems"(4) False by (auto simp: slot_in_def)
      have ih: "distinct (used (fill_free m n' (n' # taken) ss)) \<and> (\<forall>s \<in> set (used (fill_free m n' (n' # taken) ss)). slot_in m s) \<and>
          set (used (fill_free m n' (n' # taken) ss)) \<inter> set (n' # taken) = set (used ss) \<and>
          list_all2 (\<lambda>a b. a = 0 \<or> a = b) ss (fill_free m n' (n' # taken) ss) \<and>
          (int (length (n' # taken) + length (filter (\<lambda>s. s = 0) ss)) \<le> m \<longrightarrow> 0 \<notin> set (fill_free m n' (n' # taken) ss))"
        by (rule "2.IH"(2) [OF _ n'_def False]) (use "2.prems" z n1 below in auto)
      have "n' \<notin> set (used ss)" using n1(1) "2.prems"(1) z by auto
      then have new: "n' \<notin> set (used (fill_free m n' (n' # taken) ss))" using ih by auto
      have e: "fill_free m n taken (s # ss) = n' # fill_free m n' (n' # taken) ss"
        using z False by (simp add: n'_def Let_def)
      have "set (used (fill_free m n' (n' # taken) ss)) \<inter> set taken = set (used ss)" using ih new by auto
      then show ?thesis unfolding e using ih new n1 z by (auto simp: slot_in_def)
    qed
  qed
qed simp

lemma allocate_props:
  "distinct (used (allocate m ss))" "\<forall>s \<in> set (used (allocate m ss)). slot_in m s"
  "length (allocate m ss) = length ss"
  "\<lbrakk>i < length ss; slot_in m (ss ! i); \<forall>j < i. ss ! j \<noteq> ss ! i\<rbrakk> \<Longrightarrow> allocate m ss ! i = ss ! i"
  "int (length ss) \<le> m \<Longrightarrow> 0 \<notin> set (allocate m ss)"
proof -
  obtain us t where d: "drop_taken m [] ss = (us, t)" by fastforce
  have dp: "\<forall>s \<in> set t. slot_in m s" "set (used us) \<subseteq> set t" "distinct (used us)"
    "length t = length (used us)" "length us = length ss"
    using drop_taken_props [OF d] by simp_all
  have a: "allocate m ss = fill_free m 1 t us" using d by (simp add: allocate_def)
  have "\<forall>i :: int. 1 \<le> i \<and> i < 1 \<longrightarrow> i \<in> set t" by auto
  note fp = fill_free_props [OF dp(2,3,1) order_refl this, folded a]
  show "distinct (used (allocate m ss))" "\<forall>s \<in> set (used (allocate m ss)). slot_in m s" using fp by blast+
  have l: "list_all2 (\<lambda>a b. a = 0 \<or> a = b) us (allocate m ss)" using fp by blast
  then show "length (allocate m ss) = length ss" using dp(5) by (simp add: list_all2_lengthD)
  show "allocate m ss ! i = ss ! i" if "i < length ss" "slot_in m (ss ! i)" "\<forall>j < i. ss ! j \<noteq> ss ! i"
    using drop_taken_keeps [OF d that(1,2)] that list_all2_nthD [OF l, of i] dp(5) slot_in_nonzero [OF that(2)] by auto
  have "length t + length (filter (\<lambda>s. s = 0) us) = length ss"
    using dp(4,5) sum_length_filter_compl [of "\<lambda>s. s \<noteq> 0" us] by simp
  then show "0 \<notin> set (allocate m ss)" if "int (length ss) \<le> m" using fp that by simp
qed

section \<open>The contract\<close>

text \<open>
  An allocator of records: what it does to the slots is \<open>allocate\<close>, and it does nothing else.
\<close>

locale slot_allocator =
  fixes slot :: "'a \<Rightarrow> int"
    and with_slot :: "int \<Rightarrow> 'a \<Rightarrow> 'a"
    and alloc :: "'a list \<Rightarrow> 'a list"
    and last_slot :: int
  assumes slots: "map slot (alloc xs) = allocate last_slot (map slot xs)"
    and rest: "list_all2 (\<lambda>x y. y = with_slot (slot y) x) xs (alloc xs)"
begin

lemma alloc_unique: "distinct (used (map slot (alloc xs)))"
  unfolding slots by (rule allocate_props)

lemma alloc_in: "x \<in> set (alloc xs) \<Longrightarrow> slot x = 0 \<or> slot_in last_slot (slot x)"
proof -
  assume "x \<in> set (alloc xs)"
  then have "slot x \<in> set (map slot (alloc xs))" by simp
  then show ?thesis unfolding slots using allocate_props(2) [of last_slot "map slot xs"] by fastforce
qed

lemma alloc_keeps:
  assumes "i < length xs" and "slot_in last_slot (slot (xs ! i))" and "\<forall>j < i. slot (xs ! j) \<noteq> slot (xs ! i)"
  shows "slot (alloc xs ! i) = slot (xs ! i)"
proof -
  have "length (alloc xs) = length xs" using rest by (metis list_all2_lengthD)
  then have "slot (alloc xs ! i) = map slot (alloc xs) ! i" using assms(1) by simp
  also have "\<dots> = map slot xs ! i" unfolding slots by (rule allocate_props(4)) (use assms in auto)
  finally show ?thesis using assms(1) by simp
qed

lemma alloc_complete: "int (length xs) \<le> last_slot \<Longrightarrow> x \<in> set (alloc xs) \<Longrightarrow> slot x \<noteq> 0"
  using allocate_props(5) [of "map slot xs" last_slot] slots [of xs] by (metis image_eqI length_map set_map)

end

end
