(* ===== verification/PortForward.thy ===== *)
theory PortForward
  imports GoNet GoStrings Slots "HOL-Library.Char_ord" "HOL-Library.List_Lexorder"
begin

text \<open>
  \<open>internal/gateway/nat\<close>: the configuration of port forwards. Port ranges and their text
  form (\<open>port.go\<close>), the document and its edits (\<open>config.go\<close>), and the slots that name a
  forward's counter (\<open>resources.go\<close>). An edit of the receiver returns the new value.
\<close>

section \<open>Protocols and port ranges\<close>

type_synonym protocol = string

definition ProtocolTCP :: protocol where "ProtocolTCP = ''tcp''"
definition ProtocolUDP :: protocol where "ProtocolUDP = ''udp''"
definition ProtocolBoth :: protocol where "ProtocolBoth = ''both''"

definition Protocols :: "protocol list" where
  "Protocols = [ProtocolTCP, ProtocolUDP, ProtocolBoth]"

definition protocol_valid :: "protocol \<Rightarrow> bool" where
  "protocol_valid p = (p = '''' \<or> p \<in> set Protocols)"

definition each :: "protocol \<Rightarrow> protocol list" where
  "each p = (if p = ProtocolBoth then [ProtocolTCP, ProtocolUDP]
     else if p = '''' then [ProtocolTCP]
     else [p])"

record port_range =
  pr_from :: u16
  pr_to :: u16

definition single_port :: "u16 \<Rightarrow> port_range" where
  "single_port p = \<lparr>pr_from = p, pr_to = p\<rparr>"

definition range_valid :: "port_range \<Rightarrow> bool" where
  "range_valid r = (pr_from r \<noteq> 0 \<and> pr_to r \<noteq> 0 \<and> pr_from r \<le> pr_to r)"

definition range_single :: "port_range \<Rightarrow> bool" where
  "range_single r = (pr_from r = pr_to r)"

definition range_count :: "port_range \<Rightarrow> int" where
  "range_count r = uint (pr_to r) - uint (pr_from r) + 1"

definition overlaps :: "port_range \<Rightarrow> port_range \<Rightarrow> bool" where
  "overlaps r other = (pr_from r \<le> pr_to other \<and> pr_from other \<le> pr_to r)"

definition range_string :: "port_range \<Rightarrow> string" where
  "range_string r = (if pr_from r = pr_to r then itoa (unat (pr_from r))
     else itoa (unat (pr_from r)) @ ''-'' @ itoa (unat (pr_to r)))"

datatype port_error = PortRequired | NotAPort string | PortZero | StartsAboveEnd string

text \<open>\<open>strconv.ParseUint(s, 10, 16)\<close>.\<close>

definition parse_uint16 :: "string \<Rightarrow> u16 option" where
  "parse_uint16 s = (if s = [] then None
     else (case digits_value 0 s of
             None \<Rightarrow> None
           | Some n \<Rightarrow> if n < 65536 then Some (of_nat n) else None))"

definition parse_port :: "string \<Rightarrow> port_error + u16" where
  "parse_port s = (case parse_uint16 (trim_space s) of
     None \<Rightarrow> Inl (NotAPort (trim_space s))
   | Some v \<Rightarrow> if v = 0 then Inl PortZero else Inr v)"

text \<open>\<open>strings.Cut\<close> at a one-byte separator: before, after and whether it was found.\<close>

definition cut_at :: "char \<Rightarrow> string \<Rightarrow> string \<times> string \<times> bool" where
  "cut_at c s = (case dropWhile (\<lambda>x. x \<noteq> c) s of
     [] \<Rightarrow> (s, [], False)
   | _ # t \<Rightarrow> (takeWhile (\<lambda>x. x \<noteq> c) s, t, True))"

definition unmarshal_range :: "string \<Rightarrow> port_error + port_range" where
  "unmarshal_range text =
     (let s = trim_space text
      in if s = '''' then Inl PortRequired
         else (let (from', to', is_range) = cut_at CHR ''-'' s
               in case parse_port from' of
                    Inl e \<Rightarrow> Inl e
                  | Inr lo \<Rightarrow>
                      if \<not> is_range then Inr \<lparr>pr_from = lo, pr_to = lo\<rparr>
                      else (case parse_port to' of
                              Inl e \<Rightarrow> Inl e
                            | Inr hi \<Rightarrow>
                                if hi < lo then Inl (StartsAboveEnd s)
                                else Inr \<lparr>pr_from = lo, pr_to = hi\<rparr>)))"

section \<open>Slots\<close>

definition MaxSlot :: int where "MaxSlot = 256"

definition slot_valid :: "int \<Rightarrow> bool" where
  "slot_valid s = (s \<ge> 1 \<and> s \<le> MaxSlot)"

text \<open>\<open>fmt\<close>'s \<open>%d\<close> of an int.\<close>

definition itoa_int :: "int \<Rightarrow> string" where
  "itoa_int i = (if i < 0 then CHR ''-'' # itoa (nat (- i)) else itoa (nat i))"

definition slot_counter :: "int \<Rightarrow> string" where
  "slot_counter s = ''fwd'' @ itoa_int s"

section \<open>The document\<close>

text \<open>A hairpin that is not set is \<open>None\<close>; \<open>To\<close> is an address and a port.\<close>

record forward =
  f_name :: string
  f_in :: string
  f_protocol :: protocol
  f_port :: port_range
  f_to_addr :: addr
  f_to_port :: u16
  f_hairpin :: "bool option"
  f_slot :: int

record egress =
  e_interface :: string
  e_sources :: "prefix list"

record dial_in =
  di_prefix :: prefix
  di_tunnel :: string
  di_uplink :: string

record nat_config =
  enabled :: bool
  forwards :: "forward list"
  egress :: "egress option"
  dial_in :: "dial_in option"

definition egress_empty :: "egress option \<Rightarrow> bool" where
  "egress_empty e = (case e of None \<Rightarrow> True | Some e \<Rightarrow> e_interface e = [] \<or> e_sources e = [])"

definition hairpin_or_default :: "forward \<Rightarrow> bool" where
  "hairpin_or_default f = (case f_hairpin f of None \<Rightarrow> True | Some b \<Rightarrow> b)"

definition protocol_or_default :: "forward \<Rightarrow> protocol" where
  "protocol_or_default f = (if f_protocol f = '''' then ProtocolTCP else f_protocol f)"

definition f_counter :: "forward \<Rightarrow> string" where
  "f_counter f = slot_counter (f_slot f)"

definition find_forward :: "string \<Rightarrow> forward list \<Rightarrow> forward option" where
  "find_forward name fs = find (\<lambda>f. f_name f = name) fs"

definition programs_nothing :: "nat_config \<Rightarrow> bool" where
  "programs_nothing c = (forwards c = [] \<and> egress_empty (egress c) \<and> dial_in c = None)"

text \<open>The two loops of \<open>allocateSlots\<close>; \<open>taken\<close> lists the keys of its map.\<close>

fun drop_slots :: "int list \<Rightarrow> forward list \<Rightarrow> forward list \<times> int list" where
  "drop_slots taken [] = ([], taken)"
| "drop_slots taken (f # fs) =
     (if \<not> slot_valid (f_slot f) \<or> f_slot f \<in> set taken
      then (let (fs', t) = drop_slots taken fs in (f\<lparr>f_slot := 0\<rparr> # fs', t))
      else (let (fs', t) = drop_slots (f_slot f # taken) fs in (f # fs', t)))"

fun fill_slots :: "int \<Rightarrow> int list \<Rightarrow> forward list \<Rightarrow> forward list" where
  "fill_slots n taken [] = []"
| "fill_slots n taken (f # fs) =
     (if f_slot f \<noteq> 0 then f # fill_slots n taken fs
      else (let n' = free_from MaxSlot taken n
            in if n' > MaxSlot then f # fs
               else f\<lparr>f_slot := n'\<rparr> # fill_slots n' (n' # taken) fs))"

definition allocate_slots :: "forward list \<Rightarrow> forward list" where
  "allocate_slots fs = (let (fs', taken) = drop_slots [] fs in fill_slots 1 taken fs')"

definition tidy :: "forward \<Rightarrow> forward" where
  "tidy f = f\<lparr>f_name := trim_space (f_name f), f_in := trim_space (f_in f),
     f_protocol := trim_space (f_protocol f)\<rparr>"

definition forward_by_name :: "forward \<Rightarrow> forward \<Rightarrow> bool" where
  "forward_by_name a b = (f_name a \<le> f_name b)"

definition normalize :: "forward list \<Rightarrow> forward list" where
  "normalize fs = allocate_slots (sort_by forward_by_name (map tidy fs))"

fun replace_first :: "forward \<Rightarrow> forward list \<Rightarrow> forward list option" where
  "replace_first f [] = None"
| "replace_first f (g # gs) =
     (if f_name g = f_name f
      then Some ((if f_slot f = 0 then f\<lparr>f_slot := f_slot g\<rparr> else f) # gs)
      else map_option (Cons g) (replace_first f gs))"

definition upsert :: "forward \<Rightarrow> forward list \<Rightarrow> forward list" where
  "upsert f fs = (case replace_first f fs of
     Some fs' \<Rightarrow> normalize fs'
   | None \<Rightarrow> normalize (fs @ [f]))"

fun remove_forward :: "string \<Rightarrow> forward list \<Rightarrow> forward list" where
  "remove_forward name [] = []"
| "remove_forward name (f # fs) = (if f_name f = name then fs else f # remove_forward name fs)"

definition rename_forward :: "string \<Rightarrow> string \<Rightarrow> forward list \<Rightarrow> forward list \<times> bool" where
  "rename_forward old new fs = (case find_forward old fs of
     None \<Rightarrow> (fs, False)
   | Some f \<Rightarrow> (normalize (remove_forward old fs @ [f\<lparr>f_name := new\<rparr>]), True))"

section \<open>Port ranges\<close>

lemma itoa_char: "c \<in> set (itoa n) \<Longrightarrow> 48 \<le> (of_char c :: nat) \<and> (of_char c :: nat) \<le> 57"
  using itoa_digits [of c n] by auto

lemma dash_itoa: "CHR ''-'' \<notin> set (itoa n)"
  by (rule itoa_free) simp

lemma digit_plain: "c \<in> set (itoa n) \<Longrightarrow> plain c"
  using itoa_char [of c n] by (intro plain_ascii) linarith+

lemma trim_itoa [simp]: "trim_space (itoa n) = itoa n"
  by (rule trim_space_plain) (auto intro!: digit_plain hd_in_set last_in_set)

lemma trim_range_string [simp]: "trim_space (range_string r) = range_string r"
  by (rule trim_space_plain)
     (auto simp: range_string_def hd_append intro!: digit_plain hd_in_set last_in_set)

lemma parse_port_itoa: "parse_port (itoa (unat v)) = (if v = 0 then Inl PortZero else Inr v)"
proof -
  have "unat v < 65536" using unsigned_less [of v] by simp
  then show ?thesis
    by (auto simp: parse_port_def parse_uint16_def digits_value_itoa of_nat_unat)
qed

lemma parse_port_nonzero: "parse_port s = Inr v \<Longrightarrow> v \<noteq> 0"
  by (auto simp: parse_port_def split: option.splits if_splits)

lemma cut_at_absent: "c \<notin> set s \<Longrightarrow> cut_at c s = (s, [], False)"
proof -
  assume "c \<notin> set s"
  then have "dropWhile (\<lambda>x. x \<noteq> c) s = []" by (induction s) auto
  then show ?thesis unfolding cut_at_def by (simp only: list.case)
qed

lemma cut_at_append: "c \<notin> set a \<Longrightarrow> cut_at c (a @ c # b) = (a, b, True)"
proof -
  assume "c \<notin> set a"
  then have "dropWhile (\<lambda>x. x \<noteq> c) (a @ c # b) = c # b" "takeWhile (\<lambda>x. x \<noteq> c) (a @ c # b) = a"
    by (induction a) auto
  then show ?thesis by (simp add: cut_at_def)
qed

lemma unmarshal_range_string:
  "unmarshal_range (range_string r) = (if range_valid r then Inr r
     else if pr_from r = 0 \<or> pr_to r = 0 then Inl PortZero else Inl (StartsAboveEnd (range_string r)))"
proof (cases "pr_from r = pr_to r")
  case True
  then have "unmarshal_range (range_string r) = (case parse_port (itoa (unat (pr_from r))) of
      Inl e \<Rightarrow> Inl e | Inr lo \<Rightarrow> Inr \<lparr>pr_from = lo, pr_to = lo\<rparr>)"
    unfolding unmarshal_range_def trim_range_string
    by (auto simp: range_string_def cut_at_absent dash_itoa Let_def split: sum.splits)
  then show ?thesis using True by (simp add: parse_port_itoa range_valid_def)
next
  case False
  then have "unmarshal_range (range_string r) = (case parse_port (itoa (unat (pr_from r))) of
      Inl e \<Rightarrow> Inl e | Inr lo \<Rightarrow> (case parse_port (itoa (unat (pr_to r))) of Inl e \<Rightarrow> Inl e
      | Inr hi \<Rightarrow> if hi < lo then Inl (StartsAboveEnd (range_string r)) else Inr \<lparr>pr_from = lo, pr_to = hi\<rparr>))"
  proof -
    have "range_string r = itoa (unat (pr_from r)) @ CHR ''-'' # itoa (unat (pr_to r))"
      using False by (simp add: range_string_def)
    then have "cut_at CHR ''-'' (range_string r) = (itoa (unat (pr_from r)), itoa (unat (pr_to r)), True)"
      "range_string r \<noteq> ''''"
      by (simp_all add: cut_at_append dash_itoa)
    then show ?thesis unfolding unmarshal_range_def trim_range_string Let_def by (simp split: sum.splits)
  qed
  then show ?thesis using False parse_port_itoa [of 0] by (auto simp: parse_port_itoa range_valid_def)
qed

lemma unmarshal_range_valid: "unmarshal_range s = Inr r \<Longrightarrow> range_valid r"
  by (auto simp: unmarshal_range_def range_valid_def Let_def split: if_splits sum.splits prod.splits
      dest: parse_port_nonzero)

text \<open>
  A port range and its text: printing a range and reading it back gives the range exactly
  when it is a usable one and is refused otherwise, and whatever text is read as a range, the
  range is usable and prints as a text that reads as the same range.
\<close>

theorem range_roundtrip:
  "(case unmarshal_range (range_string r) of Inr r' \<Rightarrow> range_valid r \<and> r' = r | Inl e \<Rightarrow> \<not> range_valid r) \<and>
   (case unmarshal_range s of
      Inl e \<Rightarrow> True
    | Inr r' \<Rightarrow> range_valid r' \<and> unmarshal_range (range_string r') = Inr r')"
  by (auto simp: unmarshal_range_string unmarshal_range_valid split: sum.splits)

text \<open>Two usable ranges overlap exactly when a port is in both.\<close>

lemma overlaps_iff:
  assumes "range_valid a" and "range_valid b"
  shows "overlaps a b \<longleftrightarrow> (\<exists>p. pr_from a \<le> p \<and> p \<le> pr_to a \<and> pr_from b \<le> p \<and> p \<le> pr_to b)"
proof
  assume "overlaps a b"
  then have "pr_from a \<le> max (pr_from a) (pr_from b) \<and> max (pr_from a) (pr_from b) \<le> pr_to a \<and>
      pr_from b \<le> max (pr_from a) (pr_from b) \<and> max (pr_from a) (pr_from b) \<le> pr_to b"
    using assms by (auto simp: overlaps_def range_valid_def max_def)
  then show "\<exists>p. pr_from a \<le> p \<and> p \<le> pr_to a \<and> pr_from b \<le> p \<and> p \<le> pr_to b" by blast
next
  assume "\<exists>p. pr_from a \<le> p \<and> p \<le> pr_to a \<and> pr_from b \<le> p \<and> p \<le> pr_to b"
  then show "overlaps a b" unfolding overlaps_def using order_trans by blast
qed

section \<open>Slots\<close>

text \<open>The slots a list of forwards holds; an unset one is zero.\<close>

definition slots_of :: "forward list \<Rightarrow> int list" where
  "slots_of fs = filter (\<lambda>s. s \<noteq> 0) (map f_slot fs)"

definition slots_ok :: "forward list \<Rightarrow> bool" where
  "slots_ok fs = (distinct (slots_of fs) \<and> list_all slot_valid (slots_of fs))"

definition unslotted :: "forward list \<Rightarrow> nat" where
  "unslotted fs = length (filter (\<lambda>f. f_slot f = 0) fs)"

definition same_but_slot :: "forward \<Rightarrow> forward \<Rightarrow> bool" where
  "same_but_slot f g = (g = f\<lparr>f_slot := f_slot g\<rparr>)"

lemma same_but_slot_trans: "same_but_slot f g \<Longrightarrow> same_but_slot g h \<Longrightarrow> same_but_slot f h"
  by (cases f, cases g, cases h) (simp add: same_but_slot_def)

lemma same_but_slot_refl [simp]: "same_but_slot f f" "list_all2 same_but_slot fs fs"
  by (simp_all add: same_but_slot_def list_all2_same)

lemma slot_valid_in: "slot_valid = slot_in MaxSlot"
  by (simp add: fun_eq_iff slot_valid_def slot_in_def)

lemma drop_slots_refines:
  "drop_slots taken fs = (fs', t) \<Longrightarrow>
     drop_taken MaxSlot taken (map f_slot fs) = (map f_slot fs', t) \<and> list_all2 same_but_slot fs fs'"
  by (induction taken fs arbitrary: fs' t rule: drop_slots.induct)
     (auto simp: slot_valid_in same_but_slot_def split: prod.splits if_splits)

lemma fill_slots_refines:
  "map f_slot (fill_slots n taken fs) = fill_free MaxSlot n taken (map f_slot fs) \<and>
     list_all2 same_but_slot fs (fill_slots n taken fs)"
  by (induction n taken fs rule: fill_slots.induct) (auto simp: Let_def same_but_slot_def list_all2_same)

interpretation forward_slots: slot_allocator f_slot "\<lambda>s f. f\<lparr>f_slot := s\<rparr>" allocate_slots MaxSlot
proof
  fix fs
  obtain fs' t where d: "drop_slots [] fs = (fs', t)" by fastforce
  note r = drop_slots_refines [OF d] fill_slots_refines [of 1 t fs']
  show "map f_slot (allocate_slots fs) = allocate MaxSlot (map f_slot fs)"
    using d r by (simp add: allocate_slots_def allocate_def)
  have "list_all2 same_but_slot fs (fill_slots 1 t fs')"
    by (rule list_all2_trans [OF same_but_slot_trans conjunct2 [OF r(1)] conjunct2 [OF r(2)]])
  then show "list_all2 (\<lambda>f g. g = f\<lparr>f_slot := f_slot g\<rparr>) fs (allocate_slots fs)"
    using d by (simp add: allocate_slots_def same_but_slot_def [abs_def])
qed

text \<open>
  C33. What allocating slots does to any list of forwards: no two forwards share a slot and
  every slot is in the range the module owns; nothing but slots changes; a forward whose slot
  is usable, and not that of an earlier forward, keeps it; and as long as there are no more
  forwards than slots, each one gets a slot.
\<close>

theorem slots_allocated:
  assumes "gs = allocate_slots fs"
  shows "slots_ok gs \<and> list_all2 same_but_slot fs gs \<and>
    (\<forall>i < length fs. slot_valid (f_slot (fs ! i)) \<and> (\<forall>j < i. f_slot (fs ! j) \<noteq> f_slot (fs ! i)) \<longrightarrow>
       f_slot (gs ! i) = f_slot (fs ! i)) \<and>
    (int (length fs) \<le> MaxSlot \<longrightarrow> unslotted gs = 0)"
proof -
  have "slots_ok gs"
    unfolding slots_ok_def slots_of_def assms slot_valid_in list_all_iff
    using forward_slots.alloc_unique [of fs] forward_slots.alloc_in [of _ fs] by auto
  moreover have "list_all2 same_but_slot fs gs"
    using forward_slots.rest [of fs] by (simp add: assms same_but_slot_def [abs_def])
  moreover have "unslotted gs = 0" if "int (length fs) \<le> MaxSlot"
    using forward_slots.alloc_complete [OF that] by (simp add: unslotted_def assms filter_empty_conv)
  ultimately show ?thesis
    using forward_slots.alloc_keeps [of _ fs] by (simp add: assms slot_valid_in)
qed

definition sample_forward :: "string \<Rightarrow> int \<Rightarrow> forward" where
  "sample_forward name s = \<lparr>f_name = name, f_in = ''wan0'', f_protocol = [], f_port = single_port 80,
     f_to_addr = V4 0xc0a8010a, f_to_port = 8080, f_hairpin = Some False, f_slot = s\<rparr>"

lemma slots_allocated_witness:
  "slots_ok (allocate_slots [sample_forward ''a'' 7, sample_forward ''b'' 7, sample_forward ''c'' 0]) \<and>
   f_slot (allocate_slots [sample_forward ''a'' 7, sample_forward ''b'' 7, sample_forward ''c'' 0] ! 0) = 7"
proof -
  let ?fs = "[sample_forward ''a'' 7, sample_forward ''b'' 7, sample_forward ''c'' 0]"
  have s: "f_slot (?fs ! 0) = 7" "0 < length ?fs" "slot_valid 7"
    by (simp_all add: sample_forward_def slot_valid_def MaxSlot_def)
  note t = slots_allocated [OF refl, of ?fs]
  have "f_slot (allocate_slots ?fs ! 0) = f_slot (?fs ! 0)"
    by (rule conjunct1 [OF conjunct2 [OF conjunct2 [OF t]], rule_format])
       (rule s(2), simp only: s, blast)
  then show ?thesis using conjunct1 [OF t] unfolding s(1) by (rule conjI [rotated])
qed

end
