(* ===== verification/KernelDiff.thy ===== *)
theory KernelDiff
  imports GoStrings "HOL-Library.Multiset" "HOL-Library.Char_ord" "HOL-Library.List_Lexorder"
begin

text \<open>
  \<open>diffLines\<close>, the comparison of the kernel's state with the wanted one that every plan rests
  on. \<open>internal/gateway/nat/plan.go\<close> and \<open>internal/gateway/plan.go\<close> count lines;
  \<open>internal/firewall/plan.go\<close> asks only for membership. Both meet one contract, over
  multisets and over sets.
\<close>

section \<open>Changes\<close>

datatype change_kind = ChangeAdd | ChangeRemove

record change =
  ch_kind :: change_kind
  ch_line :: string

fun kind_text :: "change_kind \<Rightarrow> string" where
  "kind_text ChangeAdd = ''add''"
| "kind_text ChangeRemove = ''remove''"

definition added :: "change list \<Rightarrow> string list" where
  "added cs = map ch_line (filter (\<lambda>c. ch_kind c = ChangeAdd) cs)"

definition removed :: "change list \<Rightarrow> string list" where
  "removed cs = map ch_line (filter (\<lambda>c. ch_kind c = ChangeRemove) cs)"

section \<open>The contract\<close>

locale state_differ =
  fixes diff :: "string list \<Rightarrow> string list \<Rightarrow> change list"
    and view :: "string list \<Rightarrow> 'm :: minus"
    and none :: 'm
  assumes adds: "view (added (diff before after)) = view after - view before"
    and removes: "view (removed (diff before after)) = view before - view after"
    and view_none: "view xs = none \<longleftrightarrow> xs = []"
    and minus_none: "view xs - view ys = none \<and> view ys - view xs = none \<longleftrightarrow> view xs = view ys"
begin

lemma nothing_of_a_kind: "added cs = [] \<and> removed cs = [] \<longleftrightarrow> cs = []"
proof
  assume n: "added cs = [] \<and> removed cs = []"
  have False if "c \<in> set cs" for c
    using n that by (cases "ch_kind c") (auto simp: added_def removed_def filter_empty_conv)
  then show "cs = []" by (cases cs) auto
qed (simp add: added_def removed_def)

text \<open>There is nothing to do exactly when the state is the wanted one: the drift check.\<close>

lemma in_step: "diff before after = [] \<longleftrightarrow> view before = view after"
  by (metis adds removes view_none minus_none nothing_of_a_kind)

lemma no_change: "diff xs xs = []"
  by (simp add: in_step)

end

section \<open>Counting lines\<close>

definition line_count :: "string list \<Rightarrow> string \<Rightarrow> int" where
  "line_count ls = (\<lambda>l. int (count_list ls l))"

fun diff_adds :: "(string \<Rightarrow> int) \<Rightarrow> (string \<Rightarrow> int) \<Rightarrow> string list \<Rightarrow> change list \<times> (string \<Rightarrow> int)" where
  "diff_adds have' want [] = ([], have')"
| "diff_adds have' want (l # ls) =
     (if want l > 0 \<and> have' l = 0 then
        (let (cs, h) = diff_adds have' (want(l := want l - 1)) ls
         in (\<lparr>ch_kind = ChangeAdd, ch_line = l\<rparr> # cs, h))
      else if have' l > 0 then diff_adds (have'(l := have' l - 1)) (want(l := want l - 1)) ls
      else diff_adds have' want ls)"

fun diff_removes :: "(string \<Rightarrow> int) \<Rightarrow> string list \<Rightarrow> change list" where
  "diff_removes have' [] = []"
| "diff_removes have' (l # ls) =
     (if have' l > 0 then \<lparr>ch_kind = ChangeRemove, ch_line = l\<rparr> # diff_removes (have'(l := have' l - 1)) ls
      else diff_removes have' ls)"

definition change_before :: "change \<Rightarrow> change \<Rightarrow> bool" where
  "change_before a b = (if ch_line a \<noteq> ch_line b then ch_line a < ch_line b
     else kind_text (ch_kind a) \<le> kind_text (ch_kind b))"

definition diff_lines :: "string list \<Rightarrow> string list \<Rightarrow> change list" where
  "diff_lines before after =
     (let (adds, have') = diff_adds (line_count before) (line_count after) after
      in sort_by change_before (adds @ diff_removes have' before))"

text \<open>The firewall's.\<close>

definition diff_members :: "string list \<Rightarrow> string list \<Rightarrow> change list" where
  "diff_members have' want =
     map (\<lambda>l. \<lparr>ch_kind = ChangeRemove, ch_line = l\<rparr>) (filter (\<lambda>l. l \<notin> set want) have')
     @ map (\<lambda>l. \<lparr>ch_kind = ChangeAdd, ch_line = l\<rparr>) (filter (\<lambda>l. l \<notin> set have') want)"

section \<open>Both meet the contract\<close>

lemma mset_insert_by [simp]: "mset (insert_by le x ys) = add_mset x (mset ys)"
  by (induction ys) auto

lemma mset_sort_by [simp]: "mset (sort_by le xs) = mset xs"
  by (induction xs) auto

lemma count_filter_sort_by: "length (filter P (sort_by le xs)) = length (filter P xs)"
  by (metis mset_filter mset_sort_by size_mset)

lemma mset_added: "mset (added cs) = image_mset ch_line (filter_mset (\<lambda>c. ch_kind c = ChangeAdd) (mset cs))"
  by (simp add: added_def)

lemma mset_removed: "mset (removed cs) = image_mset ch_line (filter_mset (\<lambda>c. ch_kind c = ChangeRemove) (mset cs))"
  by (simp add: removed_def)

lemma added_simps [simp]:
  "added [] = []" "added (c # cs) = (if ch_kind c = ChangeAdd then ch_line c # added cs else added cs)"
  "added (xs @ ys) = added xs @ added ys"
  by (simp_all add: added_def)

lemma removed_simps [simp]:
  "removed [] = []" "removed (c # cs) = (if ch_kind c = ChangeRemove then ch_line c # removed cs else removed cs)"
  "removed (xs @ ys) = removed xs @ removed ys"
  by (simp_all add: removed_def)

lemma diff_adds_counts:
  assumes "diff_adds h w ls = (cs, h')" and "\<forall>l. 0 \<le> h l" and "\<forall>l. int (count_list ls l) \<le> w l"
  shows "removed cs = [] \<and> int (count_list (added cs) l) = max 0 (int (count_list ls l) - h l) \<and>
    h' l = h l - min (h l) (int (count_list ls l))"
  using assms
proof (induction h w ls arbitrary: cs h' rule: diff_adds.induct)
  case (1 h w)
  then show ?case by simp
next
  case (2 h w x ls)
  have w: "0 < w x" using "2.prems"(3) [rule_format, of x] by simp
  have le: "int (count_list ls k) \<le> (w(x := w x - 1)) k" for k
    using "2.prems"(3) [rule_format, of k] by auto
  show ?case
  proof (cases "h x = 0")
    case True
    then obtain ds where d: "diff_adds h (w(x := w x - 1)) ls = (ds, h')"
      "cs = \<lparr>ch_kind = ChangeAdd, ch_line = x\<rparr> # ds"
      using "2.prems"(1) w by (auto split: prod.splits)
    show ?thesis
      using "2.IH"(1) [OF conjI [OF w True] d(1) "2.prems"(2)] le w True unfolding d(2)
      by (auto simp: max_def)
  next
    case False
    then have pos: "0 < h x" using "2.prems"(2) by (metis order_le_less)
    then have d: "diff_adds (h(x := h x - 1)) (w(x := w x - 1)) ls = (cs, h')"
      using "2.prems"(1) by simp
    show ?thesis
    proof -
      have nn: "\<forall>l. 0 \<le> (h(x := h x - 1)) l" using pos "2.prems"(2) by simp
      have n: "\<not> (0 < w x \<and> h x = 0)" using False by simp
      note ih = "2.IH"(2) [OF n pos d nn allI, OF le]
      show ?thesis
        using ih pos "2.prems"(2)
        by (cases "x = l") (simp_all del: fun_upd_apply add: fun_upd_same fun_upd_other max_def min_def)
    qed
  qed
qed

lemma diff_removes_counts:
  assumes "\<forall>l. 0 \<le> h l"
  shows "added (diff_removes h ls) = [] \<and>
    int (count_list (removed (diff_removes h ls)) l) = min (h l) (int (count_list ls l))"
  using assms
proof (induction h ls rule: diff_removes.induct)
  case (2 h x ls)
  show ?case
  proof (cases "0 < h x")
    case True
    then have nn: "\<forall>l. 0 \<le> (h(x := h x - 1)) l" using "2.prems" by simp
    have step: "diff_removes h (x # ls) =
        \<lparr>ch_kind = ChangeRemove, ch_line = x\<rparr> # diff_removes (h(x := h x - 1)) ls"
      using True by simp
    show ?thesis
      unfolding step using "2.IH"(1) [OF True nn] "2.prems" True
      by (cases "x = l") (simp_all del: fun_upd_apply add: fun_upd_same fun_upd_other min_def)
  next
    case False
    then show ?thesis using "2.IH"(2) [OF False "2.prems"] "2.prems" by (auto simp: order.antisym not_less)
  qed
qed auto

lemma count_mset_list: "count (mset xs) l = count_list xs l"
  by (induction xs) auto

lemma diff_lines_counts:
  "mset (added (diff_lines before after)) = mset after - mset before"
  "mset (removed (diff_lines before after)) = mset before - mset after"
proof -
  obtain cs h where d: "diff_adds (line_count before) (line_count after) after = (cs, h)" by fastforce
  have nn: "\<forall>l. 0 \<le> line_count before l" "\<forall>l. int (count_list after l) \<le> line_count after l"
    by (simp_all add: line_count_def)
  note c0 = diff_adds_counts [OF d nn, unfolded line_count_def]
  have c: "removed cs = []" "int (count_list (added cs) l) = max 0 (int (count_list after l) - int (count_list before l))"
    "h l = int (count_list before l) - min (int (count_list before l)) (int (count_list after l))" for l
    using c0 [of l] by blast+
  have "\<forall>l. 0 \<le> h l" by (simp add: c(3))
  note r0 = diff_removes_counts [OF this, of before]
  have r: "added (diff_removes h before) = []"
    "int (count_list (removed (diff_removes h before)) l) = min (h l) (int (count_list before l))" for l
    using r0 [of l] by blast+
  have e: "diff_lines before after = sort_by change_before (cs @ diff_removes h before)"
    by (simp add: diff_lines_def d)
  have "mset (added (diff_lines before after)) = mset (added cs)"
    unfolding e mset_added by (simp add: r(1) flip: mset_added)
  moreover have "mset (removed (diff_lines before after)) = mset (removed (diff_removes h before))"
    unfolding e mset_removed by (simp add: c(1) flip: mset_removed)
  moreover have "count_list (added cs) l = count_list after l - count_list before l" for l
    using c(2) [of l] by linarith
  moreover have "count_list (removed (diff_removes h before)) l = count_list before l - count_list after l" for l
    using r(2) [of l] c(3) [of l] by linarith
  ultimately show "mset (added (diff_lines before after)) = mset after - mset before"
    "mset (removed (diff_lines before after)) = mset before - mset after"
    by (simp_all add: multiset_eq_iff count_mset_list)
qed

lemma minus_both_empty: "A - B = {#} \<and> B - A = {#} \<longleftrightarrow> A = (B :: 'a multiset)"
  unfolding Diff_eq_empty_iff_mset using subset_mset.order_antisym by auto

interpretation counted: state_differ diff_lines mset "{#}"
  by unfold_locales (simp_all only: diff_lines_counts minus_both_empty mset_zero_iff)

interpretation members: state_differ diff_members set "{}"
  by unfold_locales (auto simp: diff_members_def added_def removed_def)

text \<open>
  C31. The lines a plan adds and removes are exact: with multiplicities, they are what the wanted
  state has over the kernel's and what the kernel has over it; so a plan is empty exactly when
  the kernel holds the wanted lines in some order, and the order in which the kernel lists its
  objects is never a change.
\<close>

theorem plan_exact:
  "mset (added (diff_lines before after)) = mset after - mset before \<and>
   mset (removed (diff_lines before after)) = mset before - mset after \<and>
   (diff_lines before after = [] \<longleftrightarrow> mset before = mset after)"
  by (simp only: diff_lines_counts counted.in_step simp_thms)

text \<open>The firewall's plan does not see repetitions: it is empty for the same set of lines.\<close>

lemma firewall_in_step: "diff_members have' want = [] \<longleftrightarrow> set have' = set want"
  by (rule members.in_step)

end
