(* ===== verification/NatRender.thy ===== *)
theory NatRender
  imports PortForward AddrText KernelDiff
begin

text \<open>
  \<open>internal/gateway/nat\<close>: the networks of the box as the module sees them (\<open>link.go\<close>), the
  rules a configuration asks the kernel for, and their canonical lines (\<open>render.go\<close>). A
  \<open>LinkView\<close> answers a lookup and a listing, either of which may fail.
\<close>

section \<open>More of net/netip\<close>

fun is_loopback :: "addr \<Rightarrow> bool" where
  "is_loopback AddrNone = False"
| "is_loopback (V4 a) = (drop_bit 24 a = 127)"
| "is_loopback (V6 a z) = (if drop_bit 32 a = 0xffff then drop_bit 24 (ucast a :: u32) = 127 else a = 1)"

fun is_link_local_unicast :: "addr \<Rightarrow> bool" where
  "is_link_local_unicast AddrNone = False"
| "is_link_local_unicast (V4 a) = (drop_bit 16 a = 0xa9fe)"
| "is_link_local_unicast (V6 a z) =
     (if drop_bit 32 a = 0xffff then drop_bit 16 (ucast a :: u32) = 0xa9fe else drop_bit 118 a = 0x3fa)"

fun is_private :: "addr \<Rightarrow> bool" where
  "is_private AddrNone = False"
| "is_private (V4 a) = (drop_bit 24 a = 10 \<or> drop_bit 20 a = 0xac1 \<or> drop_bit 16 a = 0xc0a8)"
| "is_private (V6 a z) =
     (if drop_bit 32 a = 0xffff
      then (let b = ucast a :: u32 in drop_bit 24 b = 10 \<or> drop_bit 20 b = 0xac1 \<or> drop_bit 16 b = 0xc0a8)
      else drop_bit 121 a = 0x7e)"

text \<open>\<open>Prefix.Overlaps\<close>: the shorter of the two lengths decides.\<close>

definition prefix_overlaps :: "prefix \<Rightarrow> prefix \<Rightarrow> bool" where
  "prefix_overlaps p q = (prefix_valid p \<and> prefix_valid q \<and>
     (case (paddr p, paddr q) of
        (V4 a, V4 b) \<Rightarrow> drop_bit (32 - nat (min (pbits p) (pbits q))) a = drop_bit (32 - nat (min (pbits p) (pbits q))) b
      | (V6 a _, V6 b _) \<Rightarrow> drop_bit (128 - nat (min (pbits p) (pbits q))) a = drop_bit (128 - nat (min (pbits p) (pbits q))) b
      | _ \<Rightarrow> False))"

section \<open>Networks\<close>

record link_info =
  l_name :: string
  l_adopted :: bool
  l_up :: bool
  l_prefixes :: "prefix list"

record link_view =
  lookup_link :: "string \<Rightarrow> link_info option"
  all_links :: "link_info list option"

definition link_contains :: "link_info \<Rightarrow> addr \<Rightarrow> bool" where
  "link_contains l a = list_ex (\<lambda>p. contains p a) (l_prefixes l)"

definition holds_addr :: "link_info \<Rightarrow> addr \<Rightarrow> bool" where
  "holds_addr l a = list_ex (\<lambda>p. paddr p = a) (l_prefixes l)"

definition outward_ipv4 :: "link_info \<Rightarrow> addr option" where
  "outward_ipv4 l = find (\<lambda>a. \<not> (\<not> is4 a \<or> is_loopback a \<or> is_link_local_unicast a \<or> is_unspecified a))
     (map paddr (l_prefixes l))"

definition prefix_before :: "prefix \<Rightarrow> prefix \<Rightarrow> bool" where
  "prefix_before p q = (prefix_string p \<le> prefix_string q)"

definition prefixes_containing :: "link_view \<Rightarrow> addr \<Rightarrow> prefix list" where
  "prefixes_containing links a = (case all_links links of
     None \<Rightarrow> []
   | Some ls \<Rightarrow> sort_by prefix_before
       (concat (map (\<lambda>l. if \<not> l_adopted l then []
          else map masked (filter (\<lambda>p. contains p a) (l_prefixes l))) ls)))"

definition is_local_address :: "link_view \<Rightarrow> addr \<Rightarrow> bool" where
  "is_local_address links a = (case all_links links of
     None \<Rightarrow> False | Some ls \<Rightarrow> list_ex (\<lambda>l. holds_addr l a) ls)"

definition link_by_name :: "link_info \<Rightarrow> link_info \<Rightarrow> bool" where
  "link_by_name a b = (l_name a \<le> l_name b)"

definition inside_interfaces :: "link_view \<Rightarrow> string \<Rightarrow> link_info list" where
  "inside_interfaces links outward = (case all_links links of
     None \<Rightarrow> []
   | Some ls \<Rightarrow> sort_by link_by_name
       (filter (\<lambda>l. \<not> (\<not> l_adopted l \<or> l_name l = outward \<or> l_prefixes l = [])) ls))"

definition has_ipv4 :: "prefix list \<Rightarrow> bool" where
  "has_ipv4 ps = list_ex (\<lambda>p. is4 (paddr p)) ps"

definition dial_in_interfaces :: "link_view \<Rightarrow> string \<Rightarrow> string \<Rightarrow> link_info list" where
  "dial_in_interfaces links tunnel uplink = (case all_links links of
     None \<Rightarrow> []
   | Some ls \<Rightarrow> sort_by link_by_name
       (filter (\<lambda>l. \<not> (\<not> l_adopted l \<or> l_name l = [] \<or> l_name l = tunnel \<or> l_name l = uplink) \<and>
          has_ipv4 (l_prefixes l)) ls))"

definition overlaps_served :: "link_view \<Rightarrow> prefix \<Rightarrow> string \<Rightarrow> string \<Rightarrow> bool" where
  "overlaps_served links p tunnel uplink = (case all_links links of
     None \<Rightarrow> True
   | Some ls \<Rightarrow> list_ex (\<lambda>l. \<not> (\<not> l_adopted l \<or> l_name l = tunnel \<or> l_name l = uplink) \<and>
       list_ex (\<lambda>q. prefix_overlaps q p) (l_prefixes l)) ls)"

section \<open>Rules\<close>

record dnat_rule =
  dn_forward :: string
  dn_in :: string
  dn_protocol :: protocol
  dn_port :: port_range
  dn_to :: addr
  dn_to_ports :: port_range
  dn_counter :: string

record hairpin_rule =
  hp_forward :: string
  hp_in :: string
  hp_protocol :: protocol
  hp_port :: port_range
  hp_to :: addr
  hp_to_ports :: port_range

record masq_rule =
  mq_forward :: string
  mq_prefix :: prefix
  mq_to :: addr
  mq_ports :: port_range
  mq_protocol :: protocol

record dial_in_rule =
  dr_prefix :: prefix
  dr_out :: string

record egress_rule =
  er_out :: string
  er_sources :: "prefix list"
  er_counter :: string

record nft_table =
  dnat :: "dnat_rule list"
  hairpin :: "hairpin_rule list"
  masq :: "masq_rule list"
  dial_ins :: "dial_in_rule list"
  egress_masq :: "egress_rule option"
  counters :: "string list"

record desired =
  d_enabled :: bool
  d_table :: nft_table

definition empty_table :: nft_table where
  "empty_table = \<lparr>dnat = [], hairpin = [], masq = [], dial_ins = [], egress_masq = None, counters = []\<rparr>"

definition EgressCounter :: string where "EgressCounter = ''egress''"

definition inside_ports :: "forward \<Rightarrow> port_range" where
  "inside_ports f = (if range_single (f_port f) then single_port (f_to_port f) else f_port f)"

section \<open>Lines\<close>

definition target :: "addr \<Rightarrow> port_range \<Rightarrow> string" where
  "target a ports = addr_string a @ '':'' @ range_string ports"

definition dnat_line :: "dnat_rule \<Rightarrow> string" where
  "dnat_line r = ''nft dnat in '' @ dn_in r @ '' '' @ dn_protocol r @ '' port '' @ range_string (dn_port r)
     @ '' to '' @ target (dn_to r) (dn_to_ports r) @ '' counter '' @ dn_counter r @ '' for '' @ dn_forward r"

definition hairpin_line :: "hairpin_rule \<Rightarrow> string" where
  "hairpin_line r = ''nft hairpin in '' @ hp_in r @ '' '' @ hp_protocol r @ '' port '' @ range_string (hp_port r)
     @ '' to '' @ target (hp_to r) (hp_to_ports r) @ '' for '' @ hp_forward r"

definition masq_line :: "masq_rule \<Rightarrow> string" where
  "masq_line r = ''nft masq from '' @ prefix_string (mq_prefix r) @ '' to '' @ addr_string (mq_to r) @ '' ''
     @ mq_protocol r @ '' port '' @ range_string (mq_ports r) @ '' for '' @ mq_forward r"

definition dial_in_line :: "dial_in_rule \<Rightarrow> string" where
  "dial_in_line r = ''nft dialin out '' @ dr_out r @ '' from '' @ prefix_string (dr_prefix r)"

definition sort_strings :: "string list \<Rightarrow> string list" where
  "sort_strings = sort_by (\<le>)"

definition egress_line :: "egress_rule \<Rightarrow> string" where
  "egress_line r = ''nft egress out '' @ er_out r @ '' from ''
     @ join_with '','' (sort_strings (map prefix_string (er_sources r))) @ '' counter '' @ er_counter r"

definition line_before :: "('r \<Rightarrow> string) \<Rightarrow> 'r \<Rightarrow> 'r \<Rightarrow> bool" where
  "line_before line a b = (line a \<le> line b)"

definition sort_rules :: "nft_table \<Rightarrow> nft_table" where
  "sort_rules t = t\<lparr>dnat := sort_by (line_before dnat_line) (dnat t),
     hairpin := sort_by (line_before hairpin_line) (hairpin t),
     masq := sort_by (line_before masq_line) (masq t),
     dial_ins := sort_by (line_before dial_in_line) (dial_ins t)\<rparr>"

definition sorted_keys :: "string list \<Rightarrow> string list" where
  "sorted_keys ks = sort_strings (remdups ks)"

section \<open>Rendering\<close>

definition dnat_of :: "forward \<Rightarrow> protocol \<Rightarrow> dnat_rule" where
  "dnat_of f proto = \<lparr>dn_forward = f_name f, dn_in = f_in f, dn_protocol = proto, dn_port = f_port f,
     dn_to = unmap (f_to_addr f), dn_to_ports = inside_ports f, dn_counter = f_counter f\<rparr>"

definition hairpins_of :: "link_view \<Rightarrow> forward \<Rightarrow> protocol \<Rightarrow> hairpin_rule list" where
  "hairpins_of links f proto = map (\<lambda>l. \<lparr>hp_forward = f_name f, hp_in = l_name l, hp_protocol = proto,
     hp_port = f_port f, hp_to = unmap (f_to_addr f), hp_to_ports = inside_ports f\<rparr>)
     (inside_interfaces links (f_in f))"

definition masqs_of :: "link_view \<Rightarrow> forward \<Rightarrow> protocol \<Rightarrow> masq_rule list" where
  "masqs_of links f proto = map (\<lambda>p. \<lparr>mq_forward = f_name f, mq_prefix = p, mq_to = unmap (f_to_addr f),
     mq_ports = inside_ports f, mq_protocol = proto\<rparr>) (prefixes_containing links (unmap (f_to_addr f)))"

definition render_forward :: "link_view \<Rightarrow> forward \<Rightarrow> nft_table \<Rightarrow> nft_table" where
  "render_forward links f t = fold (\<lambda>proto t.
     (let t = t\<lparr>dnat := dnat t @ [dnat_of f proto]\<rparr>
      in if \<not> hairpin_or_default f then t
         else t\<lparr>hairpin := hairpin t @ hairpins_of links f proto, masq := masq t @ masqs_of links f proto\<rparr>))
     (each (protocol_or_default f)) t"

definition render_dial_in :: "link_view \<Rightarrow> dial_in option \<Rightarrow> dial_in_rule list" where
  "render_dial_in links d = (case d of
     None \<Rightarrow> []
   | Some d \<Rightarrow>
       (let p = masked (di_prefix d)
        in if prefix_valid p \<and> is4 (paddr p) \<and> \<not> overlaps_served links p (di_tunnel d) (di_uplink d)
           then map (\<lambda>l. \<lparr>dr_prefix = p, dr_out = l_name l\<rparr>)
             (dial_in_interfaces links (di_tunnel d) (di_uplink d))
           else []))"

definition render_egress :: "egress option \<Rightarrow> egress_rule option" where
  "render_egress e = (if egress_empty e then None
     else map_option (\<lambda>e. \<lparr>er_out = e_interface e, er_sources = e_sources e, er_counter = EgressCounter\<rparr>) e)"

definition render :: "nat_config \<Rightarrow> link_view \<Rightarrow> desired" where
  "render c links =
     (if \<not> enabled c then \<lparr>d_enabled = False, d_table = empty_table\<rparr>
      else (let t = fold (render_forward links) (forwards c) empty_table;
                names = map f_counter (forwards c) @ (if egress_empty (egress c) then [] else [EgressCounter]);
                t = t\<lparr>dial_ins := render_dial_in links (dial_in c), egress_masq := render_egress (egress c)\<rparr>
            in \<lparr>d_enabled = True, d_table = (sort_rules t)\<lparr>counters := sorted_keys names\<rparr>\<rparr>))"

definition TableName :: string where "TableName = ''olr_nat''"
definition PreroutingChain :: string where "PreroutingChain = ''prerouting''"
definition PostroutingChain :: string where "PostroutingChain = ''postrouting''"

definition object_lines :: "desired \<Rightarrow> string list" where
  "object_lines d =
     (if \<not> d_enabled d then []
      else (let t = d_table d
            in [''nft table inet '' @ TableName, ''nft chain '' @ PreroutingChain @ '' prerouting dstnat'']
               @ map (\<lambda>n. ''nft counter '' @ n) (counters t)
               @ map dnat_line (dnat t)
               @ map hairpin_line (hairpin t)
               @ (if masq t \<noteq> [] \<or> dial_ins t \<noteq> [] \<or> egress_masq t \<noteq> None
                  then [''nft chain '' @ PostroutingChain @ '' postrouting srcnat'']
                     @ map masq_line (masq t) @ map dial_in_line (dial_ins t)
                     @ (case egress_masq t of None \<Rightarrow> [] | Some e \<Rightarrow> [egress_line e])
                  else [])))"

section \<open>What a rendered table holds\<close>

definition dnats_of :: "forward \<Rightarrow> dnat_rule list" where
  "dnats_of f = map (dnat_of f) (each (protocol_or_default f))"

lemma dnat_render_forward: "dnat (render_forward links f t) = dnat t @ dnats_of f"
proof -
  have "dnat (fold (\<lambda>proto t. let t = t\<lparr>dnat := dnat t @ [dnat_of f proto]\<rparr>
      in if \<not> hairpin_or_default f then t
         else t\<lparr>hairpin := hairpin t @ hairpins_of links f proto, masq := masq t @ masqs_of links f proto\<rparr>) ps t)
    = dnat t @ map (dnat_of f) ps" for ps
    by (induction ps arbitrary: t) (auto simp: Let_def)
  then show ?thesis by (simp add: render_forward_def dnats_of_def)
qed

lemma dnat_render_forwards: "dnat (fold (render_forward links) fs t) = dnat t @ concat (map dnats_of fs)"
  by (induction fs arbitrary: t) (simp_all add: dnat_render_forward)

lemma mset_dnat_render:
  "mset (dnat (d_table (render c links))) = (if enabled c then mset (concat (map dnats_of (forwards c))) else {#})"
  by (simp add: render_def Let_def sort_rules_def dnat_render_forwards empty_table_def)

lemma set_dnat_render:
  "set (dnat (d_table (render c links))) = (if enabled c then \<Union> (set ` dnats_of ` set (forwards c)) else {})"
  using mset_dnat_render [of c links] by (metis set_concat set_map set_mset_empty set_mset_mset)

definition hairpin_rules_of :: "link_view \<Rightarrow> forward \<Rightarrow> hairpin_rule list" where
  "hairpin_rules_of links f =
     (if hairpin_or_default f then concat (map (hairpins_of links f) (each (protocol_or_default f))) else [])"

lemma hairpin_render_forward: "hairpin (render_forward links f t) = hairpin t @ hairpin_rules_of links f"
proof -
  have "hairpin (fold (\<lambda>proto t. let t = t\<lparr>dnat := dnat t @ [dnat_of f proto]\<rparr>
      in if \<not> hairpin_or_default f then t
         else t\<lparr>hairpin := hairpin t @ hairpins_of links f proto, masq := masq t @ masqs_of links f proto\<rparr>) ps t)
    = hairpin t @ (if hairpin_or_default f then concat (map (hairpins_of links f) ps) else [])" for ps
    by (induction ps arbitrary: t) (auto simp: Let_def)
  then show ?thesis by (simp add: render_forward_def hairpin_rules_of_def)
qed

lemma hairpin_render_forwards: "hairpin (fold (render_forward links) fs t) = hairpin t @ concat (map (hairpin_rules_of links) fs)"
  by (induction fs arbitrary: t) (simp_all add: hairpin_render_forward)

lemma set_hairpin_render:
  assumes "enabled c"
  shows "set (hairpin (d_table (render c links))) = \<Union> (set ` hairpin_rules_of links ` set (forwards c))"
  using assms by (simp add: render_def Let_def sort_rules_def hairpin_render_forwards empty_table_def)

section \<open>The prerouting chain\<close>

text \<open>
  The rules as \<open>replaceTable\<close> puts them into the chain: the forwards, then the hairpins. Each has the
  interface, the transport and the ports it matches and where it sends a packet for the router; the
  first that matches translates.
\<close>

definition prerouting :: "nft_table \<Rightarrow> (string \<times> protocol \<times> port_range \<times> addr \<times> port_range) list" where
  "prerouting t = map (\<lambda>r. (dn_in r, dn_protocol r, dn_port r, dn_to r, dn_to_ports r)) (dnat t)
     @ map (\<lambda>r. (hp_in r, hp_protocol r, hp_port r, hp_to r, hp_to_ports r)) (hairpin t)"

definition translate :: "nft_table \<Rightarrow> string \<Rightarrow> protocol \<Rightarrow> u16 \<Rightarrow> (addr \<times> port_range) option" where
  "translate t iface proto port =
     map_option (\<lambda>(i, p, r, to). to)
       (find (\<lambda>(i, p, r, to). i = iface \<and> p = proto \<and> pr_from r \<le> port \<and> port \<le> pr_to r) (prerouting t))"

end
