(* ===== verification/Subnet.thy ===== *)
theory Subnet
  imports GoNet
begin

text \<open>
  \<open>internal/core/subnet.go\<close>: IPv4 subnet arithmetic shared by the modules that derive,
  validate and count address ranges. Go's \<open>(T, bool)\<close> results are options; the arithmetic
  is on \<open>uint32\<close> and wraps as the code's does.
\<close>

section \<open>The operations\<close>

definition broadcast :: "prefix \<Rightarrow> addr option" where
  "broadcast p0 = (let p = masked p0 in
     case paddr p of
       V4 b \<Rightarrow> (let host = 32 - nat (pbits p)
                in Some (V4 (b OR (push_bit host 1 - 1))))
     | _ \<Rightarrow> None)"

definition host_range :: "prefix \<Rightarrow> (addr \<times> addr) option" where
  "host_range p =
     (if \<not> is4 (paddr p) \<or> pbits p > 30 then None
      else (case broadcast p of
              None \<Rightarrow> None
            | Some bcast \<Rightarrow> Some (addr_next (paddr (masked p)), addr_prev bcast)))"

definition first_host :: "prefix \<Rightarrow> addr option" where
  "first_host p = map_option fst (host_range p)"

definition max_suggested :: int where "max_suggested = 254"
definition static_reserve :: int where "static_reserve = 100"
definition min_suggested :: int where "min_suggested = 32"

definition in_range :: "addr \<Rightarrow> addr \<Rightarrow> addr \<Rightarrow> bool" where
  "in_range start end a =
     (if \<not> is_valid start \<or> \<not> is_valid end \<or> \<not> is_valid a then False
      else addr_le start a \<and> addr_le a end)"

fun range_size :: "addr \<Rightarrow> addr \<Rightarrow> int" where
  "range_size (V4 s) (V4 e) = (if s > e then 0 else uint (e - s + 1))"
| "range_size _ _ = 0"

fun add_to :: "addr \<Rightarrow> int \<Rightarrow> addr" where
  "add_to (V4 cur) n =
     (if n < 0 then V4 cur
      else if uint cur + n > 0xffffffff then V4 0xffffffff
      else V4 (cur + word_of_int n))"
| "add_to a n = a"

text \<open>
  The body of \<open>SuggestRange\<close> in its three stages: the larger side of the router, the
  static block, the cap.
\<close>

definition router_side :: "addr \<Rightarrow> addr \<Rightarrow> addr \<Rightarrow> (addr \<times> addr) option" where
  "router_side lo hi router =
     (if in_range lo hi router then
        (let below = range_size lo (addr_prev router);
             above = range_size (addr_next router) hi;
             (start, end) = (if above \<ge> below then (addr_next router, hi)
                             else (lo, addr_prev router))
         in if \<not> addr_le start end then None else Some (start, end))
      else Some (lo, hi))"

definition reserve_static :: "prefix \<Rightarrow> addr \<Rightarrow> addr \<Rightarrow> addr" where
  "reserve_static p start end =
     (let reserved = add_to (paddr (masked p)) static_reserve
      in if in_range start end reserved \<and> range_size reserved end \<ge> min_suggested
         then reserved else start)"

definition cap_range :: "addr \<Rightarrow> addr \<Rightarrow> addr" where
  "cap_range start end =
     (if range_size start end > max_suggested then add_to start (max_suggested - 1) else end)"

definition suggest_range :: "prefix \<Rightarrow> addr \<Rightarrow> (addr \<times> addr) option" where
  "suggest_range p router =
     (case host_range p of
        None \<Rightarrow> None
      | Some (lo, hi) \<Rightarrow>
          (case router_side lo hi router of
             None \<Rightarrow> None
           | Some (start0, end) \<Rightarrow>
               (let start = reserve_static p start0 end
                in Some (start, cap_range start end))))"

fun first_ipv4 :: "prefix list \<Rightarrow> prefix option" where
  "first_ipv4 [] = None"
| "first_ipv4 (p # ps) = (if is4 (paddr p) then Some p else first_ipv4 ps)"

definition CGNAT :: prefix where
  "CGNAT = prefix_from (V4 0x64400000) 10"

definition is_cgnat :: "addr \<Rightarrow> bool" where
  "is_cgnat a = (is4 a \<and> contains CGNAT a)"

section \<open>Subnets as intervals of the address space\<close>

text \<open>
  Keeping the top bits of a word, or keeping them and setting all the others, gives the
  two ends of a block of \<open>2 ^ k\<close> consecutive values; two words agree on the top bits
  when one lies in the block of the other.
\<close>

lemma unat_keep_top:
  "unat (push_bit k (drop_bit k (q :: 'a::len word))) = unat q div 2 ^ k * 2 ^ k"
proof -
  have "unat (push_bit k (drop_bit k q)) = take_bit LENGTH('a) (push_bit k (drop_bit k (unat q)))"
    by (simp only: unsigned_push_bit_eq unat_drop_bit_eq)
  also have "\<dots> = take_bit LENGTH('a) (unat q div 2 ^ k * 2 ^ k)"
    by (simp only: push_bit_eq_mult drop_bit_eq_div)
  also have "\<dots> = unat q div 2 ^ k * 2 ^ k"
  proof (rule take_bit_nat_eq_self)
    have "unat q div 2 ^ k * 2 ^ k \<le> unat q" by simp
    also have "unat q < 2 ^ LENGTH('a)" by (rule unsigned_less)
    finally show "unat q div 2 ^ k * 2 ^ k < 2 ^ LENGTH('a)" .
  qed
  finally show ?thesis .
qed

lemma unat_mask_word:
  assumes "k \<le> LENGTH('a)"
  shows "unat (mask k :: 'a::len word) = 2 ^ k - 1"
proof -
  have "unat (mask k :: 'a word) = unat (take_bit k (- 1) :: 'a word)"
    by (simp only: take_bit_minus_one_eq_mask)
  also have "\<dots> = take_bit k (mask LENGTH('a))"
    by (simp only: unsigned_take_bit_eq unsigned_minus_1_eq_mask)
  also have "\<dots> = mask k"
    using assms by (simp only: take_bit_of_mask min_absorb1)
  finally show ?thesis by (simp only: mask_eq_exp_minus_1)
qed

lemma unat_keep_top_fill:
  assumes "k \<le> LENGTH('a)"
  shows "unat (push_bit k (drop_bit k (q :: 'a::len word)) OR mask k)
       = unat q div 2 ^ k * 2 ^ k + (2 ^ k - 1)"
proof -
  let ?t = "push_bit k (drop_bit k (unat q))"
  have "unat (push_bit k (drop_bit k q) OR mask k) = unat (push_bit k (drop_bit k q)) OR unat (mask k :: 'a word)"
    by (rule unsigned_or_eq)
  also have "\<dots> = ?t OR mask k"
    by (simp only: unat_keep_top unat_mask_word [OF assms] push_bit_eq_mult [where 'a = nat]
        drop_bit_eq_div [where 'a = nat] mask_eq_exp_minus_1 [where 'a = nat])
  also have "\<dots> = ?t + mask k"
    by (rule disjunctive_add_eq_or [symmetric]) (rule bit_eqI, auto simp: bit_simps)
  finally show ?thesis
    by (simp only: push_bit_eq_mult drop_bit_eq_div mask_eq_exp_minus_1)
qed

lemma div_block_iff:
  fixes a b m :: nat
  assumes "0 < m"
  shows "a div m = b div m \<longleftrightarrow> b div m * m \<le> a \<and> a \<le> b div m * m + (m - 1)"
proof
  assume "a div m = b div m"
  then show "b div m * m \<le> a \<and> a \<le> b div m * m + (m - 1)"
    using assms dividend_less_div_times [of m a]
    by (metis Suc_diff_1 add.commute add_Suc_right less_Suc_eq_le times_div_less_eq_dividend mult.commute)
next
  assume "b div m * m \<le> a \<and> a \<le> b div m * m + (m - 1)"
  then show "a div m = b div m"
    using assms by (intro div_nat_eqI) (auto simp: algebra_simps)
qed

lemma same_top_iff:
  fixes x q :: "'a::len word"
  assumes "k \<le> LENGTH('a)"
  shows "drop_bit k x = drop_bit k q \<longleftrightarrow>
    push_bit k (drop_bit k q) \<le> x \<and> x \<le> (push_bit k (drop_bit k q) OR mask k)"
proof -
  have "drop_bit k x = drop_bit k q \<longleftrightarrow> unat x div 2 ^ k = unat q div 2 ^ k"
    by (metis drop_bit_eq_div unat_drop_bit_eq unsigned_word_eqI)
  also have "\<dots> \<longleftrightarrow> unat q div 2 ^ k * 2 ^ k \<le> unat x \<and>
      unat x \<le> unat q div 2 ^ k * 2 ^ k + (2 ^ k - 1)"
    by (rule div_block_iff) simp
  finally show ?thesis
    by (simp add: word_le_nat_alt unat_keep_top unat_keep_top_fill [OF assms])
qed

section \<open>Counting and moving within the address space\<close>

lemma unat_succ:
  assumes "(a :: 'a::len word) \<noteq> -1"
  shows "unat (a + 1) = unat a + 1"
proof -
  have "1 + a \<noteq> 0"
    using assms by (metis add.commute add_eq_0_iff2)
  then show ?thesis
    by (simp add: unatSuc add.commute)
qed

lemma unat_lt32: "unat (x :: u32) < 4294967296"
proof -
  have "unat x < 2 ^ LENGTH(32)" by (rule unsigned_less)
  then show ?thesis by simp
qed

lemma unat_max32: "unat (-1 :: u32) = 4294967295"
  by (simp add: unsigned_minus_1_eq_mask mask_eq_exp_minus_1)

lemma unat_pred: "(a :: 'a::len word) \<noteq> 0 \<Longrightarrow> unat (a - 1) = unat a - 1"
  by (rule unat_minus_one)

lemma range_size_nat:
  "range_size (V4 s) (V4 e) =
     (if unat s \<le> unat e \<and> \<not> (s = 0 \<and> e = -1) then int (unat e - unat s + 1) else 0)"
proof (cases "unat s \<le> unat e")
  case True
  then have d: "unat (e - s) = unat e - unat s"
    by (simp add: unat_sub word_le_nat_alt)
  show ?thesis
  proof (cases "e - s = -1")
    case True
    then have "unat e - unat s = 2 ^ 32 - 1"
      using d unat_max32 by simp
    moreover have "unat e < 2 ^ 32"
      using unsigned_less [of e] by simp
    ultimately have "unat s = 0" using d by (cases "unat s \<le> unat e") simp_all
    then have "s = 0" and "e = -1"
      using True by (simp_all add: unat_eq_zero)
    then show ?thesis by simp
  next
    case False
    then have "\<not> (s = 0 \<and> e = -1)" by auto
    moreover have "uint (e - s + 1) = int (unat e - unat s + 1)"
      using unat_succ [OF False] d by (metis uint_nat)
    ultimately show ?thesis
      using True by (simp only: range_size.simps word_less_nat_alt) auto
  qed
next
  case False
  then show ?thesis by (simp add: word_less_nat_alt)
qed

lemma in_range_nat [simp]:
  "in_range (V4 a) (V4 b) (V4 x) \<longleftrightarrow> unat a \<le> unat x \<and> unat x \<le> unat b"
  by (simp add: in_range_def word_le_nat_alt)

lemma in_range_V4_iff:
  "in_range (V4 a) (V4 b) x \<longleftrightarrow> (\<exists>w. x = V4 w \<and> unat a \<le> unat w \<and> unat w \<le> unat b)"
  by (cases x) (auto simp: in_range_def word_le_nat_alt)

text \<open>\<open>AddTo\<close> adds without wrapping; up to the end of the space it is plain addition.\<close>

lemma add_to_nat:
  assumes "0 \<le> n"
  obtains w where "add_to (V4 a) n = V4 w" "unat w = min (unat a + nat n) 0xffffffff"
proof -
  have ua: "int (unat a) = uint a" by (rule of_nat_unat)
  show ?thesis
  proof (cases "uint a + n > 0xffffffff")
    case True
    then have "unat a + nat n > 0xffffffff"
      using assms ua by arith
    moreover have "unat (0xffffffff :: u32) = 0xffffffff" by simp
    ultimately show ?thesis
      using that [of "0xffffffff"] True assms by simp
  next
    case False
    then have "uint a + n < 2 ^ 32" by simp
    then have "uint (a + word_of_int n) = uint a + n"
      using assms by (simp add: uint_word_ariths uint_word_of_int mod_add_right_eq)
    then have "int (unat (a + word_of_int n)) = int (unat a + nat n)"
      using assms by (simp add: of_nat_unat)
    then have "unat (a + word_of_int n) = unat a + nat n" by linarith
    moreover have "unat a + nat n \<le> 0xffffffff"
      using False assms ua by arith
    ultimately show ?thesis
      using that [of "a + word_of_int n"] False assms by simp
  qed
qed

section \<open>The host range\<close>

lemma host_range_cases:
  assumes "host_range p = Some r"
  obtains q net bc lo hi where
    "prefix_valid p" "paddr p = V4 q" "paddr (masked p) = V4 net" "broadcast p = Some (V4 bc)"
    "r = (V4 lo, V4 hi)" "unat lo = unat net + 1" "unat hi + 1 = unat bc" "unat net + 3 \<le> unat bc"
    "\<And>x. contains p (V4 x) \<longleftrightarrow> unat net \<le> unat x \<and> unat x \<le> unat bc"
proof -
  from assms obtain q where q: "paddr p = V4 q" and b: "pbits p \<le> 30"
    by (cases "paddr p") (auto simp: host_range_def split: if_splits)
  with assms have bc: "broadcast p \<noteq> None"
    by (cases "broadcast p") (simp_all add: host_range_def)
  have v: "prefix_valid p"
    using bc by (auto simp: broadcast_def masked_def no_prefix_def split: if_splits)
  define k where "k = 32 - nat (pbits p)"
  have k: "2 \<le> k" "k \<le> 32"
    using b v by (auto simp: k_def prefix_valid_def nat_le_iff)
  define net where "net = push_bit k (drop_bit k q)"
  define bcast where "bcast = net OR mask k"
  have net: "paddr (masked p) = V4 net"
    using q v by (simp add: masked_def top_bits_def net_def k_def)
  have bc': "broadcast p = Some (V4 bcast)"
    using net v by (simp add: broadcast_def bcast_def k_def mask_eq_exp_minus_1 push_bit_eq_mult)
  have u: "unat bcast = unat net + (2 ^ k - 1)"
    using k unat_keep_top_fill [of k q] unat_keep_top [of k q] by (simp add: bcast_def net_def)
  have "(4 :: nat) = 2 ^ 2" by simp
  also have "\<dots> \<le> 2 ^ k" using k by (intro power_increasing) auto
  finally have gap: "unat net + 3 \<le> unat bcast" using u by linarith
  have ne: "net \<noteq> -1" "bcast \<noteq> 0"
    using gap unat_lt32 [of bcast] unat_max32 by auto
  have "r = (V4 (net + 1), V4 (bcast - 1))"
    using assms q b net bc' ne by (simp add: host_range_def)
  moreover have "contains p (V4 x) \<longleftrightarrow> unat net \<le> unat x \<and> unat x \<le> unat bcast" for x
    using same_top_iff [of k x q] k v q
    by (auto simp: contains_V4 k_def [symmetric] net_def bcast_def word_le_nat_alt)
  ultimately show ?thesis
    using that [OF v q net bc', of "net + 1" "bcast - 1"] ne gap
    by (simp add: unat_succ unat_pred)
qed

section \<open>Properties\<close>

text \<open>
  The host range of a prefix is every address it contains but the network and the
  broadcast address.
\<close>

theorem host_range_exact:
  assumes "host_range p = Some (lo, hi)"
  shows "\<exists>net bc. paddr (masked p) = V4 net \<and> broadcast p = Some (V4 bc) \<and>
    (\<forall>a. in_range lo hi a = (contains p a \<and> a \<noteq> V4 net \<and> a \<noteq> V4 bc))"
proof -
  obtain q net bc l h where f:
    "prefix_valid p" "paddr p = V4 q" "paddr (masked p) = V4 net" "broadcast p = Some (V4 bc)"
    "(lo, hi) = (V4 l, V4 h)" "unat l = unat net + 1" "unat h + 1 = unat bc"
    "unat net + 3 \<le> unat bc"
    "\<And>x. contains p (V4 x) \<longleftrightarrow> unat net \<le> unat x \<and> unat x \<le> unat bc"
    by (rule host_range_cases [OF assms]) (rule that)
  have "in_range lo hi a = (contains p a \<and> a \<noteq> V4 net \<and> a \<noteq> V4 bc)" for a
  proof (cases a)
    case (V4 x)
    have "x = net \<longleftrightarrow> unat x = unat net" "x = bc \<longleftrightarrow> unat x = unat bc"
      by (rule word_unat_eq_iff)+
    then show ?thesis
      using f(5-9) V4 by (simp only: prod.inject addr.inject in_range_nat) linarith
  next
    case (V6 x z)
    then show ?thesis using f(2,5) by (auto simp: in_range_def contains_V6)
  qed (simp add: in_range_def)
  with f(3,4) show ?thesis by blast
qed

text \<open>The sides of the router: both ends assignable, the router outside.\<close>

lemma router_side_spec:
  assumes lohi: "unat lo + 1 \<le> unat hi" and lo: "1 \<le> unat lo" and hi: "unat hi + 1 < 2 ^ 32"
  shows "\<exists>s e. router_side (V4 lo) (V4 hi) r = Some (V4 s, V4 e) \<and>
    unat lo \<le> unat s \<and> unat s \<le> unat e \<and> unat e \<le> unat hi \<and> \<not> in_range (V4 s) (V4 e) r"
proof (cases "in_range (V4 lo) (V4 hi) r")
  case False
  then show ?thesis using lohi by (auto simp: router_side_def)
next
  case True
  then obtain w where r: "r = V4 w" and w: "unat lo \<le> unat w" "unat w \<le> unat hi"
    by (auto simp: in_range_V4_iff)
  have "w \<noteq> 0" "w \<noteq> -1" using w lo hi unat_max32 by auto
  then have n: "addr_next r = V4 (w + 1)" "unat (w + 1) = unat w + 1"
    and p: "addr_prev r = V4 (w - 1)" "unat (w - 1) = unat w - 1" "unat w \<noteq> 0"
    using r by (simp_all add: unat_succ unat_pred unat_eq_zero)
  have nz: "lo \<noteq> 0" "w + 1 \<noteq> 0" using lo n(2) by auto
  define below where "below = range_size (V4 lo) (V4 (w - 1))"
  define above where "above = range_size (V4 (w + 1)) (V4 hi)"
  have b: "below = int (unat w - unat lo)"
    using p w nz by (auto simp: below_def range_size_nat simp del: range_size.simps)
  have a: "above = int (unat hi - unat w)"
    using n w nz by (auto simp: above_def range_size_nat simp del: range_size.simps)
  have side: "router_side (V4 lo) (V4 hi) r =
      (if above \<ge> below
       then if unat w + 1 \<le> unat hi then Some (V4 (w + 1), V4 hi) else None
       else if unat lo \<le> unat w - 1 then Some (V4 lo, V4 (w - 1)) else None)"
    using True n p by (simp add: router_side_def Let_def word_le_nat_alt below_def above_def
        del: range_size.simps in_range_nat)
  show ?thesis
  proof (cases "above \<ge> below")
    case True
    then have "unat w + 1 \<le> unat hi" using a b w lohi by linarith
    then show ?thesis using side True n r w by auto
  next
    case False
    then have "unat lo \<le> unat w - 1" "unat lo < unat w" using a b w p by auto
    then show ?thesis using side False p r w by auto
  qed
qed

lemma reserve_static_spec:
  assumes "paddr (masked p) = V4 net" and "unat s \<le> unat e"
  shows "\<exists>s'. reserve_static p (V4 s) (V4 e) = V4 s' \<and> unat s \<le> unat s' \<and> unat s' \<le> unat e"
proof -
  obtain w where "add_to (V4 net) static_reserve = V4 w"
    using add_to_nat [of static_reserve net] by (auto simp: static_reserve_def)
  then show ?thesis
    using assms by (auto simp: reserve_static_def Let_def simp del: range_size.simps)
qed

lemma cap_range_spec:
  assumes "unat s \<le> unat e" and "1 \<le> unat s"
  shows "\<exists>e'. cap_range (V4 s) (V4 e) = V4 e' \<and> unat s \<le> unat e' \<and> unat e' \<le> unat e \<and>
    1 \<le> range_size (V4 s) (V4 e') \<and> range_size (V4 s) (V4 e') \<le> max_suggested"
proof -
  have s: "s \<noteq> 0" using assms(2) by auto
  obtain w where w: "add_to (V4 s) (max_suggested - 1) = V4 w" "unat w = min (unat s + 253) 0xffffffff"
    using add_to_nat [of "max_suggested - 1" s] by (auto simp: max_suggested_def)
  show ?thesis
    using assms s w unat_lt32 [of e]
    by (auto simp: cap_range_def range_size_nat max_suggested_def min_def simp del: range_size.simps)
qed

lemma host_range_exact_witness:
  "\<exists>net bc. paddr (masked (prefix_from (V4 0xc0a80105) 24)) = V4 net \<and>
    broadcast (prefix_from (V4 0xc0a80105) 24) = Some (V4 bc) \<and>
    (\<forall>a. in_range (V4 0xc0a80101) (V4 0xc0a801fe) a =
      (contains (prefix_from (V4 0xc0a80105) 24) a \<and> a \<noteq> V4 net \<and> a \<noteq> V4 bc))"
  by (rule host_range_exact)
     (simp add: host_range_def broadcast_def prefix_from_def masked_def prefix_valid_def top_bits_def)

text \<open>
  C21. A derived range exists exactly when the prefix has assignable addresses, and then it
  is a non-empty run of at most \<open>MaxSuggested\<close> of them that avoids the router (and with
  it, being inside the host range, the network and broadcast addresses).
\<close>

theorem suggest_range_correct:
  "case host_range p of
     None \<Rightarrow> suggest_range p router = None
   | Some (lo, hi) \<Rightarrow>
       (\<exists>s e. suggest_range p router = Some (s, e) \<and>
          in_range lo hi s \<and> in_range lo hi e \<and> in_range s e s \<and> \<not> in_range s e router \<and>
          1 \<le> range_size s e \<and> range_size s e \<le> max_suggested)"
proof (cases "host_range p")
  case None
  then show ?thesis by (simp add: suggest_range_def)
next
  case (Some lh)
  obtain q net bc lo hi where f:
    "prefix_valid p" "paddr p = V4 q" "paddr (masked p) = V4 net" "broadcast p = Some (V4 bc)"
    "lh = (V4 lo, V4 hi)" "unat lo = unat net + 1" "unat hi + 1 = unat bc"
    "unat net + 3 \<le> unat bc"
    "\<And>x. contains p (V4 x) \<longleftrightarrow> unat net \<le> unat x \<and> unat x \<le> unat bc"
    by (rule host_range_cases [OF Some]) (rule that)
  then have lh: "unat lo + 1 \<le> unat hi" "1 \<le> unat lo" "unat hi + 1 < 2 ^ 32"
    using unat_lt32 [of bc] by auto
  obtain s0 e0 where r: "router_side (V4 lo) (V4 hi) router = Some (V4 s0, V4 e0)"
    "unat lo \<le> unat s0" "unat s0 \<le> unat e0" "unat e0 \<le> unat hi" "\<not> in_range (V4 s0) (V4 e0) router"
    using router_side_spec [OF lh] by blast
  obtain s where s: "reserve_static p (V4 s0) (V4 e0) = V4 s" "unat s0 \<le> unat s" "unat s \<le> unat e0"
    using reserve_static_spec [OF f(3) r(3)] by blast
  have "1 \<le> unat s" using s r lh by linarith
  then obtain e where e: "cap_range (V4 s) (V4 e0) = V4 e" "unat s \<le> unat e" "unat e \<le> unat e0"
    "1 \<le> range_size (V4 s) (V4 e)" "range_size (V4 s) (V4 e) \<le> max_suggested"
    using cap_range_spec [OF s(3)] by blast
  have "suggest_range p router = Some (V4 s, V4 e)"
    using Some f r s e by (simp add: suggest_range_def Let_def)
  moreover have "\<not> in_range (V4 s) (V4 e) router"
    using r(5) s e by (auto simp: in_range_V4_iff)
  ultimately show ?thesis
    using Some f(5) r s e by (auto simp del: range_size.simps)
qed

end
