(* ===== verification/NatValidate.thy ===== *)
theory NatValidate
  imports NatRender Subnet
begin

text \<open>
  \<open>internal/gateway/nat/validate.go\<close>: what has to hold of a configuration before anything is
  written. A problem is the index of its forward, the field it is about and what is wrong; the
  sentence shown to the operator is left out. Names are read as the runes of their UTF-8.
\<close>

section \<open>Runes\<close>

text \<open>
  The width and value of the first rune: one byte that begins no rune is \<open>U+FFFD\<close>, as Go reads
  it. The second byte's range rules out overlong forms and surrogates.
\<close>

definition cont :: "nat \<Rightarrow> bool" where "cont b = (0x80 \<le> b \<and> b \<le> 0xBF)"

definition second_range :: "nat \<Rightarrow> nat \<Rightarrow> bool" where
  "second_range a b = ((if a = 0xE0 then 0xA0 else if a = 0xF0 then 0x90 else 0x80) \<le> b \<and>
     b \<le> (if a = 0xED then 0x9F else if a = 0xF4 then 0x8F else 0xBF))"

definition first_rune :: "nat \<Rightarrow> nat list \<Rightarrow> nat \<times> nat" where
  "first_rune a rest =
     (if a < 0x80 then (1, a)
      else (case rest of
        b # rest2 \<Rightarrow>
          if 0xC2 \<le> a \<and> a \<le> 0xDF \<and> cont b then (2, (a - 0xC0) * 64 + (b - 0x80))
          else if 0xE0 \<le> a \<and> a \<le> 0xF4 \<and> second_range a b then
            (case rest2 of
               c # rest3 \<Rightarrow>
                 if a \<le> 0xEF \<and> cont c then (3, (a - 0xE0) * 4096 + (b - 0x80) * 64 + (c - 0x80))
                 else if 0xF0 \<le> a \<and> cont c then
                   (case rest3 of
                      d # _ \<Rightarrow> if cont d
                        then (4, (a - 0xF0) * 262144 + (b - 0x80) * 4096 + (c - 0x80) * 64 + (d - 0x80))
                        else (1, 0xFFFD)
                    | [] \<Rightarrow> (1, 0xFFFD))
                 else (1, 0xFFFD)
             | [] \<Rightarrow> (1, 0xFFFD))
          else (1, 0xFFFD)
      | [] \<Rightarrow> (1, 0xFFFD)))"

function runes_of :: "nat list \<Rightarrow> nat list" where
  "runes_of [] = []"
| "runes_of (a # rest) = snd (first_rune a rest) # runes_of (drop (fst (first_rune a rest) - 1) rest)"
  by pat_completeness auto
termination
  by (relation "measure length") auto

definition runes :: "string \<Rightarrow> nat list" where
  "runes s = runes_of (map of_char s)"

definition is_control :: "nat \<Rightarrow> bool" where
  "is_control r = (r \<le> 0x1F \<or> 0x7F \<le> r \<and> r \<le> 0x9F)"

section \<open>Problems\<close>

datatype nat_field = NameF | SlotF | InF | ProtocolF | PortF | ToF | HairpinF

datatype nat_message =
    NeedsName | NameTooLong nat | ControlChar nat | DuplicateName string nat
  | NoSlot | SlotOutOfRange int | SlotTaken int nat
  | NeedsInterface | UnknownInterface string | NotAdopted string | InterfaceDown string
  | NoIPv4 string | CarrierNAT addr | PrivateUplink addr
  | UnknownProtocol protocol
  | NeedsPort | NeedsTargetPort | ShiftedRange
  | NeedsTarget | TargetIPv6 addr | TargetUnspecified | TargetLoopback addr | TargetMulticast addr
  | TargetIsRouter addr | TargetOffNetwork addr
  | HairpinHidesClients string
  | ClaimedTwice string string string port_range string

type_synonym problem = "nat \<times> nat_field \<times> nat_message"

record nat_result =
  nr_errors :: "problem list"
  nr_warnings :: "problem list"

definition result_ok :: "nat_result \<Rightarrow> bool" where
  "result_ok r = (nr_errors r = [])"

definition add_result :: "nat_result \<Rightarrow> nat_result \<Rightarrow> nat_result" where
  "add_result a b = \<lparr>nr_errors = nr_errors a @ nr_errors b, nr_warnings = nr_warnings a @ nr_warnings b\<rparr>"

definition no_result :: nat_result where "no_result = \<lparr>nr_errors = [], nr_warnings = []\<rparr>"
definition errorf :: "problem \<Rightarrow> nat_result" where "errorf p = \<lparr>nr_errors = [p], nr_warnings = []\<rparr>"
definition warnf :: "problem \<Rightarrow> nat_result" where "warnf p = \<lparr>nr_errors = [], nr_warnings = [p]\<rparr>"

definition MaxNameLen :: nat where "MaxNameLen = 64"

definition has_control_char :: "string \<Rightarrow> nat option" where
  "has_control_char s = find is_control (runes s)"

text \<open>\<open>seen\<close> and \<open>slots\<close> are the two maps, from a key to the forward that has it.\<close>

definition validate_name :: "nat \<Rightarrow> forward \<Rightarrow> (string \<times> nat) list \<Rightarrow> nat_result \<times> (string \<times> nat) list" where
  "validate_name i f seen =
     (if f_name f = '''' then (errorf (i, NameF, NeedsName), seen)
      else if length (runes (f_name f)) > MaxNameLen
      then (errorf (i, NameF, NameTooLong (length (runes (f_name f)))), seen)
      else (let r = (case has_control_char (f_name f) of None \<Rightarrow> no_result | Some c \<Rightarrow> errorf (i, NameF, ControlChar c))
            in case map_of seen (f_name f) of
                 Some first \<Rightarrow> (add_result r (errorf (i, NameF, DuplicateName (f_name f) first)), seen)
               | None \<Rightarrow> (r, (f_name f, i) # seen)))"

definition validate_slot :: "nat \<Rightarrow> forward \<Rightarrow> (int \<times> nat) list \<Rightarrow> nat_result \<times> (int \<times> nat) list" where
  "validate_slot i f slots =
     (if f_slot f = 0 then (errorf (i, SlotF, NoSlot), slots)
      else if \<not> slot_valid (f_slot f) then (errorf (i, SlotF, SlotOutOfRange (f_slot f)), slots)
      else (case map_of slots (f_slot f) of
              Some first \<Rightarrow> (errorf (i, SlotF, SlotTaken (f_slot f) first), slots)
            | None \<Rightarrow> (no_result, (f_slot f, i) # slots)))"

definition warn_unreachable :: "nat \<Rightarrow> forward \<Rightarrow> link_info \<Rightarrow> nat_result" where
  "warn_unreachable i f l =
     (case outward_ipv4 l of
        None \<Rightarrow> if l_up l then warnf (i, InF, NoIPv4 (f_in f)) else no_result
      | Some a \<Rightarrow>
          if is_cgnat a then warnf (i, InF, CarrierNAT a)
          else if is_private a then warnf (i, InF, PrivateUplink a)
          else no_result)"

definition validate_in :: "nat \<Rightarrow> forward \<Rightarrow> link_view \<Rightarrow> nat_result" where
  "validate_in i f links =
     (if f_in f = '''' then errorf (i, InF, NeedsInterface)
      else (case lookup_link links (f_in f) of
              None \<Rightarrow> errorf (i, InF, UnknownInterface (f_in f))
            | Some l \<Rightarrow>
                if \<not> l_adopted l then errorf (i, InF, NotAdopted (f_in f))
                else add_result (if l_up l then no_result else warnf (i, InF, InterfaceDown (f_in f)))
                       (warn_unreachable i f l)))"

definition validate_protocol :: "nat \<Rightarrow> forward \<Rightarrow> nat_result" where
  "validate_protocol i f =
     (if protocol_valid (f_protocol f) then no_result else errorf (i, ProtocolF, UnknownProtocol (f_protocol f)))"

definition validate_ports :: "nat \<Rightarrow> forward \<Rightarrow> nat_result" where
  "validate_ports i f =
     (if \<not> range_valid (f_port f) then errorf (i, PortF, NeedsPort)
      else if \<not> is_valid (f_to_addr f) \<or> f_to_port f = 0 then errorf (i, ToF, NeedsTargetPort)
      else if \<not> range_single (f_port f) \<and> f_to_port f \<noteq> pr_from (f_port f) then errorf (i, ToF, ShiftedRange)
      else no_result)"

definition validate_to :: "nat \<Rightarrow> forward \<Rightarrow> link_view \<Rightarrow> nat_result" where
  "validate_to i f links =
     (if \<not> is_valid (f_to_addr f) then errorf (i, ToF, NeedsTarget)
      else (let a = unmap (f_to_addr f)
            in if is6 a then errorf (i, ToF, TargetIPv6 a)
               else if is_unspecified a then errorf (i, ToF, TargetUnspecified)
               else if is_loopback a then errorf (i, ToF, TargetLoopback a)
               else if is_multicast a then errorf (i, ToF, TargetMulticast a)
               else if is_local_address links a then errorf (i, ToF, TargetIsRouter a)
               else if prefixes_containing links a = [] then warnf (i, ToF, TargetOffNetwork a)
               else no_result))"

definition validate_hairpin :: "nat \<Rightarrow> forward \<Rightarrow> link_view \<Rightarrow> nat_result" where
  "validate_hairpin i f links =
     (if \<not> hairpin_or_default f then no_result
      else if \<not> is_valid (f_to_addr f) \<or> prefixes_containing links (unmap (f_to_addr f)) = [] then no_result
      else warnf (i, HairpinF, HairpinHidesClients (f_name f)))"

section \<open>Overlaps\<close>

definition shared_list :: "forward \<Rightarrow> forward \<Rightarrow> protocol list" where
  "shared_list a b = concat (map (\<lambda>p. filter (\<lambda>q. p = q) (each (protocol_or_default b))) (each (protocol_or_default a)))"

definition shares_protocol :: "forward \<Rightarrow> forward \<Rightarrow> bool" where
  "shares_protocol a b = list_ex (\<lambda>p. list_ex (\<lambda>q. p = q) (each (protocol_or_default b))) (each (protocol_or_default a))"

definition shared_protocols :: "forward \<Rightarrow> forward \<Rightarrow> string" where
  "shared_protocols a b = join_with '' and '' (shared_list a b)"

definition overlap :: "port_range \<Rightarrow> port_range \<Rightarrow> port_range" where
  "overlap a b = \<lparr>pr_from = max (pr_from a) (pr_from b), pr_to = min (pr_to a) (pr_to b)\<rparr>"

definition claims_again :: "forward \<Rightarrow> forward \<Rightarrow> bool" where
  "claims_again a b = (\<not> (f_in b \<noteq> f_in a \<or> \<not> range_valid (f_port b)) \<and>
     \<not> (\<not> shares_protocol a b \<or> \<not> overlaps (f_port a) (f_port b)))"

definition validate_overlaps :: "forward list \<Rightarrow> nat_result" where
  "validate_overlaps fs = \<lparr>nr_errors = concat (map (\<lambda>i.
       let a = fs ! i
       in if f_in a = '''' \<or> \<not> range_valid (f_port a) then []
          else map (\<lambda>j. (j, PortF, ClaimedTwice (f_name (fs ! j)) (f_name a) (shared_protocols a (fs ! j))
                         (overlap (f_port a) (f_port (fs ! j))) (f_in a)))
                 (filter (\<lambda>j. claims_again a (fs ! j)) [Suc i ..< length fs]))
     [0 ..< length fs]), nr_warnings = []\<rparr>"

text \<open>The loop over the forwards.\<close>

fun validate_each :: "link_view \<Rightarrow> nat \<Rightarrow> (string \<times> nat) list \<Rightarrow> (int \<times> nat) list \<Rightarrow> forward list \<Rightarrow> nat_result" where
  "validate_each links i seen slots [] = no_result"
| "validate_each links i seen slots (f # fs) =
     (let (r1, seen') = validate_name i f seen;
          (r2, slots') = validate_slot i f slots
      in add_result (foldr add_result
           [r1, r2, validate_in i f links, validate_protocol i f, validate_ports i f, validate_to i f links,
            validate_hairpin i f links] no_result)
           (validate_each links (Suc i) seen' slots' fs))"

definition validate :: "nat_config \<Rightarrow> link_view \<Rightarrow> nat_result" where
  "validate c links = add_result (validate_each links 0 [] [] (forwards c)) (validate_overlaps (forwards c))"

section \<open>What a valid configuration guarantees\<close>

definition forward_ok :: "link_view \<Rightarrow> forward \<Rightarrow> bool" where
  "forward_ok links f = (f_name f \<noteq> '''' \<and> has_control_char (f_name f) = None \<and> slot_valid (f_slot f) \<and>
     f_in f \<noteq> '''' \<and> protocol_valid (f_protocol f) \<and> range_valid (f_port f) \<and> f_to_port f \<noteq> 0 \<and>
     is4 (unmap (f_to_addr f)) \<and> \<not> is_local_address links (unmap (f_to_addr f)))"

lemma nr_errors_simps [simp]:
  "nr_errors (add_result a b) = nr_errors a @ nr_errors b" "nr_errors no_result = []"
  "nr_errors (errorf p) = [p]" "nr_errors (warnf p) = []"
  by (simp_all add: add_result_def no_result_def errorf_def warnf_def)

lemma validate_name_ok:
  assumes "validate_name i f seen = (r, seen')" and "nr_errors r = []"
  shows "f_name f \<noteq> '''' \<and> has_control_char (f_name f) = None \<and> f_name f \<notin> fst ` set seen \<and>
    fst ` set seen' = insert (f_name f) (fst ` set seen)"
  using assms
  by (auto simp: validate_name_def Let_def map_of_eq_None_iff split: if_splits option.splits)

lemma validate_slot_ok:
  assumes "validate_slot i f slots = (r, slots')" and "nr_errors r = []"
  shows "slot_valid (f_slot f) \<and> f_slot f \<notin> fst ` set slots \<and> fst ` set slots' = insert (f_slot f) (fst ` set slots)"
  using assms
  by (auto simp: validate_slot_def map_of_eq_None_iff split: if_splits option.splits)

lemma validate_to_ok:
  assumes "nr_errors (validate_to i f links) = []"
  shows "is4 (unmap (f_to_addr f)) \<and> \<not> is_local_address links (unmap (f_to_addr f))"
  using assms by (cases "f_to_addr f") (auto simp: validate_to_def Let_def split: if_splits)

lemma validate_each_ok:
  assumes "nr_errors (validate_each links i seen slots fs) = []"
  shows "list_all (forward_ok links) fs \<and> distinct (map f_name fs) \<and> distinct (map f_slot fs) \<and>
    f_name ` set fs \<inter> fst ` set seen = {} \<and> f_slot ` set fs \<inter> fst ` set slots = {}"
  using assms
proof (induction links i seen slots fs rule: validate_each.induct)
  case (1 links i seen slots)
  then show ?case by simp
next
  case (2 links i seen slots f fs)
  obtain r1 seen' where n: "validate_name i f seen = (r1, seen')" by fastforce
  obtain r2 slots' where s: "validate_slot i f slots = (r2, slots')" by fastforce
  have e: "nr_errors r1 = []" "nr_errors r2 = []" "nr_errors (validate_in i f links) = []"
    "nr_errors (validate_protocol i f) = []" "nr_errors (validate_ports i f) = []"
    "nr_errors (validate_to i f links) = []" "nr_errors (validate_each links (Suc i) seen' slots' fs) = []"
    using "2.prems" by (simp_all add: n s)
  note ih = "2.IH" [OF n [symmetric] refl s [symmetric] refl e(7)]
  have "forward_ok links f"
    using validate_name_ok [OF n e(1)] validate_slot_ok [OF s e(2)] validate_to_ok [OF e(6)] e(3-5)
    by (auto simp: forward_ok_def validate_in_def validate_protocol_def validate_ports_def split: if_splits)
  then show ?case
    using ih validate_name_ok [OF n e(1)] validate_slot_ok [OF s e(2)] by auto
qed

lemma concat_map_Nil: "concat (map g xs) = [] \<Longrightarrow> x \<in> set xs \<Longrightarrow> g x = []"
  by auto

lemma validate_overlaps_ok:
  assumes "nr_errors (validate_overlaps fs) = []"
  shows "sorted_wrt (\<lambda>a b. \<not> (f_in a \<noteq> '''' \<and> range_valid (f_port a) \<and> claims_again a b)) fs"
proof -
  have "\<not> (f_in (fs ! i) \<noteq> '''' \<and> range_valid (f_port (fs ! i)) \<and> claims_again (fs ! i) (fs ! j))"
    if "i < j" "j < length fs" for i j
  proof
    assume c: "f_in (fs ! i) \<noteq> '''' \<and> range_valid (f_port (fs ! i)) \<and> claims_again (fs ! i) (fs ! j)"
    have "i \<in> set [0 ..< length fs]" using that by simp
    then have "filter (\<lambda>j. claims_again (fs ! i) (fs ! j)) [Suc i ..< length fs] = []"
      using concat_map_Nil [OF assms [unfolded validate_overlaps_def nat_result.select_convs], of i] c
      by (simp add: Let_def split: if_splits)
    then show False using c that by (simp only: filter_empty_conv) auto
  qed
  then show ?thesis by (simp add: sorted_wrt_iff_nth_less)
qed

lemma validated:
  assumes "result_ok (validate c links)"
  shows "list_all (forward_ok links) (forwards c)" "distinct (map f_slot (forwards c))"
    "sorted_wrt (\<lambda>a b. \<not> (f_in a \<noteq> '''' \<and> range_valid (f_port a) \<and> claims_again a b)) (forwards c)"
  using assms validate_each_ok [of links 0 "[]" "[]" "forwards c"] validate_overlaps_ok [of "forwards c"]
  by (simp_all add: result_ok_def validate_def)

section \<open>Where a packet for the router goes\<close>

text \<open>
  What the document says of a packet that arrives for the router by an interface, with a transport and
  a port: a forward serves it when it is for that transport and port; a hairpin brings it there from
  any other adopted interface that has an address.
\<close>

definition serves :: "forward \<Rightarrow> protocol \<Rightarrow> u16 \<Rightarrow> bool" where
  "serves f proto port \<longleftrightarrow>
     (if f_protocol f = ''both'' then proto = ''tcp'' \<or> proto = ''udp''
      else if f_protocol f = '''' then proto = ''tcp'' else proto = f_protocol f) \<and>
     pr_from (f_port f) \<le> port \<and> port \<le> pr_to (f_port f)"

definition delivers_to :: "forward \<Rightarrow> addr \<times> port_range" where
  "delivers_to f = (unmap (f_to_addr f),
     if pr_from (f_port f) = pr_to (f_port f) then \<lparr>pr_from = f_to_port f, pr_to = f_to_port f\<rparr> else f_port f)"

definition hairpins_from :: "link_view \<Rightarrow> forward \<Rightarrow> string \<Rightarrow> bool" where
  "hairpins_from links f iface \<longleftrightarrow> f_hairpin f \<noteq> Some False \<and> iface \<noteq> f_in f \<and>
     (\<exists>ls. all_links links = Some ls \<and> (\<exists>l \<in> set ls. l_adopted l \<and> l_name l = iface \<and> l_prefixes l \<noteq> []))"

lemma serves_iff: "serves f proto port \<longleftrightarrow> proto \<in> set (each (protocol_or_default f)) \<and> pr_from (f_port f) \<le> port \<and> port \<le> pr_to (f_port f)"
  by (auto simp: serves_def each_def protocol_or_default_def ProtocolTCP_def ProtocolUDP_def ProtocolBoth_def)

lemma delivers_to_eq: "delivers_to f = (unmap (f_to_addr f), inside_ports f)"
  by (simp add: delivers_to_def inside_ports_def range_single_def single_port_def)

lemma in_hairpins:
  "(\<exists>l \<in> set (inside_interfaces links (f_in f)). l_name l = iface) \<and> hairpin_or_default f \<longleftrightarrow> hairpins_from links f iface"
  by (cases "all_links links")
     (auto simp: inside_interfaces_def hairpins_from_def hairpin_or_default_def split: option.splits)

text \<open>A rule of the chain that matches is that of a forward that serves the packet, and every such forward has one.\<close>

definition hits :: "string \<Rightarrow> protocol \<Rightarrow> u16 \<Rightarrow> string \<times> protocol \<times> port_range \<times> addr \<times> port_range \<Rightarrow> bool" where
  "hits iface proto port = (\<lambda>(i, p, r, to). i = iface \<and> p = proto \<and> pr_from r \<le> port \<and> port \<le> pr_to r)"

lemma dnat_hits:
  assumes "enabled c"
  shows "(\<exists>r \<in> set (dnat (d_table (render c links))). hits iface proto port (dn_in r, dn_protocol r, dn_port r, dn_to r, dn_to_ports r) \<and>
      (dn_to r, dn_to_ports r) = to) \<longleftrightarrow>
    (\<exists>f \<in> set (forwards c). f_in f = iface \<and> serves f proto port \<and> to = delivers_to f)"
  using assms by (auto simp: set_dnat_render dnats_of_def dnat_of_def hits_def serves_iff delivers_to_eq)

lemma hairpin_hits:
  assumes "enabled c"
  shows "(\<exists>r \<in> set (hairpin (d_table (render c links))). hits iface proto port (hp_in r, hp_protocol r, hp_port r, hp_to r, hp_to_ports r) \<and>
      (hp_to r, hp_to_ports r) = to) \<longleftrightarrow>
    (\<exists>f \<in> set (forwards c). hairpins_from links f iface \<and> serves f proto port \<and> to = delivers_to f)"
  unfolding set_hairpin_render [OF assms] in_hairpins [symmetric]
  by (auto simp: hairpin_rules_of_def hairpins_of_def hits_def serves_iff delivers_to_eq split: if_splits)

lemma find_append: "find P (xs @ ys) = (case find P xs of None \<Rightarrow> find P ys | Some x \<Rightarrow> Some x)"
  by (induction xs) auto

text \<open>The first of the matching forwards, or of the matching hairpins.\<close>

lemma translate_cases:
  assumes "enabled c"
  shows "case translate (d_table (render c links)) iface proto port of
      Some to \<Rightarrow> (\<exists>f \<in> set (forwards c). f_in f = iface \<and> serves f proto port \<and> to = delivers_to f) \<or>
        (\<forall>f \<in> set (forwards c). \<not> (f_in f = iface \<and> serves f proto port)) \<and>
        (\<exists>f \<in> set (forwards c). hairpins_from links f iface \<and> serves f proto port \<and> to = delivers_to f)
    | None \<Rightarrow> \<forall>f \<in> set (forwards c). \<not> (serves f proto port \<and> (f_in f = iface \<or> hairpins_from links f iface))"
proof -
  let ?t = "d_table (render c links)"
  let ?d = "map (\<lambda>r. (dn_in r, dn_protocol r, dn_port r, dn_to r, dn_to_ports r)) (dnat ?t)"
  let ?h = "map (\<lambda>r. (hp_in r, hp_protocol r, hp_port r, hp_to r, hp_to_ports r)) (hairpin ?t)"
  let ?hits = "hits iface proto port"
  have d: "(\<exists>x \<in> set ?d. ?hits x \<and> snd (snd (snd x)) = to) \<longleftrightarrow>
      (\<exists>f \<in> set (forwards c). f_in f = iface \<and> serves f proto port \<and> to = delivers_to f)" for to
    using dnat_hits [OF assms, of links iface proto port to] by simp
  have h: "(\<exists>x \<in> set ?h. ?hits x \<and> snd (snd (snd x)) = to) \<longleftrightarrow>
      (\<exists>f \<in> set (forwards c). hairpins_from links f iface \<and> serves f proto port \<and> to = delivers_to f)" for to
    using hairpin_hits [OF assms, of links iface proto port to] by simp
  have t: "translate ?t iface proto port = map_option (\<lambda>x. snd (snd (snd x))) (find ?hits (?d @ ?h))"
    by (simp add: translate_def prerouting_def hits_def case_prod_beta')
  show ?thesis
  proof (cases "find ?hits ?d")
    case (Some x)
    then have "x \<in> set ?d" "?hits x" by (auto simp: find_Some_iff)
    then show ?thesis unfolding t find_append Some using d [of "snd (snd (snd x))"] by auto
  next
    case None
    have nd: "\<forall>f \<in> set (forwards c). \<not> (f_in f = iface \<and> serves f proto port)"
    proof (intro ballI notI)
      fix f assume "f \<in> set (forwards c)" "f_in f = iface \<and> serves f proto port"
      then have "\<exists>x \<in> set ?d. ?hits x" using d [of "delivers_to f"] by blast
      then show False using None by (auto simp: find_None_iff)
    qed
    show ?thesis
    proof (cases "find ?hits ?h")
      case (Some x)
      then have "x \<in> set ?h" "?hits x" by (auto simp: find_Some_iff)
      then show ?thesis unfolding t find_append None using Some nd h [of "snd (snd (snd x))"] by auto
    next
      case no: None
      have "\<forall>f \<in> set (forwards c). \<not> (hairpins_from links f iface \<and> serves f proto port)"
      proof (intro ballI notI)
        fix f assume "f \<in> set (forwards c)" "hairpins_from links f iface \<and> serves f proto port"
        then have "\<exists>x \<in> set ?h. ?hits x" using h [of "delivers_to f"] by blast
        then show False using no by (auto simp: find_None_iff)
      qed
      then show ?thesis unfolding t find_append None using no nd by auto
    qed
  qed
qed

lemma sole_server:
  assumes "f \<in> set (forwards c)" "serves f proto port" "hairpins_from links f iface" "enabled c"
    and "\<And>g. g \<in> set (forwards c) \<Longrightarrow> serves g proto port \<Longrightarrow> g = f"
  shows "translate (d_table (render c links)) iface proto port = Some (delivers_to f)"
proof (cases "translate (d_table (render c links)) iface proto port")
  case None
  then show ?thesis using translate_cases [OF assms(4), where links = links and iface = iface and proto = proto and port = port] assms(1-3) by auto
next
  case (Some to)
  then obtain g where "g \<in> set (forwards c)" "serves g proto port" "to = delivers_to g"
    using translate_cases [OF assms(4), where links = links and iface = iface and proto = proto and port = port] by auto
  then show ?thesis using assms(5) Some by blast
qed

lemma one_claim:
  assumes "result_ok (validate c links)" and "f \<in> set (forwards c)" "g \<in> set (forwards c)"
    and "f_in f = f_in g" "serves f proto port" "serves g proto port"
  shows "f = g"
proof -
  have sym: "claims_again a b" if "{a, b} = {f, g}" for a b
  proof -
    have "a \<in> set (forwards c)" "b \<in> set (forwards c)" "f_in a = f_in b" "serves a proto port" "serves b proto port"
      using that assms(2-6) by (auto simp: doubleton_eq_iff)
    moreover from this have "range_valid (f_port b)" using validated(1) [OF assms(1)] by (auto simp: list_all_iff forward_ok_def)
    ultimately show ?thesis
      by (auto simp: claims_again_def serves_iff shares_protocol_def overlaps_def list_ex_iff intro: order_trans)
  qed
  have ok: "f_in f \<noteq> ''''" "range_valid (f_port f)" "f_in g \<noteq> ''''" "range_valid (f_port g)"
    using validated(1) [OF assms(1)] assms(2,3) by (auto simp: list_all_iff forward_ok_def)
  obtain i j where i: "i < length (forwards c)" "forwards c ! i = f" and j: "j < length (forwards c)" "forwards c ! j = g"
    using assms(2,3) by (auto simp: in_set_conv_nth)
  note w = validated(3) [OF assms(1), unfolded sorted_wrt_iff_nth_less, rule_format]
  have "\<not> i < j" using w [of i j] i j ok sym [of f g] by auto
  moreover have "\<not> j < i" using w [of j i] i j ok sym [of g f] by auto
  ultimately show ?thesis using i j by simp
qed

text \<open>
  C30. What a configuration that validates does to a packet for the router. When a forward names the
  interface the packet arrived by and serves its transport and port, there is only that one, and the packet
  goes to its destination. When none does, it goes to the destination of a forward that serves it and
  hairpins from that interface, if there is one, and is not translated otherwise; which forward that is the
  document does not say when several serve it from different uplinks. No packet goes to an address that
  the listing of the links has on the router, and every destination is IPv4.
\<close>

theorem translated_as_configured:
  assumes "result_ok (validate c links)" and "enabled c"
  shows "(\<forall>f \<in> set (forwards c). f_in f = iface \<and> serves f proto port \<longrightarrow>
       translate (d_table (render c links)) iface proto port = Some (delivers_to f) \<and>
       (\<forall>g \<in> set (forwards c). f_in g = iface \<and> serves g proto port \<longrightarrow> g = f)) \<and>
    ((\<forall>f \<in> set (forwards c). \<not> (f_in f = iface \<and> serves f proto port)) \<longrightarrow>
       (case translate (d_table (render c links)) iface proto port of
          Some to \<Rightarrow> \<exists>f \<in> set (forwards c). hairpins_from links f iface \<and> serves f proto port \<and> to = delivers_to f
        | None \<Rightarrow> \<forall>f \<in> set (forwards c). \<not> (hairpins_from links f iface \<and> serves f proto port))) \<and>
    (case translate (d_table (render c links)) iface proto port of
       Some (a, ports) \<Rightarrow> is4 a \<and> (\<forall>ls. all_links links = Some ls \<longrightarrow> (\<forall>l \<in> set ls. \<forall>q \<in> set (l_prefixes l). paddr q \<noteq> a))
     | None \<Rightarrow> True)"
proof (intro conjI)
  note t = translate_cases [OF assms(2), where links = links and iface = iface and proto = proto and port = port]
  note one = one_claim [OF assms(1)]
  show "\<forall>f \<in> set (forwards c). f_in f = iface \<and> serves f proto port \<longrightarrow>
       translate (d_table (render c links)) iface proto port = Some (delivers_to f) \<and>
       (\<forall>g \<in> set (forwards c). f_in g = iface \<and> serves g proto port \<longrightarrow> g = f)"
    using t one by (cases "translate (d_table (render c links)) iface proto port") (simp; blast)+
  show "(\<forall>f \<in> set (forwards c). \<not> (f_in f = iface \<and> serves f proto port)) \<longrightarrow>
       (case translate (d_table (render c links)) iface proto port of
          Some to \<Rightarrow> \<exists>f \<in> set (forwards c). hairpins_from links f iface \<and> serves f proto port \<and> to = delivers_to f
        | None \<Rightarrow> \<forall>f \<in> set (forwards c). \<not> (hairpins_from links f iface \<and> serves f proto port))"
    using t by (cases "translate (d_table (render c links)) iface proto port") (simp; blast)+
  have "is4 (fst (delivers_to f)) \<and>
      (\<forall>ls. all_links links = Some ls \<longrightarrow> (\<forall>l \<in> set ls. \<forall>q \<in> set (l_prefixes l). paddr q \<noteq> fst (delivers_to f)))"
    if "f \<in> set (forwards c)" for f
    using validated(1) [OF assms(1)] that
    by (fastforce simp: list_all_iff list_ex_iff forward_ok_def delivers_to_def is_local_address_def holds_addr_def)
  note ok = this
  show "case translate (d_table (render c links)) iface proto port of
       Some (a, ports) \<Rightarrow> is4 a \<and> (\<forall>ls. all_links links = Some ls \<longrightarrow> (\<forall>l \<in> set ls. \<forall>q \<in> set (l_prefixes l). paddr q \<noteq> a))
     | None \<Rightarrow> True"
  proof (cases "translate (d_table (render c links)) iface proto port")
    case (Some to)
    then obtain f where "f \<in> set (forwards c)" "to = delivers_to f" using t by auto
    then show ?thesis using Some ok [of f] by (simp add: case_prod_beta)
  qed simp
qed

definition sample_links :: link_view where
  "sample_links = (let l = [\<lparr>l_name = ''wan0'', l_adopted = True, l_up = True,
       l_prefixes = [\<lparr>paddr = V4 0x01020304, pbits = 24\<rparr>]\<rparr>]
     in \<lparr>lookup_link = (\<lambda>n. find (\<lambda>i. l_name i = n) l), all_links = Some l\<rparr>)"

definition sample_nat :: nat_config where
  "sample_nat = \<lparr>enabled = True, forwards = [sample_forward ''a'' 1,
     (sample_forward ''b'' 2)\<lparr>f_port := single_port 81\<rparr>], egress = None, dial_in = None\<rparr>"

lemma sample_nat_valid: "result_ok (validate sample_nat sample_links)"
proof -
  have r: "runes ''a'' = [97]" "runes ''b'' = [98]"
    by (simp_all add: runes_def first_rune_def)
  have o: "claims_again (sample_forward ''a'' 1) ((sample_forward ''b'' 2)\<lparr>f_port := single_port 81\<rparr>) = False"
    by (simp add: claims_again_def overlaps_def sample_forward_def single_port_def)
  have v: "nr_errors (validate_overlaps (forwards sample_nat)) = []"
    using o by (simp add: validate_overlaps_def sample_nat_def Let_def upt_rec)
  show ?thesis
    using v r unfolding result_ok_def validate_def
    by (simp add: sample_nat_def validate_name_def validate_slot_def validate_in_def validate_protocol_def
        validate_ports_def validate_to_def validate_hairpin_def sample_forward_def has_control_char_def
        is_control_def MaxNameLen_def slot_valid_def MaxSlot_def sample_links_def single_port_def range_valid_def
        range_single_def protocol_valid_def is_unspecified_def is_local_address_def holds_addr_def
        hairpin_or_default_def warn_unreachable_def Let_def split: option.splits)
qed

lemma translated_as_configured_witness:
  "translate (d_table (render sample_nat sample_links)) ''wan0'' ''tcp'' 81 =
    Some (delivers_to ((sample_forward ''b'' 2)\<lparr>f_port := single_port 81\<rparr>))"
proof -
  let ?f = "(sample_forward ''b'' 2)\<lparr>f_port := single_port 81\<rparr>"
  have "?f \<in> set (forwards sample_nat)" "f_in ?f = ''wan0'' \<and> serves ?f ''tcp'' 81"
    by (simp_all add: sample_nat_def sample_forward_def serves_def single_port_def)
  moreover have "enabled sample_nat" by (simp add: sample_nat_def)
  ultimately show ?thesis
    using conjunct1 [OF translated_as_configured [OF sample_nat_valid, where iface = "''wan0''" and proto = "''tcp''" and port = 81]] by blast
qed

text \<open>
  Two uplinks. A forward on each of them for one port is accepted, and a client inside reaches only one of the
  two. A hairpin takes the other uplink for a network inside: a port that is forwarded on the second is
  open on the first as well.
\<close>

definition two_uplinks :: link_view where
  "two_uplinks = (let l = [\<lparr>l_name = ''br0'', l_adopted = True, l_up = True, l_prefixes = [\<lparr>paddr = V4 0xc0a80101, pbits = 24\<rparr>]\<rparr>,
       \<lparr>l_name = ''wan0'', l_adopted = True, l_up = True, l_prefixes = [\<lparr>paddr = V4 0x01020304, pbits = 24\<rparr>]\<rparr>,
       \<lparr>l_name = ''wan1'', l_adopted = True, l_up = True, l_prefixes = [\<lparr>paddr = V4 0x05060708, pbits = 24\<rparr>]\<rparr>]
     in \<lparr>lookup_link = (\<lambda>n. find (\<lambda>i. l_name i = n) l), all_links = Some l\<rparr>)"

definition on_wan1 :: "string \<Rightarrow> int \<Rightarrow> u16 \<Rightarrow> forward" where
  "on_wan1 name slot port = (sample_forward name slot)\<lparr>f_in := ''wan1'', f_port := single_port port, f_to_addr := V4 0xc0a8010b, f_hairpin := None\<rparr>"

definition on_both :: nat_config where
  "on_both = \<lparr>enabled = True, forwards = [(sample_forward ''web'' 1)\<lparr>f_hairpin := None\<rparr>, on_wan1 ''cam'' 2 80, on_wan1 ''ssh'' 3 81],
     egress = None, dial_in = None\<rparr>"

lemma on_both_valid: "result_ok (validate on_both two_uplinks)"
proof -
  have r: "runes ''web'' = [119, 101, 98]" "runes ''cam'' = [99, 97, 109]" "runes ''ssh'' = [115, 115, 104]"
    by (simp_all add: runes_def first_rune_def)
  have "\<not> claims_again ((sample_forward ''web'' 1)\<lparr>f_hairpin := None\<rparr>) (on_wan1 ''cam'' 2 80)"
      "\<not> claims_again ((sample_forward ''web'' 1)\<lparr>f_hairpin := None\<rparr>) (on_wan1 ''ssh'' 3 81)"
      "\<not> claims_again (on_wan1 ''cam'' 2 80) (on_wan1 ''ssh'' 3 81)"
    by (simp_all add: claims_again_def overlaps_def on_wan1_def sample_forward_def single_port_def)
  then have v: "nr_errors (validate_overlaps (forwards on_both)) = []"
    by (simp add: validate_overlaps_def on_both_def Let_def upt_rec)
  show ?thesis
    using v r unfolding result_ok_def validate_def
    by (simp add: on_both_def on_wan1_def validate_name_def validate_slot_def validate_in_def validate_protocol_def
        validate_ports_def validate_to_def validate_hairpin_def sample_forward_def has_control_char_def
        is_control_def MaxNameLen_def slot_valid_def MaxSlot_def two_uplinks_def single_port_def range_valid_def
        range_single_def protocol_valid_def is_unspecified_def is_local_address_def holds_addr_def
        warn_unreachable_def Let_def split: option.splits)
qed

lemma hairpins_clash:
  "\<exists>f g. {f, g} \<subseteq> set (forwards on_both) \<and> fst (delivers_to f) \<noteq> fst (delivers_to g) \<and>
     (\<forall>h \<in> {f, g}. serves h ''tcp'' 80 \<and> hairpins_from two_uplinks h ''br0'')"
  by (rule exI [of _ "(sample_forward ''web'' 1)\<lparr>f_hairpin := None\<rparr>"], rule exI [of _ "on_wan1 ''cam'' 2 80"])
     (simp add: on_both_def on_wan1_def sample_forward_def serves_def single_port_def delivers_to_def hairpins_from_def two_uplinks_def)

lemma hairpin_on_other_uplink:
  "translate (d_table (render on_both two_uplinks)) ''wan0'' ''tcp'' 81 = Some (delivers_to (on_wan1 ''ssh'' 3 81))"
proof -
  have "on_wan1 ''ssh'' 3 81 \<in> set (forwards on_both)" "serves (on_wan1 ''ssh'' 3 81) ''tcp'' 81"
      "hairpins_from two_uplinks (on_wan1 ''ssh'' 3 81) ''wan0''" "enabled on_both"
    by (simp_all add: on_both_def on_wan1_def sample_forward_def serves_def single_port_def hairpins_from_def two_uplinks_def)
  then show ?thesis
  proof (rule sole_server)
    show "f = on_wan1 ''ssh'' 3 81" if "f \<in> set (forwards on_both)" "serves f ''tcp'' 81" for f
      using that by (auto simp: on_both_def on_wan1_def sample_forward_def serves_def single_port_def)
  qed
qed

end
