(* ===== verification/NatPlan.thy ===== *)
theory NatPlan
  imports NatValidate
begin

text \<open>
  \<open>internal/gateway/nat/plan.go\<close>: what applying a configuration would do, from what the kernel
  has now. A reason is a constructor with the data its sentence is made of.
\<close>

section \<open>Impact\<close>

datatype impact = ImpactNone | ImpactReload | ImpactRestart | ImpactDisruptive

fun impact_string :: "impact \<Rightarrow> string" where
  "impact_string ImpactNone = ''none''"
| "impact_string ImpactReload = ''reload''"
| "impact_string ImpactRestart = ''restart''"
| "impact_string ImpactDisruptive = ''disruptive''"

definition unmarshal_impact :: "string \<Rightarrow> impact option" where
  "unmarshal_impact t =
     (if t = ''none'' then Some ImpactNone
      else if t = ''reload'' then Some ImpactReload
      else if t = ''restart'' then Some ImpactRestart
      else if t = ''disruptive'' then Some ImpactDisruptive
      else None)"

lemma impact_roundtrip: "unmarshal_impact (impact_string i) = Some i"
  by (cases i) (simp_all add: unmarshal_impact_def)

section \<open>The observed state\<close>

record foreign_filter =
  ff_table :: string
  ff_family :: string
  ff_chain :: string
  ff_policy :: string

record listening_port =
  lp_protocol :: protocol
  lp_port :: u16

record nat_counter =
  packets :: u64
  bytes :: u64

record observed =
  ob_known :: bool
  ob_lines :: "string list"
  ob_counters :: "(string \<times> nat_counter) list"
  ob_foreign :: "foreign_filter list"
  ob_listening :: "listening_port list"

datatype reason =
    RemovedInUse "string list"
  | RemovedIdle
  | TornDown
  | Conflict string "string list" addr
  | ForeignFilters "foreign_filter list"

record plan =
  pl_changes :: "change list"
  pl_impact :: impact
  pl_foreign :: "foreign_filter list"
  pl_reasons :: "reason list"
  pl_validation :: nat_result

section \<open>Reading a line\<close>

definition forward_of_line :: "string \<Rightarrow> string option" where
  "forward_of_line line = (case last_index '' for '' line of
     None \<Rightarrow> None
   | Some i \<Rightarrow> (let name = drop (i + length '' for '') line in if name = [] then None else Some name))"

definition removed_forwards :: "change list \<Rightarrow> string list" where
  "removed_forwards cs = sorted_keys (List.map_filter (\<lambda>c.
     if ch_kind c \<noteq> ChangeRemove then None else forward_of_line (ch_line c)) cs)"

fun counter_of_forward :: "string \<Rightarrow> string list \<Rightarrow> string" where
  "counter_of_forward name [] = []"
| "counter_of_forward name (line # lines) =
     (if forward_of_line line \<noteq> Some name then counter_of_forward name lines
      else (case first_index '' counter '' line of
              None \<Rightarrow> counter_of_forward name lines
            | Some i \<Rightarrow>
                (let rest = drop (i + length '' counter '') line
                 in case first_index '' '' rest of
                      Some j \<Rightarrow> take j rest
                    | None \<Rightarrow> counter_of_forward name lines)))"

definition packets_of :: "string \<Rightarrow> observed \<Rightarrow> u64" where
  "packets_of counter obs = (case map_of (ob_counters obs) counter of None \<Rightarrow> 0 | Some c \<Rightarrow> packets c)"

definition ever_used :: "string list \<Rightarrow> observed \<Rightarrow> string list" where
  "ever_used names obs = (if ob_counters obs = [] then names
     else filter (\<lambda>n. packets_of (counter_of_forward n (ob_lines obs)) obs > 0) names)"

section \<open>Classifying\<close>

definition protocol_covers :: "protocol \<Rightarrow> protocol \<Rightarrow> bool" where
  "protocol_covers want got = list_ex (\<lambda>p. p = got) (each want)"

definition conflict_hits :: "forward \<Rightarrow> listening_port list \<Rightarrow> string list" where
  "conflict_hits f ls = map (\<lambda>l. lp_protocol l @ ''/'' @ itoa (unat (lp_port l)))
     (filter (\<lambda>l. \<not> (\<not> range_valid (f_port f) \<or> lp_port l < pr_from (f_port f) \<or> pr_to (f_port f) < lp_port l) \<and>
        protocol_covers (protocol_or_default f) (lp_protocol l)) ls)"

definition describe_conflicts :: "nat_config \<Rightarrow> observed \<Rightarrow> reason list" where
  "describe_conflicts c obs = concat (map (\<lambda>f.
     (let hit = conflict_hits f (ob_listening obs)
      in if hit = [] then [] else [Conflict (f_name f) (sort_strings hit) (f_to_addr f)])) (forwards c))"

definition classify :: "nat_config \<Rightarrow> change list \<Rightarrow> foreign_filter list \<Rightarrow> observed \<Rightarrow> desired \<Rightarrow> impact \<times> reason list" where
  "classify c changes foreign obs d =
     (if changes = [] then (ImpactNone, [])
      else (let gone = removed_forwards changes;
                used = ever_used gone obs;
                (impact, r1) = (if gone = [] then (ImpactReload, [])
                  else if used \<noteq> [] then (ImpactDisruptive, [RemovedInUse used])
                  else (ImpactReload, [RemovedIdle]));
                r2 = (if d_enabled d then [] else [TornDown]);
                r3 = (if foreign = [] then [] else [ForeignFilters foreign])
            in (impact, r1 @ r2 @ describe_conflicts c obs @ r3)))"

definition build_plan :: "nat_config \<Rightarrow> link_view \<Rightarrow> observed \<Rightarrow> nat_result + (plan \<times> desired)" where
  "build_plan c links obs =
     (let result = validate c links
      in if \<not> result_ok result then Inl result
         else (let d = render c links;
                   foreign = (if d_enabled d \<and> dnat (d_table d) \<noteq> [] then ob_foreign obs else []);
                   p = \<lparr>pl_changes = [], pl_impact = ImpactNone, pl_foreign = foreign, pl_reasons = [],
                        pl_validation = result\<rparr>
               in if \<not> ob_known obs then Inr (p, d)
                  else (let changes = diff_lines (ob_lines obs) (object_lines d);
                            (i, rs) = classify c changes foreign obs d
                        in Inr (p\<lparr>pl_changes := changes, pl_impact := i, pl_reasons := rs\<rparr>, d))))"

section \<open>The name on a line\<close>

lemma last_index_append:
  assumes "last_index p t = Some i"
  shows "last_index p (s @ t) = Some (length s + i)"
  using assms by (induction s) auto

fun occurs :: "string \<Rightarrow> string \<Rightarrow> bool" where
  "occurs p [] = (p = [])"
| "occurs p (c # s) = (starts_with p (c # s) \<or> occurs p s)"

lemma last_index_None: "last_index p s = None \<longleftrightarrow> \<not> occurs p s"
  by (induction p s rule: last_index.induct) (auto split: option.splits)

text \<open>A name is legible when the separator does not occur again in it.\<close>

definition legible :: "string \<Rightarrow> bool" where
  "legible name = (name \<noteq> [] \<and> \<not> occurs '' for '' (''for '' @ name))"

lemma forward_of_ended:
  assumes "legible name"
  shows "forward_of_line (s @ '' for '' @ name) = Some name"
proof -
  have "last_index '' for '' (''for '' @ name) = None"
    using assms by (simp only: last_index_None legible_def) blast
  then have "last_index '' for '' ('' for '' @ name) = Some 0"
    by simp
  then have "last_index '' for '' (s @ '' for '' @ name) = Some (length s)"
    using last_index_append [of "'' for ''" "'' for '' @ name" 0 s] by (simp only: add_0_right)
  then show ?thesis using assms by (simp add: forward_of_line_def legible_def)
qed

lemma forward_of_dnat_line: "legible (dn_forward r) \<Longrightarrow> forward_of_line (dnat_line r) = Some (dn_forward r)"
  using forward_of_ended [of "dn_forward r" "''nft dnat in '' @ dn_in r @ '' '' @ dn_protocol r @ '' port ''
    @ range_string (dn_port r) @ '' to '' @ target (dn_to r) (dn_to_ports r) @ '' counter '' @ dn_counter r"]
  by (simp add: dnat_line_def)

lemma set_removed_forwards:
  "set (removed_forwards cs) = {n. \<exists>l \<in> set (removed cs). forward_of_line l = Some n}"
  by (force simp: removed_forwards_def sorted_keys_def sort_strings_def map_filter_def removed_def split: if_splits)

lemma build_plan_valid: "result_ok (validate c links) \<Longrightarrow> \<exists>p d. build_plan c links obs = Inr (p, d)"
  by (cases "ob_known obs") (simp_all add: build_plan_def Let_def split: prod.split)

lemma build_plan_known:
  assumes "build_plan c links obs = Inr (p, d)" and "ob_known obs"
  shows "pl_changes p = diff_lines (ob_lines obs) (object_lines d)" "d = render c links"
    "pl_impact p = fst (classify c (pl_changes p) (pl_foreign p) obs d)"
  using assms by (auto simp: build_plan_def Let_def split: if_splits prod.splits)

lemma build_plan_reasons:
  assumes "build_plan c links obs = Inr (p, d)" and "ob_known obs"
  shows "pl_reasons p = snd (classify c (pl_changes p) (pl_foreign p) obs d)"
  using assms by (auto simp: build_plan_def Let_def split: if_splits prod.splits)

section \<open>The counter on a line\<close>

lemma first_index_skip: "c \<notin> set w \<Longrightarrow> first_index (c # p) (w @ t) = map_option (\<lambda>n. length w + n) (first_index (c # p) t)"
  by (induction w; cases "first_index (c # p) t") auto

lemma space_free_prefix:
  assumes "CHR '' '' \<notin> set v" "CHR '' '' \<notin> set w" "v @ CHR '' '' # s = w @ CHR '' '' # t"
  shows "v = w"
proof -
  have "takeWhile (\<lambda>c. c \<noteq> CHR '' '') (v @ CHR '' '' # s) = v" "takeWhile (\<lambda>c. c \<noteq> CHR '' '') (w @ CHR '' '' # t) = w"
    using assms(1,2) by (auto simp: takeWhile_append takeWhile_eq_all_conv)
  then show ?thesis using assms(3) by simp
qed

text \<open>The separator of the counter is the first word \<open>counter\<close> that follows a space.\<close>

definition words :: "string list \<Rightarrow> string" where
  "words ws = concat (map (\<lambda>w. CHR '' '' # w) ws)"

lemma words_simps [simp]: "words [] = []" "words (w # ws) = CHR '' '' # w @ words ws"
  by (simp_all add: words_def)

lemma first_counter:
  assumes "\<forall>w \<in> set ws. CHR '' '' \<notin> set w \<and> w \<noteq> ''counter''"
  shows "first_index '' counter '' (words ws @ '' counter '' @ t) = Some (length (words ws))"
  using assms
proof (induction ws)
  case (Cons w ws)
  obtain u where u: "words ws @ '' counter '' @ t = CHR '' '' # u" by (cases ws) auto
  have "\<not> starts_with '' counter '' (CHR '' '' # w @ CHR '' '' # u)"
  proof
    assume "starts_with '' counter '' (CHR '' '' # w @ CHR '' '' # u)"
    then obtain x where "CHR '' '' # w @ CHR '' '' # u = '' counter '' @ x" unfolding starts_with_iff by blast
    then have "''counter'' @ CHR '' '' # x = w @ CHR '' '' # u" by simp
    then have "''counter'' = w" by (rule space_free_prefix [rotated 2]) (use Cons.prems in simp_all)
    then show False using Cons.prems by simp
  qed
  then have "first_index '' counter '' (words (w # ws) @ '' counter '' @ t) =
      map_option Suc (first_index '' counter '' (w @ words ws @ '' counter '' @ t))"
    using u by simp
  also have "\<dots> = Some (length (words (w # ws)))"
    using first_index_skip [of "CHR '' ''" w "''counter ''" "words ws @ '' counter '' @ t"] Cons by simp
  finally show ?case .
qed simp

text \<open>A rule whose line can be read: the interface is one word other than \<open>counter\<close>, as the others are.\<close>

definition readable_rule :: "dnat_rule \<Rightarrow> bool" where
  "readable_rule r \<longleftrightarrow> legible (dn_forward r) \<and> (\<forall>w \<in> {dn_in r, dn_protocol r}. CHR '' '' \<notin> set w \<and> w \<noteq> ''counter'') \<and>
     is4 (dn_to r) \<and> CHR '' '' \<notin> set (dn_counter r)"

lemma number_words:
  "CHR '' '' \<notin> set (range_string q) \<and> range_string q \<noteq> ''counter''"
  "is4 a \<Longrightarrow> CHR '' '' \<notin> set (target a q) \<and> target a q \<noteq> ''counter''"
proof -
  have i: "c \<notin> set (itoa n)" if "c = CHR '' '' \<or> c = CHR ''c''" for c n using that itoa_free [of c n] by auto
  have c: "c \<notin> set (range_string q)" if "c = CHR '' '' \<or> c = CHR ''c''" for c
    using that i [OF that] by (auto simp: range_string_def)
  have n: "w \<noteq> ''counter''" if "CHR ''c'' \<notin> set w" for w using that by auto
  show "CHR '' '' \<notin> set (range_string q) \<and> range_string q \<noteq> ''counter''"
    using c n [of "range_string q"] by blast
  assume "is4 a"
  then obtain x where x: "a = V4 x" by (cases a) auto
  have "c \<notin> set (target a q)" if "c = CHR '' '' \<or> c = CHR ''c''" for c
    using that c [OF that] i [OF that] by (auto simp: target_def x v4_string_def)
  then show "CHR '' '' \<notin> set (target a q) \<and> target a q \<noteq> ''counter''" using n [of "target a q"] by blast
qed

lemma drop_two: "drop (length xs + length ys) (xs @ ys @ zs) = zs"
  by simp

lemma counter_on_line:
  assumes "readable_rule r"
  shows "counter_of_forward (dn_forward r) (dnat_line r # ls) = dn_counter r"
proof -
  let ?ws = "[''dnat'', ''in'', dn_in r, dn_protocol r, ''port'', range_string (dn_port r), ''to'', target (dn_to r) (dn_to_ports r)]"
  let ?pre = "''nft'' @ words ?ws" and ?rest = "dn_counter r @ '' for '' @ dn_forward r"
  have l: "dnat_line r = ?pre @ '' counter '' @ ?rest" by (simp add: dnat_line_def)
  have "\<forall>w \<in> set ?ws. CHR '' '' \<notin> set w \<and> w \<noteq> ''counter''"
    using assms number_words by (simp add: readable_rule_def)
  then have "first_index '' counter '' (dnat_line r) = Some (length ?pre)"
    using first_index_skip [of "CHR '' ''" "''nft''" "''counter ''" "words ?ws @ '' counter '' @ ?rest"] first_counter [of ?ws ?rest]
    unfolding l by simp
  moreover have "drop (length ?pre + length '' counter '') (dnat_line r) = ?rest"
    unfolding l by (rule drop_two)
  moreover have "first_index '' '' ?rest = Some (length (dn_counter r))"
    using assms first_index_skip [of "CHR '' ''" "dn_counter r" "[]" "'' for '' @ dn_forward r"] by (simp add: readable_rule_def)
  moreover have "forward_of_line (dnat_line r) = Some (dn_forward r)"
    using assms by (intro forward_of_dnat_line) (simp add: readable_rule_def)
  ultimately show ?thesis by (simp add: Let_def)
qed

lemma counter_among_lines:
  assumes "\<forall>r \<in> set rs. readable_rule r" and "\<forall>q \<in> set rs. dn_forward q = name \<longrightarrow> dn_counter q = k"
    and "\<exists>r \<in> set rs. dn_forward r = name"
  shows "counter_of_forward name (map dnat_line rs @ ls) = k"
  using assms
proof (induction rs)
  case (Cons r rs)
  show ?case
  proof (cases "dn_forward r = name")
    case True
    then show ?thesis using counter_on_line [of r "map dnat_line rs @ ls"] Cons.prems by auto
  next
    case False
    have "forward_of_line (dnat_line r) = Some (dn_forward r)"
      using Cons.prems(1) by (intro forward_of_dnat_line) (simp add: readable_rule_def)
    then show ?thesis using Cons False by auto
  qed
qed simp

lemma unnamed_lines:
  assumes "\<forall>l \<in> set ls. forward_of_line l = None"
  shows "counter_of_forward name (ls @ ms) = counter_of_forward name ms"
  using assms by (induction ls) auto

lemma counter_line_unnamed:
  assumes "CHR '' '' \<notin> set n"
  shows "forward_of_line (''nft counter '' @ n) = None"
proof -
  have "\<not> occurs '' for '' n" using assms by (induction n) (auto simp: starts_with_iff)
  moreover have "\<not> starts_with ''for '' n" using assms by (auto simp: starts_with_iff)
  ultimately have "last_index '' for '' (''nft counter '' @ n) = None" unfolding last_index_None by simp
  then show ?thesis by (simp add: forward_of_line_def)
qed

text \<open>What the kernel shows of a configuration names the counter of each of its forwards.\<close>

definition readable_forward :: "forward \<Rightarrow> bool" where
  "readable_forward f \<longleftrightarrow> legible (f_name f) \<and> CHR '' '' \<notin> set (f_in f) \<and> f_in f \<noteq> ''counter''"

lemma slot_counter_word: "CHR '' '' \<notin> set (slot_counter i)"
  using itoa_free [of "CHR '' ''"] by (auto simp: slot_counter_def itoa_int_def)

lemma rendered_counter:
  assumes v: "result_ok (validate c links)" and e: "enabled c" and "\<forall>g \<in> set (forwards c). readable_forward g"
    and r: "r \<in> set (dnat (d_table (render c links)))"
  shows "counter_of_forward (dn_forward r) (object_lines (render c links)) = dn_counter r"
proof -
  let ?t = "d_table (render c links)"
  have f: "\<exists>g \<in> set (forwards c). \<exists>p \<in> set (each (protocol_or_default g)). q = dnat_of g p" if "q \<in> set (dnat ?t)" for q
    using that e by (auto simp: set_dnat_render dnats_of_def)
  have rd: "readable_rule q" if q: "q \<in> set (dnat ?t)" for q
  proof -
    obtain g p where g: "g \<in> set (forwards c)" "p \<in> set (each (protocol_or_default g))" "q = dnat_of g p" using f [OF q] by blast
    have "forward_ok links g" using validated(1) [OF v] g(1) by (simp add: list_all_iff)
    then have "is4 (unmap (f_to_addr g))" "p \<in> {''tcp'', ''udp''}"
      using g(2) by (auto simp: forward_ok_def protocol_valid_def Protocols_def each_def protocol_or_default_def
        ProtocolTCP_def ProtocolUDP_def ProtocolBoth_def split: if_splits)
    then show ?thesis
      using g assms(3) slot_counter_word by (auto simp: readable_rule_def dnat_of_def readable_forward_def f_counter_def)
  qed
  have same: "dn_counter q = dn_counter r" if q: "q \<in> set (dnat ?t)" "dn_forward q = dn_forward r" for q
  proof -
    obtain g h where gh: "g \<in> set (forwards c)" "h \<in> set (forwards c)" "dn_forward q = f_name g" "dn_counter q = f_counter g"
        "dn_forward r = f_name h" "dn_counter r = f_counter h"
      using f [of q] f [of r] q(1) r by (auto simp: dnat_of_def)
    have "distinct (map f_name (forwards c))" using validate_each_ok [of links 0 "[]" "[]" "forwards c"] v
      by (simp add: result_ok_def validate_def)
    then have "g = h" using gh q(2) by (auto simp: distinct_map dest: inj_onD)
    then show ?thesis using gh by simp
  qed
  let ?head = "[''nft table inet '' @ TableName, ''nft chain '' @ PreroutingChain @ '' prerouting dstnat''] @
    map (\<lambda>n. ''nft counter '' @ n) (counters ?t)"
  obtain tl where l: "object_lines (render c links) = ?head @ map dnat_line (dnat ?t) @ tl"
    using e by (simp add: object_lines_def render_def Let_def)
  have "CHR '' '' \<notin> set n" if "n \<in> set (counters ?t)" for n
    using that e slot_counter_word
    by (auto simp: render_def Let_def sorted_keys_def sort_strings_def f_counter_def EgressCounter_def split: if_splits)
  then have h: "\<forall>l \<in> set ?head. forward_of_line l = None"
    using counter_line_unnamed by (auto simp: TableName_def PreroutingChain_def forward_of_line_def)
  show ?thesis
    unfolding l unnamed_lines [OF h]
  proof (rule counter_among_lines)
    show "\<forall>q \<in> set (dnat ?t). readable_rule q" using rd by blast
    show "\<forall>q \<in> set (dnat ?t). dn_forward q = dn_forward r \<longrightarrow> dn_counter q = dn_counter r" using same by blast
    show "\<exists>q \<in> set (dnat ?t). dn_forward q = dn_forward r" using r by blast
  qed
qed

text \<open>
  C32. A plan does not break a connection unannounced. The kernel has the rules of a configuration that
  was valid, and the new one no longer has the rule of one of its forwards: when a packet has been counted
  by that rule's own counter, or the counters could not be read, the plan says that it is disruptive and
  names the forward. This needs names that can be read back from a rule's line: no name has the
  separator \<open>for\<close> in it again, and no interface is called \<open>counter\<close> or has a space in its name.
\<close>

theorem breaking_is_announced:
  assumes "result_ok (validate c0 links0)" and "enabled c0" and "\<forall>g \<in> set (forwards c0). readable_forward g"
    and "ob_known obs" and "ob_lines obs = object_lines (render c0 links0)"
    and "r \<in> set (dnat (d_table (render c0 links0)))"
    and "ob_counters obs = [] \<or> (\<exists>n. map_of (ob_counters obs) (dn_counter r) = Some n \<and> packets n > 0)"
    and "build_plan c links obs = Inr (p, d)" and "dnat_line r \<notin> set (object_lines (render c links))"
  shows "pl_impact p = ImpactDisruptive \<and> (\<exists>used. RemovedInUse used \<in> set (pl_reasons p) \<and> dn_forward r \<in> set used)"
proof -
  note k = build_plan_known [OF assms(8,4)]
  have "dnat_line r \<in> set (ob_lines obs)"
    using assms(2,5,6) by (auto simp: object_lines_def Let_def render_def split: if_splits)
  then have "count (mset (ob_lines obs) - mset (object_lines (render c links))) (dnat_line r) > 0"
    using assms(9) by (simp add: count_eq_zero_iff [THEN iffD2])
  then have rm: "dnat_line r \<in> set (removed (pl_changes p))"
    unfolding k(1,2) using diff_lines_counts by (metis count_greater_zero_iff set_mset_mset)
  obtain g where "g \<in> set (forwards c0)" "dn_forward r = f_name g"
    using assms(2,6) by (auto simp: set_dnat_render dnats_of_def dnat_of_def)
  then have "legible (dn_forward r)" using assms(3) by (simp add: readable_forward_def)
  then have n: "dn_forward r \<in> set (removed_forwards (pl_changes p))"
    using rm forward_of_dnat_line by (auto simp: set_removed_forwards)
  moreover have "packets_of (counter_of_forward (dn_forward r) (ob_lines obs)) obs > 0" if "ob_counters obs \<noteq> []"
    using that assms(7) unfolding assms(5) rendered_counter [OF assms(1-3,6)] by (auto simp: packets_of_def)
  ultimately have u: "dn_forward r \<in> set (ever_used (removed_forwards (pl_changes p)) obs)"
    by (auto simp: ever_used_def)
  moreover have "pl_changes p \<noteq> []" using rm by auto
  ultimately have "fst (classify c (pl_changes p) (pl_foreign p) obs d) = ImpactDisruptive \<and>
      RemovedInUse (ever_used (removed_forwards (pl_changes p)) obs) \<in> set (snd (classify c (pl_changes p) (pl_foreign p) obs d))"
    using n by (auto simp: classify_def Let_def)
  then show ?thesis using u k(3) build_plan_reasons [OF assms(8,4)] by auto
qed

text \<open>Planning against the state a configuration renders to finds nothing to do.\<close>

lemma settled:
  assumes "build_plan c links obs = Inr (p, d)" and "ob_known obs"
    and "mset (ob_lines obs) = mset (object_lines (render c links))"
  shows "pl_changes p = [] \<and> pl_impact p = ImpactNone"
  using build_plan_known [OF assms(1,2)] assms(3) counted.in_step [of "ob_lines obs" "object_lines d"]
  by (simp add: classify_def)

section \<open>A plan that removes a used forward\<close>

definition counted_observed :: observed where
  "counted_observed = \<lparr>ob_known = True, ob_lines = object_lines (render sample_nat sample_links),
     ob_counters = [(''fwd1'', \<lparr>packets = 0, bytes = 0\<rparr>), (''fwd2'', \<lparr>packets = 9, bytes = 900\<rparr>)], ob_foreign = [], ob_listening = []\<rparr>"

definition idle_nat :: nat_config where
  "idle_nat = \<lparr>enabled = False, forwards = [], egress = None, dial_in = None\<rparr>"

lemma idle_nat_renders: "object_lines (render idle_nat sample_links) = []" "result_ok (validate idle_nat sample_links)"
  by (simp_all add: idle_nat_def render_def object_lines_def validate_def result_ok_def validate_overlaps_def)

lemma itoa_2: "itoa 2 = ''2''" by code_simp

text \<open>Only the second forward has carried traffic.\<close>

lemma breaking_is_announced_witness:
  "\<exists>p used. build_plan idle_nat sample_links counted_observed = Inr p \<and> pl_impact (fst p) = ImpactDisruptive \<and>
     RemovedInUse used \<in> set (pl_reasons (fst p)) \<and> ''b'' \<in> set used"
proof -
  obtain p d where p: "build_plan idle_nat sample_links counted_observed = Inr (p, d)"
    using build_plan_valid [OF idle_nat_renders(2)] by blast
  let ?f = "(sample_forward ''b'' 2)\<lparr>f_port := single_port 81\<rparr>" let ?r = "dnat_of ?f ''tcp''"
  have on: "enabled sample_nat" by (simp add: sample_nat_def)
  have f: "\<forall>g \<in> set (forwards sample_nat). readable_forward g"
    by (simp add: sample_nat_def readable_forward_def sample_forward_def legible_def)
  have k: "ob_known counted_observed" "ob_lines counted_observed = object_lines (render sample_nat sample_links)"
    by (simp_all add: counted_observed_def)
  have r: "?r \<in> set (dnat (d_table (render sample_nat sample_links)))"
    by (simp add: set_dnat_render on) (simp add: sample_nat_def sample_forward_def dnats_of_def each_def protocol_or_default_def
      ProtocolTCP_def ProtocolBoth_def)
  have c: "dn_counter ?r = ''fwd2''" by (simp add: dnat_of_def f_counter_def sample_forward_def slot_counter_def itoa_int_def itoa_2)
  have n: "ob_counters counted_observed = [] \<or> (\<exists>n. map_of (ob_counters counted_observed) (dn_counter ?r) = Some n \<and> packets n > 0)"
    unfolding c by (simp add: counted_observed_def)
  have g: "dnat_line ?r \<notin> set (object_lines (render idle_nat sample_links))" by (simp add: idle_nat_renders(1))
  have "dn_forward ?r = ''b''" by (simp add: dnat_of_def sample_forward_def)
  then show ?thesis using breaking_is_announced [OF sample_nat_valid on f k r n p g] p by auto
qed

text \<open>
  Without legible names the plan can be wrong: the last separator of two rules is inside their
  names, so both are read as the forward \<open>web\<close> and the counter of the first speaks for both.
\<close>

lemma illegible_names_hide_traffic:
  "let l1 = ''nft dnat in wan0 tcp port 80 to 10.0.0.2:80 counter fwd1 for a for web'';
       l2 = ''nft dnat in wan0 tcp port 81 to 10.0.0.3:80 counter fwd2 for b for web'';
       obs = \<lparr>ob_known = True, ob_lines = [l1, l2],
         ob_counters = [(''fwd1'', \<lparr>packets = 0, bytes = 0\<rparr>), (''fwd2'', \<lparr>packets = 9, bytes = 900\<rparr>)],
         ob_foreign = [], ob_listening = []\<rparr>
   in ever_used (removed_forwards [\<lparr>ch_kind = ChangeRemove, ch_line = l2\<rparr>]) obs = []"
proof -
  let ?l1 = "''nft dnat in wan0 tcp port 80 to 10.0.0.2:80 counter fwd1 for a for web''"
  let ?l2 = "''nft dnat in wan0 tcp port 81 to 10.0.0.3:80 counter fwd2 for b for web''"
  have "forward_of_line ?l2 = Some ''web''" "forward_of_line ?l1 = Some ''web''"
    by (simp_all add: forward_of_line_def)
  moreover have "first_index '' counter '' ?l1 = Some 43" by simp
  ultimately show ?thesis
    by (simp add: removed_forwards_def sorted_keys_def sort_strings_def map_filter_def ever_used_def packets_of_def)
qed

end
