(* ===== verification/Mmdb.thy ===== *)
theory Mmdb
  imports Bytes GoStrings "HOL-Library.AList"
begin

text \<open>
  \<open>internal/geoip/mmdb.go\<close>: the reader of MaxMind DB files. \<open>uint\<close> is a 64-bit word, so offsets
  wrap as the code's do; an access outside a slice is the value \<open>Panic\<close>. The depth of a value is
  counted down from the 33 levels the code allows. Floating point values are kept as their bits.
\<close>

section \<open>Values and errors\<close>

datatype mvalue =
    MNil
  | MUint u64
  | MInt "32 word"
  | MStr "byte list"
  | MBytes "byte list"
  | MDouble u64
  | MFloat u32
  | MBool bool
  | MMap "(byte list \<times> mvalue) list"
  | MArr "mvalue list"

datatype mmdb_error =
    Panic | NoMarker | MetadataNotMap | BadRecordSize u64 | TreeTooLong
  | TooDeep | Truncated | KeyNotString | BadDouble | BadFloat | UnexpectedType nat | EndedInside

definition ulen :: "byte list \<Rightarrow> u64" where
  "ulen b = of_nat (length b)"

text \<open>\<open>b[i]\<close> and \<open>b[lo:hi]\<close>.\<close>

definition at_index :: "byte list \<Rightarrow> u64 \<Rightarrow> mmdb_error + byte" where
  "at_index b i = (if unat i < length b then Inr (b ! unat i) else Inl Panic)"

definition slice :: "byte list \<Rightarrow> u64 \<Rightarrow> u64 \<Rightarrow> mmdb_error + byte list" where
  "slice b lo hi = (if lo \<le> hi \<and> unat hi \<le> length b then Inr (take (unat hi - unat lo) (drop (unat lo) b))
     else Inl Panic)"

section \<open>Decoding\<close>

definition typeExtended :: nat where "typeExtended = 0"
definition typePointer :: nat where "typePointer = 1"
definition typeString :: nat where "typeString = 2"
definition typeDouble :: nat where "typeDouble = 3"
definition typeBytes :: nat where "typeBytes = 4"
definition typeUint16 :: nat where "typeUint16 = 5"
definition typeUint32 :: nat where "typeUint32 = 6"
definition typeMap :: nat where "typeMap = 7"
definition typeInt32 :: nat where "typeInt32 = 8"
definition typeUint64 :: nat where "typeUint64 = 9"
definition typeUint128 :: nat where "typeUint128 = 10"
definition typeArray :: nat where "typeArray = 11"
definition typeBool :: nat where "typeBool = 14"
definition typeFloat :: nat where "typeFloat = 15"

text \<open>The target of a pointer and the offset after it.\<close>

definition pointer :: "byte list \<Rightarrow> byte \<Rightarrow> u64 \<Rightarrow> mmdb_error + (u64 \<times> u64)" where
  "pointer buf ctrl off =
     (let ss = drop_bit 3 ctrl AND 3;
          vvv = ucast (ctrl AND 7) :: u64;
          n = ucast ss + 1 :: u64
      in if off + n > ulen buf then Inl Truncated
         else (case slice buf off (off + n) of
                 Inl e \<Rightarrow> Inl e
               | Inr b \<Rightarrow>
                   Inr (if ss = 0 then push_bit 8 vvv OR be_word b
                        else if ss = 1 then (push_bit 16 vvv OR be_word b) + 2048
                        else if ss = 2 then (push_bit 24 vvv OR be_word b) + 526336
                        else be_word b,
                        off + n)))"

text \<open>The size field, and the offset after it.\<close>

definition size_field :: "byte list \<Rightarrow> byte \<Rightarrow> u64 \<Rightarrow> mmdb_error + (u64 \<times> u64)" where
  "size_field buf ctrl off =
     (let sz = ucast (ctrl AND 0x1f) :: u64
      in if sz \<ge> 29 then
           (let n = sz - 28
            in if off + n > ulen buf then Inl Truncated
               else (case slice buf off (off + n) of
                       Inl e \<Rightarrow> Inl e
                     | Inr b \<Rightarrow> Inr (if n = 1 then 29 + be_word b
                                  else if n = 2 then 285 + be_word b
                                  else 65821 + be_word b, off + n)))
         else Inr (sz, off))"

text \<open>What comes before a value: a pointer, or its type, size and where it starts.\<close>

datatype control = Pointer u64 u64 | Value nat u64 u64

definition control :: "byte list \<Rightarrow> u64 \<Rightarrow> mmdb_error + control" where
  "control buf off0 =
     (if off0 \<ge> ulen buf then Inl Truncated
      else (case at_index buf off0 of
        Inl e \<Rightarrow> Inl e
      | Inr ctrl \<Rightarrow>
          (let off = off0 + 1; typ = unat (drop_bit 5 ctrl)
           in if typ = typePointer then
                (case pointer buf ctrl off of Inl e \<Rightarrow> Inl e | Inr (p, next) \<Rightarrow> Inr (Pointer p next))
              else (case (if typ = typeExtended then
                            (if off \<ge> ulen buf then Inl Truncated
                             else (case at_index buf off of Inl e \<Rightarrow> Inl e | Inr x \<Rightarrow> Inr (7 + unat x, off + 1)))
                          else Inr (typ, off)) of
                      Inl e \<Rightarrow> Inl e
                    | Inr (typ, off) \<Rightarrow>
                        (case size_field buf ctrl off of
                           Inl e \<Rightarrow> Inl e
                         | Inr (sz, off) \<Rightarrow> Inr (Value typ sz off))))))"

definition scalar :: "byte list \<Rightarrow> nat \<Rightarrow> u64 \<Rightarrow> u64 \<Rightarrow> mmdb_error + (mvalue \<times> u64)" where
  "scalar buf typ sz off =
     (if off + sz > ulen buf then Inl Truncated
      else (case slice buf off (off + sz) of
        Inl e \<Rightarrow> Inl e
      | Inr b \<Rightarrow>
          (let off = off + sz
           in if typ = typeString then Inr (MStr b, off)
              else if typ = typeBytes then Inr (MBytes b, off)
              else if typ = typeDouble then
                (if sz \<noteq> 8 then Inl BadDouble else Inr (MDouble (be_word b), off))
              else if typ = typeFloat then
                (if sz \<noteq> 4 then Inl BadFloat else Inr (MFloat (be_word b), off))
              else if typ = typeInt32 then Inr (MInt (be_word b), off)
              else if typ \<in> {typeUint16, typeUint32, typeUint64, typeUint128} then
                (if sz > 8 then Inr (MNil, off) else Inr (MUint (be_word b), off))
              else Inl (UnexpectedType typ))))"

function (sequential)
  decode :: "byte list \<Rightarrow> nat \<Rightarrow> u64 \<Rightarrow> mmdb_error + (mvalue \<times> u64)" and
  decode_map :: "byte list \<Rightarrow> nat \<Rightarrow> nat \<Rightarrow> u64 \<Rightarrow> (byte list \<times> mvalue) list \<Rightarrow> mmdb_error + (mvalue \<times> u64)" and
  decode_array :: "byte list \<Rightarrow> nat \<Rightarrow> nat \<Rightarrow> u64 \<Rightarrow> mvalue list \<Rightarrow> mmdb_error + (mvalue \<times> u64)" where
  "decode buf 0 off = Inl TooDeep"
| "decode buf (Suc depth) off =
     (case control buf off of
        Inl e \<Rightarrow> Inl e
      | Inr (Pointer p next) \<Rightarrow>
          (case decode buf depth p of Inl e \<Rightarrow> Inl e | Inr (v, after) \<Rightarrow> Inr (v, next))
      | Inr (Value typ sz off) \<Rightarrow>
          if typ = typeMap then decode_map buf depth (unat sz) off []
          else if typ = typeArray then decode_array buf depth (unat sz) off []
          else if typ = typeBool then Inr (MBool (sz \<noteq> 0), off)
          else scalar buf typ sz off)"
| "decode_map buf depth 0 off m = Inr (MMap m, off)"
| "decode_map buf depth (Suc n) off m =
     (case decode buf depth off of
        Inl e \<Rightarrow> Inl e
      | Inr (k, next) \<Rightarrow>
          (case k of
             MStr key \<Rightarrow>
               (case decode buf depth next of
                  Inl e \<Rightarrow> Inl e
                | Inr (v, after) \<Rightarrow> decode_map buf depth n after (AList.update key v m))
           | _ \<Rightarrow> Inl KeyNotString))"
| "decode_array buf depth 0 off a = Inr (MArr a, off)"
| "decode_array buf depth (Suc n) off a =
     (case decode buf depth off of
        Inl e \<Rightarrow> Inl e
      | Inr (v, next) \<Rightarrow> decode_array buf depth n next (a @ [v]))"
  by pat_completeness auto
termination
  by (relation "measures [case_sum (\<lambda>(b, d, off). 2 * d)
        (case_sum (\<lambda>(b, d, n, off, m). 2 * d + 1) (\<lambda>(b, d, n, off, a). 2 * d + 1)),
      case_sum (\<lambda>_. 0) (case_sum (\<lambda>(b, d, n, off, m). n) (\<lambda>(b, d, n, off, a). n))]") auto

definition max_depth :: nat where "max_depth = 33"

section \<open>The search tree\<close>

record mmdb =
  db_tree :: "byte list"
  db_data :: "byte list"
  node_count :: u64
  record_size :: u64
  ipv4_start :: u64
  ip_version :: u64
  db_type :: "byte list"
  db_built :: u64

definition read_at :: "byte list \<Rightarrow> u64 \<Rightarrow> u64 \<Rightarrow> mmdb_error + byte list" where
  "read_at t b n = slice t b (b + n)"

definition tree_record :: "mmdb \<Rightarrow> u64 \<Rightarrow> u64 \<Rightarrow> mmdb_error + u64" where
  "tree_record db node side =
     (let t = db_tree db
      in if record_size db = 24 then
           (let b = node * 6 + side * 3
            in if b + 3 > ulen t then Inr (node_count db)
               else (case read_at t b 3 of Inl e \<Rightarrow> Inl e | Inr x \<Rightarrow> Inr (be_word x)))
         else if record_size db = 28 then
           (let b = node * 7
            in if b + 7 > ulen t then Inr (node_count db)
               else (case read_at t b 7 of
                       Inl e \<Rightarrow> Inl e
                     | Inr x \<Rightarrow>
                         if side = 0 then Inr (push_bit 20 (ucast (x ! 3 AND 0xf0)) OR be_word (take 3 x))
                         else Inr (push_bit 24 (ucast (x ! 3 AND 0x0f)) OR be_word (drop 4 x))))
         else
           (let b = node * 8 + side * 4
            in if b + 4 > ulen t then Inr (node_count db)
               else (case read_at t b 4 of Inl e \<Rightarrow> Inl e | Inr x \<Rightarrow> Inr (be_word x))))"

text \<open>Down the tree, one bit at a time, as long as the record is a node.\<close>

fun walk_tree :: "mmdb \<Rightarrow> bool list \<Rightarrow> u64 \<Rightarrow> mmdb_error + u64" where
  "walk_tree db [] node = Inr node"
| "walk_tree db (x # xs) node =
     (if node < node_count db then
        (case tree_record db node (if x then 1 else 0) of
           Inl e \<Rightarrow> Inl e
         | Inr node' \<Rightarrow> walk_tree db xs node')
      else Inr node)"

definition bits_of :: "byte list \<Rightarrow> bool list" where
  "bits_of bs = concat (map (\<lambda>b. map (\<lambda>i. bit b (7 - i)) [0 ..< 8]) bs)"

text \<open>The value at the end of a walk, if there is one.\<close>

definition value_at :: "mmdb \<Rightarrow> u64 \<Rightarrow> mmdb_error + mvalue option" where
  "value_at db node =
     (if node = node_count db then Inr None
      else if node < node_count db then Inl EndedInside
      else (case decode (db_data db) max_depth (node - node_count db - 16) of
              Inl e \<Rightarrow> Inl e
            | Inr (v, after) \<Rightarrow> Inr (Some v)))"

definition lookup_from :: "mmdb \<Rightarrow> bool list \<Rightarrow> u64 \<Rightarrow> mmdb_error + mvalue option" where
  "lookup_from db bits start =
     (case walk_tree db bits start of Inl e \<Rightarrow> Inl e | Inr node \<Rightarrow> value_at db node)"

definition lookup :: "mmdb \<Rightarrow> addr \<Rightarrow> mmdb_error + mvalue option" where
  "lookup db addr =
     (case unmap addr of
        V4 a \<Rightarrow> lookup_from db (bits_of (be_bytes 4 a)) (if ip_version db = 6 then ipv4_start db else 0)
      | V6 a z \<Rightarrow> if ip_version db \<noteq> 6 then Inr None else lookup_from db (bits_of (be_bytes 16 a)) 0
      | AddrNone \<Rightarrow> Inr None)"

section \<open>Opening\<close>

definition ascii :: "string \<Rightarrow> byte list" where
  "ascii = map of_char"

definition metadataMarker :: "byte list" where
  "metadataMarker = [0xab, 0xcd, 0xef] @ ascii ''MaxMind.com''"

fun as_uint :: "mvalue option \<Rightarrow> u64" where
  "as_uint (Some (MUint u)) = u"
| "as_uint v = 0"

fun as_string :: "mvalue option \<Rightarrow> byte list" where
  "as_string (Some (MStr s)) = s"
| "as_string v = []"

text \<open>The metadata section: where its marker is, and what it says.\<close>

definition find_metadata :: "byte list \<Rightarrow> mmdb_error + (nat \<times> (byte list \<times> mvalue) list)" where
  "find_metadata b =
     (let from' = length b - 128 * 1024
      in case last_index metadataMarker (drop from' b) of
           None \<Rightarrow> Inl NoMarker
         | Some i \<Rightarrow>
             (case decode (drop (from' + i + length metadataMarker) b) max_depth 0 of
                Inl e \<Rightarrow> Inl e
              | Inr (v, after) \<Rightarrow> (case v of MMap m \<Rightarrow> Inr (from' + i, m) | _ \<Rightarrow> Inl MetadataNotMap)))"

definition tree_size :: "mmdb \<Rightarrow> u64" where
  "tree_size db = record_size db * 2 div 8 * node_count db"

definition db_of :: "(byte list \<times> mvalue) list \<Rightarrow> mmdb" where
  "db_of m = \<lparr>db_tree = [], db_data = [], node_count = as_uint (map_of m (ascii ''node_count'')),
     record_size = as_uint (map_of m (ascii ''record_size'')), ipv4_start = 0,
     ip_version = as_uint (map_of m (ascii ''ip_version'')), db_type = as_string (map_of m (ascii ''database_type'')),
     db_built = as_uint (map_of m (ascii ''build_epoch''))\<rparr>"

definition cut_sections :: "byte list \<Rightarrow> nat \<Rightarrow> mmdb \<Rightarrow> mmdb_error + mmdb" where
  "cut_sections b mark db =
     (case slice b 0 (tree_size db) of
        Inl e \<Rightarrow> Inl e
      | Inr tree \<Rightarrow>
          (case slice b (tree_size db + 16) (of_nat mark) of
             Inl e \<Rightarrow> Inl e
           | Inr data \<Rightarrow> Inr (db\<lparr>db_tree := tree, db_data := data\<rparr>)))"

definition parse_db :: "byte list \<Rightarrow> mmdb_error + mmdb" where
  "parse_db b =
     (case find_metadata b of
        Inl e \<Rightarrow> Inl e
      | Inr (mark, m) \<Rightarrow>
          (let db = db_of m
           in if record_size db \<notin> {24, 28, 32} then Inl (BadRecordSize (record_size db))
              else if tree_size db + 16 > of_nat mark then Inl TreeTooLong
              else (case cut_sections b mark db of
                      Inl e \<Rightarrow> Inl e
                    | Inr db \<Rightarrow>
                        if ip_version db = 6 then
                          (case walk_tree db (replicate 96 False) 0 of
                             Inl e \<Rightarrow> Inl e
                           | Inr node \<Rightarrow> Inr (db\<lparr>ipv4_start := node\<rparr>))
                        else Inr db)))"

section \<open>Every access is inside its slice\<close>

text \<open>Go's lengths are signed: a slice is shorter than \<open>2 ^ 63\<close>.\<close>

definition small :: "byte list \<Rightarrow> bool" where
  "small b = (length b < 2 ^ 63)"

lemma unat_ulen: "small b \<Longrightarrow> unat (ulen b) = length b"
  by (simp add: small_def ulen_def unat_of_nat)

lemma unat_plus64: "unat x + unat y < 2 ^ 64 \<Longrightarrow> unat (x + y) = unat x + unat (y :: u64)"
  using unat_add_lem [of x y] by simp

lemma slice_within:
  assumes "small b" and "unat off \<le> length b" and "unat n < 2 ^ 63" and "\<not> off + n > ulen b"
  shows "\<exists>x. slice b off (off + n) = Inr x \<and> length x = unat n \<and> unat (off + n) = unat off + unat n \<and>
    unat (off + n) \<le> length b"
proof -
  have s: "unat (off + n) = unat off + unat n"
    using assms by (intro unat_plus64) (simp add: small_def)
  moreover have "unat (off + n) \<le> length b"
    using assms(1,4) by (simp add: unat_ulen word_le_nat_alt not_less flip: not_le)
  ultimately show ?thesis
    by (simp add: slice_def word_le_nat_alt)
qed

lemma unat_ucast_byte: "unat (ucast (x :: byte) :: u64) = unat x"
  by (simp add: unsigned_ucast_eq take_bit_nat_eq_self unsigned_less [THEN less_trans])

lemma unat_octet: "unat (x :: byte) < 256"
  using unsigned_less [of x] by simp

lemma bit_be_fold: "bit (foldl be_step acc bs) i \<Longrightarrow> i < 8 * length bs \<or> bit acc (i - 8 * length bs)"
proof (induction bs arbitrary: acc)
  case (Cons b bs)
  then have "i < 8 * length bs \<or> bit (be_step acc b) (i - 8 * length bs)" by simp
  moreover have "bit (be_step acc b) j \<Longrightarrow> j < 8 \<or> bit acc (j - 8)" for j
    by (auto simp: be_step_def bit_simps dest: bit_imp_le_length)
  ultimately show ?case by (cases "i < 8 * length bs") (fastforce simp: algebra_simps)+
qed simp

lemma be_word_bound:
  assumes "length bs \<le> 3"
  shows "unat (be_word bs :: u64) < 2 ^ 24"
proof -
  have "take_bit 24 (be_word bs :: u64) = be_word bs"
    using assms bit_be_fold [of "0 :: u64" bs]
    by (intro bit_word_eqI) (fastforce simp: be_word_def bit_simps)
  then have "unat (be_word bs :: u64) = take_bit 24 (unat (be_word bs :: u64))"
    by (metis unsigned_take_bit_eq)
  then show ?thesis by (metis take_bit_nat_less_exp)
qed

lemma pointer_ok:
  assumes "small buf" and "unat off \<le> length buf"
  shows "pointer buf ctrl off \<noteq> Inl Panic \<and>
    (\<forall>p next. pointer buf ctrl off = Inr (p, next) \<longrightarrow> unat off \<le> unat next \<and> unat next \<le> length buf)"
proof -
  let ?n = "ucast (drop_bit 3 ctrl AND 3) + 1 :: u64"
  have n: "unat ?n < 2 ^ 63"
    using unat_plus64 [of "ucast (drop_bit 3 ctrl AND 3)" 1] unat_octet [of "drop_bit 3 ctrl AND 3"]
    by (simp add: unat_ucast_byte)
  show ?thesis
  proof (cases "off + ?n > ulen buf")
    case True
    then show ?thesis by (simp add: pointer_def Let_def)
  next
    case False
    then obtain x where "slice buf off (off + ?n) = Inr x" "unat (off + ?n) = unat off + unat ?n"
      "unat (off + ?n) \<le> length buf"
      using slice_within [OF assms n] by blast
    then show ?thesis using False by (simp add: pointer_def Let_def)
  qed
qed

lemma size_field_ok:
  assumes "small buf" and "unat off \<le> length buf"
  shows "size_field buf ctrl off \<noteq> Inl Panic \<and>
    (\<forall>sz next. size_field buf ctrl off = Inr (sz, next) \<longrightarrow>
       unat sz < 2 ^ 32 \<and> unat off \<le> unat next \<and> unat next \<le> length buf)"
proof -
  let ?c = "ucast (ctrl AND 0x1f) :: u64"
  have c: "unat ?c \<le> 31"
  proof -
    have "unat (ctrl AND 0x1f) \<le> unat (0x1f :: byte)"
      by (simp only: word_and_le1 flip: word_le_nat_alt)
    then show ?thesis by (simp add: unat_ucast_byte)
  qed
  show ?thesis
  proof (cases "?c \<ge> 29")
    case False
    then show ?thesis using c assms(2) by (auto simp: size_field_def Let_def)
  next
    case True
    then have n: "unat (?c - 28) = unat ?c - 28"
      using unat_sub [of "28 :: u64" ?c] by (simp add: word_le_nat_alt)
    show ?thesis
    proof (cases "off + (?c - 28) > ulen buf")
      case True
      then show ?thesis using \<open>?c \<ge> 29\<close> by (simp add: size_field_def Let_def)
    next
      case False
      have "unat (?c - 28) < 2 ^ 63" using n c by simp
      then obtain x where x: "slice buf off (off + (?c - 28)) = Inr x" "length x = unat (?c - 28)"
        "unat (off + (?c - 28)) = unat off + unat (?c - 28)" "unat (off + (?c - 28)) \<le> length buf"
        using slice_within [OF assms _ False] by blast
      have w: "unat (be_word x :: u64) < 2 ^ 24" using x(2) n c by (intro be_word_bound) simp
      have k: "unat (k + be_word x) < 2 ^ 32" if "unat k < 2 ^ 20" for k :: u64
        using unat_plus64 [of k "be_word x"] that w by simp
      show ?thesis
        using False \<open>?c \<ge> 29\<close> x k [of 29] k [of 285] k [of 65821]
        by (auto simp: size_field_def Let_def)
    qed
  qed
qed

definition within :: "byte list \<Rightarrow> u64 \<Rightarrow> u64 \<Rightarrow> bool" where
  "within buf off next = (unat off < unat next \<and> unat next \<le> length buf)"

lemma control_ok:
  assumes "small buf"
  shows "(case control buf off of
      Inl e \<Rightarrow> e \<noteq> Panic
    | Inr (Pointer p next) \<Rightarrow> within buf off next
    | Inr (Value typ sz next) \<Rightarrow> within buf off next \<and> unat sz < 2 ^ 32)"
proof (cases "off \<ge> ulen buf")
  case True
  then show ?thesis by (simp add: control_def)
next
  case False
  then have o: "unat off < length buf"
    using assms by (simp add: unat_ulen word_le_nat_alt)
  have s: "unat (x + 1) = Suc (unat x)" if "unat x < length buf" for x :: u64
    using unat_plus64 [of x 1] that assms by (simp add: small_def)
  have o1: "unat (off + 1) = Suc (unat off)" using s o by simp
  note p = pointer_ok [OF assms, of "off + 1"] and z = size_field_ok [OF assms]
  have o2: "unat (off + 2) = unat off + 2" "unat (off + 1) < length buf" if "\<not> off + 1 \<ge> ulen buf"
  proof -
    show "unat (off + 1) < length buf" using that assms by (simp add: unat_ulen word_le_nat_alt)
    then show "unat (off + 2) = unat off + 2" using s [of "off + 1"] o1 by (simp add: add.assoc)
  qed
  show ?thesis
    using False o o1 o2 p [of "buf ! unat off"] z [of "off + 1" "buf ! unat off"] z [of "off + 2" "buf ! unat off"]
    by (auto simp: control_def at_index_def Let_def within_def add.assoc split: sum.splits prod.splits control.splits if_splits)
qed

lemma scalar_ok:
  assumes "small buf" and "unat off \<le> length buf" and "unat sz < 2 ^ 32"
  shows "scalar buf typ sz off \<noteq> Inl Panic \<and>
    (\<forall>v next. scalar buf typ sz off = Inr (v, next) \<longrightarrow> unat off \<le> unat next \<and> unat next \<le> length buf)"
proof (cases "off + sz > ulen buf")
  case True
  then show ?thesis by (simp add: scalar_def)
next
  case False
  have "unat sz < 2 ^ 63" using assms(3) by simp
  then obtain x where "slice buf off (off + sz) = Inr x" "unat (off + sz) = unat off + unat sz"
    "unat (off + sz) \<le> length buf"
    using slice_within [OF assms(1,2) _ False] by blast
  then show ?thesis using False by (auto simp: scalar_def Let_def)
qed

text \<open>Every value ends inside the data, after where it began, and no access misses.\<close>

lemma decode_ok:
  "small buf \<Longrightarrow> decode buf d off \<noteq> Inl Panic \<and>
     (\<forall>v next. decode buf d off = Inr (v, next) \<longrightarrow> within buf off next)"
  "small buf \<Longrightarrow> unat off \<le> length buf \<Longrightarrow> decode_map buf d n off m \<noteq> Inl Panic \<and>
     (\<forall>v next. decode_map buf d n off m = Inr (v, next) \<longrightarrow> unat off \<le> unat next \<and> unat next \<le> length buf)"
  "small buf \<Longrightarrow> unat off \<le> length buf \<Longrightarrow> decode_array buf d n off a \<noteq> Inl Panic \<and>
     (\<forall>v next. decode_array buf d n off a = Inr (v, next) \<longrightarrow> unat off \<le> unat next \<and> unat next \<le> length buf)"
proof (induction buf d off and buf d n off m and buf d n off a rule: decode_decode_map_decode_array.induct)
  case (1 buf off)
  then show ?case by simp
next
  case (2 buf depth off)
  note c = control_ok [OF "2.prems", of off]
  show ?case
  proof (cases "control buf off")
    case (Inl e)
    then show ?thesis using c by simp
  next
    case (Inr k)
    show ?thesis
    proof (cases k)
      case (Pointer p nxt)
      then show ?thesis
        using Inr c "2.IH"(1) [OF Inr Pointer "2.prems"] by (auto split: sum.splits prod.splits)
    next
      case (Value ty sz nxt)
      have w: "within buf off nxt" "unat sz < 2 ^ 32" "unat nxt \<le> length buf"
        using c Inr Value by (auto simp: within_def)
      show ?thesis
        using Inr Value w "2.IH"(2) [OF Inr Value _ "2.prems" w(3)] "2.IH"(3) [OF Inr Value _ _ "2.prems" w(3)]
          scalar_ok [OF "2.prems" w(3,2), of ty]
        by (auto simp: within_def)
    qed
  qed
next
  case (3 buf depth off m)
  then show ?case by simp
next
  case (4 buf depth n off m)
  show ?case
  proof (cases "decode buf depth off")
    case (Inl e)
    then show ?thesis using "4.IH"(1) "4.prems" by simp
  next
    case (Inr p)
    obtain k nxt where p: "p = (k, nxt)" by (cases p)
    note w = "4.IH"(1) [OF "4.prems"(1)]
    show ?thesis
    proof (cases k)
      case (MStr key)
      note w2 = "4.IH"(2) [OF Inr p [symmetric] MStr "4.prems"(1)]
      show ?thesis
      proof (cases "decode buf depth nxt")
        case (Inl e)
        then show ?thesis using Inr p MStr w2 by simp
      next
        case i2: (Inr q)
        obtain v after where q: "q = (v, after)" by (cases q)
        have "unat after \<le> length buf" using w2 i2 q by (auto simp: within_def)
        then show ?thesis
          using "4.IH"(3) [OF Inr p [symmetric] MStr i2 q [symmetric] "4.prems"(1)] Inr p MStr i2 q w w2
          by (fastforce simp: within_def)
      qed
    qed (use Inr p in simp_all)
  qed
next
  case (5 buf depth off a)
  then show ?case by simp
next
  case (6 buf depth n off a)
  show ?case
  proof (cases "decode buf depth off")
    case (Inl e)
    then show ?thesis using "6.IH"(1) "6.prems" by simp
  next
    case (Inr p)
    obtain v nxt where p: "p = (v, nxt)" by (cases p)
    have w: "within buf off nxt" using "6.IH"(1) [OF "6.prems"(1)] Inr p by blast
    then show ?thesis
      using "6.IH"(2) [OF Inr p [symmetric] "6.prems"(1)] Inr p by (fastforce simp: within_def)
  qed
qed

text \<open>The records of the tree are read inside it, and are 32-bit numbers or the node count.\<close>

definition node_ok :: "mmdb \<Rightarrow> u64 \<Rightarrow> bool" where
  "node_ok db n = (n = node_count db \<or> unat n < 2 ^ 32)"

definition tree_ok :: "mmdb \<Rightarrow> bool" where
  "tree_ok db = (small (db_tree db) \<and> small (db_data db))"

lemma low_bits:
  assumes "\<And>i. bit w i \<Longrightarrow> i < 32"
  shows "unat (w :: u64) < 2 ^ 32"
proof -
  have "take_bit 32 w = w"
    using assms by (intro bit_word_eqI) (auto simp: bit_simps)
  then have "unat w = take_bit 32 (unat w)" by (metis unsigned_take_bit_eq)
  then show ?thesis by (metis take_bit_nat_less_exp)
qed

lemma bit_be_word: "length bs \<le> k \<Longrightarrow> bit (be_word bs :: u64) i \<Longrightarrow> i < 8 * k"
  using bit_be_fold [of "0 :: u64" bs i] by (auto simp: be_word_def)

lemma read_ok:
  assumes "small t" and "unat b < 2 ^ 40" and "unat n < 8" and "\<not> b + n > ulen t"
  shows "\<exists>x. read_at t b n = Inr x \<and> length x = unat n"
proof -
  have "unat (b + n) = unat b + unat n" using assms(2,3) by (intro unat_plus64) simp
  moreover have "unat (b + n) \<le> length t"
    using assms(1,4) by (simp add: unat_ulen word_le_nat_alt not_less flip: not_le)
  ultimately have "unat b \<le> length t" by simp
  moreover have "unat n < 2 ^ 63" using assms(3) by simp
  ultimately show ?thesis
    using slice_within [OF assms(1) _ _ assms(4)] by (auto simp: read_at_def)
qed

lemma unat_mult64: "unat x * unat y < 2 ^ 64 \<Longrightarrow> unat (x * y) = unat x * unat (y :: u64)"
  using unat_mult_lem [of x y] by simp

lemma nibble_record:
  assumes "length x \<le> 3"
  shows "unat (push_bit 20 (ucast (y AND 0xf0 :: byte)) OR be_word x :: u64) < 2 ^ 32"
    "unat (push_bit 24 (ucast (z AND 0x0f :: byte)) OR be_word x :: u64) < 2 ^ 32"
proof -
  have x: "i < 24" if "bit (be_word x :: u64) i" for i using bit_be_word [OF assms that] by simp
  show "unat (push_bit 20 (ucast (y AND 0xf0 :: byte)) OR be_word x :: u64) < 2 ^ 32"
  proof (rule low_bits)
    fix i assume "bit (push_bit 20 (ucast (y AND 0xf0 :: byte)) OR be_word x :: u64) i"
    then have "20 \<le> i \<and> bit y (i - 20) \<or> bit (be_word x :: u64) i" by (auto simp: bit_simps)
    then show "i < 32" using x [of i] bit_imp_le_length [of y "i - 20"] by auto
  qed
  show "unat (push_bit 24 (ucast (z AND 0x0f :: byte)) OR be_word x :: u64) < 2 ^ 32"
  proof (rule low_bits)
    fix i assume "bit (push_bit 24 (ucast (z AND 0x0f :: byte)) OR be_word x :: u64) i"
    then have "24 \<le> i \<and> bit z (i - 24) \<or> bit (be_word x :: u64) i" by (auto simp: bit_simps)
    then show "i < 32" using x [of i] bit_imp_le_length [of z "i - 24"] by auto
  qed
qed

lemma tree_record_ok:
  assumes "tree_ok db" and "unat node < 2 ^ 32" and "unat side < 2"
  shows "tree_record db node side \<noteq> Inl Panic \<and> (\<forall>n. tree_record db node side = Inr n \<longrightarrow> node_ok db n)"
proof -
  have t: "small (db_tree db)" using assms(1) by (simp add: tree_ok_def)
  have at: "unat (node * k + side * j) < 2 ^ 40" if "unat k < 16" "unat j < 16" for k j :: u64
  proof -
    have "unat node * unat k \<le> 2 ^ 32 * 16" "unat side * unat j \<le> 2 * 16"
      using assms(2,3) that by (intro mult_le_mono; simp)+
    then show ?thesis
      using unat_mult64 [of node k] unat_mult64 [of side j] unat_plus64 [of "node * k" "side * j"] by simp
  qed
  have r3: "\<exists>x. read_at (db_tree db) (node * 6 + side * 3) 3 = Inr x \<and> length x = 3"
    if "\<not> node * 6 + side * 3 + 3 > ulen (db_tree db)"
    using read_ok [OF t at [of 6 3] _ that] by simp
  have r7: "\<exists>x. read_at (db_tree db) (node * 7) 7 = Inr x \<and> length x = 7"
    if "\<not> node * 7 + 7 > ulen (db_tree db)"
    using read_ok [OF t _ _ that] at [of 7 0] by simp
  have r4: "\<exists>x. read_at (db_tree db) (node * 8 + side * 4) 4 = Inr x \<and> length x = 4"
    if "\<not> node * 8 + side * 4 + 4 > ulen (db_tree db)"
    using read_ok [OF t at [of 8 4] _ that] by simp
  have b4: "unat (be_word x :: u64) < 2 ^ 32" if "length x \<le> 4" for x
    by (rule low_bits) (use bit_be_word [OF that] in simp)
  consider (r24) "record_size db = 24" | (r28) "record_size db = 28" | (r32) "record_size db \<noteq> 24" "record_size db \<noteq> 28"
    by blast
  then show ?thesis
  proof cases
    case r24
    then show ?thesis
      using r3 b4 by (cases "node * 6 + side * 3 + 3 > ulen (db_tree db)") (fastforce simp: tree_record_def node_ok_def)+
  next
    case r28
    then show ?thesis
      using r7 nibble_record
      by (cases "node * 7 + 7 > ulen (db_tree db)"; cases "side = 0") (fastforce simp: tree_record_def node_ok_def)+
  next
    case r32
    then show ?thesis
      using r4 b4 by (cases "node * 8 + side * 4 + 4 > ulen (db_tree db)") (fastforce simp: tree_record_def node_ok_def)+
  qed
qed

lemma walk_ok:
  assumes "tree_ok db" and "node_ok db node"
  shows "walk_tree db bits node \<noteq> Inl Panic \<and> (\<forall>n. walk_tree db bits node = Inr n \<longrightarrow> node_ok db n)"
  using assms
proof (induction db bits node rule: walk_tree.induct)
  case (1 db node)
  then show ?case by simp
next
  case (2 db x xs node)
  show ?case
  proof (cases "node < node_count db")
    case True
    then have "unat node < 2 ^ 32" using "2.prems" by (auto simp: node_ok_def)
    then have r: "tree_record db node (if x then 1 else 0) \<noteq> Inl Panic"
      "\<And>n. tree_record db node (if x then 1 else 0) = Inr n \<Longrightarrow> node_ok db n"
      using tree_record_ok [of db node "if x then 1 else 0"] "2.prems"(1) by auto
    show ?thesis
      using "2.IH" [OF True _ "2.prems"(1)] True r by (cases "tree_record db node (if x then 1 else 0)") auto
  next
    case False
    then show ?thesis using "2.prems" by simp
  qed
qed

lemma value_at_ok: "tree_ok db \<Longrightarrow> value_at db node \<noteq> Inl Panic"
  using decode_ok(1) [of "db_data db" max_depth "node - node_count db - 16"]
  by (auto simp: value_at_def tree_ok_def split: sum.splits)

lemma lookup_from_ok:
  assumes "tree_ok db" and "node_ok db start"
  shows "lookup_from db bits start \<noteq> Inl Panic"
  using walk_ok [OF assms, of bits] value_at_ok [OF assms(1)] by (auto simp: lookup_from_def split: sum.splits)

section \<open>Opening\<close>

lemma slice_small: "small b \<Longrightarrow> slice b lo hi = Inr x \<Longrightarrow> small x"
  by (auto simp: slice_def small_def split: if_splits)

lemma node_ok_0: "node_ok db 0"
  by (simp add: node_ok_def)

lemma parse_db_ok:
  assumes "parse_db b = Inr db" and "small b"
  shows "tree_ok db" "node_ok db (ipv4_start db)"
    "ip_version db = 6 \<Longrightarrow> walk_tree db (replicate 96 False) 0 = Inr (ipv4_start db)"
proof -
  obtain mark m where m: "find_metadata b = Inr (mark, m)"
    using assms(1) by (auto simp: parse_db_def split: sum.splits)
  obtain db1 where c: "cut_sections b mark (db_of m) = Inr db1"
    using assms(1) m by (auto simp: parse_db_def Let_def split: sum.splits if_splits)
  have t1: "tree_ok db1" and s1: "ipv4_start db1 = 0"
    using c slice_small [OF assms(2)] by (auto simp: cut_sections_def tree_ok_def db_of_def split: sum.splits)
  have e: "db = db1 \<and> ip_version db1 \<noteq> 6 \<or>
      (\<exists>node. ip_version db1 = 6 \<and> walk_tree db1 (replicate 96 False) 0 = Inr node \<and> db = db1\<lparr>ipv4_start := node\<rparr>)"
    using assms(1) m c by (auto simp: parse_db_def Let_def split: sum.splits if_splits)
  have w: "walk_tree (db1\<lparr>ipv4_start := k\<rparr>) bits n = walk_tree db1 bits n" for bits k n
  proof -
    have "tree_record (db1\<lparr>ipv4_start := k\<rparr>) n s = tree_record db1 n s" for n s
      by (simp add: tree_record_def Let_def cong: if_cong)
    then show ?thesis by (induction bits arbitrary: n) (simp_all split: sum.split)
  qed
  show "tree_ok db" using e t1 by (auto simp: tree_ok_def)
  show "node_ok db (ipv4_start db)"
    using e s1 walk_ok [OF t1 node_ok_0, of "replicate 96 False"] by (auto simp: node_ok_def)
  show "walk_tree db (replicate 96 False) 0 = Inr (ipv4_start db)" if "ip_version db = 6"
    using e that w by auto
qed

text \<open>
  C37. A database that opened can be asked about any address: no lookup ever accesses a byte
  outside the tree or the data, whatever the file holds, and every value it decodes lies inside
  the data.
\<close>

theorem lookup_in_bounds:
  assumes "parse_db b = Inr db" and "length b < 2 ^ 63"
  shows "lookup db a \<noteq> Inl Panic"
  using lookup_from_ok parse_db_ok [OF assms(1)] assms(2) node_ok_0
  by (cases "unmap a") (auto simp: lookup_def small_def)

lemma walk_append: "walk_tree db (xs @ ys) node =
    (case walk_tree db xs node of Inl e \<Rightarrow> Inl e | Inr n \<Rightarrow> walk_tree db ys n)"
proof (induction db xs node rule: walk_tree.induct)
  case (2 db x xs node)
  have "walk_tree db ys n = Inr n" if "\<not> n < node_count db" for n
    using that by (cases ys) simp_all
  then show ?case using 2 by (auto split: sum.splits)
qed simp

lemma bits_of_mapped: "bits_of (be_bytes 16 (ucast (x :: u32) :: 128 word)) = replicate 96 False @ bits_of (be_bytes 4 x)"
proof -
  have "ucast (drop_bit k (ucast x :: 128 word)) = (ucast (drop_bit k x) :: byte)" for k
    by (rule bit_word_eqI) (use bit_imp_le_length [of x] in \<open>force simp: bit_simps\<close>)
  then have low: "be_bytes n (ucast x :: 128 word) = be_bytes n x" for n
    by (induction n) simp_all
  have z: "be_bytes (m + 4) (ucast x :: 128 word) = replicate m 0 @ be_bytes 4 x" for m
  proof (induction m)
    case (Suc m)
    have "ucast (drop_bit (8 * (m + 4)) (ucast x :: 128 word)) = (0 :: byte)"
      by (intro bit_word_eqI) (auto simp: bit_simps dest: bit_imp_le_length)
    then show ?case using Suc by (simp only: add_Suc be_bytes.simps replicate.simps append_Cons)
  qed (simp add: low)
  have "bits_of (replicate 12 0 @ bs) = replicate 96 False @ bits_of bs" for bs
    by (simp add: bits_of_def numeral_eq_Suc)
  then show ?thesis using z [of 12] by simp
qed

text \<open>
  C38. The shortcut of IPv4 lookups is right: in a database of IPv6 addresses, looking up an
  IPv4 address from the node found when the file was opened is looking up the same address
  under \<open>::/96\<close> from the root.
\<close>

theorem ipv4_shortcut:
  assumes "parse_db b = Inr db" and "length b < 2 ^ 63" and "ip_version db = 6"
  shows "lookup db (V4 x) = lookup db (V6 (ucast x) z)"
proof -
  have n: "drop_bit 32 (ucast x :: 128 word) \<noteq> 0xffff"
  proof -
    have "drop_bit 32 (ucast x :: 128 word) = 0"
      by (rule bit_word_eqI) (auto simp: bit_simps dest: bit_imp_le_length)
    then show ?thesis by simp
  qed
  have w: "walk_tree db (replicate 96 False) 0 = Inr (ipv4_start db)"
    using parse_db_ok(3) [OF assms(1)] assms(2,3) by (simp add: small_def)
  show ?thesis
    using n assms(3) w by (simp add: lookup_def lookup_from_def bits_of_mapped walk_append)
qed

section \<open>A database\<close>

text \<open>One node: left is itself, right is the record of the data, a Boolean.\<close>

definition meta_entry :: "string \<Rightarrow> byte \<Rightarrow> byte list" where
  "meta_entry k v = (0x40 + of_nat (length k)) # ascii k @ [0xa1, v]"

definition tiny_meta :: "byte list" where
  "tiny_meta = [0xe3] @ meta_entry ''node_count'' 1 @ meta_entry ''record_size'' 24 @ meta_entry ''ip_version'' 6"

definition tiny_map :: "(byte list \<times> mvalue) list" where
  "tiny_map = [(ascii ''node_count'', MUint 1), (ascii ''record_size'', MUint 24), (ascii ''ip_version'', MUint 6)]"

definition tiny_file :: "byte list" where
  "tiny_file = [0, 0, 0, 0, 0, 17] @ replicate 16 0 @ [1, 7] @ metadataMarker @ tiny_meta"

definition tiny_db :: mmdb where
  "tiny_db = \<lparr>db_tree = [0, 0, 0, 0, 0, 17], db_data = [1, 7], node_count = 1, record_size = 24, ipv4_start = 0,
     ip_version = 6, db_type = [], db_built = 0\<rparr>"

lemma tiny_length: "length tiny_file = 79"
  by code_simp

lemma tiny_metadata: "find_metadata tiny_file = Inr (24, tiny_map)"
proof -
  have "last_index metadataMarker tiny_file = Some 24" by code_simp
  moreover have "drop (24 + length metadataMarker) tiny_file = tiny_meta" by code_simp
  moreover have "decode tiny_meta max_depth 0 = Inr (MMap tiny_map, 41)" by code_simp
  ultimately show ?thesis by (simp add: find_metadata_def tiny_length)
qed

lemma tiny_parses: "parse_db tiny_file = Inr tiny_db"
proof -
  have "db_of tiny_map = tiny_db\<lparr>db_tree := [], db_data := []\<rparr>" by code_simp
  moreover have "cut_sections tiny_file 24 (tiny_db\<lparr>db_tree := [], db_data := []\<rparr>) = Inr tiny_db" by code_simp
  moreover have "walk_tree tiny_db (replicate 96 False) 0 = Inr 0" by code_simp
  moreover have "tree_size tiny_db + 16 = 22" by code_simp
  ultimately show ?thesis
    by (simp add: parse_db_def tiny_metadata tree_size_def tiny_db_def)
qed

lemma tiny_lookup: "lookup tiny_db (V4 0x80000000) = Inr (Some (MBool True))"
  by code_simp

theorem lookup_in_bounds_witness: "lookup tiny_db (V4 0x80000000) \<noteq> Inl Panic"
  by (rule lookup_in_bounds [of tiny_file]) (simp_all add: tiny_parses tiny_length)

theorem ipv4_shortcut_witness:
  "lookup tiny_db (V6 0x80000000 []) = Inr (Some (MBool True))"
proof -
  have "lookup tiny_db (V4 0x80000000) = lookup tiny_db (V6 (ucast (0x80000000 :: u32)) [])"
    by (rule ipv4_shortcut [of tiny_file]) (simp_all add: tiny_parses tiny_length, simp add: tiny_db_def)
  then show ?thesis by (simp add: tiny_lookup)
qed

section \<open>Opening a file that lies about its size\<close>

text \<open>
  The size of the tree is computed modulo \<open>2 ^ 64\<close>, and so is the check that it fits: a node
  count close to \<open>2 ^ 61\<close> passes it, and the slice that follows panics. A node count of up to
  \<open>2 ^ 59\<close> cannot.
\<close>

lemma huge_node_count_panics:
  assumes "find_metadata b = Inr (mark, m)" and "8 \<le> mark" and "mark \<le> length b" and "length b < 2 ^ 63"
    and "record_size (db_of m) = 32" and "node_count (db_of m) = 2 ^ 61 - 1"
  shows "parse_db b = Inl Panic"
proof -
  have t: "tree_size (db_of m) = 0xfffffffffffffff8" using assms(5,6) by (simp add: tree_size_def)
  have "unat (of_nat mark :: u64) = mark" 
    using assms(3,4) by (simp add: unsigned_of_nat take_bit_nat_eq_self)
  then have "\<not> tree_size (db_of m) + 16 > of_nat mark" using assms(2) t by (simp add: word_less_nat_alt)
  moreover have "cut_sections b mark (db_of m) = Inl Panic"
    using assms(4) t by (simp add: cut_sections_def slice_def)
  ultimately show ?thesis using assms(1,5) by (simp add: parse_db_def)
qed

end
