(* ===== verification/Sessions.thy ===== *)
theory Sessions
  imports Interfaces "HOL-Library.AList"
begin

text \<open>
  \<open>internal/system/sessions.go\<close>: browser sessions and the limit on password attempts. The digest
  of a token (\<open>sha256.Sum256\<close>) is the parameter \<open>digest\<close>; nothing is assumed of it. A map is an
  association list, times are nanoseconds, and what is on disk (the file or the table of the
  database) is the list \<open>stored\<close>; a save is one of three outcomes of the environment. A request
  is its cookie and where it came from, and a nil \<open>Sessions\<close> is not modelled.
\<close>

section \<open>State\<close>

type_synonym token_hash = "byte list"

record session =
  credential :: string
  s_expires :: int

record login_attempt =
  la_count :: int
  la_until :: int

record sessions =
  active :: "(token_hash \<times> session) list"
  attempts :: "(string \<times> login_attempt) list"
  work :: nat
  has_store :: bool
  stored :: "(token_hash \<times> session) list"

record password =
  pw_hash :: string

definition sessionLifetime :: int where
  "sessionLifetime = 90 * 24 * 3600 * 1000000000"

definition minute_ns :: int where
  "minute_ns = 60 * 1000000000"

definition new_sessions :: sessions where
  "new_sessions = \<lparr>active = [], attempts = [], work = 0, has_store = False, stored = []\<rparr>"

definition unexpired :: "int \<Rightarrow> (token_hash \<times> session) list \<Rightarrow> (token_hash \<times> session) list" where
  "unexpired now = filter (\<lambda>(k, e). s_expires e > now)"

section \<open>Keeping them\<close>

text \<open>\<open>WriteFileAtomic\<close> can report an error after the new file is in place.\<close>

datatype save_result = Saved | Not_saved | Saved_but_failed

definition save :: "int \<Rightarrow> save_result \<Rightarrow> sessions \<Rightarrow> bool \<times> sessions" where
  "save now r s =
     (if \<not> has_store s then (True, s)
      else case r of
        Saved \<Rightarrow> (True, s\<lparr>stored := unexpired now (active s)\<rparr>)
      | Not_saved \<Rightarrow> (False, s)
      | Saved_but_failed \<Rightarrow> (False, s\<lparr>stored := unexpired now (active s)\<rparr>))"

text \<open>A start: what was stored and has not expired; the rows of a database or of a file.\<close>

definition open_sessions :: "int \<Rightarrow> (token_hash \<times> session) list \<Rightarrow> sessions" where
  "open_sessions now rows =
     new_sessions\<lparr>has_store := True, stored := rows,
       active := fold (\<lambda>(k, e) m. AList.update k e m) (unexpired now rows) []\<rparr>"

text \<open>The rows taken from the file of an older version; \<open>None\<close> when there are too many.\<close>

definition import_rows :: "int \<Rightarrow> (token_hash \<times> session) list \<Rightarrow> (token_hash \<times> session) list option" where
  "import_rows now entries =
     (let rows = unexpired now entries in if length rows > 256 then None else Some rows)"

section \<open>Password attempts\<close>

text \<open>\<open>host\<close> is the address of \<open>net.SplitHostPort\<close>, or \<open>None\<close> when it refused \<open>remote\<close>.\<close>

definition begin_attempt :: "int \<Rightarrow> string option \<Rightarrow> string \<Rightarrow> sessions \<Rightarrow> bool \<times> sessions" where
  "begin_attempt now host remote s =
     (let s = s\<lparr>attempts := filter (\<lambda>(ip, e). la_until e > now) (attempts s)\<rparr>;
          ip = (case host of None \<Rightarrow> remote | Some h \<Rightarrow> h);
          entry = (case map_of (attempts s) ip of None \<Rightarrow> \<lparr>la_count = 0, la_until = 0\<rparr> | Some e \<Rightarrow> e)
      in if la_count entry \<ge> 5 \<or> la_count entry = 0 \<and> length (attempts s) \<ge> 1024 then (False, s)
         else if work s \<ge> 2 then (False, s)
         else (let entry = (if la_count entry = 0 then entry\<lparr>la_until := now + minute_ns\<rparr> else entry);
                   entry = entry\<lparr>la_count := la_count entry + 1\<rparr>
               in (True, s\<lparr>work := work s + 1, attempts := AList.update ip entry (attempts s)\<rparr>)))"

definition end_attempt :: "sessions \<Rightarrow> sessions" where
  "end_attempt s = s\<lparr>work := work s - 1\<rparr>"

section \<open>Sessions\<close>

definition valid_session :: "(string \<Rightarrow> token_hash) \<Rightarrow> int \<Rightarrow> string option \<Rightarrow> password option \<Rightarrow> sessions \<Rightarrow> bool \<times> sessions" where
  "valid_session digest now cookie password s =
     (case password of
        None \<Rightarrow> (False, s)
      | Some pw \<Rightarrow>
          (case cookie of
             None \<Rightarrow> (False, s)
           | Some tok \<Rightarrow>
               if length tok \<noteq> 43 then (False, s)
               else (case map_of (active s) (digest tok) of
                       None \<Rightarrow> (False, s)
                     | Some entry \<Rightarrow>
                         if \<not> s_expires entry > now \<or> credential entry \<noteq> pw_hash pw
                         then (False, s\<lparr>active := AList.delete (digest tok) (active s)\<rparr>)
                         else (True, s))))"

text \<open>\<open>base64.RawURLEncoding\<close>, of which tokens are made.\<close>

definition url_char :: "nat \<Rightarrow> char" where
  "url_char n = ''ABCDEFGHIJKLMNOPQRSTUVWXYZabcdefghijklmnopqrstuvwxyz0123456789-_'' ! n"

fun raw_url_encoding :: "byte list \<Rightarrow> string" where
  "raw_url_encoding [] = []"
| "raw_url_encoding [a] = [url_char (unat a div 4), url_char (unat a mod 4 * 16)]"
| "raw_url_encoding [a, b] =
     [url_char (unat a div 4), url_char (unat a mod 4 * 16 + unat b div 16), url_char (unat b mod 16 * 4)]"
| "raw_url_encoding (a # b # c # bs) =
     url_char (unat a div 4) # url_char (unat a mod 4 * 16 + unat b div 16) #
     url_char (unat b mod 16 * 4 + unat c div 64) # url_char (unat c mod 64) # raw_url_encoding bs"

datatype issue_error = Unavailable | No_randomness | Too_many | Save_failed

text \<open>
  \<open>Issue\<close>: the token for the cookie, or why there is none. \<open>raw\<close> is what the random source gave.
  The three steps under the lock are named: expired sessions go, the caller's own session is
  replaced, and the new one is added.
\<close>

definition drop_cookie :: "(string \<Rightarrow> token_hash) \<Rightarrow> string option \<Rightarrow> sessions \<Rightarrow> sessions" where
  "drop_cookie digest cookie s =
     (case cookie of None \<Rightarrow> s | Some old \<Rightarrow> s\<lparr>active := AList.delete (digest old) (active s)\<rparr>)"

definition issue ::
  "(string \<Rightarrow> token_hash) \<Rightarrow> int \<Rightarrow> byte list option \<Rightarrow> save_result \<Rightarrow> string option \<Rightarrow> password option \<Rightarrow> sessions
     \<Rightarrow> (issue_error + string) \<times> sessions" where
  "issue digest now raw r cookie password s =
     (case password of
        None \<Rightarrow> (Inl Unavailable, s)
      | Some pw \<Rightarrow>
          (case raw of
             None \<Rightarrow> (Inl No_randomness, s)
           | Some bytes \<Rightarrow>
               (let tok = raw_url_encoding bytes;
                    previous = active s;
                    s = s\<lparr>active := unexpired now (active s)\<rparr>
                in if length (active s) \<ge> 256 then (Inl Too_many, s)
                   else (let s = drop_cookie digest cookie s;
                             entry = \<lparr>credential = pw_hash pw, s_expires = now + sessionLifetime\<rparr>;
                             s = s\<lparr>active := AList.update (digest tok) entry (active s)\<rparr>
                         in case save now r s of
                              (True, s) \<Rightarrow> (Inr tok, s)
                            | (False, s) \<Rightarrow> (Inl Save_failed, s\<lparr>active := previous\<rparr>)))))"

definition logout :: "(string \<Rightarrow> token_hash) \<Rightarrow> int \<Rightarrow> save_result \<Rightarrow> string option \<Rightarrow> sessions \<Rightarrow> bool \<times> sessions" where
  "logout digest now r cookie s = save now r (drop_cookie digest cookie s)"

definition revoke_all :: "int \<Rightarrow> save_result \<Rightarrow> sessions \<Rightarrow> bool \<times> sessions" where
  "revoke_all now r s = save now r (s\<lparr>active := []\<rparr>)"

section \<open>What may sign in\<close>

text \<open>
  Every operation the server performs, in any order; a restart reads what was stored. The
  contract is a set of grants: a sign-in adds one and takes the caller's earlier one away, a
  sign-out that reports success takes away the caller's, and a revocation all of them. A sign-in
  whose save failed after the fact has left a grant nobody was given the token of.
\<close>

datatype session_op =
    Begin int "string option" string
  | End
  | Check int "string option" "password option"
  | Sign_in int "byte list option" save_result "string option" "password option"
  | Sign_out int save_result "string option"
  | Revoke int save_result
  | Restart int

definition restart :: "int \<Rightarrow> sessions \<Rightarrow> sessions" where
  "restart now s = (if has_store s then open_sessions now (stored s) else new_sessions)"

type_synonym grants = "(token_hash \<times> session) set"

definition without_cookie :: "(string \<Rightarrow> token_hash) \<Rightarrow> string option \<Rightarrow> grants \<Rightarrow> grants" where
  "without_cookie digest cookie G = {(k, e) \<in> G. \<forall>c. cookie = Some c \<longrightarrow> k \<noteq> digest c}"

definition grant :: "(string \<Rightarrow> token_hash) \<Rightarrow> int \<Rightarrow> string \<Rightarrow> password \<Rightarrow> token_hash \<times> session" where
  "grant digest now tok pw = (digest tok, \<lparr>credential = pw_hash pw, s_expires = now + sessionLifetime\<rparr>)"

fun session_step :: "(string \<Rightarrow> token_hash) \<Rightarrow> session_op \<Rightarrow> sessions \<times> grants \<Rightarrow> sessions \<times> grants" where
  "session_step digest (Begin now host remote) (s, G) = (snd (begin_attempt now host remote s), G)"
| "session_step digest End (s, G) = (end_attempt s, G)"
| "session_step digest (Check now cookie pw) (s, G) = (snd (valid_session digest now cookie pw s), G)"
| "session_step digest (Sign_in now raw r cookie pw) (s, G) =
     (case issue digest now raw r cookie pw s of
        (Inr tok, s') \<Rightarrow> (s', insert (grant digest now tok (the pw)) (without_cookie digest cookie G))
      | (Inl Save_failed, s') \<Rightarrow> (s', insert (grant digest now (raw_url_encoding (the raw)) (the pw)) G)
      | (Inl e, s') \<Rightarrow> (s', G))"
| "session_step digest (Sign_out now r cookie) (s, G) =
     (case logout digest now r cookie s of (ok, s') \<Rightarrow> (s', if ok then without_cookie digest cookie G else G))"
| "session_step digest (Revoke now r) (s, G) =
     (case revoke_all now r s of (ok, s') \<Rightarrow> (s', if ok then {} else G))"
| "session_step digest (Restart now) (s, G) = (restart now s, G)"

definition backed :: "sessions \<Rightarrow> grants \<Rightarrow> bool" where
  "backed s G \<longleftrightarrow> set (active s) \<subseteq> G \<and> set (stored s) \<subseteq> G \<and> (\<not> has_store s \<longrightarrow> stored s = [])"

lemma set_unexpired [simp]: "set (unexpired now xs) = {(k, e) \<in> set xs. s_expires e > now}"
  by (auto simp: unexpired_def)

lemma set_update: "set (AList.update k v xs) \<subseteq> insert (k, v) (set xs)"
  by (induction xs) auto

lemma set_open: "set (fold (\<lambda>(k, e) m. AList.update k e m) xs m) \<subseteq> set xs \<union> set m"
proof (induction xs arbitrary: m)
  case (Cons x xs)
  obtain k e where x: "x = (k, e)" by (cases x)
  show ?case using Cons [of "AList.update k e m"] set_update [of k e m] x by auto
qed simp

lemma set_delete: "set (AList.delete k xs) = {p \<in> set xs. fst p \<noteq> k}"
  by (induction xs) auto

lemma set_drop_cookie:
  "set (active (drop_cookie digest cookie s)) = without_cookie digest cookie (set (active s))"
  by (cases cookie) (auto simp: drop_cookie_def set_delete without_cookie_def)

lemma drop_cookie_fields [simp]:
  "stored (drop_cookie digest cookie s) = stored s" "has_store (drop_cookie digest cookie s) = has_store s"
  by (auto simp: drop_cookie_def split: option.split)

lemma without_cookie_sub: "without_cookie digest cookie G \<subseteq> G"
  by (auto simp: without_cookie_def)

lemma without_cookie_mono: "G \<subseteq> H \<Longrightarrow> without_cookie digest cookie G \<subseteq> without_cookie digest cookie H"
  by (auto simp: without_cookie_def)

lemma save_active: "save now r s = (ok, s') \<Longrightarrow> active s' = active s"
  by (auto simp: save_def split: if_splits save_result.splits)

lemma save_backed:
  assumes "save now r s = (ok, s')" and "set (active s) \<subseteq> G" and "\<not> has_store s \<longrightarrow> stored s = []"
  shows "ok \<Longrightarrow> backed s' G" "set (stored s) \<subseteq> G \<Longrightarrow> backed s' G"
  using assms by (auto simp: save_def backed_def split: if_splits save_result.splits)

lemma issue_backed:
  assumes "backed s G" and "issue digest now raw r cookie pw s = (res, s')"
  shows "backed s' (snd (session_step digest (Sign_in now raw r cookie pw) (s, G)))"
proof (cases "\<exists>p bytes. pw = Some p \<and> raw = Some bytes")
  case False
  then have "s' = s \<and> (res = Inl Unavailable \<or> res = Inl No_randomness)"
    using assms(2) by (auto simp: issue_def split: option.splits)
  then show ?thesis using assms by auto
next
  case True
  then obtain p bytes where pw: "pw = Some p" and raw: "raw = Some bytes" by blast
  define s1 where "s1 = s\<lparr>active := unexpired now (active s)\<rparr>"
  define g where "g = grant digest now (raw_url_encoding bytes) p"
  define s2 where "s2 = drop_cookie digest cookie s1"
  define s3 where "s3 = s2\<lparr>active := AList.update (fst g) (snd g) (active s2)\<rparr>"
  obtain ok s4 where sv: "save now r s3 = (ok, s4)" by fastforce
  have a1: "set (active s1) \<subseteq> G" and b: "set (stored s) \<subseteq> G" "\<not> has_store s \<longrightarrow> stored s = []" "set (active s) \<subseteq> G"
    using assms(1) by (auto simp: backed_def s1_def)
  have a2: "set (active s2) \<subseteq> without_cookie digest cookie G"
    using without_cookie_mono [OF a1] by (simp add: s2_def set_drop_cookie)
  have a3: "set (active s3) \<subseteq> insert g (without_cookie digest cookie G)"
    using a2 set_update [of "fst g" "snd g" "active s2"] by (auto simp: s3_def)
  have f3: "stored s3 = stored s" "has_store s3 = has_store s"
    by (simp_all add: s3_def s2_def s1_def)
  have e: "issue digest now raw r cookie pw s =
      (if length (active s1) \<ge> 256 then (Inl Too_many, s1)
       else if ok then (Inr (raw_url_encoding bytes), s4) else (Inl Save_failed, s4\<lparr>active := active s\<rparr>))"
    using sv by (auto simp: issue_def pw raw s1_def s2_def s3_def g_def grant_def Let_def split: bool.split)
  consider (many) "length (active s1) \<ge> 256" | (ok) "length (active s1) < 256" ok | (bad) "length (active s1) < 256" "\<not> ok"
    by linarith
  then show ?thesis
  proof cases
    case many
    then show ?thesis using e assms(2) a1 b by (auto simp: backed_def s1_def)
  next
    case ok
    then show ?thesis using e assms(2) save_backed(1) [OF sv a3] b f3 by (auto simp: g_def pw)
  next
    case bad
    have "backed s4 (insert g G)"
      using save_backed(2) [OF sv, of "insert g G"] a3 b f3 without_cookie_sub [of digest cookie G] by auto
    then have "backed (s4\<lparr>active := active s\<rparr>) (insert g G)" using b by (auto simp: backed_def)
    then show ?thesis using bad e assms(2) by (auto simp: g_def pw raw)
  qed
qed

lemma step_backed:
  assumes "backed s G"
  shows "backed (fst (session_step digest op (s, G))) (snd (session_step digest op (s, G)))"
proof (cases op)
  case (Begin now host remote)
  then show ?thesis using assms by (auto simp: begin_attempt_def Let_def backed_def)
next
  case End
  then show ?thesis using assms by (auto simp: end_attempt_def backed_def)
next
  case (Check now cookie pw)
  then show ?thesis using assms by (auto simp: valid_session_def backed_def set_delete split: option.splits)
next
  case (Sign_in now raw r cookie pw)
  obtain res s' where i: "issue digest now raw r cookie pw s = (res, s')" by fastforce
  have "fst (session_step digest op (s, G)) = s'"
    using i Sign_in by (auto split: sum.splits issue_error.splits)
  then show ?thesis using issue_backed [OF assms i] Sign_in by simp
next
  case (Sign_out now r cookie)
  obtain ok s' where l: "logout digest now r cookie s = (ok, s')" by fastforce
  have a: "set (active (drop_cookie digest cookie s)) \<subseteq> without_cookie digest cookie G"
    and b: "set (stored s) \<subseteq> G" "\<not> has_store s \<longrightarrow> stored s = []"
    using assms without_cookie_mono by (auto simp: backed_def set_drop_cookie)
  note sv = l [unfolded logout_def]
  have "backed s' (if ok then without_cookie digest cookie G else G)"
    using save_backed(1) [OF sv a] save_backed(2) [OF sv order.trans [OF a without_cookie_sub]] b by simp
  then show ?thesis using l Sign_out by simp
next
  case (Revoke now r)
  obtain ok s' where l: "revoke_all now r s = (ok, s')" by fastforce
  have b: "set (stored s) \<subseteq> G" "\<not> has_store s \<longrightarrow> stored s = []"
    using assms by (simp_all add: backed_def)
  note sv = l [unfolded revoke_all_def]
  have "backed s' (if ok then {} else G)"
    using save_backed(1) [OF sv, of "{}"] save_backed(2) [OF sv, of G] b by simp
  then show ?thesis using l Revoke by simp
next
  case (Restart now)
  then show ?thesis using assms set_open [of "unexpired now (stored s)" "[]"]
    by (auto simp: restart_def open_sessions_def new_sessions_def backed_def)
qed

definition run_sessions :: "(string \<Rightarrow> token_hash) \<Rightarrow> session_op list \<Rightarrow> sessions \<times> grants \<Rightarrow> sessions \<times> grants" where
  "run_sessions digest = fold (session_step digest)"

lemma run_backed:
  assumes "backed s G" and "run_sessions digest ops (s, G) = (s', G')"
  shows "backed s' G'"
  using assms
proof (induction ops arbitrary: s G)
  case (Cons op ops)
  obtain s1 G1 where x: "session_step digest op (s, G) = (s1, G1)" by fastforce
  show ?case using Cons.IH [of s1 G1] Cons.prems step_backed [OF Cons.prems(1), of digest op] x
    by (simp add: run_sessions_def)
qed (simp add: run_sessions_def)

text \<open>
  C36. Whatever happened since the first start, in whatever order and through restarts and failed
  saves, a request is let in only by a grant of its token that the contract still lists, made for
  the password in force and not past its end. So a session that was signed out, replaced or
  revoked with success lets nobody in again, and a new password ends all of them.
\<close>

theorem session_needs_grant:
  assumes "run_sessions digest ops (s0, {}) = (s, G)" and "active s0 = []" and "stored s0 = []"
    and "fst (valid_session digest now cookie (Some pw) s)"
  shows "\<exists>tok e. cookie = Some tok \<and> (digest tok, e) \<in> G \<and> credential e = pw_hash pw \<and> now < s_expires e"
proof -
  have "backed s0 {}" using assms(2,3) by (simp add: backed_def)
  then have "set (active s) \<subseteq> G" using run_backed [OF _ assms(1)] by (simp add: backed_def)
  moreover obtain tok e where "cookie = Some tok" "map_of (active s) (digest tok) = Some e"
    "credential e = pw_hash pw" "now < s_expires e"
    using assms(4) by (auto simp: valid_session_def split: option.splits if_splits)
  ultimately show ?thesis using map_of_SomeD by fast
qed

section \<open>Bounds\<close>

text \<open>What an attempt and a sign-in keep: five attempts of a source, 1024 sources, two at a time, 256 sessions.\<close>

definition limited_attempts :: "sessions \<Rightarrow> bool" where
  "limited_attempts s \<longleftrightarrow> work s \<le> 2 \<and> distinct (map fst (attempts s)) \<and>
     (\<forall>(ip, e) \<in> set (attempts s). 1 \<le> la_count e \<and> la_count e \<le> 5)"

lemma length_set_entry: "length (AList.update k v xs) = (if k \<in> fst ` set xs then length xs else Suc (length xs))"
  by (induction xs) auto

lemma begin_limited:
  assumes "limited_attempts s"
  shows "limited_attempts (snd (begin_attempt now host remote s))"
proof -
  define as where "as = filter (\<lambda>(ip, e). la_until e > now) (attempts s)"
  define ip where "ip = (case host of None \<Rightarrow> remote | Some h \<Rightarrow> h)"
  have d: "distinct (map fst as)" and c: "\<forall>(ip, e) \<in> set as. 1 \<le> la_count e \<and> la_count e \<le> 5"
    using assms by (auto simp: limited_attempts_def as_def distinct_map inj_on_def)
  have k: "1 \<le> la_count e" if "map_of as ip = Some e" for e
    using map_of_SomeD [OF that] c by auto
  have u: "limited_attempts (s\<lparr>work := w, attempts := AList.update ip e as\<rparr>)"
    if "1 \<le> la_count e" "la_count e \<le> 5" "w \<le> 2" for e w
    using d c that set_update [of ip e as] by (auto simp: limited_attempts_def distinct_update)
  have n: "limited_attempts (s\<lparr>attempts := as\<rparr>)"
    using d c assms by (simp add: limited_attempts_def)
  show ?thesis
    using u n by (cases "map_of as ip") (auto simp: begin_attempt_def Let_def simp flip: as_def ip_def dest!: k)
qed

lemma begin_bound:
  assumes "length (attempts s) \<le> 1024" and "limited_attempts s"
  shows "length (attempts (snd (begin_attempt now host remote s))) \<le> 1024"
proof -
  define as where "as = filter (\<lambda>(ip, e). la_until e > now) (attempts s)"
  define ip where "ip = (case host of None \<Rightarrow> remote | Some h \<Rightarrow> h)"
  have l: "length as \<le> 1024" using assms(1) le_trans [OF length_filter_le] by (auto simp: as_def)
  have k: "1 \<le> la_count e" if "map_of as ip = Some e" for e
    using map_of_SomeD [OF that] assms(2) by (auto simp: limited_attempts_def as_def)
  have m: "ip \<in> fst ` set as" if "map_of as ip = Some e" for e
    using map_of_SomeD [OF that] by force
  show ?thesis
    using l k m by (cases "map_of as ip")
      (auto simp: begin_attempt_def Let_def length_set_entry simp flip: as_def ip_def)
qed

interpretation sources: bounded_store "\<lambda>(now, host, remote) s. snd (begin_attempt now host remote s)"
  "\<lambda>s. length (attempts s)" 1024 limited_attempts
  by unfold_locales (auto intro: begin_limited begin_bound)

lemma issue_bound:
  assumes "length (active s) \<le> 256"
  shows "length (active (snd (issue digest now raw r cookie pw s))) \<le> 256"
proof (cases "\<exists>p bytes. pw = Some p \<and> raw = Some bytes")
  case False
  then show ?thesis using assms by (auto simp: issue_def split: option.splits)
next
  case True
  then obtain p bytes where pw: "pw = Some p" "raw = Some bytes" by blast
  let ?s1 = "s\<lparr>active := unexpired now (active s)\<rparr>"
  let ?v = "raw_url_encoding bytes" and ?d = "drop_cookie digest cookie ?s1"
  let ?s3 = "?d\<lparr>active := AList.update (digest ?v) \<lparr>credential = pw_hash p, s_expires = now + sessionLifetime\<rparr> (active ?d)\<rparr>"
  have d: "length (active ?d) \<le> length (active ?s1)"
    by (cases cookie) (simp_all add: drop_cookie_def length_delete_le)
  have u: "length (active ?s1) \<le> 256"
    using assms le_trans [OF length_filter_le] by (auto simp: unexpired_def)
  obtain ok s4 where sv: "save now r ?s3 = (ok, s4)" by fastforce
  have a: "active s4 = active ?s3" by (rule save_active [OF sv])
  show ?thesis
    using sv a d u assms by (cases ok) (auto simp: issue_def pw Let_def length_set_entry)
qed

interpretation browsers: bounded_store "\<lambda>(digest, now, raw, r, cookie, pw) s. snd (issue digest now raw r cookie pw s)"
  "\<lambda>s. length (active s)" 256 "\<lambda>s. True"
  by unfold_locales (auto intro: issue_bound)

text \<open>However the attempts come, the table of sources stays within its bound, and every count within five.\<close>

lemma attempts_bounded:
  "length (attempts (fold (\<lambda>(now, host, remote) s. snd (begin_attempt now host remote s)) as new_sessions)) \<le> 1024"
  using sources.fold_bound [of new_sessions as] by (simp add: new_sessions_def limited_attempts_def)

section \<open>A browser\<close>

text \<open>A password manager that digests by the bytes of the token, for a run.\<close>

definition plain_digest :: "string \<Rightarrow> token_hash" where
  "plain_digest = map of_char"

definition a_token :: string where
  "a_token = raw_url_encoding (replicate 32 0)"

lemma length_raw_url_encoding: "length (raw_url_encoding bs) = (length bs * 4 + 2) div 3"
  by (induction bs rule: raw_url_encoding.induct) simp_all

lemma a_token_length: "length a_token = 43"
  by (simp add: a_token_def length_raw_url_encoding)

definition signed_in :: "sessions \<times> grants" where
  "signed_in = run_sessions plain_digest
     [Sign_in 0 (Some (replicate 32 0)) Saved None (Some \<lparr>pw_hash = ''h''\<rparr>), Restart 5]
     (new_sessions\<lparr>has_store := True\<rparr>, {})"

lemma signed_in_eq:
  "signed_in = (open_sessions 5 [grant plain_digest 0 a_token \<lparr>pw_hash = ''h''\<rparr>],
     {grant plain_digest 0 a_token \<lparr>pw_hash = ''h''\<rparr>})"
  by (simp add: signed_in_def run_sessions_def issue_def new_sessions_def unexpired_def drop_cookie_def save_def
    without_cookie_def restart_def sessionLifetime_def grant_def a_token_def Let_def)

lemma session_needs_grant_witness:
  "\<exists>tok e. Some a_token = Some tok \<and> (plain_digest tok, e) \<in> snd signed_in \<and> credential e = ''h'' \<and> 7 < s_expires e"
proof -
  have "fst (valid_session plain_digest 7 (Some a_token) (Some \<lparr>pw_hash = ''h''\<rparr>) (fst signed_in))"
    by (simp add: signed_in_eq valid_session_def a_token_length open_sessions_def unexpired_def grant_def
      sessionLifetime_def)
  then show ?thesis
    using session_needs_grant [of plain_digest _ _ "fst signed_in" "snd signed_in" 7 "Some a_token" "\<lparr>pw_hash = ''h''\<rparr>"]
    by (auto simp: signed_in_def new_sessions_def)
qed

end
