(* ===== verification/FwRender.thy ===== *)
theory FwRender
  imports GoStrings AddrText GoNet "HOL-Library.Char_ord" "HOL-Library.List_Lexorder"
begin

text \<open>
  \<open>internal/firewall/boundary.go\<close>, \<open>render.go\<close> and \<open>traffic.go\<close>: the openings other modules ask
  for, the rules of the two chains in the order they are evaluated, and how each rule is divided by
  where its packets come from.
\<close>

section \<open>What the rest of the router says\<close>

record iptv =
  tv_upstream :: string
  tv_downstream :: "string list"

definition no_iptv :: iptv where
  "no_iptv = \<lparr>tv_upstream = [], tv_downstream = []\<rparr>"

definition TCP :: string where "TCP = ''tcp''"
definition UDP :: string where "UDP = ''udp''"
definition SixInFour :: string where "SixInFour = ''6in4''"

record fw_opening =
  o_for :: string
  o_protocol :: string
  o_port :: u16
  o_from :: addr

definition no_opening :: fw_opening where
  "no_opening = \<lparr>o_for = [], o_protocol = [], o_port = 0, o_from = AddrNone\<rparr>"

definition opening_line :: "fw_opening \<Rightarrow> string" where
  "opening_line op =
     (if o_protocol op = SixInFour
      then ''nft allow '' @ o_protocol op @ '' from '' @ addr_string (o_from op) @ '' for '' @ o_for op
      else ''nft allow '' @ o_protocol op @ '' port '' @ itoa (unat (o_port op)) @ '' for '' @ o_for op)"

definition describe_opening :: "fw_opening \<Rightarrow> string" where
  "describe_opening op =
     (if o_protocol op = SixInFour then o_protocol op @ '' from '' @ addr_string (o_from op)
      else o_protocol op @ '' '' @ itoa (unat (o_port op)))"

definition normalize_inside :: "string list \<Rightarrow> string list" where
  "normalize_inside xs = compact_by (=) (sort_by (\<le>) (filter (\<lambda>n. n \<noteq> []) (map trim_space xs)))"

definition opening_before :: "fw_opening \<Rightarrow> fw_opening \<Rightarrow> bool" where
  "opening_before a b =
     (if o_protocol a \<noteq> o_protocol b then o_protocol a < o_protocol b
      else if o_port a \<noteq> o_port b then o_port a < o_port b
      else if o_from a \<noteq> o_from b then addr_le (o_from a) (o_from b)
      else o_for a \<le> o_for b)"

definition same_opening :: "fw_opening \<Rightarrow> fw_opening \<Rightarrow> bool" where
  "same_opening a b = (o_protocol a = o_protocol b \<and> o_port a = o_port b \<and> o_from a = o_from b)"

definition normalize_openings :: "fw_opening list \<Rightarrow> fw_opening list" where
  "normalize_openings xs = compact_by same_opening (sort_by opening_before xs)"

section \<open>Rules\<close>

definition fwTableName :: string where "fwTableName = ''olr_filter''"
definition InputChain :: string where "InputChain = ''input''"
definition ForwardChain :: string where "ForwardChain = ''forward''"
definition InputCounter :: string where "InputCounter = ''blocked_input''"
definition ForwardCounter :: string where "ForwardCounter = ''blocked_forward''"

datatype rule_kind =
    RuleEstablished | RuleLoopback | RuleFromInside | RuleICMP | RuleICMPv6 | RuleDHCPClient | RuleDHCPv6Client
  | RuleOpening | RuleNotTowardInside | RulePortForward | RuleForwardICMPv6 | RuleDrop | RuleIPTVIGMP | RuleIPTVStream

datatype traffic_source = SourceUnset | SourceOutside | SourceInside | SourceLocal

fun source_text :: "traffic_source \<Rightarrow> string" where
  "source_text SourceUnset = ''''"
| "source_text SourceOutside = ''outside''"
| "source_text SourceInside = ''inside''"
| "source_text SourceLocal = ''local''"

record fw_rule =
  r_kind :: rule_kind
  r_source :: traffic_source
  r_opening :: fw_opening
  r_upstream :: string
  r_downstream :: string
  r_counter :: string
  r_line :: string

record fw_desired =
  fd_enabled :: bool
  fd_inside :: "string list"
  fd_openings :: "fw_opening list"
  fd_iptv :: iptv
  fd_input :: "fw_rule list"
  fd_forward :: "fw_rule list"

definition blank_rule :: "rule_kind \<Rightarrow> string \<Rightarrow> fw_rule" where
  "blank_rule k l = \<lparr>r_kind = k, r_source = SourceUnset, r_opening = no_opening, r_upstream = [], r_downstream = [],
     r_counter = [], r_line = l\<rparr>"

definition chain_rule :: "string \<Rightarrow> rule_kind \<Rightarrow> string \<Rightarrow> fw_rule" where
  "chain_rule chain k what = blank_rule k (''nft '' @ chain @ '' '' @ what)"

definition igmp_rule :: "string \<Rightarrow> fw_rule" where
  "igmp_rule iface = (blank_rule RuleIPTVIGMP (''nft input igmp from '' @ iface @ '' for IPTV''))\<lparr>r_downstream := iface\<rparr>"

definition stream_rule :: "string \<Rightarrow> string \<Rightarrow> fw_rule" where
  "stream_rule up down' =
     (blank_rule RuleIPTVStream (''nft forward IPv4 multicast '' @ up @ '' to '' @ down' @ '' for IPTV''))
       \<lparr>r_upstream := up, r_downstream := down'\<rparr>"

definition drop_rule :: "string \<Rightarrow> string \<Rightarrow> fw_rule" where
  "drop_rule chain counter =
     (chain_rule chain RuleDrop (''drop counter '' @ counter))\<lparr>r_counter := counter\<rparr>"

section \<open>Sources\<close>

definition rule_sources :: "string list \<Rightarrow> fw_rule \<Rightarrow> traffic_source list" where
  "rule_sources inside r =
     (case r_kind r of
        RuleFromInside \<Rightarrow> SourceInside # (if ''lo'' \<in> set inside then [SourceLocal] else [])
      | RuleLoopback \<Rightarrow> [SourceLocal]
      | RuleIPTVIGMP \<Rightarrow> [if r_downstream r = ''lo'' then SourceLocal
                         else if r_downstream r \<in> set inside then SourceInside else SourceOutside]
      | RuleIPTVStream \<Rightarrow> [if r_upstream r = ''lo'' then SourceLocal
                           else if r_upstream r \<in> set inside then SourceInside else SourceOutside]
      | _ \<Rightarrow> [SourceOutside, SourceInside, SourceLocal])"

definition split_sources :: "fw_rule list \<Rightarrow> string list \<Rightarrow> fw_rule list" where
  "split_sources rules inside =
     concat (map (\<lambda>r. map (\<lambda>s. r\<lparr>r_source := s, r_line := r_line r @ '' source '' @ source_text s @ '' counted''\<rparr>)
       (rule_sources inside r)) rules)"

section \<open>Rendering\<close>

definition input_rules :: "string \<Rightarrow> fw_opening list \<Rightarrow> iptv \<Rightarrow> fw_rule list" where
  "input_rules names openings tv =
     [chain_rule InputChain RuleEstablished ''established,related accept'',
      chain_rule InputChain RuleLoopback ''from lo accept'',
      chain_rule InputChain RuleFromInside (''from '' @ names @ '' accept''),
      chain_rule InputChain RuleICMP ''icmp accept'',
      chain_rule InputChain RuleICMPv6 ''icmpv6 accept'',
      chain_rule InputChain RuleDHCPClient ''dhcp client accept'',
      chain_rule InputChain RuleDHCPv6Client ''dhcpv6 client accept'']
     @ (if tv_upstream tv \<noteq> [] then map igmp_rule (tv_downstream tv) @ [igmp_rule (tv_upstream tv)] else [])
     @ map (\<lambda>op. (blank_rule RuleOpening (opening_line op))\<lparr>r_opening := op\<rparr>) openings
     @ [drop_rule InputChain InputCounter]"

definition forward_rules :: "string \<Rightarrow> iptv \<Rightarrow> fw_rule list" where
  "forward_rules names tv =
     [chain_rule ForwardChain RuleEstablished ''established,related accept'',
      chain_rule ForwardChain RuleFromInside (''from '' @ names @ '' accept''),
      chain_rule ForwardChain RuleNotTowardInside (''to not '' @ names @ '' accept''),
      chain_rule ForwardChain RulePortForward ''port forwards accept'',
      chain_rule ForwardChain RuleForwardICMPv6 ''icmpv6 accept'']
     @ (if tv_upstream tv \<noteq> [] then map (stream_rule (tv_upstream tv)) (tv_downstream tv) else [])
     @ [drop_rule ForwardChain ForwardCounter]"

definition fw_off :: fw_desired where
  "fw_off = \<lparr>fd_enabled = False, fd_inside = [], fd_openings = [], fd_iptv = no_iptv, fd_input = [], fd_forward = []\<rparr>"

definition render_iptv :: "bool \<Rightarrow> string list \<Rightarrow> fw_opening list \<Rightarrow> iptv \<Rightarrow> fw_desired" where
  "render_iptv enabled inside openings tv =
     (if \<not> enabled then fw_off
      else (let ins = normalize_inside inside;
                ops = normalize_openings openings;
                names = join_with '','' ins
            in \<lparr>fd_enabled = True, fd_inside = ins, fd_openings = ops, fd_iptv = tv,
                fd_input = split_sources (input_rules names ops tv) ins,
                fd_forward = split_sources (forward_rules names tv) ins\<rparr>))"

definition render_firewall :: "bool \<Rightarrow> string list \<Rightarrow> fw_opening list \<Rightarrow> fw_desired" where
  "render_firewall enabled inside openings = render_iptv enabled inside openings no_iptv"

definition desired_lines :: "fw_desired \<Rightarrow> string list" where
  "desired_lines d =
     (if \<not> fd_enabled d then []
      else [''nft table inet '' @ fwTableName, ''nft counter '' @ ForwardCounter, ''nft counter '' @ InputCounter,
            ''nft chain '' @ InputChain @ '' filter'']
        @ map r_line (fd_input d) @ [''nft chain '' @ ForwardChain @ '' filter''] @ map r_line (fd_forward d))"

section \<open>Traffic\<close>

text \<open>The counters of a table in force, rule by rule; the texts of the categories are left out.\<close>

record traffic =
  t_id :: string
  t_source :: traffic_source
  t_destination :: string
  t_verdict :: string
  t_count :: "u64 \<times> u64"

definition traffic_of :: "(string \<Rightarrow> (u64 \<times> u64) option) \<Rightarrow> string \<Rightarrow> fw_rule \<Rightarrow> traffic" where
  "traffic_of counts dest r =
     \<lparr>t_id = r_line r, t_source = r_source r, t_destination = dest,
      t_verdict = (if r_kind r = RuleDrop then ''blocked'' else ''allowed''),
      t_count = (case counts (r_line r) of None \<Rightarrow> (0, 0) | Some c \<Rightarrow> c)\<rparr>"

definition traffic_for :: "fw_desired \<Rightarrow> (string \<Rightarrow> (u64 \<times> u64) option) \<Rightarrow> traffic list \<times> bool" where
  "traffic_for d counts =
     (map (traffic_of counts ''router'') (fd_input d) @ map (traffic_of counts ''forwarded'') (fd_forward d),
      fd_enabled d \<and> list_all (\<lambda>r. counts (r_line r) \<noteq> None) (fd_input d @ fd_forward d))"

end
