(* ===== verification/Nft.thy ===== *)
theory Nft
  imports Bytes
begin

text \<open>
  The nftables expressions the firewall programs, and what the kernel documents them to do. The
  kernel is not part of the program: \<open>nft_machine\<close> states its behaviour on these expressions as
  laws over any evaluator, and \<open>nft_run\<close> is one that has them. Every expression of the program
  uses register 1, so a state is the content of that register.
\<close>

unbundle bit_operations_syntax

section \<open>Packets and expressions\<close>

text \<open>
  What a rule can read of a packet: the interfaces, the protocols, its connection's state and
  status, and its headers.
\<close>

record packet =
  pk_iif :: string
  pk_oif :: string
  pk_nfproto :: byte
  pk_l4proto :: byte
  pk_ct_state :: u32
  pk_ct_status :: u32
  pk_network :: "byte list"
  pk_transport :: "byte list"

datatype meta_key = MetaKeyIIFNAME | MetaKeyOIFNAME | MetaKeyNFPROTO | MetaKeyL4PROTO

datatype ct_key = CtKeySTATE | CtKeySTATUS

datatype payload_base = PayloadBaseNetworkHeader | PayloadBaseTransportHeader

datatype cmp_op = CmpOpEq | CmpOpNeq

datatype verdict = VerdictAccept | VerdictDrop

datatype nft_expr =
    Meta meta_key
  | Ct ct_key
  | Payload payload_base nat nat
  | Bitwise "byte list" "byte list"
  | Cmp cmp_op "byte list"
  | Lookup "byte list list" bool
  | CounterExpr
  | Objref string
  | Verdict verdict

text \<open>
  Interface names are compared as 16 bytes filled up with zeros, and conntrack's words in the byte
  order of the host, here a little-endian one.
\<close>

definition ifname :: "string \<Rightarrow> byte list" where
  "ifname s = take 16 (map of_char s @ replicate 16 0)"

definition native32 :: "u32 \<Rightarrow> byte list" where
  "native32 w = rev (be_bytes 4 w)"

fun meta_bytes :: "packet \<Rightarrow> meta_key \<Rightarrow> byte list" where
  "meta_bytes p MetaKeyIIFNAME = ifname (pk_iif p)"
| "meta_bytes p MetaKeyOIFNAME = ifname (pk_oif p)"
| "meta_bytes p MetaKeyNFPROTO = [pk_nfproto p]"
| "meta_bytes p MetaKeyL4PROTO = [pk_l4proto p]"

fun ct_bytes :: "packet \<Rightarrow> ct_key \<Rightarrow> byte list" where
  "ct_bytes p CtKeySTATE = native32 (pk_ct_state p)"
| "ct_bytes p CtKeySTATUS = native32 (pk_ct_status p)"

fun header_of :: "packet \<Rightarrow> payload_base \<Rightarrow> byte list" where
  "header_of p PayloadBaseNetworkHeader = pk_network p"
| "header_of p PayloadBaseTransportHeader = pk_transport p"

section \<open>The machine\<close>

text \<open>
  A rule is read from the left. A load that runs past the header and a comparison that fails end
  the rule without a verdict; counters count and go on.
\<close>

locale nft_machine =
  fixes run :: "packet \<Rightarrow> nft_expr list \<Rightarrow> byte list \<Rightarrow> verdict option"
  assumes run_Nil: "run p [] r = None"
    and run_Meta: "run p (Meta k # es) r = run p es (meta_bytes p k)"
    and run_Ct: "run p (Ct c # es) r = run p es (ct_bytes p c)"
    and run_Payload: "run p (Payload b off n # es) r =
      (if off + n \<le> length (header_of p b) then run p es (take n (drop off (header_of p b))) else None)"
    and run_Bitwise: "run p (Bitwise m x # es) r = run p es (map2 (XOR) (map2 (AND) r m) x)"
    and run_Cmp: "run p (Cmp op d # es) r = (if (r = d) = (op = CmpOpEq) then run p es r else None)"
    and run_Lookup: "run p (Lookup ks invert # es) r = (if (r \<in> set ks) = (\<not> invert) then run p es r else None)"
    and run_Counter: "run p (CounterExpr # es) r = run p es r"
    and run_Objref: "run p (Objref name # es) r = run p es r"
    and run_Verdict: "run p (Verdict v # es) r = Some v"
begin

lemmas run_simps = run_Nil run_Meta run_Ct run_Payload run_Bitwise run_Cmp run_Lookup run_Counter run_Objref run_Verdict

end

fun nft_run :: "packet \<Rightarrow> nft_expr list \<Rightarrow> byte list \<Rightarrow> verdict option" where
  "nft_run p [] r = None"
| "nft_run p (Meta k # es) r = nft_run p es (meta_bytes p k)"
| "nft_run p (Ct c # es) r = nft_run p es (ct_bytes p c)"
| "nft_run p (Payload b off n # es) r =
     (if off + n \<le> length (header_of p b) then nft_run p es (take n (drop off (header_of p b))) else None)"
| "nft_run p (Bitwise m x # es) r = nft_run p es (map2 (XOR) (map2 (AND) r m) x)"
| "nft_run p (Cmp op d # es) r = (if (r = d) = (op = CmpOpEq) then nft_run p es r else None)"
| "nft_run p (Lookup ks invert # es) r = (if (r \<in> set ks) = (\<not> invert) then nft_run p es r else None)"
| "nft_run p (CounterExpr # es) r = nft_run p es r"
| "nft_run p (Objref name # es) r = nft_run p es r"
| "nft_run p (Verdict v # es) r = Some v"

interpretation nft: nft_machine nft_run
  by unfold_locales simp_all

text \<open>A chain: the first rule that has a verdict decides, and its policy when none has.\<close>

fun chain_verdict ::
  "(packet \<Rightarrow> nft_expr list \<Rightarrow> byte list \<Rightarrow> verdict option) \<Rightarrow> verdict \<Rightarrow> nft_expr list list \<Rightarrow> packet \<Rightarrow> verdict" where
  "chain_verdict run policy [] p = policy"
| "chain_verdict run policy (es # rs) p =
     (case run p es [] of None \<Rightarrow> chain_verdict run policy rs p | Some v \<Rightarrow> v)"

section \<open>Comparisons\<close>

text \<open>A name of at most 15 bytes without a NUL, as the kernel has them.\<close>

definition kernel_name :: "string \<Rightarrow> bool" where
  "kernel_name s \<longleftrightarrow> length s < 16 \<and> (\<forall>c \<in> set s. of_char c \<noteq> (0 :: byte))"

lemma of_char_byte_inj: "of_char c = (of_char d :: byte) \<Longrightarrow> c = d"
proof -
  assume e: "of_char c = (of_char d :: byte)"
  have u: "unat (of_char x :: byte) = of_char x" for x :: char
  proof -
    have "(of_char x :: byte) = of_nat (of_char x)" by (simp only: of_nat_of_char)
    then have "unat (of_char x :: byte) = (of_char x :: nat) mod 256"
      by (simp only: unsigned_of_nat take_bit_eq_mod) simp
    then show ?thesis by (simp only: of_char_mod_256)
  qed
  show ?thesis using u [of c] u [of d] e by (metis of_char_eq_iff)
qed

lemma ifname_inj:
  assumes "kernel_name a" and "kernel_name b" and "ifname a = ifname b"
  shows "a = b"
proof -
  have n: "takeWhile (\<lambda>x. x \<noteq> 0) (ifname s) = map of_char s" if "kernel_name s" for s
  proof -
    have "length s < 16" using that by (simp add: kernel_name_def)
    from less_imp_Suc_add [OF this] obtain k where k: "16 = Suc (length s + k)" ..
    have "ifname s = map of_char s @ replicate (Suc k) 0"
      unfolding ifname_def k by (simp flip: replicate_Suc add: min_def)
    then have "ifname s = map of_char s @ 0 # replicate k 0" by simp
    then show ?thesis using that by (simp add: kernel_name_def takeWhile_append2 takeWhile_tail)
  qed
  have "map (of_char :: char \<Rightarrow> byte) a = map of_char b" using n assms by metis
  moreover have "inj (of_char :: char \<Rightarrow> byte)" using of_char_byte_inj by (auto intro: injI)
  ultimately show ?thesis by (metis inj_map_eq_map)
qed

lemma ifname_mem:
  assumes "kernel_name a" and "\<forall>x \<in> set xs. kernel_name x"
  shows "ifname a \<in> ifname ` set xs \<longleftrightarrow> a \<in> set xs"
  using assms ifname_inj by blast

lemma native32_mask: "map2 (XOR) (map2 (AND) (native32 w) (native32 m)) (native32 0) = native32 (w AND m)"
proof -
  have "(ucast (drop_bit k x) AND ucast (drop_bit k y) :: byte) = ucast (drop_bit k (x AND y))" for k and x y :: u32
    by (rule bit_word_eqI) (simp add: bit_simps)
  from this [of 0] this [of 8] this [of 16] this [of 24]
  show ?thesis by (simp add: native32_def numeral_eq_Suc)
qed

lemma native32_zero: "native32 w = native32 0 \<longleftrightarrow> w = 0"
  by (metis be_word_be_bytes native32_def rev_rev_ident be_word32)

end
