(* ===== verification/FwKernel.thy ===== *)
theory FwKernel
  imports FwRender Nft
begin

text \<open>
  \<open>internal/firewall/kernel_linux.go\<close>: the expressions every rule is programmed as, and what the
  two chains they make do to a packet.
\<close>

section \<open>Expressions\<close>

datatype fw_error = UnknownSource | NoTrustedInterface | As4Panic

definition NFPROTO_IPV4 :: byte where "NFPROTO_IPV4 = 2"
definition NFPROTO_IPV6 :: byte where "NFPROTO_IPV6 = 10"
definition IPPROTO_ICMP :: byte where "IPPROTO_ICMP = 1"
definition IPPROTO_IGMP :: byte where "IPPROTO_IGMP = 2"
definition IPPROTO_TCP :: byte where "IPPROTO_TCP = 6"
definition IPPROTO_UDP :: byte where "IPPROTO_UDP = 17"
definition IPPROTO_IPV6 :: byte where "IPPROTO_IPV6 = 41"
definition IPPROTO_ICMPV6 :: byte where "IPPROTO_ICMPV6 = 58"
definition CtStateBitESTABLISHED :: u32 where "CtStateBitESTABLISHED = 2"
definition CtStateBitRELATED :: u32 where "CtStateBitRELATED = 4"

definition icmpTypes :: "byte list" where
  "icmpTypes = [3, 8, 11, 12]"
definition icmpv6InputTypes :: "byte list" where
  "icmpv6InputTypes = [1, 2, 3, 4, 128, 130, 131, 132, 134, 135, 136, 143]"
definition icmpv6ForwardType :: "byte list" where
  "icmpv6ForwardType = [1, 2, 3, 4, 128]"
definition ipsDstNAT :: u32 where
  "ipsDstNAT = push_bit 5 1"

definition nfprotoCmp :: "byte \<Rightarrow> nft_expr list" where
  "nfprotoCmp family = [Meta MetaKeyNFPROTO, Cmp CmpOpEq [family]]"
definition l4protoCmp :: "byte \<Rightarrow> nft_expr list" where
  "l4protoCmp proto = [Meta MetaKeyL4PROTO, Cmp CmpOpEq [proto]]"
definition portCmp :: "nat \<Rightarrow> u16 \<Rightarrow> nft_expr list" where
  "portCmp off port = [Payload PayloadBaseTransportHeader off 2, Cmp CmpOpEq (be_bytes 2 port)]"

definition icmpExprs :: "byte \<Rightarrow> byte \<Rightarrow> byte list \<Rightarrow> nft_expr list" where
  "icmpExprs family proto types =
     nfprotoCmp family @ l4protoCmp proto
     @ [Payload PayloadBaseTransportHeader 0 1, Lookup (map (\<lambda>t. [t]) types) False, Verdict VerdictAccept]"

definition sourceExprs :: "string list \<Rightarrow> traffic_source \<Rightarrow> fw_error + nft_expr list" where
  "sourceExprs inside source =
     (if source = SourceLocal then Inr [Meta MetaKeyIIFNAME, Cmp CmpOpEq (ifname ''lo'')]
      else if source \<noteq> SourceInside \<and> source \<noteq> SourceOutside then Inl UnknownSource
      else if inside \<noteq> [] then
        Inr [Meta MetaKeyIIFNAME, Cmp CmpOpNeq (ifname ''lo''), Lookup (map ifname inside) (source = SourceOutside)]
      else if source = SourceInside then Inl NoTrustedInterface
      else Inr [Meta MetaKeyIIFNAME, Cmp CmpOpNeq (ifname ''lo'')])"

text \<open>\<open>netip.Addr.As4\<close> panics on an address that is not an IPv4 one.\<close>

definition as4 :: "addr \<Rightarrow> u32 option" where
  "as4 a = (case unmap a of V4 x \<Rightarrow> Some x | _ \<Rightarrow> None)"

definition baseRuleExprs :: "fw_desired \<Rightarrow> fw_rule \<Rightarrow> fw_error + nft_expr list" where
  "baseRuleExprs d r =
     (case r_kind r of
        RuleEstablished \<Rightarrow>
          Inr [Ct CtKeySTATE, Bitwise (native32 (CtStateBitESTABLISHED OR CtStateBitRELATED)) (native32 0),
               Cmp CmpOpNeq (native32 0), Verdict VerdictAccept]
      | RuleLoopback \<Rightarrow> Inr [Meta MetaKeyIIFNAME, Cmp CmpOpEq (ifname ''lo''), Verdict VerdictAccept]
      | RuleFromInside \<Rightarrow> Inr [Meta MetaKeyIIFNAME, Lookup (map ifname (fd_inside d)) False, Verdict VerdictAccept]
      | RuleNotTowardInside \<Rightarrow> Inr [Meta MetaKeyOIFNAME, Lookup (map ifname (fd_inside d)) True, Verdict VerdictAccept]
      | RuleICMP \<Rightarrow> Inr (icmpExprs NFPROTO_IPV4 IPPROTO_ICMP icmpTypes)
      | RuleICMPv6 \<Rightarrow> Inr (icmpExprs NFPROTO_IPV6 IPPROTO_ICMPV6 icmpv6InputTypes)
      | RuleForwardICMPv6 \<Rightarrow> Inr (icmpExprs NFPROTO_IPV6 IPPROTO_ICMPV6 icmpv6ForwardType)
      | RuleDHCPClient \<Rightarrow>
          Inr (nfprotoCmp NFPROTO_IPV4 @ l4protoCmp IPPROTO_UDP @ portCmp 0 67 @ portCmp 2 68 @ [Verdict VerdictAccept])
      | RuleDHCPv6Client \<Rightarrow>
          Inr (nfprotoCmp NFPROTO_IPV6 @ l4protoCmp IPPROTO_UDP @ portCmp 2 546 @ [Verdict VerdictAccept])
      | RuleOpening \<Rightarrow>
          if o_protocol (r_opening r) = SixInFour then
            (case as4 (o_from (r_opening r)) of
               None \<Rightarrow> Inl As4Panic
             | Some from' \<Rightarrow>
                 Inr (nfprotoCmp NFPROTO_IPV4 @ l4protoCmp IPPROTO_IPV6 @
                   [Payload PayloadBaseNetworkHeader 12 4, Cmp CmpOpEq (be_bytes 4 from'), Verdict VerdictAccept]))
          else Inr (l4protoCmp (if o_protocol (r_opening r) = UDP then IPPROTO_UDP else IPPROTO_TCP)
                 @ portCmp 2 (o_port (r_opening r)) @ [Verdict VerdictAccept])
      | RulePortForward \<Rightarrow>
          Inr [Ct CtKeySTATUS, Bitwise (native32 ipsDstNAT) (native32 0), Cmp CmpOpNeq (native32 0), Verdict VerdictAccept]
      | RuleIPTVIGMP \<Rightarrow>
          Inr (nfprotoCmp NFPROTO_IPV4 @ [Meta MetaKeyIIFNAME, Cmp CmpOpEq (ifname (r_downstream r))]
            @ l4protoCmp IPPROTO_IGMP @ [Verdict VerdictAccept])
      | RuleIPTVStream \<Rightarrow>
          Inr (nfprotoCmp NFPROTO_IPV4 @
            [Meta MetaKeyIIFNAME, Cmp CmpOpEq (ifname (r_upstream r)),
             Meta MetaKeyOIFNAME, Cmp CmpOpEq (ifname (r_downstream r)),
             Payload PayloadBaseNetworkHeader 16 1, Bitwise [0xf0] [0], Cmp CmpOpEq [0xe0], Verdict VerdictAccept])
      | RuleDrop \<Rightarrow> Inr [Objref (r_counter r), Verdict VerdictDrop])"

definition ruleExprs :: "fw_desired \<Rightarrow> fw_rule \<Rightarrow> fw_error + nft_expr list" where
  "ruleExprs d r =
     bind_res (sourceExprs (fd_inside d) (r_source r)) (\<lambda>conditions.
       bind_res (baseRuleExprs d r) (\<lambda>es. Inr (conditions @ butlast es @ [CounterExpr, last es])))"

text \<open>\<open>Apply\<close>: the rules of both chains, all of them or none; the policy of both is to accept.\<close>

fun build_rules :: "fw_desired \<Rightarrow> fw_rule list \<Rightarrow> fw_error + nft_expr list list" where
  "build_rules d [] = Inr []"
| "build_rules d (r # rs) = bind_res (ruleExprs d r) (\<lambda>es. bind_res (build_rules d rs) (\<lambda>ess. Inr (es # ess)))"

definition apply_rules :: "fw_desired \<Rightarrow> fw_error + (nft_expr list list \<times> nft_expr list list) option" where
  "apply_rules d =
     (if \<not> fd_enabled d then Inr None
      else bind_res (build_rules d (fd_input d)) (\<lambda>inp. bind_res (build_rules d (fd_forward d)) (\<lambda>fwd. Inr (Some (inp, fwd)))))"

section \<open>What a rule matches\<close>

definition reads :: "byte list \<Rightarrow> nat \<Rightarrow> byte list \<Rightarrow> bool" where
  "reads h off bs \<longleftrightarrow> off + length bs \<le> length h \<and> take (length bs) (drop off h) = bs"

definition is_reply :: "packet \<Rightarrow> bool" where
  "is_reply p \<longleftrightarrow> pk_ct_state p AND 6 \<noteq> 0"

definition is_icmp :: "byte \<Rightarrow> byte \<Rightarrow> byte list \<Rightarrow> packet \<Rightarrow> bool" where
  "is_icmp family proto types p \<longleftrightarrow>
     pk_nfproto p = family \<and> pk_l4proto p = proto \<and> (\<exists>t \<in> set types. reads (pk_transport p) 0 [t])"

definition opens :: "fw_opening \<Rightarrow> packet \<Rightarrow> bool" where
  "opens op p =
     (if o_protocol op = SixInFour
      then pk_nfproto p = 2 \<and> pk_l4proto p = 41 \<and> (\<exists>a. as4 (o_from op) = Some a \<and> reads (pk_network p) 12 (be_bytes 4 a))
      else pk_l4proto p = (if o_protocol op = UDP then 17 else 6) \<and> reads (pk_transport p) 2 (be_bytes 2 (o_port op)))"

definition is_multicast_v4 :: "packet \<Rightarrow> bool" where
  "is_multicast_v4 p \<longleftrightarrow> pk_nfproto p = 2 \<and> 16 < length (pk_network p) \<and> pk_network p ! 16 AND 0xf0 = 0xe0"

definition rule_matches :: "string list \<Rightarrow> fw_rule \<Rightarrow> packet \<Rightarrow> bool" where
  "rule_matches inside r p =
     (case r_kind r of
        RuleEstablished \<Rightarrow> is_reply p
      | RuleLoopback \<Rightarrow> pk_iif p = ''lo''
      | RuleFromInside \<Rightarrow> pk_iif p \<in> set inside
      | RuleNotTowardInside \<Rightarrow> pk_oif p \<notin> set inside
      | RuleICMP \<Rightarrow> is_icmp 2 1 icmpTypes p
      | RuleICMPv6 \<Rightarrow> is_icmp 10 58 icmpv6InputTypes p
      | RuleForwardICMPv6 \<Rightarrow> is_icmp 10 58 icmpv6ForwardType p
      | RuleDHCPClient \<Rightarrow> pk_nfproto p = 2 \<and> pk_l4proto p = 17 \<and>
          reads (pk_transport p) 0 (be_bytes 2 (67 :: u16)) \<and> reads (pk_transport p) 2 (be_bytes 2 (68 :: u16))
      | RuleDHCPv6Client \<Rightarrow> pk_nfproto p = 10 \<and> pk_l4proto p = 17 \<and> reads (pk_transport p) 2 (be_bytes 2 (546 :: u16))
      | RuleOpening \<Rightarrow> opens (r_opening r) p
      | RulePortForward \<Rightarrow> bit (pk_ct_status p) 5
      | RuleIPTVIGMP \<Rightarrow> pk_nfproto p = 2 \<and> pk_l4proto p = 2 \<and> pk_iif p = r_downstream r
      | RuleIPTVStream \<Rightarrow> pk_iif p = r_upstream r \<and> pk_oif p = r_downstream r \<and> is_multicast_v4 p
      | RuleDrop \<Rightarrow> True)"

fun comes_from :: "string list \<Rightarrow> packet \<Rightarrow> traffic_source" where
  "comes_from inside p =
     (if pk_iif p = ''lo'' then SourceLocal else if pk_iif p \<in> set inside then SourceInside else SourceOutside)"

definition rule_verdict :: "fw_rule \<Rightarrow> verdict" where
  "rule_verdict r = (if r_kind r = RuleDrop then VerdictDrop else VerdictAccept)"

definition named :: "packet \<Rightarrow> bool" where
  "named p \<longleftrightarrow> kernel_name (pk_iif p) \<and> kernel_name (pk_oif p)"

definition rule_named :: "fw_rule \<Rightarrow> bool" where
  "rule_named r \<longleftrightarrow>
     (r_kind r = RuleIPTVIGMP \<longrightarrow> kernel_name (r_downstream r)) \<and>
     (r_kind r = RuleIPTVStream \<longrightarrow> kernel_name (r_upstream r) \<and> kernel_name (r_downstream r))"

definition rule_ok :: "fw_rule \<Rightarrow> bool" where
  "rule_ok r \<longleftrightarrow> (r_kind r = RuleOpening \<and> o_protocol (r_opening r) = SixInFour \<longrightarrow> as4 (o_from (r_opening r)) \<noteq> None)"

lemma kernel_name_lo [simp]: "kernel_name ''lo''"
  by (simp add: kernel_name_def)

lemma ifname_eq [simp]: "kernel_name a \<Longrightarrow> kernel_name b \<Longrightarrow> ifname a = ifname b \<longleftrightarrow> a = b"
  using ifname_inj by blast

lemma status_bit: "(w AND push_bit 5 1 :: u32) = 0 \<longleftrightarrow> \<not> bit w 5"
  using and_exp_eq_0_iff_not_bit [of w 5] by (simp add: push_bit_eq_mult)

lemma reads_one: "reads h 0 [t] \<longleftrightarrow> h \<noteq> [] \<and> hd h = t"
  by (cases h) (auto simp: reads_def)

text \<open>The verdict of the first rule that applies.\<close>

fun first_verdict :: "verdict \<Rightarrow> (fw_rule \<Rightarrow> bool) \<Rightarrow> fw_rule list \<Rightarrow> verdict" where
  "first_verdict v P [] = v"
| "first_verdict v P (r # rs) = (if P r then rule_verdict r else first_verdict v P rs)"

context nft_machine
begin

lemma run_family: "run p (nfprotoCmp f @ es) q = (if pk_nfproto p = f then run p es [f] else None)"
  by (simp add: nfprotoCmp_def run_simps)

lemma run_proto: "run p (l4protoCmp f @ es) q = (if pk_l4proto p = f then run p es [f] else None)"
  by (simp add: l4protoCmp_def run_simps)

lemma run_read: "run p (Payload b off n # Cmp CmpOpEq bs # es) q =
    (if reads (header_of p b) off bs then run p es bs else None)" if "length bs = n"
  using that by (auto simp: run_simps reads_def)

lemma run_port: "run p (portCmp off port @ es) q =
    (if reads (pk_transport p) off (be_bytes 2 port) then run p es (be_bytes 2 port) else None)"
  using run_read [of "be_bytes 2 port" 2] by (simp add: portCmp_def)

lemma run_iif: "named p \<Longrightarrow> kernel_name x \<Longrightarrow> run p (Meta MetaKeyIIFNAME # Cmp CmpOpEq (ifname x) # es) q =
    (if pk_iif p = x then run p es (ifname x) else None)"
  by (auto simp: run_simps named_def)

lemma run_oif: "named p \<Longrightarrow> kernel_name x \<Longrightarrow> run p (Meta MetaKeyOIFNAME # Cmp CmpOpEq (ifname x) # es) q =
    (if pk_oif p = x then run p es (ifname x) else None)"
  by (auto simp: run_simps named_def)

lemma run_bits: "run p [Ct c, Bitwise (native32 m) (native32 0), Cmp CmpOpNeq (native32 0), CounterExpr, Verdict v] q =
    (if (case c of CtKeySTATE \<Rightarrow> pk_ct_state p | CtKeySTATUS \<Rightarrow> pk_ct_status p) AND m \<noteq> 0 then Some v else None)"
  by (cases c) (simp_all add: run_simps native32_mask native32_zero)

lemma run_icmp: "run p (butlast (icmpExprs f pr ts) @ [CounterExpr, last (icmpExprs f pr ts)]) q =
    (if is_icmp f pr ts p then Some VerdictAccept else None)"
proof -
  have b: "butlast (icmpExprs f pr ts) @ [CounterExpr, last (icmpExprs f pr ts)] =
    nfprotoCmp f @ l4protoCmp pr @ [Payload PayloadBaseTransportHeader 0 1, Lookup (map (\<lambda>t. [t]) ts) False,
      CounterExpr, Verdict VerdictAccept]"
    by (simp add: icmpExprs_def butlast_append)
  have t: "1 \<le> length h \<and> take 1 h \<in> (\<lambda>t. [t]) ` set ts \<longleftrightarrow> (\<exists>t \<in> set ts. reads h 0 [t])" for h
    by (cases h) (auto simp: reads_one)
  show ?thesis unfolding b
    using t [of "pk_transport p"] by (auto simp: run_family run_proto run_simps is_icmp_def)
qed

lemma base_run:
  assumes "named p" and "rule_named r" and "\<forall>x \<in> set (fd_inside d). kernel_name x" and "baseRuleExprs d r = Inr es"
  shows "run p (butlast es @ [CounterExpr, last es]) q =
    (if rule_matches (fd_inside d) r p then Some (rule_verdict r) else None)"
proof -
  have l: "ifname x \<in> set (map ifname (fd_inside d)) \<longleftrightarrow> x \<in> set (fd_inside d)" if "kernel_name x" for x
    using ifname_mem [OF that assms(3)] by simp
  have k: "kernel_name (pk_iif p)" "kernel_name (pk_oif p)" using assms(1) by (simp_all add: named_def)
  note base = assms(4) [unfolded baseRuleExprs_def] rule_matches_def rule_verdict_def
  show ?thesis
  proof (cases "r_kind r")
    case RuleEstablished
    then show ?thesis using base run_bits [of p CtKeySTATE 6 VerdictAccept q]
      by (auto simp: is_reply_def CtStateBitESTABLISHED_def CtStateBitRELATED_def)
  next
    case RuleLoopback
    then show ?thesis using base run_iif [OF assms(1) kernel_name_lo] by (auto simp: run_simps)
  next
    case RuleFromInside
    then show ?thesis using base l [OF k(1)] by (auto simp: run_simps)
  next
    case RuleNotTowardInside
    then show ?thesis using base l [OF k(2)] by (auto simp: run_simps)
  next
    case RuleICMP
    then show ?thesis using base run_icmp by (auto simp: NFPROTO_IPV4_def IPPROTO_ICMP_def)
  next
    case RuleICMPv6
    then show ?thesis using base run_icmp by (auto simp: NFPROTO_IPV6_def IPPROTO_ICMPV6_def)
  next
    case RuleForwardICMPv6
    then show ?thesis using base run_icmp by (auto simp: NFPROTO_IPV6_def IPPROTO_ICMPV6_def)
  next
    case RuleDHCPClient
    then show ?thesis using base
      by (auto simp: butlast_append run_family run_proto run_port run_simps NFPROTO_IPV4_def IPPROTO_UDP_def)
  next
    case RuleDHCPv6Client
    then show ?thesis using base
      by (auto simp: butlast_append run_family run_proto run_port run_simps NFPROTO_IPV6_def IPPROTO_UDP_def)
  next
    case RuleOpening
    show ?thesis
    proof (cases "o_protocol (r_opening r) = SixInFour")
      case True
      then obtain a where a: "as4 (o_from (r_opening r)) = Some a" using base RuleOpening by (auto split: option.splits)
      show ?thesis using base RuleOpening True a run_read [of "be_bytes 4 a" 4 p PayloadBaseNetworkHeader 12]
        by (auto simp: butlast_append run_family run_proto run_simps(8,10) opens_def NFPROTO_IPV4_def IPPROTO_IPV6_def)
    next
      case False
      then show ?thesis using base RuleOpening
        by (auto simp: butlast_append run_proto run_port run_simps opens_def IPPROTO_UDP_def IPPROTO_TCP_def)
    qed
  next
    case RulePortForward
    then show ?thesis using base run_bits [of p CtKeySTATUS "push_bit 5 1" VerdictAccept q] status_bit [of "pk_ct_status p"]
      by (auto simp: ipsDstNAT_def)
  next
    case RuleIPTVIGMP
    then have "kernel_name (r_downstream r)" using assms(2) by (simp add: rule_named_def)
    then show ?thesis using base RuleIPTVIGMP run_iif [OF assms(1)]
      by (auto simp: butlast_append run_family run_proto run_simps(8,10) NFPROTO_IPV4_def IPPROTO_IGMP_def)
  next
    case RuleIPTVStream
    then have u: "kernel_name (r_upstream r)" "kernel_name (r_downstream r)" using assms(2) by (simp_all add: rule_named_def)
    have m: "run p [Payload PayloadBaseNetworkHeader 16 1, Bitwise [0xf0] [0], Cmp CmpOpEq [0xe0], CounterExpr, Verdict VerdictAccept] q' =
      (if 16 < length (pk_network p) \<and> pk_network p ! 16 AND 0xf0 = 0xe0 then Some VerdictAccept else None)" for q'
      by (auto simp: run_simps take_Suc_conv_app_nth)
    show ?thesis using base RuleIPTVStream u run_iif [OF assms(1)] run_oif [OF assms(1)] m
      by (auto simp: butlast_append run_family is_multicast_v4_def NFPROTO_IPV4_def)
  next
    case RuleDrop
    then show ?thesis using base by (auto simp: run_simps)
  qed
qed

lemma source_run:
  assumes "named p" and "\<forall>x \<in> set inside. kernel_name x" and "inside \<noteq> []" and "sourceExprs inside s = Inr cs"
    and "\<And>q. run p es q = v"
  shows "run p (cs @ es) q = (if s = comes_from inside p then v else None)"
proof -
  have l: "ifname (pk_iif p) \<in> set (map ifname inside) \<longleftrightarrow> pk_iif p \<in> set inside"
    using ifname_mem [OF _ assms(2)] assms(1) by (simp add: named_def)
  have e: "ifname (pk_iif p) = ifname ''lo'' \<longleftrightarrow> pk_iif p = ''lo''"
    using assms(1) by (simp add: named_def)
  show ?thesis
    using assms(3-5) l e by (cases s) (auto simp: sourceExprs_def run_simps)
qed

lemma rule_run:
  assumes "named p" and "rule_named r" and "\<forall>x \<in> set (fd_inside d). kernel_name x" and "fd_inside d \<noteq> []"
    and "ruleExprs d r = Inr es"
  shows "run p es [] = (if r_source r = comes_from (fd_inside d) p \<and> rule_matches (fd_inside d) r p
    then Some (rule_verdict r) else None)"
proof -
  obtain cs bs where b: "sourceExprs (fd_inside d) (r_source r) = Inr cs" "baseRuleExprs d r = Inr bs"
    "es = cs @ butlast bs @ [CounterExpr, last bs]"
    using assms(5) by (auto simp: ruleExprs_def bind_res_Inr_iff)
  show ?thesis
    unfolding b(3) using source_run [OF assms(1,3,4) b(1) base_run [OF assms(1-3) b(2)]] by simp
qed

lemma chain_run:
  assumes "named p" and "\<forall>r \<in> set rs. rule_named r" and "\<forall>x \<in> set (fd_inside d). kernel_name x" and "fd_inside d \<noteq> []"
    and "build_rules d rs = Inr ess"
  shows "chain_verdict run policy ess p =
    first_verdict policy (\<lambda>r. r_source r = comes_from (fd_inside d) p \<and> rule_matches (fd_inside d) r p) rs"
  using assms(2,5)
proof (induction rs arbitrary: ess)
  case (Cons r rs)
  obtain es ess' where e: "ruleExprs d r = Inr es" "build_rules d rs = Inr ess'" "ess = es # ess'"
    using Cons.prems(2) by (auto simp: bind_res_Inr_iff)
  have "rule_named r" using Cons.prems(1) by simp
  then show ?case
    using rule_run [OF assms(1) _ assms(3,4) e(1)] Cons.IH [OF _ e(2)] Cons.prems(1) e(3) by simp
qed simp

end

section \<open>Dividing by source changes nothing\<close>

lemma matched_source: "rule_matches inside r p \<Longrightarrow> comes_from inside p \<in> set (rule_sources inside r)"
  by (auto simp: rule_matches_def rule_sources_def split: rule_kind.splits)

lemma first_verdict_append:
  "first_verdict v P (xs @ ys) = first_verdict (first_verdict v P ys) P xs"
  by (induction xs) auto

lemma first_verdict_all: "(\<And>r. r \<in> set rs \<Longrightarrow> P r \<Longrightarrow> rule_verdict r = w) \<Longrightarrow>
    first_verdict v P rs = (if \<exists>r \<in> set rs. P r then w else v)"
  by (induction rs) auto

lemma split_verdict:
  "first_verdict v (\<lambda>r. r_source r = comes_from inside p \<and> rule_matches inside r p) (split_sources rules inside) =
   first_verdict v (\<lambda>r. rule_matches inside r p) rules"
proof (induction rules)
  case (Cons r rules)
  define part where "part = (\<lambda>s. r\<lparr>r_source := s, r_line := r_line r @ '' source '' @ source_text s @ '' counted''\<rparr>)"
  have m: "rule_matches inside (part s) p = rule_matches inside r p" for s
    by (cases "r_kind r") (simp_all add: part_def rule_matches_def)
  have v: "rule_verdict (part s) = rule_verdict r" "r_source (part s) = s" for s
    by (simp_all add: part_def rule_verdict_def)
  have s: "split_sources (r # rules) inside = map part (rule_sources inside r) @ split_sources rules inside"
    by (simp add: split_sources_def part_def)
  have "first_verdict w (\<lambda>r. r_source r = comes_from inside p \<and> rule_matches inside r p) (map part (rule_sources inside r)) =
      (if rule_matches inside r p then rule_verdict r else w)" for w
    using matched_source [of inside r p]
    by (subst first_verdict_all [where w = "rule_verdict r"]) (auto simp: m v)
  then show ?case unfolding s first_verdict_append using Cons.IH by simp
qed (simp add: split_sources_def)

lemma verdict_before_drop:
  assumes "\<forall>r \<in> set rs. r_kind r \<noteq> RuleDrop"
  shows "first_verdict v (\<lambda>r. rule_matches inside r p) (rs @ [drop_rule c n]) =
    (if \<exists>r \<in> set rs. rule_matches inside r p then VerdictAccept else VerdictDrop)"
proof -
  have d: "rule_matches inside (drop_rule c n) p" "rule_verdict (drop_rule c n) = VerdictDrop"
    by (simp_all add: drop_rule_def chain_rule_def blank_rule_def rule_matches_def rule_verdict_def)
  show ?thesis
    unfolding first_verdict_append using assms d
    by (subst first_verdict_all [where w = VerdictAccept]) (auto simp: rule_verdict_def)
qed

section \<open>What the firewall lets through\<close>

definition accepts_input :: "string list \<Rightarrow> fw_opening list \<Rightarrow> iptv \<Rightarrow> packet \<Rightarrow> bool" where
  "accepts_input inside openings tv p \<longleftrightarrow>
     is_reply p \<or> pk_iif p = ''lo'' \<or> pk_iif p \<in> set inside
     \<or> is_icmp 2 1 icmpTypes p \<or> is_icmp 10 58 icmpv6InputTypes p
     \<or> pk_nfproto p = 2 \<and> pk_l4proto p = 17 \<and> reads (pk_transport p) 0 (be_bytes 2 (67 :: u16)) \<and> reads (pk_transport p) 2 (be_bytes 2 (68 :: u16))
     \<or> pk_nfproto p = 10 \<and> pk_l4proto p = 17 \<and> reads (pk_transport p) 2 (be_bytes 2 (546 :: u16))
     \<or> tv_upstream tv \<noteq> [] \<and> pk_nfproto p = 2 \<and> pk_l4proto p = 2 \<and> pk_iif p \<in> insert (tv_upstream tv) (set (tv_downstream tv))
     \<or> (\<exists>op \<in> set openings. opens op p)"

definition accepts_forward :: "string list \<Rightarrow> iptv \<Rightarrow> packet \<Rightarrow> bool" where
  "accepts_forward inside tv p \<longleftrightarrow>
     is_reply p \<or> pk_iif p \<in> set inside \<or> pk_oif p \<notin> set inside \<or> bit (pk_ct_status p) 5
     \<or> is_icmp 10 58 icmpv6ForwardType p
     \<or> tv_upstream tv \<noteq> [] \<and> pk_iif p = tv_upstream tv \<and> pk_oif p \<in> set (tv_downstream tv) \<and> is_multicast_v4 p"

lemma opens_same: "same_opening a b \<Longrightarrow> opens a p = opens b p"
  by (simp add: same_opening_def opens_def)

lemma opens_normalized: "(\<exists>op \<in> set (normalize_openings ops). opens op p) \<longleftrightarrow> (\<exists>op \<in> set ops. opens op p)"
proof
  assume "\<exists>op \<in> set ops. opens op p"
  then obtain op where "op \<in> set (sort_by opening_before ops)" "opens op p" by auto
  moreover have "\<exists>x \<in> set (normalize_openings ops). same_opening x op"
    unfolding normalize_openings_def
    by (rule compact_by_keeps) (use calculation in \<open>auto simp: same_opening_def\<close>)
  ultimately show "\<exists>op \<in> set (normalize_openings ops). opens op p" using opens_same by blast
next
  assume "\<exists>op \<in> set (normalize_openings ops). opens op p"
  moreover have "set (normalize_openings ops) \<subseteq> set ops"
    using compact_by_subset [of same_opening "sort_by opening_before ops"] by (simp add: normalize_openings_def)
  ultimately show "\<exists>op \<in> set ops. opens op p" by blast
qed

lemma kinds [simp]:
  "r_kind (blank_rule k l) = k" "r_kind (chain_rule c k w) = k" "r_kind (igmp_rule i) = RuleIPTVIGMP"
  "r_downstream (igmp_rule i) = i" "r_kind (stream_rule u v) = RuleIPTVStream" "r_upstream (stream_rule u v) = u"
  "r_downstream (stream_rule u v) = v" "r_kind (drop_rule c n) = RuleDrop"
  by (simp_all add: blank_rule_def chain_rule_def igmp_rule_def stream_rule_def drop_rule_def)

lemma input_matches:
  "(\<exists>r \<in> set (butlast (input_rules names ops tv)). rule_matches inside r p) \<longleftrightarrow> accepts_input inside ops tv p"
proof -
  let ?P = "\<lambda>r. rule_matches inside r p"
  have b: "butlast (xs @ ys @ zs @ [x]) = xs @ ys @ zs" for xs ys zs and x :: fw_rule
    by (simp add: butlast_append)
  have tv: "(\<exists>r \<in> set (if tv_upstream tv \<noteq> [] then map igmp_rule (tv_downstream tv) @ [igmp_rule (tv_upstream tv)] else []). ?P r)
      \<longleftrightarrow> tv_upstream tv \<noteq> [] \<and> pk_nfproto p = 2 \<and> pk_l4proto p = 2 \<and> pk_iif p \<in> insert (tv_upstream tv) (set (tv_downstream tv))"
    by (auto simp: rule_matches_def)
  have op: "(\<exists>r \<in> set (map (\<lambda>op. (blank_rule RuleOpening (opening_line op))\<lparr>r_opening := op\<rparr>) ops). ?P r) \<longleftrightarrow> (\<exists>op \<in> set ops. opens op p)"
    by (simp add: rule_matches_def)
  show ?thesis
    unfolding input_rules_def b set_append bex_Un tv op by (simp add: rule_matches_def accepts_input_def)
qed

lemma forward_matches:
  "(\<exists>r \<in> set (butlast (forward_rules names tv)). rule_matches inside r p) \<longleftrightarrow> accepts_forward inside tv p"
proof -
  let ?P = "\<lambda>r. rule_matches inside r p"
  have b: "butlast (xs @ ys @ [x]) = xs @ ys" for xs ys and x :: fw_rule
    by (simp add: butlast_append)
  have tv: "(\<exists>r \<in> set (if tv_upstream tv \<noteq> [] then map (stream_rule (tv_upstream tv)) (tv_downstream tv) else []). ?P r)
      \<longleftrightarrow> tv_upstream tv \<noteq> [] \<and> pk_iif p = tv_upstream tv \<and> pk_oif p \<in> set (tv_downstream tv) \<and> is_multicast_v4 p"
    by (auto simp: rule_matches_def)
  show ?thesis
    unfolding forward_rules_def b set_append bex_Un tv by (simp add: rule_matches_def accepts_forward_def)
qed

lemma rules_end:
  "input_rules names ops tv = butlast (input_rules names ops tv) @ [drop_rule InputChain InputCounter]"
  "forward_rules names tv = butlast (forward_rules names tv) @ [drop_rule ForwardChain ForwardCounter]"
  by (simp_all add: input_rules_def forward_rules_def butlast_append)

lemma rules_accept:
  "\<forall>r \<in> set (butlast (input_rules names ops tv)). r_kind r \<noteq> RuleDrop"
  "\<forall>r \<in> set (butlast (forward_rules names tv)). r_kind r \<noteq> RuleDrop"
  by (auto simp: input_rules_def forward_rules_def butlast_append)

text \<open>Every rule of a rendered chain can be built, when there is an inside and every tunnel has an IPv4 end.\<close>

definition tunnels_v4 :: "fw_opening list \<Rightarrow> bool" where
  "tunnels_v4 ops \<longleftrightarrow> list_all (\<lambda>op. o_protocol op = SixInFour \<longrightarrow> as4 (o_from op) \<noteq> None) ops"

lemma rule_builds:
  assumes "fd_inside d \<noteq> []" and "rule_ok r" and "r_source r \<noteq> SourceUnset"
  shows "\<exists>es. ruleExprs d r = Inr es"
  using assms by (cases "r_kind r"; cases "r_source r")
    (auto simp: ruleExprs_def sourceExprs_def baseRuleExprs_def rule_ok_def bind_res_Inr_iff split: option.splits)

lemma rules_build:
  assumes "fd_inside d \<noteq> []" and "\<forall>r \<in> set rs. rule_ok r \<and> r_source r \<noteq> SourceUnset"
  shows "\<exists>ess. build_rules d rs = Inr ess"
  using assms(2)
proof (induction rs)
  case (Cons r rs)
  then obtain es ess where "ruleExprs d r = Inr es" "build_rules d rs = Inr ess"
    using rule_builds [OF assms(1)] by force
  then show ?case by simp
qed simp

lemma split_ok:
  assumes "\<forall>r \<in> set rules. P r" and "\<And>r s l. P r \<Longrightarrow> P (r\<lparr>r_source := s, r_line := l\<rparr>)"
  shows "\<forall>r \<in> set (split_sources rules inside). P r \<and> r_source r \<noteq> SourceUnset"
proof -
  have "s \<noteq> SourceUnset" if "s \<in> set (rule_sources inside r)" for s r
    using that by (cases "r_kind r") (auto simp: rule_sources_def split: if_splits)
  then show ?thesis using assms by (fastforce simp: split_sources_def)
qed

lemma rendered_ok:
  assumes "tunnels_v4 ops" and "\<forall>x \<in> insert (tv_upstream tv) (set (tv_downstream tv)). kernel_name x"
  shows "\<forall>r \<in> set (split_sources (input_rules names ops tv) inside). (rule_ok r \<and> rule_named r) \<and> r_source r \<noteq> SourceUnset"
    and "\<forall>r \<in> set (split_sources (forward_rules names tv) inside). (rule_ok r \<and> rule_named r) \<and> r_source r \<noteq> SourceUnset"
proof -
  have s: "rule_ok (r\<lparr>r_source := s, r_line := l\<rparr>) \<and> rule_named (r\<lparr>r_source := s, r_line := l\<rparr>)"
    if "rule_ok r \<and> rule_named r" for r s l
    using that by (simp add: rule_ok_def rule_named_def)
  have "\<forall>r \<in> set (input_rules names ops tv). rule_ok r \<and> rule_named r"
    using assms unfolding input_rules_def set_append ball_Un
    by (auto simp: rule_ok_def rule_named_def tunnels_v4_def list_all_iff split: if_splits)
  then show "\<forall>r \<in> set (split_sources (input_rules names ops tv) inside). (rule_ok r \<and> rule_named r) \<and> r_source r \<noteq> SourceUnset"
    by (rule split_ok) (rule s)
  have "\<forall>r \<in> set (forward_rules names tv). rule_ok r \<and> rule_named r"
    using assms unfolding forward_rules_def set_append ball_Un
    by (auto simp: rule_ok_def rule_named_def split: if_splits)
  then show "\<forall>r \<in> set (split_sources (forward_rules names tv) inside). (rule_ok r \<and> rule_named r) \<and> r_source r \<noteq> SourceUnset"
    by (rule split_ok) (rule s)
qed

lemma tunnels_normalized: "tunnels_v4 ops \<Longrightarrow> tunnels_v4 (normalize_openings ops)"
  using compact_by_subset [of same_opening "sort_by opening_before ops"]
  by (auto simp: tunnels_v4_def list_all_iff normalize_openings_def)

lemma programmed_verdicts:
  assumes "nft_machine run" and "normalize_inside inside \<noteq> []" and "tunnels_v4 openings"
    and "\<forall>x \<in> set (normalize_inside inside) \<union> {tv_upstream tv} \<union> set (tv_downstream tv). kernel_name x"
  shows "\<exists>inp fwd. apply_rules (render_iptv True inside openings tv) = Inr (Some (inp, fwd)) \<and>
    (\<forall>p. kernel_name (pk_iif p) \<and> kernel_name (pk_oif p) \<longrightarrow>
       chain_verdict run VerdictAccept inp p =
         (if accepts_input (normalize_inside inside) openings tv p then VerdictAccept else VerdictDrop) \<and>
       chain_verdict run VerdictAccept fwd p =
         (if accepts_forward (normalize_inside inside) tv p then VerdictAccept else VerdictDrop))"
proof -
  let ?d = "render_iptv True inside openings tv" and ?ins = "normalize_inside inside"
  let ?names = "join_with '','' (normalize_inside inside)" and ?ops = "normalize_openings openings"
  have d: "fd_enabled ?d" "fd_inside ?d = ?ins" "fd_input ?d = split_sources (input_rules ?names ?ops tv) ?ins"
    "fd_forward ?d = split_sources (forward_rules ?names tv) ?ins"
    by (simp_all add: render_iptv_def Let_def)
  have k: "\<forall>x \<in> set (fd_inside ?d). kernel_name x" "fd_inside ?d \<noteq> []"
    "\<forall>x \<in> insert (tv_upstream tv) (set (tv_downstream tv)). kernel_name x"
    using assms(2,4) d by auto
  note ok = rendered_ok [OF tunnels_normalized [OF assms(3)] k(3), of ?names ?ins, folded d(3,4)]
  obtain inp fwd where b: "build_rules ?d (fd_input ?d) = Inr inp" "build_rules ?d (fd_forward ?d) = Inr fwd"
    using rules_build [OF k(2), of "fd_input ?d"] rules_build [OF k(2), of "fd_forward ?d"] ok by blast
  have n: "\<forall>r \<in> set (fd_input ?d). rule_named r" "\<forall>r \<in> set (fd_forward ?d). rule_named r" using ok by blast+
  have i: "chain_verdict run VerdictAccept inp p =
      (if accepts_input ?ins openings tv p then VerdictAccept else VerdictDrop)" if "named p" for p
  proof -
    have "chain_verdict run VerdictAccept inp p = first_verdict VerdictAccept (\<lambda>r. rule_matches ?ins r p) (input_rules ?names ?ops tv)"
      unfolding nft_machine.chain_run [OF assms(1) that n(1) k(1,2) b(1)] d(2,3) by (rule split_verdict)
    also have "\<dots> = (if accepts_input ?ins ?ops tv p then VerdictAccept else VerdictDrop)"
      by (subst rules_end(1)) (simp add: verdict_before_drop [OF rules_accept(1)] input_matches)
    finally show ?thesis using opens_normalized by (simp add: accepts_input_def)
  qed
  have f: "chain_verdict run VerdictAccept fwd p =
      (if accepts_forward ?ins tv p then VerdictAccept else VerdictDrop)" if "named p" for p
  proof -
    have "chain_verdict run VerdictAccept fwd p = first_verdict VerdictAccept (\<lambda>r. rule_matches ?ins r p) (forward_rules ?names tv)"
      unfolding nft_machine.chain_run [OF assms(1) that n(2) k(1,2) b(2)] d(2,4) by (rule split_verdict)
    also have "\<dots> = (if accepts_forward ?ins tv p then VerdictAccept else VerdictDrop)"
      by (subst rules_end(2)) (simp add: verdict_before_drop [OF rules_accept(2)] forward_matches)
    finally show ?thesis .
  qed
  have "apply_rules ?d = Inr (Some (inp, fwd))" using b d(1) by (simp add: apply_rules_def)
  then show ?thesis using i f by (auto simp: named_def)
qed

text \<open>
  C9. With a network inside, and tunnels that have an IPv4 end, the firewall can always be programmed,
  and what the kernel then does is this and nothing else: to the router it accepts replies, the loopback,
  everything from inside, the ICMP messages of the two lists, the answers to its own DHCP clients, IGMP of
  the IPTV path and what an opening asks for; through the router it accepts replies, everything from inside
  or not headed inside, port forwards, ICMPv6 echo and errors and the IPTV streams. All else is dropped.
\<close>

theorem firewall_exact:
  assumes "nft_machine run" and "normalize_inside inside \<noteq> []" and "tunnels_v4 openings"
    and "\<forall>x \<in> set (normalize_inside inside) \<union> {tv_upstream tv} \<union> set (tv_downstream tv). kernel_name x"
  shows "\<exists>inp fwd. apply_rules (render_iptv True inside openings tv) = Inr (Some (inp, fwd)) \<and>
    (\<forall>p. kernel_name (pk_iif p) \<and> kernel_name (pk_oif p) \<longrightarrow>
       chain_verdict run VerdictAccept inp p =
         (if accepts_input (normalize_inside inside) openings tv p then VerdictAccept else VerdictDrop) \<and>
       chain_verdict run VerdictAccept fwd p =
         (if accepts_forward (normalize_inside inside) tv p then VerdictAccept else VerdictDrop))"
  using assms by (rule programmed_verdicts)

definition sample_inside :: "string list" where
  "sample_inside = ['' br0 '']"

definition sample_openings :: "fw_opening list" where
  "sample_openings = [\<lparr>o_for = ''remote access'', o_protocol = UDP, o_port = 51820, o_from = AddrNone\<rparr>]"

definition sample_packet :: packet where
  "sample_packet = \<lparr>pk_iif = ''ppp0'', pk_oif = ''br0'', pk_nfproto = 2, pk_l4proto = 6, pk_ct_state = 8, pk_ct_status = 0,
     pk_network = replicate 20 0, pk_transport = [0x10, 0, 0, 22]\<rparr>"

lemma sample_normalized: "normalize_inside sample_inside = [''br0'']"
  by code_simp

lemma sample_rejected:
  "\<not> accepts_input [''br0''] sample_openings no_iptv sample_packet" "\<not> accepts_forward [''br0''] no_iptv sample_packet"
  by code_simp+

lemma firewall_exact_witness:
  "\<exists>inp fwd. apply_rules (render_iptv True sample_inside sample_openings no_iptv) = Inr (Some (inp, fwd)) \<and>
     chain_verdict nft_run VerdictAccept inp sample_packet = VerdictDrop \<and>
     chain_verdict nft_run VerdictAccept fwd sample_packet = VerdictDrop"
proof -
  have "tunnels_v4 sample_openings" by code_simp
  moreover have "\<forall>x \<in> set (normalize_inside sample_inside) \<union> {tv_upstream no_iptv} \<union> set (tv_downstream no_iptv). kernel_name x"
    unfolding sample_normalized by (simp add: no_iptv_def kernel_name_def)
  moreover have "kernel_name (pk_iif sample_packet) \<and> kernel_name (pk_oif sample_packet)"
    by (simp add: sample_packet_def kernel_name_def)
  ultimately show ?thesis
    using firewall_exact [OF nft.nft_machine_axioms, of sample_inside sample_openings no_iptv] sample_rejected
    unfolding sample_normalized by auto
qed

end
