(* ===== verification/FwPlan.thy ===== *)
theory FwPlan
  imports FwKernel KernelDiff
begin

text \<open>
  \<open>internal/firewall/plan.go\<close> and \<open>apply.go\<close>, for automatic rules: validation, the plan against what
  the kernel holds, its warning, and applying it. The other modules are the value \<open>boundary\<close> of what
  they answer; a table in the kernel is the comments and expressions of its rules. Native rulesets
  (\<open>native.go\<close>) are not part of this theory.
\<close>

section \<open>Plans\<close>

datatype fw_impact = ImpactNone | ImpactReload | ImpactDisruptive

record boundary =
  b_inside :: "string + string list"
  b_openings :: "string + fw_opening list"
  b_iptv :: "string + iptv"

record fw_observed =
  fo_known :: bool
  fo_lines :: "string list"

datatype fw_warning = OutsideEveryNetwork string

record fw_plan =
  fp_changes :: "change list"
  fp_impact :: fw_impact
  fp_empty :: bool
  fp_warnings :: "fw_warning list"

datatype fw_plan_error = ReadingNetworks string | ReadingOpenings string | ErrNoInside | ReadingIPTV string
  | ObserveFailed string | SaveFailed string | BuildFailed fw_error | FlushFailed string

definition validate_firewall :: "bool \<Rightarrow> string list \<Rightarrow> fw_plan_error option" where
  "validate_firewall enabled inside = (if enabled \<and> normalize_inside inside = [] then Some ErrNoInside else None)"

definition lockout :: "fw_desired \<Rightarrow> string \<Rightarrow> fw_warning option" where
  "lockout d via =
     (if \<not> fd_enabled d \<or> via = [] \<or> via = ''lo'' \<or> via \<in> set (fd_inside d) then None
      else Some (OutsideEveryNetwork via))"

definition fw_build_plan :: "bool \<Rightarrow> boundary \<Rightarrow> fw_observed \<Rightarrow> string \<Rightarrow> fw_plan_error + (fw_plan \<times> fw_desired)" where
  "fw_build_plan enabled b obs via =
     (case b_inside b of
        Inl e \<Rightarrow> Inl (ReadingNetworks e)
      | Inr inside \<Rightarrow>
     (case b_openings b of
        Inl e \<Rightarrow> Inl (ReadingOpenings e)
      | Inr openings \<Rightarrow>
     (case validate_firewall enabled inside of
        Some e \<Rightarrow> Inl e
      | None \<Rightarrow>
     (case (if enabled then b_iptv b else Inr no_iptv) of
        Inl e \<Rightarrow> Inl (ReadingIPTV e)
      | Inr tv \<Rightarrow>
          (let desired = render_iptv enabled inside openings tv;
               changes = (if fo_known obs then diff_members (fo_lines obs) (desired_lines desired) else []);
               plan = \<lparr>fp_changes = changes, fp_impact = (if changes = [] then ImpactNone else ImpactReload),
                       fp_empty = (changes = []), fp_warnings = []\<rparr>
           in case lockout desired via of
                None \<Rightarrow> Inr (plan, desired)
              | Some w \<Rightarrow>
                  Inr (plan\<lparr>fp_warnings := [w],
                         fp_impact := (if \<not> fp_empty plan \<or> \<not> fo_known obs then ImpactDisruptive else fp_impact plan)\<rparr>,
                       desired))))))"

definition plan_diff :: "fw_plan \<Rightarrow> string" where
  "plan_diff p = concat (map (\<lambda>c. (if ch_kind c = ChangeRemove then ''-'' else ''+'') @ '' '' @ ch_line c @ [CHR 0x0A]) (fp_changes p))"

section \<open>Applying\<close>

record fw_table =
  ft_input :: "(string \<times> nft_expr list) list"
  ft_forward :: "(string \<times> nft_expr list) list"

text \<open>
  \<open>Observe\<close>, of a table the program wrote: each rule has its line as its comment, and the two counters
  come in the order they were made. A rule put in by hand, which \<open>Observe\<close> shows as unrecognised, is not in it.
\<close>

definition observe_table :: "fw_table option \<Rightarrow> fw_observed" where
  "observe_table t =
     (case t of
        None \<Rightarrow> \<lparr>fo_known = True, fo_lines = []\<rparr>
      | Some t \<Rightarrow>
          \<lparr>fo_known = True,
           fo_lines = [''nft table inet '' @ fwTableName, ''nft counter '' @ InputCounter, ''nft counter '' @ ForwardCounter,
               ''nft chain '' @ InputChain @ '' filter''] @ map fst (ft_input t)
             @ [''nft chain '' @ ForwardChain @ '' filter''] @ map fst (ft_forward t)\<rparr>)"

text \<open>\<open>LinuxKernel.Apply\<close>: one batch; a rule that cannot be built or a batch that is refused changes nothing.\<close>

definition kernel_apply :: "string option \<Rightarrow> fw_desired \<Rightarrow> fw_table option \<Rightarrow> fw_plan_error option \<times> fw_table option" where
  "kernel_apply flush d t =
     (case apply_rules d of
        Inl e \<Rightarrow> (Some (BuildFailed e), t)
      | Inr built \<Rightarrow>
          (case flush of
             Some e \<Rightarrow> (Some (FlushFailed e), t)
           | None \<Rightarrow>
               (None, map_option (\<lambda>(inp, fwd). \<lparr>ft_input = zip (map r_line (fd_input d)) inp,
                                                ft_forward = zip (map r_line (fd_forward d)) fwd\<rparr>) built)))"

text \<open>
  Intent is stored before anything is programmed; \<open>observing\<close>, \<open>saving\<close> and \<open>flush\<close> are the errors
  met, if any.
\<close>

record fw_world =
  fw_stored :: bool
  fw_kernel :: "fw_table option"

definition apply_planned ::
  "string option \<Rightarrow> string option \<Rightarrow> bool \<Rightarrow> fw_plan \<Rightarrow> fw_desired \<Rightarrow> fw_world \<Rightarrow> fw_plan_error option \<times> fw_world" where
  "apply_planned saving flush enabled plan d w =
     (case saving of
        Some e \<Rightarrow> (Some (SaveFailed e), w)
      | None \<Rightarrow>
          (let w = w\<lparr>fw_stored := enabled\<rparr>
           in if fp_empty plan then (None, w)
              else (case kernel_apply flush d (fw_kernel w) of (r, t) \<Rightarrow> (r, w\<lparr>fw_kernel := t\<rparr>))))"

definition reapply ::
  "string option \<Rightarrow> string option \<Rightarrow> string option \<Rightarrow> boundary \<Rightarrow> fw_world \<Rightarrow> fw_plan_error option \<times> fw_world" where
  "reapply observing saving flush b w =
     (case observing of
        Some e \<Rightarrow> (Some (ObserveFailed e), w)
      | None \<Rightarrow>
          (case fw_build_plan (fw_stored w) b (observe_table (fw_kernel w)) [] of
             Inl e \<Rightarrow> (Some e, w)
           | Inr (plan, d) \<Rightarrow> apply_planned saving flush (fw_stored w) plan d w))"

record fw_status =
  fs_enabled :: bool
  fs_known :: bool
  fs_drifted :: bool
  fs_inside :: "string list"
  fs_openings :: "fw_opening list"
  fs_problem :: "fw_plan_error option"

definition get_status :: "bool \<Rightarrow> boundary \<Rightarrow> fw_observed \<Rightarrow> fw_status" where
  "get_status enabled b obs =
     (let st = \<lparr>fs_enabled = enabled, fs_known = fo_known obs, fs_drifted = False,
                fs_inside = (case b_inside b of Inr i \<Rightarrow> normalize_inside i | Inl e \<Rightarrow> []),
                fs_openings = (case b_openings b of Inr ops \<Rightarrow> normalize_openings ops | Inl e \<Rightarrow> []),
                fs_problem = None\<rparr>
      in case fw_build_plan enabled b obs [] of
           Inl e \<Rightarrow> st\<lparr>fs_problem := Some e\<rparr>
         | Inr (plan, d) \<Rightarrow> st\<lparr>fs_drifted := fo_known obs \<and> \<not> fp_empty plan\<rparr>)"

section \<open>The plan and the firewall\<close>

text \<open>A boundary the firewall can be built from, and the names in it as the kernel has them.\<close>

definition good_boundary :: "boundary \<Rightarrow> bool" where
  "good_boundary b \<longleftrightarrow>
     (case b_openings b of Inl e \<Rightarrow> True | Inr ops \<Rightarrow> tunnels_v4 ops) \<and>
     (case b_inside b of Inl e \<Rightarrow> True | Inr i \<Rightarrow> list_all kernel_name (normalize_inside i)) \<and>
     (case b_iptv b of Inl e \<Rightarrow> True | Inr tv \<Rightarrow> kernel_name (tv_upstream tv) \<and> list_all kernel_name (tv_downstream tv))"

lemma build_plan_reads:
  assumes "fw_build_plan enabled b obs via = Inr (plan, d)"
  obtains inside openings tv where "b_inside b = Inr inside" "b_openings b = Inr openings"
    "validate_firewall enabled inside = None" "(if enabled then b_iptv b else Inr no_iptv) = Inr tv"
    "d = render_iptv enabled inside openings tv"
proof -
  obtain inside where i: "b_inside b = Inr inside" using assms by (auto simp: fw_build_plan_def split: sum.splits)
  obtain openings where op: "b_openings b = Inr openings" using assms i by (auto simp: fw_build_plan_def split: sum.splits)
  have v: "validate_firewall enabled inside = None"
    using assms i op by (auto simp: fw_build_plan_def split: option.splits)
  obtain tv where tv: "(if enabled then b_iptv b else Inr no_iptv) = Inr tv"
    using assms i op v by (auto simp: fw_build_plan_def split: sum.splits)
  note e = assms [unfolded fw_build_plan_def i op v tv sum.case option.case Let_def]
  have "d = render_iptv enabled inside openings tv" using e by (auto split: option.splits)
  then show thesis using that i op v tv by blast
qed

lemma build_planE:
  assumes "fw_build_plan enabled b obs via = Inr (plan, d)"
  obtains inside openings tv where "b_inside b = Inr inside" "b_openings b = Inr openings"
    "enabled \<Longrightarrow> normalize_inside inside \<noteq> []" "enabled \<Longrightarrow> b_iptv b = Inr tv" "d = render_iptv enabled inside openings tv"
    "fp_empty plan \<longleftrightarrow> fo_known obs \<longrightarrow> diff_members (fo_lines obs) (desired_lines d) = []"
    "fp_warnings plan = (case lockout d via of None \<Rightarrow> [] | Some w \<Rightarrow> [w])"
proof -
  obtain inside openings tv where b: "b_inside b = Inr inside" "b_openings b = Inr openings"
    "validate_firewall enabled inside = None" "(if enabled then b_iptv b else Inr no_iptv) = Inr tv"
    "d = render_iptv enabled inside openings tv"
    using assms by (rule build_plan_reads)
  note e = assms [unfolded fw_build_plan_def b(1-4) sum.case option.case Let_def b(5) [symmetric]]
  show thesis
  proof (rule that [OF b(1,2) _ _ b(5)])
    show "enabled \<Longrightarrow> normalize_inside inside \<noteq> []" using b(3) by (auto simp: validate_firewall_def split: if_splits)
    show "enabled \<Longrightarrow> b_iptv b = Inr tv" using b(4) by simp
    show "fp_empty plan \<longleftrightarrow> fo_known obs \<longrightarrow> diff_members (fo_lines obs) (desired_lines d) = []"
      using e by (cases "lockout d via") auto
    show "fp_warnings plan = (case lockout d via of None \<Rightarrow> [] | Some w \<Rightarrow> [w])"
      using e by (cases "lockout d via") auto
  qed
qed

text \<open>A packet that asks for nothing the firewall knows.\<close>

definition stray :: "string \<Rightarrow> packet" where
  "stray via = \<lparr>pk_iif = via, pk_oif = [], pk_nfproto = 0, pk_l4proto = 0, pk_ct_state = 8, pk_ct_status = 0,
     pk_network = [], pk_transport = []\<rparr>"

lemma stray_rejected:
  assumes "via \<noteq> ''lo''" and "via \<notin> set inside"
  shows "\<not> accepts_input inside ops tv (stray via)"
proof -
  have "(8 AND 6 :: u32) = 0" by simp
  then show ?thesis using assms by (simp add: accepts_input_def stray_def is_reply_def is_icmp_def opens_def)
qed

text \<open>
  C39. The warning about locking oneself out is exact: with the firewall on, a caller connected through
  an interface is warned unless every packet from that interface still gets in after the change, and is
  not warned when it does.
\<close>

theorem lockout_warning_exact:
  assumes "nft_machine run" and "fw_build_plan True b obs via = Inr (plan, d)" and "good_boundary b"
    and "via \<noteq> []" and "kernel_name via" and "apply_rules d = Inr (Some (inp, fwd))"
  shows "fp_warnings plan = [] \<longleftrightarrow>
    (\<forall>p. pk_iif p = via \<and> kernel_name (pk_oif p) \<longrightarrow> chain_verdict run VerdictAccept inp p = VerdictAccept)"
proof -
  obtain inside openings tv where b: "b_inside b = Inr inside" "b_openings b = Inr openings"
    "normalize_inside inside \<noteq> []" "b_iptv b = Inr tv" "d = render_iptv True inside openings tv"
    "fp_warnings plan = (case lockout d via of None \<Rightarrow> [] | Some w \<Rightarrow> [w])"
    using assms(2) by (rule build_planE) auto
  let ?ins = "normalize_inside inside"
  have g: "tunnels_v4 openings" "\<forall>x \<in> set ?ins \<union> {tv_upstream tv} \<union> set (tv_downstream tv). kernel_name x"
    using assms(3) b by (auto simp: good_boundary_def list_all_iff)
  have v: "chain_verdict run VerdictAccept inp p = (if accepts_input ?ins openings tv p then VerdictAccept else VerdictDrop)"
    if "kernel_name (pk_iif p)" "kernel_name (pk_oif p)" for p
    using programmed_verdicts [OF assms(1) b(3) g] that assms(6) b(5) by auto
  have d: "fd_enabled d" "fd_inside d = ?ins" using b(5) by (simp_all add: render_iptv_def Let_def)
  have w: "fp_warnings plan = [] \<longleftrightarrow> via = ''lo'' \<or> via \<in> set ?ins"
    using b(6) d assms(4) by (simp add: lockout_def)
  show ?thesis
  proof
    assume "fp_warnings plan = []"
    then show "\<forall>p. pk_iif p = via \<and> kernel_name (pk_oif p) \<longrightarrow> chain_verdict run VerdictAccept inp p = VerdictAccept"
      using w v assms(5) by (auto simp: accepts_input_def)
  next
    assume a: "\<forall>p. pk_iif p = via \<and> kernel_name (pk_oif p) \<longrightarrow> chain_verdict run VerdictAccept inp p = VerdictAccept"
    have s: "pk_iif (stray via) = via" "kernel_name (pk_oif (stray via))" by (simp_all add: stray_def kernel_name_def)
    then have "accepts_input ?ins openings tv (stray via)" using a v [of "stray via"] assms(5) by (auto split: if_splits)
    then show "fp_warnings plan = []" using stray_rejected w by blast
  qed
qed

section \<open>Applying settles\<close>

lemma length_build: "build_rules d rs = Inr ess \<Longrightarrow> length ess = length rs"
  by (induction rs arbitrary: ess) (auto simp: bind_res_Inr_iff)

lemma applied_lines:
  assumes "kernel_apply flush d t = (None, t')"
  shows "set (fo_lines (observe_table t')) = set (desired_lines d)" "fo_known (observe_table t')"
proof -
  show "fo_known (observe_table t')" by (simp add: observe_table_def split: option.split)
  show "set (fo_lines (observe_table t')) = set (desired_lines d)"
  proof (cases "fd_enabled d")
    case False
    then show ?thesis
      using assms by (auto simp: kernel_apply_def apply_rules_def observe_table_def desired_lines_def split: option.splits)
  next
    case True
    then obtain inp fwd where b: "build_rules d (fd_input d) = Inr inp" "build_rules d (fd_forward d) = Inr fwd"
      using assms by (cases "build_rules d (fd_input d)"; cases "build_rules d (fd_forward d)")
        (auto simp: kernel_apply_def apply_rules_def)
    have t: "t' = Some \<lparr>ft_input = zip (map r_line (fd_input d)) inp, ft_forward = zip (map r_line (fd_forward d)) fwd\<rparr>"
      using assms True b by (auto simp: kernel_apply_def apply_rules_def split: option.splits)
    show ?thesis using True length_build [OF b(1)] length_build [OF b(2)]
      by (auto simp: t observe_table_def desired_lines_def)
  qed
qed

text \<open>What is wanted depends on the intent and the boundary only.\<close>

lemma replanned:
  assumes "fw_build_plan enabled b obs via = Inr (plan, d)"
  shows "\<exists>plan'. fw_build_plan enabled b obs' via' = Inr (plan', d) \<and>
    (fp_empty plan' \<longleftrightarrow> (fo_known obs' \<longrightarrow> diff_members (fo_lines obs') (desired_lines d) = []))"
proof -
  obtain inside openings tv where b: "b_inside b = Inr inside" "b_openings b = Inr openings"
    "validate_firewall enabled inside = None" "(if enabled then b_iptv b else Inr no_iptv) = Inr tv"
    "d = render_iptv enabled inside openings tv"
    using assms by (rule build_plan_reads)
  show ?thesis
    unfolding fw_build_plan_def b(1-4) sum.case option.case Let_def b(5) [symmetric]
    by (cases "lockout d via'") auto
qed

text \<open>
  C40. A reapply that reports no error leaves nothing to do: planning the stored intent again, against
  what the kernel then holds, is empty, and the status shows no drift.
\<close>

theorem reapply_settles:
  assumes "reapply observing saving flush b w = (None, w')"
  shows "fw_stored w' = fw_stored w \<and>
    (\<exists>plan d. fw_build_plan (fw_stored w') b (observe_table (fw_kernel w')) via = Inr (plan, d) \<and> fp_empty plan) \<and>
    \<not> fs_drifted (get_status (fw_stored w') b (observe_table (fw_kernel w')))"
proof -
  obtain plan d where p: "fw_build_plan (fw_stored w) b (observe_table (fw_kernel w)) [] = Inr (plan, d)"
    "apply_planned saving flush (fw_stored w) plan d w = (None, w')"
    using assms by (auto simp: reapply_def split: option.splits sum.splits)
  have s: "fw_stored w' = fw_stored w"
    using p(2) by (auto simp: apply_planned_def Let_def split: option.splits if_splits prod.splits)
  have k: "fo_known (observe_table t)" for t by (simp add: observe_table_def split: option.split)
  have "diff_members (fo_lines (observe_table (fw_kernel w'))) (desired_lines d) = []"
  proof (cases "fp_empty plan")
    case True
    then have "fw_kernel w' = fw_kernel w" using p(2) by (auto simp: apply_planned_def split: option.splits)
    then show ?thesis using replanned [OF p(1), of "observe_table (fw_kernel w)" "[]"] p(1) True k by auto
  next
    case False
    then have "kernel_apply flush d (fw_kernel w) = (None, fw_kernel w')"
      using p(2) by (auto simp: apply_planned_def split: option.splits prod.splits)
    then show ?thesis using applied_lines(1) by (simp add: members.in_step)
  qed
  then have r: "\<exists>plan'. fw_build_plan (fw_stored w') b (observe_table (fw_kernel w')) v = Inr (plan', d) \<and> fp_empty plan'" for v
    using replanned [OF p(1), of "observe_table (fw_kernel w')" v] s by auto
  obtain plan' where "fw_build_plan (fw_stored w') b (observe_table (fw_kernel w')) [] = Inr (plan', d)" "fp_empty plan'"
    using r by blast
  then have "\<not> fs_drifted (get_status (fw_stored w') b (observe_table (fw_kernel w')))"
    by (simp add: get_status_def Let_def)
  then show ?thesis using s r by blast
qed

section \<open>A plan\<close>

definition sample_boundary :: boundary where
  "sample_boundary = \<lparr>b_inside = Inr sample_inside, b_openings = Inr sample_openings, b_iptv = Inr no_iptv\<rparr>"

definition sample_desired :: fw_desired where
  "sample_desired = render_iptv True sample_inside sample_openings no_iptv"

lemma sample_good: "good_boundary sample_boundary"
proof -
  have "tunnels_v4 sample_openings" by code_simp
  then show ?thesis by (simp add: good_boundary_def sample_boundary_def sample_normalized no_iptv_def kernel_name_def)
qed

lemma sample_built: "\<exists>inp fwd. apply_rules sample_desired = Inr (Some (inp, fwd))"
proof -
  have "\<forall>x \<in> set (normalize_inside sample_inside) \<union> {tv_upstream no_iptv} \<union> set (tv_downstream no_iptv). kernel_name x"
    unfolding sample_normalized by (simp add: no_iptv_def kernel_name_def)
  moreover have "tunnels_v4 sample_openings" by code_simp
  ultimately show ?thesis
    using programmed_verdicts [OF nft.nft_machine_axioms, of sample_inside sample_openings no_iptv]
    by (auto simp: sample_normalized sample_desired_def)
qed

lemma sample_planned:
  "\<exists>plan. fw_build_plan True sample_boundary (observe_table None) via = Inr (plan, sample_desired) \<and>
     fp_warnings plan = (case lockout sample_desired via of None \<Rightarrow> [] | Some w \<Rightarrow> [w])"
  by (simp add: fw_build_plan_def sample_boundary_def validate_firewall_def sample_normalized Let_def
    flip: sample_desired_def split: option.split)

lemma lockout_warning_exact_witness:
  "\<exists>plan inp fwd. fw_build_plan True sample_boundary (observe_table None) ''ppp0'' = Inr (plan, sample_desired) \<and>
     apply_rules sample_desired = Inr (Some (inp, fwd)) \<and> fp_warnings plan \<noteq> [] \<and>
     \<not> (\<forall>p. pk_iif p = ''ppp0'' \<and> kernel_name (pk_oif p) \<longrightarrow> chain_verdict nft_run VerdictAccept inp p = VerdictAccept)"
proof -
  obtain plan where p: "fw_build_plan True sample_boundary (observe_table None) ''ppp0'' = Inr (plan, sample_desired)"
    "fp_warnings plan = (case lockout sample_desired ''ppp0'' of None \<Rightarrow> [] | Some w \<Rightarrow> [w])"
    using sample_planned by blast
  obtain inp fwd where a: "apply_rules sample_desired = Inr (Some (inp, fwd))" using sample_built by blast
  have "fp_warnings plan \<noteq> []"
    using p(2) by (simp add: lockout_def sample_desired_def render_iptv_def sample_normalized Let_def)
  then show ?thesis
    using lockout_warning_exact [OF nft.nft_machine_axioms p(1) sample_good _ _ a] p(1) a by (auto simp: kernel_name_def)
qed

definition sample_world :: fw_world where
  "sample_world = \<lparr>fw_stored = True, fw_kernel = None\<rparr>"

lemma reapply_settles_witness:
  "\<exists>w'. reapply None None None sample_boundary sample_world = (None, w') \<and>
     \<not> fs_drifted (get_status True sample_boundary (observe_table (fw_kernel w')))"
proof -
  obtain plan where p: "fw_build_plan True sample_boundary (observe_table None) [] = Inr (plan, sample_desired)"
    using sample_planned by blast
  obtain inp fwd where a: "apply_rules sample_desired = Inr (Some (inp, fwd))" using sample_built by blast
  obtain w' where w: "reapply None None None sample_boundary sample_world = (None, w')"
    using p a by (cases "fp_empty plan") (auto simp: reapply_def sample_world_def apply_planned_def kernel_apply_def Let_def)
  have "fw_stored sample_world = True" by (simp add: sample_world_def)
  then show ?thesis using reapply_settles [OF w, of "[]"] w by auto
qed

end
