(* ===== verification/AddrParse.thy ===== *)
theory AddrParse
  imports Mac Bytes GoNet
begin

text \<open>
  \<open>netip.ParseAddr\<close> and \<open>netip.ParsePrefix\<close> of the standard library, which the configuration's
  addresses are read with. Errors are \<open>None\<close>.
\<close>

section \<open>IPv4\<close>

text \<open>A field of a dotted address: digits only, no leading zero, at most 255.\<close>

definition v4_field :: "string \<Rightarrow> byte option" where
  "v4_field s =
     (if s = [] \<or> length s > 3 \<or> (length s > 1 \<and> hd s = CHR ''0'') then None
      else (case digits_value 0 s of
              None \<Rightarrow> None
            | Some n \<Rightarrow> if n > 255 then None else Some (of_nat n)))"

definition parse_v4_fields :: "string \<Rightarrow> byte list option" where
  "parse_v4_fields s =
     (case map v4_field (split_on CHR ''.'' s) of
        [Some a, Some b, Some c, Some d] \<Rightarrow> Some [a, b, c, d]
      | _ \<Rightarrow> None)"

section \<open>IPv6\<close>

text \<open>The value of the hexadecimal digits at the front and how many they are; more than four are an error.\<close>

definition hex_group :: "string \<Rightarrow> (nat \<times> nat) option" where
  "hex_group s =
     (let ds = takeWhile (\<lambda>c. hex_digit c \<noteq> None) s
      in if ds = [] \<or> length ds > 4 then None
         else Some (foldl (\<lambda>acc c. acc * 16 + the (hex_digit c)) 0 ds, length ds))"

lemma shorter: "c # d # r = drop off s \<Longrightarrow> Suc (length r) < length s"
proof -
  assume e: "c # d # r = drop off s"
  have "length (c # d # r) = length s - off" unfolding e by simp
  then show ?thesis by simp
qed

text \<open>
  The groups of an address: the bytes so far, where the ellipsis is among them, and the rest of
  the text. The result is the bytes, the ellipsis and what is left when sixteen are read.
\<close>

function v6_groups_of :: "byte list \<Rightarrow> nat option \<Rightarrow> string \<Rightarrow> (byte list \<times> nat option \<times> string) option" where
  "v6_groups_of ip ell s =
     (if length ip \<ge> 16 then Some (ip, ell, s)
      else (case hex_group s of
        None \<Rightarrow> None
      | Some (acc, off) \<Rightarrow>
          if off < length s \<and> s ! off = CHR ''.'' then
            (if ell = None \<and> length ip \<noteq> 12 \<or> length ip + 4 > 16 then None
             else map_option (\<lambda>v4. (ip @ v4, ell, [])) (parse_v4_fields s))
          else (let ip = ip @ [of_nat (acc div 256), of_nat acc]; s = drop off s
                in case s of
                     [] \<Rightarrow> Some (ip, ell, [])
                   | [c] \<Rightarrow> None
                   | c # d # r \<Rightarrow>
                       if c \<noteq> CHR '':'' then None
                       else if d = CHR '':'' then
                         (if ell \<noteq> None then None
                          else if r = [] then Some (ip, Some (length ip), [])
                          else v6_groups_of ip (Some (length ip)) r)
                       else v6_groups_of ip ell (d # r))))"
  by pat_completeness auto
termination
proof (relation "measure (\<lambda>(ip, ell, s). length s)")
qed (auto dest: shorter)

definition expand_ellipsis :: "byte list \<Rightarrow> nat option \<Rightarrow> byte list option" where
  "expand_ellipsis ip ell =
     (if length ip < 16 then
        (case ell of
           None \<Rightarrow> None
         | Some e \<Rightarrow> Some (take e ip @ replicate (16 - length ip) 0 @ drop e ip))
      else if ell \<noteq> None then None else Some ip)"

definition parse_v6 :: "string \<Rightarrow> addr option" where
  "parse_v6 s0 =
     (let body = takeWhile (\<lambda>c. c \<noteq> CHR ''%'') s0;
          zoned = body \<noteq> s0;
          zone = drop (Suc (length body)) s0;
          leading = starts_with ''::'' body;
          s = (if leading then drop 2 body else body)
      in if zoned \<and> zone = [] then None
         else if leading \<and> s = [] then Some (V6 0 zone)
         else (case v6_groups_of [] (if leading then Some 0 else None) s of
                 None \<Rightarrow> None
               | Some (ip, ell, rest) \<Rightarrow>
                   if rest \<noteq> [] then None
                   else map_option (\<lambda>bs. V6 (be_word bs) zone) (expand_ellipsis ip ell)))"

section \<open>Addresses and prefixes\<close>

definition parse_addr :: "string \<Rightarrow> addr option" where
  "parse_addr s =
     (case find (\<lambda>c. c \<in> {CHR ''.'', CHR '':'', CHR ''%''}) s of
        None \<Rightarrow> None
      | Some c \<Rightarrow>
          if c = CHR ''.'' then map_option (\<lambda>bs. V4 (be_word bs)) (parse_v4_fields s)
          else if c = CHR '':'' then parse_v6 s
          else None)"

definition parse_prefix :: "string \<Rightarrow> prefix option" where
  "parse_prefix s =
     (case last_index ''/'' s of
        None \<Rightarrow> None
      | Some i \<Rightarrow>
          (case parse_addr (take i s) of
             None \<Rightarrow> None
           | Some a \<Rightarrow>
               (let bits = drop (Suc i) s
                in if zone a \<noteq> [] then None
                   else if length bits > 1 \<and> \<not> hd bits \<in> set ''123456789'' then None
                   else (case atoi bits of
                           None \<Rightarrow> None
                         | Some n \<Rightarrow> if n < 0 \<or> n > int (bit_len a) then None else Some (prefix_from a n)))))"

lemma parse_examples:
  "parse_addr ''2001:db8::1'' = Some (V6 0x20010db8000000000000000000000001 [])"
  "parse_prefix ''10.1.0.0/16'' = Some \<lparr>paddr = V4 0x0a010000, pbits = 16\<rparr>"
  "parse_addr ''10.0.0.05'' = None"
  by code_simp+

end
