(* ===== verification/Exits.thy ===== *)
theory Exits
  imports NatRender AddrParse
begin

text \<open>
  \<open>internal/gateway/config.go\<close> and \<open>resources.go\<close>: the exits of the router and what is sent through
  them, the edits of that document, and the marks, route tables and priorities an exit's slot stands
  for. An edit of the receiver returns the new value; a pointer that may be nil is an option.
\<close>

section \<open>The document\<close>

record via_spec =
  vs_kind :: string
  vs_interface :: string
  vs_next_hop :: "addr option"
  vs_dev :: string

definition ViaInterface :: string where "ViaInterface = ''interface''"
definition ViaNextHop :: string where "ViaNextHop = ''next_hop''"
definition ViaBlocked :: string where "ViaBlocked = ''blocked''"
definition ViaKinds :: "string list" where "ViaKinds = [ViaInterface, ViaNextHop, ViaBlocked]"

definition IPv6Via :: string where "IPv6Via = ''via''"
definition IPv6Block :: string where "IPv6Block = ''block''"
definition IPv6Direct :: string where "IPv6Direct = ''direct''"
definition IPv6Modes :: "string list" where "IPv6Modes = [IPv6Via, IPv6Block, IPv6Direct]"

definition FailBlock :: string where "FailBlock = ''block''"
definition FailDirect :: string where "FailDirect = ''direct''"
definition FailureModes :: "string list" where "FailureModes = [FailBlock, FailDirect]"

text \<open>Durations are nanoseconds; a target is an address and a port.\<close>

record probe =
  pb_target :: "addr \<times> u16"
  pb_interval :: int
  pb_timeout :: int
  pb_failures :: int
  pb_successes :: int

definition DefaultProbeInterval :: int where "DefaultProbeInterval = 30 * 1000000000"
definition DefaultProbeTimeout :: int where "DefaultProbeTimeout = 5 * 1000000000"
definition DefaultProbeFailures :: int where "DefaultProbeFailures = 3"
definition DefaultProbeSuccesses :: int where "DefaultProbeSuccesses = 2"

definition probe_resolved :: "probe \<Rightarrow> probe" where
  "probe_resolved p =
     (let p = (if pb_interval p \<le> 0 then p\<lparr>pb_interval := DefaultProbeInterval\<rparr> else p);
          p = (if pb_timeout p \<le> 0 then p\<lparr>pb_timeout := DefaultProbeTimeout\<rparr> else p);
          p = (if pb_failures p \<le> 0 then p\<lparr>pb_failures := DefaultProbeFailures\<rparr> else p)
      in if pb_successes p \<le> 0 then p\<lparr>pb_successes := DefaultProbeSuccesses\<rparr> else p)"

record exit_dns =
  xd_mode :: string
  xd_server :: "addr \<times> u16"

record exit =
  ex_name :: string
  ex_via :: via_spec
  ex_slot :: int
  ex_ipv6 :: string
  ex_on_failure :: string
  ex_snat :: "bool option"
  ex_probe :: "probe option"
  ex_dns :: "exit_dns option"

text \<open>An interface, a MAC address or a destination, and the exit its traffic takes.\<close>

record assignment =
  as_key :: string
  as_exit :: string

record latency_site =
  ls_name :: string
  ls_url :: string
  ls_exit :: string
  ls_icon :: string

record gateway =
  latency_target :: string
  latency_sites :: "latency_site list"
  latency_common :: "assignment list"
  latency_pins :: "string list"
  gw_enabled :: bool
  exits :: "exit list"
  gw_forwards :: "forward list"
  gw_snat :: "bool option"
  gw_default :: string
  gw_stats :: "bool option"
  ipv6_forwarding :: "bool option"
  interfaces :: "assignment list"
  devices :: "assignment list"
  destinations :: "assignment list"

section \<open>Reading it\<close>

definition snat_or_default :: "exit \<Rightarrow> bool" where
  "snat_or_default e =
     (if vs_kind (ex_via e) \<noteq> ViaNextHop then False else case ex_snat e of None \<Rightarrow> True | Some b \<Rightarrow> b)"

definition ipv6_or_default :: "exit \<Rightarrow> string" where
  "ipv6_or_default e = (if ex_ipv6 e = [] then IPv6Block else ex_ipv6 e)"

definition failure_or_default :: "string \<Rightarrow> string" where
  "failure_or_default f = (if f = [] then FailBlock else f)"

definition stats_or_default :: "gateway \<Rightarrow> bool" where
  "stats_or_default c = (case gw_stats c of None \<Rightarrow> True | Some b \<Rightarrow> b)"

definition gw_snat_or_default :: "gateway \<Rightarrow> bool" where
  "gw_snat_or_default c = (case gw_snat c of None \<Rightarrow> True | Some b \<Rightarrow> b)"

definition find_exit :: "gateway \<Rightarrow> string \<Rightarrow> exit option" where
  "find_exit c name = find (\<lambda>e. ex_name e = name) (exits c)"

datatype exit_source = SourceDefault | SourceInterface

definition assigned :: "gateway \<Rightarrow> string \<Rightarrow> string \<times> exit_source" where
  "assigned c iface =
     (case find (\<lambda>a. as_key a = iface) (interfaces c) of
        None \<Rightarrow> (gw_default c, SourceDefault)
      | Some a \<Rightarrow> if as_exit a = [] then (gw_default c, SourceDefault) else (as_exit a, SourceInterface))"

definition in_use :: "gateway \<Rightarrow> string \<Rightarrow> bool" where
  "in_use c name =
     (if list_ex (\<lambda>a. as_exit a = name \<and> name \<noteq> []) (destinations c) then True
      else if name = [] then False
      else if gw_default c = name then True
      else if list_ex (\<lambda>a. as_exit a = name) (interfaces c) then True
      else list_ex (\<lambda>a. as_exit a = name) (devices c))"

definition used_by :: "gateway \<Rightarrow> string \<Rightarrow> string list" where
  "used_by c name =
     (if name = [] then []
      else sort_by (\<le>)
        (map (\<lambda>a. ''destination '' @ as_key a) (filter (\<lambda>a. as_exit a = name) (destinations c))
         @ map as_key (filter (\<lambda>a. fst (assigned c (as_key a)) = name) (interfaces c))
         @ map as_key (filter (\<lambda>a. as_exit a = name) (devices c))))"

definition gateway_empty :: "gateway \<Rightarrow> bool" where
  "gateway_empty c =
     (destinations c = [] \<and> exits c = [] \<and> interfaces c = [] \<and> devices c = [] \<and> gw_default c = [] \<and> gw_forwards c = [])"

section \<open>Slots\<close>

definition MarkMask :: u32 where "MarkMask = 0x00ff0000"
definition DirectMark :: u32 where "DirectMark = 0x00ff0000"
definition MarkShift :: nat where "MarkShift = 16"
definition Base :: int where "Base = 8100"
definition MaxExitSlot :: int where "MaxExitSlot = 80"
definition LocalPriority :: int where "LocalPriority = Base"

definition exit_slot_valid :: "int \<Rightarrow> bool" where
  "exit_slot_valid s = (s \<ge> 1 \<and> s \<le> MaxExitSlot)"

definition slot_mark :: "int \<Rightarrow> u32" where
  "slot_mark s = push_bit MarkShift (of_int s) AND MarkMask"

definition slot_table :: "int \<Rightarrow> int" where
  "slot_table s = Base + s"

definition slot_priority :: "int \<Rightarrow> int" where
  "slot_priority s = Base + s"

definition owns_priority :: "int \<Rightarrow> bool" where
  "owns_priority p = (p \<ge> LocalPriority \<and> p \<le> Base + MaxExitSlot)"

definition owns_table :: "int \<Rightarrow> bool" where
  "owns_table i = (i \<ge> Base + 1 \<and> i \<le> Base + MaxExitSlot)"

fun drop_exit_slots :: "int list \<Rightarrow> exit list \<Rightarrow> exit list \<times> int list" where
  "drop_exit_slots taken [] = ([], taken)"
| "drop_exit_slots taken (e # es) =
     (if \<not> exit_slot_valid (ex_slot e) \<or> ex_slot e \<in> set taken
      then (let (es', t) = drop_exit_slots taken es in (e\<lparr>ex_slot := 0\<rparr> # es', t))
      else (let (es', t) = drop_exit_slots (ex_slot e # taken) es in (e # es', t)))"

fun fill_exit_slots :: "int \<Rightarrow> int list \<Rightarrow> exit list \<Rightarrow> exit list" where
  "fill_exit_slots n taken [] = []"
| "fill_exit_slots n taken (e # es) =
     (if ex_slot e \<noteq> 0 then e # fill_exit_slots n taken es
      else (let n' = free_from MaxExitSlot taken n
            in if n' > MaxExitSlot then e # es
               else e\<lparr>ex_slot := n'\<rparr> # fill_exit_slots n' (n' # taken) es))"

definition allocate_exit_slots :: "exit list \<Rightarrow> exit list" where
  "allocate_exit_slots es = (let (es', taken) = drop_exit_slots [] es in fill_exit_slots 1 taken es')"

section \<open>Normalizing\<close>

definition destination_prefix :: "string \<Rightarrow> prefix option" where
  "destination_prefix s =
     (case parse_addr s of
        Some a \<Rightarrow>
          if zone a = [] \<and> \<not> is4in6 a then Some (prefix_from a (int (bit_len a)))
          else (case parse_prefix s of None \<Rightarrow> None | Some p \<Rightarrow> if is4in6 (paddr p) then None else Some (masked p))
      | None \<Rightarrow> (case parse_prefix s of None \<Rightarrow> None | Some p \<Rightarrow> if is4in6 (paddr p) then None else Some (masked p)))"

definition latency_catalog :: "string list" where
  "latency_catalog = [''WeChat'', ''QQ'', ''Telegram'', ''Feishu'', ''Weibo'', ''Xiaohongshu'', ''X'', ''Douban'', ''Douyin'',
     ''Bilibili'', ''YouTube'', ''Netflix'', ''Spotify'', ''Sina News'', ''Tencent News'', ''NetEase News'', ''CNN'', ''Taobao'',
     ''JD'', ''Pinduoduo'', ''Amazon'', ''Baidu'', ''Google'', ''GitHub'', ''Zhihu'']"

definition known_site :: "gateway \<Rightarrow> string \<Rightarrow> bool" where
  "known_site c name = (name \<in> set latency_catalog \<or> list_ex (\<lambda>s. ls_name s = name) (latency_sites c))"

definition by_key :: "assignment \<Rightarrow> assignment \<Rightarrow> bool" where
  "by_key a b = (as_key a \<le> as_key b)"

definition by_exit_name :: "exit \<Rightarrow> exit \<Rightarrow> bool" where
  "by_exit_name a b = (ex_name a \<le> ex_name b)"

definition tidy_destination :: "assignment \<Rightarrow> assignment" where
  "tidy_destination a =
     (let k = trim_space (as_key a)
      in \<lparr>as_key = (case destination_prefix k of None \<Rightarrow> k | Some p \<Rightarrow> prefix_string p), as_exit = trim_space (as_exit a)\<rparr>)"

definition tidy_exit :: "exit \<Rightarrow> exit" where
  "tidy_exit e =
     e\<lparr>ex_name := trim_space (ex_name e),
       ex_via := (ex_via e)\<lparr>vs_interface := trim_space (vs_interface (ex_via e)), vs_dev := trim_space (vs_dev (ex_via e))\<rparr>,
       ex_dns := (case ex_dns e of
                    Some d \<Rightarrow> if xd_mode d = ''olr'' \<and> \<not> is_valid (fst (xd_server d)) then None else Some d
                  | None \<Rightarrow> None)\<rparr>"

definition tidy_assignment :: "assignment \<Rightarrow> assignment" where
  "tidy_assignment a = \<lparr>as_key = trim_space (as_key a), as_exit = trim_space (as_exit a)\<rparr>"

definition tidy_device :: "assignment \<Rightarrow> assignment" where
  "tidy_device a =
     (let k = trim_space (as_key a)
      in \<lparr>as_key = (case normalize_mac k of None \<Rightarrow> k | Some m \<Rightarrow> m), as_exit = trim_space (as_exit a)\<rparr>)"

definition normalize_gateway :: "gateway \<Rightarrow> gateway" where
  "normalize_gateway c =
     c\<lparr>latency_pins := compact_by (=) (sort_by (\<le>) (filter (known_site c) (latency_pins c))),
       destinations := sort_by by_key (map tidy_destination (destinations c)),
       gw_default := trim_space (gw_default c),
       exits := allocate_exit_slots (sort_by by_exit_name (map tidy_exit (exits c))),
       interfaces := sort_by by_key (map tidy_assignment (interfaces c)),
       devices := sort_by by_key (map tidy_device (devices c)),
       gw_forwards := normalize (gw_forwards c)\<rparr>"

section \<open>Editing it\<close>

fun replace_exit :: "exit \<Rightarrow> exit list \<Rightarrow> exit list option" where
  "replace_exit e [] = None"
| "replace_exit e (x # xs) =
     (if ex_name x = ex_name e then Some ((if ex_slot e = 0 then e\<lparr>ex_slot := ex_slot x\<rparr> else e) # xs)
      else map_option (Cons x) (replace_exit e xs))"

definition upsert_exit :: "exit \<Rightarrow> gateway \<Rightarrow> gateway" where
  "upsert_exit e c = normalize_gateway (c\<lparr>exits := (case replace_exit e (exits c) of None \<Rightarrow> exits c @ [e] | Some xs \<Rightarrow> xs)\<rparr>)"

fun set_key :: "string \<Rightarrow> string \<Rightarrow> assignment list \<Rightarrow> assignment list" where
  "set_key k x [] = [\<lparr>as_key = k, as_exit = x\<rparr>]"
| "set_key k x (a # as) = (if as_key a = k then a\<lparr>as_exit := x\<rparr> # as else a # set_key k x as)"

fun remove_key :: "string \<Rightarrow> assignment list \<Rightarrow> assignment list \<times> bool" where
  "remove_key k [] = ([], False)"
| "remove_key k (a # as) = (if as_key a = k then (as, True) else apfst (Cons a) (remove_key k as))"

definition set_assignment :: "string \<Rightarrow> string \<Rightarrow> gateway \<Rightarrow> gateway" where
  "set_assignment iface x c = normalize_gateway (c\<lparr>interfaces := set_key iface x (interfaces c)\<rparr>)"

definition remove_assignment :: "string \<Rightarrow> gateway \<Rightarrow> gateway \<times> bool" where
  "remove_assignment iface c = (case remove_key iface (interfaces c) of (as, ok) \<Rightarrow> (c\<lparr>interfaces := as\<rparr>, ok))"

definition norm_mac :: "string \<Rightarrow> string" where
  "norm_mac mac = (case normalize_mac mac of None \<Rightarrow> mac | Some m \<Rightarrow> m)"

definition set_device :: "string \<Rightarrow> string \<Rightarrow> gateway \<Rightarrow> gateway" where
  "set_device mac x c = normalize_gateway (c\<lparr>devices := set_key (norm_mac mac) x (devices c)\<rparr>)"

definition remove_device :: "string \<Rightarrow> gateway \<Rightarrow> gateway \<times> bool" where
  "remove_device mac c = (case remove_key (norm_mac mac) (devices c) of (as, ok) \<Rightarrow> (c\<lparr>devices := as\<rparr>, ok))"

fun remove_named :: "string \<Rightarrow> exit list \<Rightarrow> exit list \<times> bool" where
  "remove_named name [] = ([], False)"
| "remove_named name (e # es) = (if ex_name e = name then (es, True) else apfst (Cons e) (remove_named name es))"

definition remove_exit :: "string \<Rightarrow> gateway \<Rightarrow> gateway \<times> bool" where
  "remove_exit name c = (case remove_named name (exits c) of (es, ok) \<Rightarrow> (c\<lparr>exits := es\<rparr>, ok))"

definition follow :: "string \<Rightarrow> string \<Rightarrow> string \<Rightarrow> string" where
  "follow old new x = (if x = old then new else x)"

definition rename_exit :: "string \<Rightarrow> string \<Rightarrow> gateway \<Rightarrow> gateway \<times> bool" where
  "rename_exit old new c =
     (case find_exit c old of
        None \<Rightarrow> (c, False)
      | Some e \<Rightarrow>
          (let move = map (\<lambda>a. a\<lparr>as_exit := follow old new (as_exit a)\<rparr>)
           in (normalize_gateway
                 (c\<lparr>destinations := move (destinations c),
                    exits := fst (remove_named old (exits c)) @ [e\<lparr>ex_name := new\<rparr>],
                    gw_default := follow old new (gw_default c),
                    interfaces := move (interfaces c),
                    devices := move (devices c),
                    latency_sites := map (\<lambda>s. s\<lparr>ls_exit := follow old new (ls_exit s)\<rparr>) (latency_sites c),
                    latency_common := move (latency_common c)\<rparr>), True)))"

section \<open>What the NAT module is given\<close>

definition overlaps_any :: "prefix \<Rightarrow> prefix list \<Rightarrow> bool" where
  "overlaps_any p networks = list_ex (\<lambda>n. prefix_overlaps n p) networks"

definition nat_of :: "gateway \<Rightarrow> string \<Rightarrow> prefix list \<Rightarrow> dial_in option \<Rightarrow> nat_config" where
  "nat_of c up networks dial =
     (let d = (case dial of
                 None \<Rightarrow> None
               | Some d \<Rightarrow> if prefix_valid (di_prefix d) then Some (d\<lparr>di_uplink := up\<rparr>) else None);
          sources = networks @ (case d of
                 None \<Rightarrow> []
               | Some d \<Rightarrow> if overlaps_any (di_prefix d) networks then [] else [masked (di_prefix d)])
      in \<lparr>enabled = gw_enabled c, forwards = gw_forwards c,
          egress = (if gw_snat_or_default c \<and> up \<noteq> [] \<and> networks \<noteq> []
                    then Some \<lparr>e_interface = up, e_sources = sort_by prefix_before sources\<rparr> else None),
          dial_in = d\<rparr>)"

end
