(* ===== verification/ExitRender.thy ===== *)
theory ExitRender
  imports Exits
begin

text \<open>
  \<open>internal/gateway/render.go\<close> and the rendering of \<open>destination.go\<close>: the classification table, the
  policy rules, the routes of every exit's own table and the sysctls a configuration asks for, given
  the links and which exits are up.
\<close>

section \<open>What is rendered\<close>

record stat_set =
  st_name :: string
  st_v6 :: bool
  st_down :: bool

record stat_chain =
  sc_name :: string
  sc_hook :: string
  sc_rules :: "(stat_set \<times> bool) list"

record exit_rule =
  er_exit :: string
  er_mark :: u32
  er_counter :: string

text \<open>A source rule; with a MAC address a device rule, with a destination a destination rule.\<close>

record source_rule =
  sr_interface :: string
  sr_exit :: string
  sr_prefix :: prefix
  sr_mark :: u32

record device_rule = source_rule +
  dr_mac :: string

record destination_rule = source_rule +
  dest_prefix :: prefix

record snat_rule =
  sn_exit :: string
  sn_mark :: u32
  sn_dev :: string

datatype policy_kind = RuleLocal | RuleMark

record rule_spec =
  rs_kind :: policy_kind
  rs_priority :: int
  rs_v6 :: bool
  rs_mark :: u32
  rs_table :: int
  rs_exit :: string

datatype route_type = RouteNone | RouteVia | RouteUnreachable

record route_spec =
  rt_table :: int
  rt_v6 :: bool
  rt_type :: route_type
  rt_gateway :: "addr option"
  rt_dev :: string
  rt_priority :: int
  rt_exit :: string

record gw_desired =
  gd_enabled :: bool
  gd_destinations :: "destination_rule list"
  gd_exits :: "exit_rule list"
  gd_devices :: "device_rule list"
  gd_sources :: "source_rule list"
  gd_snat :: "snat_rule list"
  gd_counters :: "string list"
  gd_rules :: "rule_spec list"
  gd_routes :: "route_spec list"
  gd_sysctls :: "(string \<times> string) list"
  gd_stat :: "stat_chain list"

section \<open>Statistics\<close>

definition StatChains :: "stat_chain list" where
  "StatChains =
     (let up4 = \<lparr>st_name = ''up4'', st_v6 = False, st_down = False\<rparr>;
          down4 = \<lparr>st_name = ''down4'', st_v6 = False, st_down = True\<rparr>;
          up6 = \<lparr>st_name = ''up6'', st_v6 = True, st_down = False\<rparr>;
          down6 = \<lparr>st_name = ''down6'', st_v6 = True, st_down = True\<rparr>
      in [\<lparr>sc_name = ''account'', sc_hook = ''forward'',
            sc_rules = [(up4, False), (up4, True), (down4, False), (down4, True),
                        (up6, False), (up6, True), (down6, False), (down6, True)]\<rparr>,
          \<lparr>sc_name = ''local-in'', sc_hook = ''input'', sc_rules = [(up4, False), (up6, False)]\<rparr>,
          \<lparr>sc_name = ''local-out'', sc_hook = ''output'', sc_rules = [(down4, False), (down6, False)]\<rparr>])"

definition stat_rule_line :: "stat_set \<times> bool \<Rightarrow> string" where
  "stat_rule_line x =
     (let s = fst x; dnat = snd x;
          key = (if st_v6 s then ''ipv6_addr'' else ''ipv4_addr'');
          field = (if st_down s then ''daddr'' else ''saddr'');
          direction = (if dnat then (if st_down s then ''original'' else ''reply'')
                       else (if st_down s then ''reply'' else ''original''));
          status = (if dnat then ''dnat'' else ''not dnat'')
      in ''nft stat set '' @ st_name s @ '' '' @ key @ '' . mark from '' @ (if st_v6 s then ''ip6 '' else ''ip '') @ field
         @ '' where ct direction '' @ direction @ '' status '' @ status)"

section \<open>Exits\<close>

definition socks_interface :: string where "socks_interface = ''olrsocks0''"

type_synonym health = "string \<Rightarrow> bool option"

definition health_down :: "health \<Rightarrow> string \<Rightarrow> bool" where
  "health_down h name = (h name = Some False)"

definition counter_name :: "exit \<Rightarrow> string" where
  "counter_name e = ''exit'' @ itoa_int (ex_slot e)"

definition carries :: "exit \<Rightarrow> bool \<Rightarrow> bool" where
  "carries e v6 =
     (if vs_kind (ex_via e) = ViaInterface then \<not> v6 \<or> vs_interface (ex_via e) \<noteq> socks_interface
      else if vs_kind (ex_via e) = ViaNextHop then
        (case vs_next_hop (ex_via e) of
           None \<Rightarrow> False
         | Some hop \<Rightarrow> (is6 hop \<and> \<not> is4in6 hop) = v6)
      else vs_kind (ex_via e) = ViaBlocked)"

definition interface_containing :: "link_view \<Rightarrow> addr \<Rightarrow> link_info option" where
  "interface_containing links a =
     (case all_links links of
        None \<Rightarrow> None
      | Some ls \<Rightarrow> find (\<lambda>l. l_adopted l \<and> link_contains l a) ls)"

definition next_hop_dev :: "exit \<Rightarrow> link_view \<Rightarrow> string" where
  "next_hop_dev e links =
     (if vs_dev (ex_via e) \<noteq> [] then vs_dev (ex_via e)
      else (case vs_next_hop (ex_via e) of
              None \<Rightarrow> []
            | Some hop \<Rightarrow> (case interface_containing links hop of None \<Rightarrow> [] | Some l \<Rightarrow> l_name l)))"

definition blank_route :: "route_type \<Rightarrow> route_spec" where
  "blank_route t = \<lparr>rt_table = 0, rt_v6 = False, rt_type = t, rt_gateway = None, rt_dev = [], rt_priority = 0, rt_exit = []\<rparr>"

text \<open>\<open>exitRoute\<close>; \<open>None\<close> is no route at all. A next hop that carries a family is not nil.\<close>

definition exit_route :: "exit \<Rightarrow> link_view \<Rightarrow> bool \<Rightarrow> bool \<Rightarrow> route_spec option" where
  "exit_route e links v6 down' =
     (if down' then Some (blank_route RouteUnreachable)
      else if vs_kind (ex_via e) = ViaBlocked then Some (blank_route RouteUnreachable)
      else if carries e v6 \<and> vs_kind (ex_via e) = ViaInterface
        then Some ((blank_route RouteVia)\<lparr>rt_dev := vs_interface (ex_via e)\<rparr>)
      else if carries e v6 \<and> vs_kind (ex_via e) = ViaNextHop
        then Some ((blank_route RouteVia)\<lparr>rt_gateway := vs_next_hop (ex_via e), rt_dev := next_hop_dev e links\<rparr>)
      else if \<not> v6 then Some (blank_route RouteUnreachable)
      else if ipv6_or_default e = IPv6Direct then None
      else Some (blank_route RouteUnreachable))"

definition is_socks :: "exit \<Rightarrow> bool" where
  "is_socks e = (vs_kind (ex_via e) = ViaInterface \<and> vs_interface (ex_via e) = socks_interface)"

text \<open>One family of \<open>renderExit\<close>: its routes and its rule.\<close>

definition family_route :: "exit \<Rightarrow> link_view \<Rightarrow> bool \<Rightarrow> bool \<Rightarrow> route_spec option" where
  "family_route e links v6 down' =
     (case exit_route e links v6 down' of
        None \<Rightarrow> None
      | Some r \<Rightarrow>
          Some (if is_socks e \<and> \<not> v6 \<and> \<not> down' \<and>
                   (case lookup_link links socks_interface of None \<Rightarrow> True | Some l \<Rightarrow> \<not> l_up l)
                then blank_route RouteUnreachable else r))"

definition render_family :: "exit \<Rightarrow> link_view \<Rightarrow> bool \<Rightarrow> bool \<Rightarrow> route_spec list \<times> rule_spec list" where
  "render_family e links down' v6 =
     (case family_route e links v6 down' of
        None \<Rightarrow> ([], [])
      | Some r \<Rightarrow>
          ([r\<lparr>rt_table := slot_table (ex_slot e), rt_v6 := v6, rt_exit := ex_name e\<rparr>]
           @ (if is_socks e \<and> rt_type r = RouteVia
              then [(blank_route RouteUnreachable)\<lparr>rt_table := slot_table (ex_slot e), rt_v6 := v6, rt_priority := 100, rt_exit := ex_name e\<rparr>]
              else []),
           [\<lparr>rs_kind = RuleMark, rs_priority = slot_priority (ex_slot e), rs_v6 = v6, rs_mark = slot_mark (ex_slot e),
             rs_table = slot_table (ex_slot e), rs_exit = ex_name e\<rparr>]))"

definition fails_open :: "exit \<Rightarrow> health \<Rightarrow> bool" where
  "fails_open e h = (health_down h (ex_name e) \<and> failure_or_default (ex_on_failure e) = FailDirect)"

definition render_exit :: "link_view \<Rightarrow> health \<Rightarrow> exit \<Rightarrow> gw_desired \<Rightarrow> gw_desired" where
  "render_exit links h e d =
     (let dn = health_down h (ex_name e)
      in if dn \<and> failure_or_default (ex_on_failure e) = FailDirect then d
         else d\<lparr>gd_routes := gd_routes d @ fst (render_family e links dn False) @ fst (render_family e links dn True),
                gd_rules := gd_rules d @ snd (render_family e links dn False) @ snd (render_family e links dn True),
                gd_snat := gd_snat d @
                  (if vs_kind (ex_via e) = ViaNextHop \<and> snat_or_default e \<and> \<not> dn
                   then [\<lparr>sn_exit = ex_name e, sn_mark = slot_mark (ex_slot e), sn_dev = next_hop_dev e links\<rparr>] else [])\<rparr>)"

definition account_exit :: "exit \<Rightarrow> gw_desired \<Rightarrow> gw_desired" where
  "account_exit e d =
     d\<lparr>gd_exits := gd_exits d @ [\<lparr>er_exit = ex_name e, er_mark = slot_mark (ex_slot e), er_counter = counter_name e\<rparr>],
       gd_counters := counter_name e # gd_counters d\<rparr>"

section \<open>Devices, sources and destinations\<close>

definition adopted_prefixes :: "link_info list \<Rightarrow> (string \<times> prefix) list" where
  "adopted_prefixes ls = concat (map (\<lambda>l. map (Pair (l_name l)) (filter prefix_valid (l_prefixes l))) (filter l_adopted ls))"

definition DirectCounter :: string where "DirectCounter = ''direct''"

definition device_mark :: "gateway \<Rightarrow> assignment \<Rightarrow> u32" where
  "device_mark c a = (case find_exit c (as_exit a) of None \<Rightarrow> DirectMark | Some e \<Rightarrow> slot_mark (ex_slot e))"

definition render_device :: "gateway \<Rightarrow> assignment \<Rightarrow> string \<times> prefix \<Rightarrow> gw_desired \<Rightarrow> gw_desired" where
  "render_device c a ip d =
     (let d = (if as_exit a = [] \<and> DirectCounter \<notin> set (gd_counters d)
               then d\<lparr>gd_counters := DirectCounter # gd_counters d,
                      gd_exits := gd_exits d @ [\<lparr>er_exit = ''direct'', er_mark = DirectMark, er_counter = DirectCounter\<rparr>]\<rparr>
               else d)
      in d\<lparr>gd_devices := gd_devices d @
             [\<lparr>sr_interface = fst ip, sr_exit = as_exit a, sr_prefix = masked (snd ip), sr_mark = device_mark c a, dr_mac = as_key a\<rparr>]\<rparr>)"

definition prefixes_for :: "link_info \<Rightarrow> bool \<Rightarrow> prefix list" where
  "prefixes_for l v6 = sort_by prefix_before (filter (\<lambda>p. is6 (paddr p) = v6) (l_prefixes l))"

definition source_before :: "source_rule \<Rightarrow> source_rule \<Rightarrow> bool" where
  "source_before a b = (prefix_string (sr_prefix a) \<le> prefix_string (sr_prefix b))"

definition sources_of :: "gateway \<Rightarrow> link_view \<Rightarrow> assignment \<Rightarrow> source_rule list" where
  "sources_of c links a =
     (let x = fst (assigned c (as_key a))
      in if x = [] then []
         else (case find_exit c x of
                 None \<Rightarrow> []
               | Some e \<Rightarrow>
                   (case lookup_link links (as_key a) of
                      None \<Rightarrow> []
                    | Some l \<Rightarrow>
                        map (\<lambda>p. \<lparr>sr_interface = as_key a, sr_exit = ex_name e, sr_prefix = masked p, sr_mark = slot_mark (ex_slot e)\<rparr>)
                          (prefixes_for l False @ prefixes_for l True))))"

definition render_sources :: "gateway \<Rightarrow> link_view \<Rightarrow> source_rule list" where
  "render_sources c links = sort_by source_before (concat (map (sources_of c links) (interfaces c)))"

definition hex_mark :: "u32 \<Rightarrow> string" where
  "hex_mark m = (let ds = hex_digits_of (unat m) in ''0x'' @ replicate (8 - length ds) CHR ''0'' @ ds)"

definition destination_line :: "destination_rule \<Rightarrow> string" where
  "destination_line r =
     ''nft destination '' @ prefix_string (dest_prefix r) @ '' on '' @ sr_interface r @ '' source '' @ prefix_string (sr_prefix r)
     @ '' mark '' @ hex_mark (sr_mark r) @ '' via '' @ sr_exit r @ '' unless dnat''"

definition destination_before :: "destination_rule \<Rightarrow> destination_rule \<Rightarrow> bool" where
  "destination_before a b =
     (if pbits (dest_prefix a) \<noteq> pbits (dest_prefix b) then pbits (dest_prefix a) > pbits (dest_prefix b)
      else destination_line a \<le> destination_line b)"

definition destinations_of :: "gateway \<Rightarrow> link_info list \<Rightarrow> assignment \<Rightarrow> destination_rule list" where
  "destinations_of c ls a =
     (case (destination_prefix (as_key a), find_exit c (as_exit a)) of
        (Some p, Some e) \<Rightarrow>
          map (\<lambda>(i, q). \<lparr>sr_interface = i, sr_exit = ex_name e, sr_prefix = masked q, sr_mark = slot_mark (ex_slot e), dest_prefix = p\<rparr>)
            (filter (\<lambda>(i, q). is6 (paddr q) = is6 (paddr p)) (adopted_prefixes ls))
      | _ \<Rightarrow> [])"

definition render_destinations :: "gateway \<Rightarrow> link_view \<Rightarrow> destination_rule list" where
  "render_destinations c links =
     (case all_links links of
        None \<Rightarrow> []
      | Some ls \<Rightarrow> sort_by destination_before (concat (map (destinations_of c ls) (destinations c))))"

section \<open>Sysctls and all of it\<close>

definition render_sysctls :: "gateway \<Rightarrow> link_view \<Rightarrow> (string \<times> string) list" where
  "render_sysctls c links =
     [(''net.ipv4.ip_forward'', ''1'')]
     @ (case ipv6_forwarding c of
          None \<Rightarrow> []
        | Some v \<Rightarrow> [(''net.ipv6.conf.all.forwarding'', if v then ''1'' else ''0'')])
     @ concat (map (\<lambda>dev. [(''net.ipv4.conf.'' @ dev @ ''.send_redirects'', ''0''),
                           (''net.ipv4.conf.'' @ dev @ ''.accept_redirects'', ''0''),
                           (''net.ipv6.conf.'' @ dev @ ''.accept_redirects'', ''0'')])
         (sorted_keys (filter (\<lambda>dev. dev \<noteq> [])
            (map (\<lambda>e. next_hop_dev e links)
              (filter (\<lambda>e. vs_kind (ex_via e) = ViaNextHop \<and> in_use c (ex_name e)) (exits c))))))"

definition local_rule :: "bool \<Rightarrow> rule_spec" where
  "local_rule v6 = \<lparr>rs_kind = RuleLocal, rs_priority = LocalPriority, rs_v6 = v6, rs_mark = 0, rs_table = 0, rs_exit = []\<rparr>"

definition render_start :: "gateway \<Rightarrow> gw_desired" where
  "render_start c =
     \<lparr>gd_enabled = gw_enabled c, gd_destinations = [], gd_exits = [], gd_devices = [], gd_sources = [], gd_snat = [],
      gd_counters = [''unpoliced''], gd_rules = [local_rule False, local_rule True], gd_routes = [],
      gd_sysctls = (if stats_or_default c then [(''net.netfilter.nf_conntrack_acct'', ''1'')] else []),
      gd_stat = (if stats_or_default c then StatChains else [])\<rparr>"

definition render_exits :: "gateway \<Rightarrow> link_view \<Rightarrow> health \<Rightarrow> gw_desired \<Rightarrow> gw_desired" where
  "render_exits c links h = fold (\<lambda>e d. render_exit links h e (account_exit e d)) (filter (\<lambda>e. in_use c (ex_name e)) (exits c))"

definition render_devices :: "gateway \<Rightarrow> link_view \<Rightarrow> gw_desired \<Rightarrow> gw_desired" where
  "render_devices c links d =
     (case all_links links of
        None \<Rightarrow> d
      | Some ls \<Rightarrow>
          fold (\<lambda>a. fold (render_device c a) (adopted_prefixes (sort_by link_by_name ls))) (devices c) d)"

definition render_gateway :: "gateway \<Rightarrow> link_view \<Rightarrow> health \<Rightarrow> gw_desired" where
  "render_gateway c links h =
     (let d = render_start c
      in if \<not> gw_enabled c then d\<lparr>gd_counters := [], gd_rules := []\<rparr>
         else (let d = render_devices c links (render_exits c links h d)
               in d\<lparr>gd_sources := render_sources c links, gd_destinations := render_destinations c links,
                    gd_counters := sorted_keys (gd_counters d), gd_sysctls := gd_sysctls d @ render_sysctls c links\<rparr>))"

section \<open>Lines\<close>

definition family_text :: "bool \<Rightarrow> string" where
  "family_text v6 = (if v6 then ''ip6'' else ''ip'')"

definition restore_line :: "exit_rule \<Rightarrow> string" where
  "restore_line e = ''nft restore mark '' @ hex_mark (er_mark e) @ '' for '' @ er_exit e"

definition account_line :: "exit_rule \<Rightarrow> string" where
  "account_line e = ''nft account mark '' @ hex_mark (er_mark e) @ '' counter '' @ er_counter e @ '' for '' @ er_exit e"

definition device_line :: "device_rule \<Rightarrow> string" where
  "device_line r =
     ''nft device '' @ dr_mac r @ '' on '' @ sr_interface r @ '' source '' @ prefix_string (sr_prefix r)
     @ (if sr_exit r = [] then '' direct mark '' @ hex_mark (sr_mark r)
        else '' mark '' @ hex_mark (sr_mark r) @ '' via '' @ sr_exit r) @ '' unless dnat''"

definition source_line :: "source_rule \<Rightarrow> string" where
  "source_line s =
     ''nft source '' @ family_text (is6 (paddr (sr_prefix s))) @ '' '' @ prefix_string (sr_prefix s) @ '' mark ''
     @ hex_mark (sr_mark s) @ '' from '' @ sr_interface s @ '' via '' @ sr_exit s @ '' unless dnat''"

definition snat_line :: "snat_rule \<Rightarrow> string" where
  "snat_line s =
     ''nft snat mark '' @ hex_mark (sn_mark s) @ '' dev '' @ (if sn_dev s = [] then ''-'' else sn_dev s) @ '' for '' @ sn_exit s"

definition rule_line :: "rule_spec \<Rightarrow> string" where
  "rule_line r =
     ''rule '' @ family_text (rs_v6 r) @ '' priority '' @ itoa_int (rs_priority r)
     @ (if rs_kind r = RuleLocal then '' from all lookup main suppress_prefixlength 0''
        else '' fwmark '' @ hex_mark (rs_mark r) @ ''/'' @ hex_mark MarkMask @ '' lookup '' @ itoa_int (rs_table r))"

definition metric_text :: "int \<Rightarrow> string" where
  "metric_text p = (if p > 0 then '' metric '' @ itoa_int p else [])"

definition route_line :: "route_spec \<Rightarrow> string" where
  "route_line r =
     (if rt_type r = RouteUnreachable
      then ''route '' @ family_text (rt_v6 r) @ '' table '' @ itoa_int (rt_table r) @ '' unreachable default'' @ metric_text (rt_priority r)
      else ''route '' @ family_text (rt_v6 r) @ '' table '' @ itoa_int (rt_table r) @ '' default''
        @ (case rt_gateway r of None \<Rightarrow> [] | Some g \<Rightarrow> '' via '' @ addr_string g)
        @ (if rt_dev r \<noteq> [] then '' dev '' @ rt_dev r else []) @ metric_text (rt_priority r))"

definition gw_object_lines :: "gw_desired \<Rightarrow> string list" where
  "gw_object_lines d =
     (if gd_stat d \<noteq> [] then
        ''nft table inet olr_stat''
        # concat (map (\<lambda>c. (''nft chain '' @ sc_name c @ '' '' @ sc_hook c @ '' filter'') # map stat_rule_line (sc_rules c)) (gd_stat d))
      else [])
     @ (if \<not> gd_enabled d then []
        else [''nft table inet olr_route'', ''nft chain classify prerouting mangle'']
          @ map (\<lambda>n. ''nft counter '' @ n) (gd_counters d)
          @ map restore_line (gd_exits d) @ map destination_line (gd_destinations d) @ map device_line (gd_devices d)
          @ map source_line (gd_sources d) @ map account_line (gd_exits d) @ [''nft count-unpoliced'']
          @ (if gd_snat d \<noteq> [] then ''nft chain postrouting postrouting srcnat'' # map snat_line (gd_snat d) else [])
          @ map rule_line (gd_rules d) @ map route_line (gd_routes d))"

definition gw_lines :: "gw_desired \<Rightarrow> string list" where
  "gw_lines d = gw_object_lines d @ map (\<lambda>(k, v). ''sysctl '' @ k @ '' = '' @ v) (gd_sysctls d)"

section \<open>Slots and marks\<close>

definition exit_but_slot :: "exit \<Rightarrow> exit \<Rightarrow> bool" where
  "exit_but_slot e f = (f = e\<lparr>ex_slot := ex_slot f\<rparr>)"

lemma exit_slot_in: "exit_slot_valid = slot_in MaxExitSlot"
  by (simp add: fun_eq_iff exit_slot_valid_def slot_in_def)

lemma drop_exit_refines:
  "drop_exit_slots taken es = (es', t) \<Longrightarrow>
     drop_taken MaxExitSlot taken (map ex_slot es) = (map ex_slot es', t) \<and> list_all2 exit_but_slot es es'"
  by (induction taken es arbitrary: es' t rule: drop_exit_slots.induct)
     (auto simp: exit_slot_in exit_but_slot_def split: prod.splits if_splits)

lemma fill_exit_refines:
  "map ex_slot (fill_exit_slots n taken es) = fill_free MaxExitSlot n taken (map ex_slot es) \<and>
     list_all2 exit_but_slot es (fill_exit_slots n taken es)"
  by (induction n taken es rule: fill_exit_slots.induct) (auto simp: Let_def exit_but_slot_def list_all2_same)

interpretation exit_slots: slot_allocator ex_slot "\<lambda>s e. e\<lparr>ex_slot := s\<rparr>" allocate_exit_slots MaxExitSlot
proof
  fix es
  obtain es' t where d: "drop_exit_slots [] es = (es', t)" by fastforce
  note r = drop_exit_refines [OF d] fill_exit_refines [of 1 t es']
  have tr: "exit_but_slot e f \<Longrightarrow> exit_but_slot f g \<Longrightarrow> exit_but_slot e g" for e f g
    by (cases e, cases f, cases g) (simp add: exit_but_slot_def)
  show "map ex_slot (allocate_exit_slots es) = allocate MaxExitSlot (map ex_slot es)"
    using d r by (simp add: allocate_exit_slots_def allocate_def)
  have "list_all2 exit_but_slot es (fill_exit_slots 1 t es')"
    by (rule list_all2_trans [OF tr conjunct2 [OF r(1)] conjunct2 [OF r(2)]])
  then show "list_all2 (\<lambda>e f. f = e\<lparr>ex_slot := ex_slot f\<rparr>) es (allocate_exit_slots es)"
    using d by (simp add: allocate_exit_slots_def exit_but_slot_def [abs_def])
qed

lemma slot_mark_inj:
  assumes "exit_slot_valid s" and "exit_slot_valid t" and "slot_mark s = slot_mark t"
  shows "s = t"
proof -
  have m: "drop_bit 16 (slot_mark x) = take_bit 8 (of_int x :: u32)" for x
  proof -
    have "MarkMask = push_bit 16 (mask 8)" by (simp add: MarkMask_def mask_eq_exp_minus_1 push_bit_eq_mult)
    then have "slot_mark x = push_bit 16 (of_int x AND mask 8)"
      by (simp add: slot_mark_def MarkShift_def)
    then show ?thesis by (intro bit_word_eqI) (auto simp: bit_simps)
  qed
  have u: "uint (take_bit 8 (of_int x) :: u32) = x" if "exit_slot_valid x" for x
  proof -
    have "uint (take_bit 8 (of_int x) :: u32) = take_bit 8 (take_bit 32 x)" by (simp add: unsigned_take_bit_eq unsigned_of_int)
    then show ?thesis using that by (simp add: exit_slot_valid_def MaxExitSlot_def take_bit_int_eq_self)
  qed
  show ?thesis using u [OF assms(1)] u [OF assms(2)] m [of s] m [of t] assms(3) by metis
qed

text \<open>A normalized document of at most 80 exits: every exit has a slot of its own.\<close>

lemma normalized_slots:
  assumes "c = normalize_gateway c0" and "length (exits c0) \<le> 80"
  shows "distinct (map ex_slot (exits c))" "\<forall>e \<in> set (exits c). exit_slot_valid (ex_slot e)"
proof -
  let ?es = "sort_by by_exit_name (map tidy_exit (exits c0))"
  have e: "exits c = allocate_exit_slots ?es" using assms(1) by (simp add: normalize_gateway_def)
  have "int (length ?es) \<le> MaxExitSlot" using assms(2) by (simp add: MaxExitSlot_def)
  then have z: "\<forall>x \<in> set (exits c). ex_slot x \<noteq> 0" using exit_slots.alloc_complete e by metis
  then show "\<forall>e \<in> set (exits c). exit_slot_valid (ex_slot e)"
    using exit_slots.alloc_in [of _ ?es] e exit_slot_in by fastforce
  have "filter (\<lambda>s. s \<noteq> 0) (map ex_slot (exits c)) = map ex_slot (exits c)" using z by (auto intro: filter_True)
  then show "distinct (map ex_slot (exits c))" using exit_slots.alloc_unique [of ?es] e by simp
qed
section \<open>Where marked traffic goes\<close>

text \<open>
  What the kernel documents of policy routing, for a destination the main table has only its default
  route for: the mark rules of the family are tried in the order of their priorities, and a rule whose
  table has a default route decides by the one of the least metric; traffic no rule takes goes by the
  main table.
\<close>

datatype path = MainTable | NoRoute | Out "addr option" string

definition takes :: "rule_spec \<Rightarrow> bool \<Rightarrow> u32 \<Rightarrow> bool" where
  "takes r v6 m = (rs_kind r = RuleMark \<and> rs_v6 r = v6 \<and> m AND MarkMask = rs_mark r)"

definition in_table :: "route_spec \<Rightarrow> int \<Rightarrow> bool \<Rightarrow> bool" where
  "in_table rt t v6 = (rt_table rt = t \<and> rt_v6 rt = v6)"

definition path_of :: "route_spec \<Rightarrow> path" where
  "path_of rt = (if rt_type rt = RouteUnreachable then NoRoute else Out (rt_gateway rt) (rt_dev rt))"

locale policy_routing =
  fixes path :: "rule_spec list \<Rightarrow> route_spec list \<Rightarrow> bool \<Rightarrow> u32 \<Rightarrow> path"
  assumes untaken: "(\<And>r. r \<in> set rules \<Longrightarrow> \<not> takes r v6 m) \<Longrightarrow> path rules routes v6 m = MainTable"
    and taken: "\<lbrakk>r \<in> set rules; takes r v6 m; \<And>r'. r' \<in> set rules \<Longrightarrow> takes r' v6 m \<Longrightarrow> r' = r;
      rt \<in> set routes; in_table rt (rs_table r) v6;
      \<And>rt'. rt' \<in> set routes \<Longrightarrow> in_table rt' (rs_table r) v6 \<Longrightarrow> rt' = rt \<or> rt_priority rt < rt_priority rt'\<rbrakk> \<Longrightarrow>
      path rules routes v6 m = path_of rt"

text \<open>One way to do it.\<close>

fun policy_path :: "rule_spec list \<Rightarrow> route_spec list \<Rightarrow> bool \<Rightarrow> u32 \<Rightarrow> path" where
  "policy_path [] routes v6 m = MainTable"
| "policy_path (r # rs) routes v6 m =
     (if takes r v6 m
      then (case sort_by (\<lambda>a b. rt_priority a \<le> rt_priority b) (filter (\<lambda>rt. in_table rt (rs_table r) v6) routes) of
              [] \<Rightarrow> policy_path rs routes v6 m
            | rt # _ \<Rightarrow> path_of rt)
      else policy_path rs routes v6 m)"

lemma policy_path_untaken: "(\<And>r. r \<in> set rules \<Longrightarrow> \<not> takes r v6 m) \<Longrightarrow> policy_path rules routes v6 m = MainTable"
  by (induction rules) auto

lemma policy_path_taken:
  assumes "r \<in> set rules" and "takes r v6 m" and "\<And>r'. r' \<in> set rules \<Longrightarrow> takes r' v6 m \<Longrightarrow> r' = r"
    and "rt \<in> set routes" and "in_table rt (rs_table r) v6"
    and "\<And>rt'. rt' \<in> set routes \<Longrightarrow> in_table rt' (rs_table r) v6 \<Longrightarrow> rt' = rt \<or> rt_priority rt < rt_priority rt'"
  shows "policy_path rules routes v6 m = path_of rt"
proof -
  let ?le = "\<lambda>a b. rt_priority a \<le> rt_priority b" and ?f = "filter (\<lambda>rt. in_table rt (rs_table r) v6) routes"
  have "sorted_by ?le (sort_by ?le ?f)" by (rule sorted_sort_by) auto
  moreover have s: "set (sort_by ?le ?f) = set ?f" by simp
  ultimately obtain x xs where x: "sort_by ?le ?f = x # xs" "\<forall>y \<in> set xs. rt_priority x \<le> rt_priority y"
    using assms(4,5) by (cases "sort_by ?le ?f") auto
  have "x \<in> set ?f" "rt \<in> set (x # xs)" using x(1) s assms(4,5) by auto
  then have "x = rt" using assms(6) [of x] x(2) by fastforce
  then have h: "sort_by ?le ?f = rt # xs" using x(1) by simp
  show ?thesis
    using assms(1,3)
  proof (induction rules)
    case (Cons r' rs)
    then show ?case
    proof (cases "takes r' v6 m")
      case True
      then have "r' = r" using Cons.prems(2) by simp
      then show ?thesis using h assms(2) by simp
    next
      case False
      then have "r \<in> set rs" using Cons.prems(1) assms(2) by auto
      then have "policy_path rs routes v6 m = path_of rt" using Cons.IH Cons.prems(2) by simp
      then show ?thesis using False by simp
    qed
  qed simp
qed

interpretation kernel_path: policy_routing policy_path
  by unfold_locales (rule policy_path_untaken, assumption, rule policy_path_taken)

section \<open>Every exit's own\<close>

lemma render_exits_rules:
  "gd_rules (fold (\<lambda>e d. render_exit links h e (account_exit e d)) es d) =
     gd_rules d @ concat (map (\<lambda>e. if fails_open e h then [] else
       snd (render_family e links (health_down h (ex_name e)) False) @ snd (render_family e links (health_down h (ex_name e)) True)) es)"
  "gd_routes (fold (\<lambda>e d. render_exit links h e (account_exit e d)) es d) =
     gd_routes d @ concat (map (\<lambda>e. if fails_open e h then [] else
       fst (render_family e links (health_down h (ex_name e)) False) @ fst (render_family e links (health_down h (ex_name e)) True)) es)"
  by (induction es arbitrary: d) (simp_all add: render_exit_def account_exit_def fails_open_def Let_def)

lemma render_device_rules:
  "gd_rules (render_device c a ip d) = gd_rules d" "gd_routes (render_device c a ip d) = gd_routes d"
  by (simp_all add: render_device_def Let_def)

lemma render_devices_rules:
  "gd_rules (render_devices c links d) = gd_rules d" "gd_routes (render_devices c links d) = gd_routes d"
proof -
  have f: "gd_rules (fold (render_device c a) ps d) = gd_rules d \<and> gd_routes (fold (render_device c a) ps d) = gd_routes d" for a ps d
    by (induction ps arbitrary: d) (simp_all add: render_device_rules)
  have "gd_rules (fold (\<lambda>a. fold (render_device c a) ps) as d) = gd_rules d \<and>
      gd_routes (fold (\<lambda>a. fold (render_device c a) ps) as d) = gd_routes d" for as ps d
    by (induction as arbitrary: d) (simp_all add: f)
  then show "gd_rules (render_devices c links d) = gd_rules d" "gd_routes (render_devices c links d) = gd_routes d"
    by (simp_all add: render_devices_def split: option.split)
qed

lemma rendered_rules:
  assumes "gw_enabled c"
  shows "r \<in> set (gd_rules (render_gateway c links h)) \<and> rs_kind r = RuleMark \<longleftrightarrow>
    (\<exists>e v6. e \<in> set (exits c) \<and> in_use c (ex_name e) \<and> \<not> fails_open e h \<and>
      r \<in> set (snd (render_family e links (health_down h (ex_name e)) v6)))"
proof -
  have k: "rs_kind r = RuleMark" if "r \<in> set (snd (render_family e links d v6))" for e d v6
    using that by (auto simp: render_family_def split: option.splits)
  have b: "(\<exists>v6. P v6) \<longleftrightarrow> P False \<or> P True" for P :: "bool \<Rightarrow> bool" by (metis (full_types))
  show ?thesis
    using assms k
    by (auto simp: render_gateway_def Let_def render_devices_rules render_exits_def render_exits_rules render_start_def
      local_rule_def b split: if_splits)
qed

lemma rendered_routes:
  assumes "gw_enabled c"
  shows "rt \<in> set (gd_routes (render_gateway c links h)) \<longleftrightarrow>
    (\<exists>e v6. e \<in> set (exits c) \<and> in_use c (ex_name e) \<and> \<not> fails_open e h \<and>
      rt \<in> set (fst (render_family e links (health_down h (ex_name e)) v6)))"
proof -
  have b: "(\<exists>v6. P v6) \<longleftrightarrow> P False \<or> P True" for P :: "bool \<Rightarrow> bool" by (metis (full_types))
  show ?thesis
    using assms
    by (auto simp: render_gateway_def Let_def render_devices_rules render_exits_def render_exits_rules render_start_def
      b split: if_splits)
qed

lemma family_fields:
  "r \<in> set (snd (render_family e links d v6)) \<Longrightarrow>
     rs_kind r = RuleMark \<and> rs_v6 r = v6 \<and> rs_mark r = slot_mark (ex_slot e) \<and> rs_table r = slot_table (ex_slot e)"
  "rt \<in> set (fst (render_family e links d v6)) \<Longrightarrow> rt_v6 rt = v6 \<and> rt_table rt = slot_table (ex_slot e)"
  by (auto simp: render_family_def split: option.splits if_splits)

text \<open>What is rendered for a mark is what its exit renders, because no other exit has its slot.\<close>

lemma own_rendered:
  assumes c: "c = normalize_gateway c0" "length (exits c0) \<le> 80" "gw_enabled c"
    and e: "e \<in> set (exits c)" "in_use c (ex_name e)" and m: "m AND MarkMask = slot_mark (ex_slot e)"
  shows "r \<in> set (gd_rules (render_gateway c links h)) \<and> takes r v6 m \<longleftrightarrow>
      \<not> fails_open e h \<and> r \<in> set (snd (render_family e links (health_down h (ex_name e)) v6))"
    and "rt \<in> set (gd_routes (render_gateway c links h)) \<and> in_table rt (slot_table (ex_slot e)) v6 \<longleftrightarrow>
      \<not> fails_open e h \<and> rt \<in> set (fst (render_family e links (health_down h (ex_name e)) v6))"
proof -
  have one: "f = e" if "f \<in> set (exits c)" "ex_slot f = ex_slot e" for f
    using that e(1) normalized_slots(1) [OF c(1,2)] by (auto simp: distinct_map dest: inj_onD)
  have v: "exit_slot_valid (ex_slot f)" if "f \<in> set (exits c)" for f using that normalized_slots(2) [OF c(1,2)] by simp
  have mk: "f = e" if "f \<in> set (exits c)" "slot_mark (ex_slot f) = slot_mark (ex_slot e)" for f
    using that one slot_mark_inj [OF v [OF that(1)] v [OF e(1)]] by simp
  have tb: "f = e" if "f \<in> set (exits c)" "slot_table (ex_slot f) = slot_table (ex_slot e)" for f
    using that one by (simp add: slot_table_def)
  have l: "r \<in> set (gd_rules (render_gateway c links h)) \<and> takes r v6 m \<longleftrightarrow>
      (\<exists>f w. f \<in> set (exits c) \<and> in_use c (ex_name f) \<and> \<not> fails_open f h \<and>
        r \<in> set (snd (render_family f links (health_down h (ex_name f)) w)) \<and> takes r v6 m)" for r
    using rendered_rules [OF c(3), of r links h] unfolding takes_def by blast
  show "r \<in> set (gd_rules (render_gateway c links h)) \<and> takes r v6 m \<longleftrightarrow>
      \<not> fails_open e h \<and> r \<in> set (snd (render_family e links (health_down h (ex_name e)) v6))"
  proof
    assume "r \<in> set (gd_rules (render_gateway c links h)) \<and> takes r v6 m"
    then obtain f w where f: "f \<in> set (exits c)" "\<not> fails_open f h" "takes r v6 m"
        "r \<in> set (snd (render_family f links (health_down h (ex_name f)) w))" unfolding l by blast
    then have "w = v6" "f = e" using family_fields(1) [OF f(4)] mk m by (simp_all add: takes_def)
    then show "\<not> fails_open e h \<and> r \<in> set (snd (render_family e links (health_down h (ex_name e)) v6))" using f by simp
  next
    assume a: "\<not> fails_open e h \<and> r \<in> set (snd (render_family e links (health_down h (ex_name e)) v6))"
    then have "takes r v6 m" using family_fields(1) [of r e links _ v6] m unfolding takes_def by metis
    then show "r \<in> set (gd_rules (render_gateway c links h)) \<and> takes r v6 m" unfolding l using a e by blast
  qed
  show "rt \<in> set (gd_routes (render_gateway c links h)) \<and> in_table rt (slot_table (ex_slot e)) v6 \<longleftrightarrow>
      \<not> fails_open e h \<and> rt \<in> set (fst (render_family e links (health_down h (ex_name e)) v6))"
  proof
    assume a: "rt \<in> set (gd_routes (render_gateway c links h)) \<and> in_table rt (slot_table (ex_slot e)) v6"
    then obtain f w where f: "f \<in> set (exits c)" "\<not> fails_open f h"
        "rt \<in> set (fst (render_family f links (health_down h (ex_name f)) w))" unfolding rendered_routes [OF c(3)] by blast
    then have "w = v6" "f = e" using family_fields(2) [OF f(3)] tb a by (simp_all add: in_table_def)
    then show "\<not> fails_open e h \<and> rt \<in> set (fst (render_family e links (health_down h (ex_name e)) v6))" using f by simp
  next
    assume a: "\<not> fails_open e h \<and> rt \<in> set (fst (render_family e links (health_down h (ex_name e)) v6))"
    then have "in_table rt (slot_table (ex_slot e)) v6" using family_fields(2) [of rt e links _ v6] unfolding in_table_def by metis
    then show "rt \<in> set (gd_routes (render_gateway c links h)) \<and> in_table rt (slot_table (ex_slot e)) v6"
      unfolding rendered_routes [OF c(3)] using a e by blast
  qed
qed

lemma marked_path:
  assumes p: "policy_routing path"
    and c: "c = normalize_gateway c0" "length (exits c0) \<le> 80" "gw_enabled c"
    and e: "e \<in> set (exits c)" "in_use c (ex_name e)" and m: "m AND MarkMask = slot_mark (ex_slot e)"
  shows "path (gd_rules (render_gateway c links h)) (gd_routes (render_gateway c links h)) v6 m =
    (case (if fails_open e h then None else family_route e links v6 (health_down h (ex_name e))) of
       None \<Rightarrow> MainTable | Some rt \<Rightarrow> path_of rt)"
proof -
  let ?d = "render_gateway c links h" and ?dn = "health_down h (ex_name e)"
  note own = own_rendered [OF c e m, of _ links h v6]
  show ?thesis
  proof (cases "if fails_open e h then None else family_route e links v6 ?dn")
    case None
    then have "r \<in> set (gd_rules ?d) \<Longrightarrow> \<not> takes r v6 m" for r
      using own(1) [of r] by (auto simp: render_family_def split: if_splits)
    then show ?thesis using None policy_routing.untaken [OF p] by simp
  next
    case (Some r)
    then have f: "\<not> fails_open e h" "family_route e links v6 ?dn = Some r" by (auto split: if_splits)
    let ?rt = "r\<lparr>rt_table := slot_table (ex_slot e), rt_v6 := v6, rt_exit := ex_name e\<rparr>"
    obtain ru where ru: "snd (render_family e links ?dn v6) = [ru]" "rs_table ru = slot_table (ex_slot e)"
      using f(2) by (simp add: render_family_def)
    have z: "rt_priority r = 0" using f(2)
      by (auto simp: family_route_def exit_route_def blank_route_def split: option.splits if_splits)
    have "path (gd_rules ?d) (gd_routes ?d) v6 m = path_of ?rt"
    proof (rule policy_routing.taken [OF p])
      show "ru \<in> set (gd_rules ?d)" "takes ru v6 m" using own(1) [of ru] f ru by simp_all
      show "r' = ru" if "r' \<in> set (gd_rules ?d)" "takes r' v6 m" for r' using own(1) [of r'] that ru by simp
      have "?rt \<in> set (fst (render_family e links ?dn v6))" using f(2) by (simp add: render_family_def)
      then show "?rt \<in> set (gd_routes ?d)" "in_table ?rt (rs_table ru) v6" using own(2) [of ?rt] f(1) ru(2) by simp_all
      show "rt' = ?rt \<or> rt_priority ?rt < rt_priority rt'" if "rt' \<in> set (gd_routes ?d)" "in_table rt' (rs_table ru) v6" for rt'
        using own(2) [of rt'] that ru(2) f z by (auto simp: render_family_def blank_route_def split: if_splits)
    qed
    then show ?thesis using f by (simp add: path_of_def)
  qed
qed

text \<open>
  C7. Where the traffic of an exit goes. In a document of at most 80 exits, traffic that carries the
  mark of an exit in use leaves by that exit and nothing else while the exit is up: through its
  interface, or by its next hop. It has no route when the exit is down, blocked, or does not carry the
  family, and when the SOCKS interface is missing or down. It goes by the main table exactly when the
  document says so: the exit is down and fails direct, or IPv6 it does not carry goes direct.
\<close>

theorem marked_traffic_path:
  assumes "policy_routing path" and "c = normalize_gateway c0" and "length (exits c0) \<le> 80" and "gw_enabled c"
    and "e \<in> set (exits c)" and "in_use c (ex_name e)" and "m AND MarkMask = slot_mark (ex_slot e)"
  shows "path (gd_rules (render_gateway c links h)) (gd_routes (render_gateway c links h)) v6 m =
    (if h (ex_name e) = Some False
       then (if ex_on_failure e = FailDirect then MainTable else NoRoute)
     else if vs_kind (ex_via e) = ViaBlocked then NoRoute
     else if \<not> carries e v6 then (if v6 \<and> ipv6_or_default e = IPv6Direct then MainTable else NoRoute)
     else if vs_kind (ex_via e) = ViaInterface then
       (if vs_interface (ex_via e) = ''olrsocks0'' \<and> \<not> (\<exists>l. lookup_link links ''olrsocks0'' = Some l \<and> l_up l) then NoRoute
        else Out None (vs_interface (ex_via e)))
     else Out (vs_next_hop (ex_via e)) (next_hop_dev e links))"
proof -
  have f: "failure_or_default (ex_on_failure e) = FailDirect \<longleftrightarrow> ex_on_failure e = FailDirect"
    by (simp add: failure_or_default_def FailDirect_def FailBlock_def)
  have s: "(case lookup_link links ''olrsocks0'' of None \<Rightarrow> True | Some l \<Rightarrow> \<not> l_up l) \<longleftrightarrow>
      \<not> (\<exists>l. lookup_link links ''olrsocks0'' = Some l \<and> l_up l)" by (simp split: option.split)
  have k: "carries e v6 \<Longrightarrow> vs_kind (ex_via e) = ViaInterface \<or> vs_kind (ex_via e) = ViaNextHop \<or> vs_kind (ex_via e) = ViaBlocked"
    "carries e v6 \<Longrightarrow> is_socks e \<Longrightarrow> \<not> v6" "ViaInterface \<noteq> ViaNextHop"
    by (auto simp: carries_def is_socks_def ViaInterface_def ViaNextHop_def split: if_splits)
  show ?thesis
    unfolding marked_path [OF assms] fails_open_def health_down_def f family_route_def exit_route_def socks_interface_def s
    using k by (cases "carries e v6") (auto simp: path_of_def blank_route_def is_socks_def socks_interface_def)
qed

text \<open>Everything through a tunnel that is down: the traffic does not leave by another path.\<close>

definition tunnel_exit :: exit where
  "tunnel_exit =
     \<lparr>ex_name = ''vpn'', ex_via = \<lparr>vs_kind = ''interface'', vs_interface = ''wg0'', vs_next_hop = None, vs_dev = []\<rparr>,
      ex_slot = 0, ex_ipv6 = [], ex_on_failure = [], ex_snat = None, ex_probe = None, ex_dns = None\<rparr>"

definition tunnel_config :: gateway where
  "tunnel_config =
     \<lparr>latency_target = [], latency_sites = [], latency_common = [], latency_pins = [], gw_enabled = True,
      exits = [tunnel_exit], gw_forwards = [], gw_snat = None, gw_default = [], gw_stats = None,
      ipv6_forwarding = None, interfaces = [\<lparr>as_key = ''lan'', as_exit = ''vpn''\<rparr>], devices = [], destinations = []\<rparr>"

theorem marked_traffic_path_witness:
  "\<exists>e. exits (normalize_gateway tunnel_config) = [e] \<and> ex_slot e = 1 \<and>
     (let d = render_gateway (normalize_gateway tunnel_config) \<lparr>lookup_link = (\<lambda>_. None), all_links = None\<rparr> [''vpn'' \<mapsto> False]
      in policy_path (gd_rules d) (gd_routes d) False 0x00010000 = NoRoute)"
proof -
  let ?c = "normalize_gateway tunnel_config" and ?e = "tunnel_exit\<lparr>ex_slot := 1\<rparr>"
  have c: "exits ?c = [?e]" "gw_enabled ?c" "interfaces ?c = [\<lparr>as_key = ''lan'', as_exit = ''vpn''\<rparr>]" by code_simp+
  have u: "in_use ?c ''vpn''" "length (exits tunnel_config) \<le> 80" by code_simp+
  have m: "(0x00010000 :: u32) AND MarkMask = slot_mark 1" by code_simp
  show ?thesis
    using marked_traffic_path [where path = policy_path and c = ?c and e = ?e and m = "0x00010000" and h = "[''vpn'' \<mapsto> False]"
        and ?v6.0 = False, OF kernel_path.policy_routing_axioms refl u(2) c(2)] c u m
    by (simp add: tunnel_exit_def FailDirect_def)
qed

end
