(* ===== verification/GwNft.thy ===== *)
theory GwNft
  imports ExitRender Nft Mac
begin

text \<open>
  The classification table of \<open>internal/gateway/kernel_linux.go\<close> and \<open>destination_linux.go\<close>: the
  nftables expressions of every rule, what the kernel documents them to do to a packet's mark and to
  the mark of its connection, and what each rule therefore does. Every expression uses register 1.
\<close>

unbundle bit_operations_syntax

section \<open>Packets, marks and expressions\<close>

record gw_packet =
  gp_iif :: string
  gp_iiftype :: u16
  gp_oif :: string
  gp_nfproto :: byte
  gp_ct_status :: u32
  gp_daddr_type :: u32
  gp_network :: "byte list"
  gp_ll :: "byte list"

text \<open>The mark of the packet and of its connection, the counters it added to, in order, and whether its
  source is rewritten.\<close>

record marks =
  mk_meta :: u32
  mk_ct :: u32
  mk_counted :: "string list"
  mk_masq :: bool

datatype gw_expr =
    MetaMark | SetMetaMark | CtMark | SetCtMark | CtStatus
  | MetaNfproto | MetaIiftype | MetaIifname | MetaOifname | FibAddrType
  | NetPayload nat nat | LLPayload nat nat
  | BitsOf "byte list" "byte list"
  | Test cmp_op "byte list"
  | CountObj string
  | Masq

definition native16 :: "u16 \<Rightarrow> byte list" where
  "native16 w = rev (be_bytes 2 w)"

text \<open>
  What an expression loads, of a packet that connection tracking follows: an untracked one has no mark and
  no status to load, and the kernel leaves the rule.
\<close>

fun loaded :: "gw_packet \<Rightarrow> marks \<Rightarrow> gw_expr \<Rightarrow> byte list option" where
  "loaded p m MetaMark = Some (native32 (mk_meta m))"
| "loaded p m CtMark = Some (native32 (mk_ct m))"
| "loaded p m CtStatus = Some (native32 (gp_ct_status p))"
| "loaded p m MetaNfproto = Some [gp_nfproto p]"
| "loaded p m MetaIiftype = Some (native16 (gp_iiftype p))"
| "loaded p m MetaIifname = Some (ifname (gp_iif p))"
| "loaded p m MetaOifname = Some (ifname (gp_oif p))"
| "loaded p m FibAddrType = Some (native32 (gp_daddr_type p))"
| "loaded p m (NetPayload off n) =
     (if off + n \<le> length (gp_network p) then Some (take n (drop off (gp_network p))) else None)"
| "loaded p m (LLPayload off n) = (if off + n \<le> length (gp_ll p) then Some (take n (drop off (gp_ll p))) else None)"
| "loaded p m _ = None"

fun is_load :: "gw_expr \<Rightarrow> bool" where
  "is_load SetMetaMark = False" | "is_load SetCtMark = False" | "is_load (BitsOf _ _) = False"
| "is_load (Test _ _) = False" | "is_load (CountObj _) = False" | "is_load Masq = False" | "is_load _ = True"

section \<open>The machine\<close>

text \<open>
  A rule is read from the left; a load that runs past a header and a test that fails end it, and what it
  has set by then stays set. A test compares as many bytes as it has.
\<close>

locale mark_machine =
  fixes run :: "gw_packet \<Rightarrow> gw_expr list \<Rightarrow> byte list \<Rightarrow> marks \<Rightarrow> marks"
  assumes run_Nil: "run p [] r m = m"
    and run_load: "is_load x \<Longrightarrow> run p (x # es) r m = (case loaded p m x of None \<Rightarrow> m | Some r' \<Rightarrow> run p es r' m)"
    and run_meta: "run p (SetMetaMark # es) (native32 w) m = run p es (native32 w) (m\<lparr>mk_meta := w\<rparr>)"
    and run_ct: "run p (SetCtMark # es) (native32 w) m = run p es (native32 w) (m\<lparr>mk_ct := w\<rparr>)"
    and run_bits: "length r = length k \<Longrightarrow> length r = length v \<Longrightarrow>
      run p (BitsOf k v # es) r m = run p es (map2 (XOR) (map2 (AND) r k) v) m"
    and run_test: "length d \<le> length r \<Longrightarrow>
      run p (Test op d # es) r m = (if (take (length d) r = d) = (op = CmpOpEq) then run p es r m else m)"
    and run_count: "run p (CountObj c # es) r m = run p es r (m\<lparr>mk_counted := mk_counted m @ [c]\<rparr>)"
    and run_masq: "run p (Masq # es) r m = run p es r (m\<lparr>mk_masq := True\<rparr>)"

text \<open>One machine that has the laws.\<close>

fun mark_run :: "gw_packet \<Rightarrow> gw_expr list \<Rightarrow> byte list \<Rightarrow> marks \<Rightarrow> marks" where
  "mark_run p [] r m = m"
| "mark_run p (SetMetaMark # es) r m = mark_run p es r (m\<lparr>mk_meta := be_word (rev r)\<rparr>)"
| "mark_run p (SetCtMark # es) r m = mark_run p es r (m\<lparr>mk_ct := be_word (rev r)\<rparr>)"
| "mark_run p (BitsOf k x # es) r m = mark_run p es (map2 (XOR) (map2 (AND) r k) x) m"
| "mark_run p (Test op d # es) r m = (if (take (length d) r = d) = (op = CmpOpEq) then mark_run p es r m else m)"
| "mark_run p (CountObj c # es) r m = mark_run p es r (m\<lparr>mk_counted := mk_counted m @ [c]\<rparr>)"
| "mark_run p (Masq # es) r m = mark_run p es r (m\<lparr>mk_masq := True\<rparr>)"
| "mark_run p (x # es) r m = (case loaded p m x of None \<Rightarrow> m | Some r' \<Rightarrow> mark_run p es r' m)"

interpretation marking: mark_machine mark_run
proof
  show "is_load x \<Longrightarrow> mark_run p (x # es) r m = (case loaded p m x of None \<Rightarrow> m | Some r' \<Rightarrow> mark_run p es r' m)" for x p es r m
    by (cases x) (simp_all only: is_load.simps mark_run.simps)
qed (simp_all add: native32_def)

section \<open>The rules\<close>

definition RTN_LOCAL :: u32 where "RTN_LOCAL = 2"
definition ARPHRD_ETHER :: u16 where "ARPHRD_ETHER = 1"
definition ctStatusDstNAT :: u32 where "ctStatusDstNAT = 0x20"

definition setOurMarkBits :: "u32 \<Rightarrow> gw_expr" where
  "setOurMarkBits v = BitsOf (native32 (NOT MarkMask)) (native32 v)"

definition maskOurMarkBits :: gw_expr where
  "maskOurMarkBits = BitsOf (native32 MarkMask) (native32 0)"

definition restoreExprs :: "exit_rule \<Rightarrow> gw_expr list" where
  "restoreExprs e =
     [CtMark, maskOurMarkBits, Test CmpOpEq (native32 (er_mark e)), MetaMark, setOurMarkBits (er_mark e), SetMetaMark]"

text \<open>\<open>Addr.AsSlice\<close> and \<open>net.CIDRMask\<close>; the mask of an invalid prefix is nil.\<close>

fun as_slice :: "addr \<Rightarrow> byte list" where
  "as_slice AddrNone = []" | "as_slice (V4 a) = be_bytes 4 a" | "as_slice (V6 a _) = be_bytes 16 a"

definition cidr_mask :: "int \<Rightarrow> nat \<Rightarrow> byte list" where
  "cidr_mask n len =
     (if n < 0 \<or> n > 8 * int len then []
      else map (\<lambda>i. let k = min 8 (nat n - 8 * i) in push_bit (8 - k) (mask k)) [0 ..< len])"

text \<open>The guards every classification starts with, and the mark it ends with.\<close>

definition guardExprs :: "byte \<Rightarrow> gw_expr list" where
  "guardExprs proto =
     [MetaMark, maskOurMarkBits, Test CmpOpEq (native32 0),
      CtStatus, BitsOf (native32 ctStatusDstNAT) (native32 0), Test CmpOpEq (native32 0),
      MetaNfproto, Test CmpOpEq [proto],
      FibAddrType, Test CmpOpNeq (native32 RTN_LOCAL)]"

definition markExprs :: "u32 \<Rightarrow> gw_expr list" where
  "markExprs v = [MetaMark, setOurMarkBits v, SetMetaMark]"

definition addrExprs :: "nat \<Rightarrow> nat \<Rightarrow> prefix \<Rightarrow> gw_expr list" where
  "addrExprs off len q =
     (let addr = as_slice (paddr q)
      in [NetPayload off len, BitsOf (cidr_mask (pbits q) (length addr)) (replicate len 0), Test CmpOpEq addr])"

definition sourceAddr :: "prefix \<Rightarrow> gw_expr list" where
  "sourceAddr q = addrExprs (if is6 (paddr q) then 8 else 12) (if is6 (paddr q) then 16 else 4) (masked q)"

definition nfproto_of :: "prefix \<Rightarrow> byte" where
  "nfproto_of q = (if is6 (paddr q) then 10 else 2)"

definition gwSourceExprs :: "'a source_rule_scheme \<Rightarrow> gw_expr list \<Rightarrow> gw_expr list" where
  "gwSourceExprs s matches =
     guardExprs (nfproto_of (sr_prefix s))
     @ sourceAddr (sr_prefix s)
     @ matches @ markExprs (sr_mark s)"

definition destinationExprs :: "destination_rule \<Rightarrow> gw_expr list" where
  "destinationExprs r =
     gwSourceExprs r
       ([MetaIifname, Test CmpOpEq (map of_char (sr_interface r) @ [0])]
        @ addrExprs (if is6 (paddr (dest_prefix r)) then 24 else 16) (length (as_slice (paddr (dest_prefix r)))) (dest_prefix r))"

definition deviceExprs :: "device_rule \<Rightarrow> gw_expr list" where
  "deviceExprs r =
     (let mac = (case parse_mac (dr_mac r) of None \<Rightarrow> [] | Some bs \<Rightarrow> bs)
      in guardExprs (nfproto_of (sr_prefix r))
         @ [MetaIiftype, Test CmpOpEq (native16 ARPHRD_ETHER), MetaIifname, Test CmpOpEq (ifname (sr_interface r))]
         @ sourceAddr (sr_prefix r)
         @ [LLPayload 6 6, Test CmpOpEq mac] @ markExprs (sr_mark r))"

definition accountExprs :: "exit_rule \<Rightarrow> gw_expr list" where
  "accountExprs e =
     [MetaMark, maskOurMarkBits, Test CmpOpEq (native32 (er_mark e)), CountObj (er_counter e),
      CtMark, setOurMarkBits (er_mark e), SetCtMark]"

definition unpolicedExprs :: "gw_expr list" where
  "unpolicedExprs = [MetaMark, maskOurMarkBits, Test CmpOpEq (native32 0), CountObj ''unpoliced'']"

definition snatExprs :: "snat_rule \<Rightarrow> gw_expr list" where
  "snatExprs s =
     [MetaMark, maskOurMarkBits, Test CmpOpEq (native32 (sn_mark s))]
     @ (if sn_dev s \<noteq> [] then [MetaOifname, Test CmpOpEq (ifname (sn_dev s))] else []) @ [Masq]"

text \<open>\<open>applyNFT\<close>: the rules of the two chains, in the order they are added.\<close>

definition classify_rules :: "gw_desired \<Rightarrow> gw_expr list list" where
  "classify_rules d =
     map restoreExprs (gd_exits d) @ map destinationExprs (gd_destinations d) @ map deviceExprs (gd_devices d)
     @ map (\<lambda>s. gwSourceExprs s []) (gd_sources d) @ map accountExprs (gd_exits d) @ [unpolicedExprs]"

definition postrouting_rules :: "gw_desired \<Rightarrow> gw_expr list list" where
  "postrouting_rules d = map snatExprs (gd_snat d)"

text \<open>No rule has a verdict, so a chain is all of its rules.\<close>

definition run_chain ::
  "(gw_packet \<Rightarrow> gw_expr list \<Rightarrow> byte list \<Rightarrow> marks \<Rightarrow> marks) \<Rightarrow> gw_expr list list \<Rightarrow> gw_packet \<Rightarrow> marks \<Rightarrow> marks" where
  "run_chain run rules p m = fold (\<lambda>es m. run p es [] m) rules m"


section \<open>Bytes and bits\<close>

lemma be_bytes_nth: "i < n \<Longrightarrow> be_bytes n w ! i = ucast (drop_bit (8 * (n - 1 - i)) w)"
proof (induction n arbitrary: i)
  case (Suc n)
  then show ?case by (cases i) auto
qed simp

lemma be_bytes_and: "map2 (AND) (be_bytes n a) (be_bytes n b) = be_bytes n (a AND b)"
proof (induction n)
  case (Suc n)
  have "(ucast (drop_bit k a) AND ucast (drop_bit k b) :: byte) = ucast (drop_bit k (a AND b))" for k
    by (rule bit_word_eqI) (simp add: bit_simps)
  then show ?case using Suc by simp
qed simp

lemma be_bytes_xor: "map2 (XOR) (be_bytes n a) (be_bytes n b) = be_bytes n (a XOR b)"
proof (induction n)
  case (Suc n)
  have "(ucast (drop_bit k a) XOR ucast (drop_bit k b) :: byte) = ucast (drop_bit k (a XOR b))" for k
    by (rule bit_word_eqI) (auto simp add: bit_simps)
  then show ?case using Suc by simp
qed simp

lemma be_bytes_zero: "be_bytes n 0 = replicate n 0"
  by (induction n) auto

lemma be_bytes_inj: "LENGTH('a) \<le> 8 * n \<Longrightarrow> be_bytes n a = be_bytes n b \<longleftrightarrow> a = (b :: 'a::len word)"
  using be_word_be_bytes by metis

lemma be_word_bits: "i < 8 * length bs \<Longrightarrow> 8 * length bs \<le> LENGTH('a) \<Longrightarrow>
    bit (be_word bs :: 'a::len word) i = bit (bs ! (length bs - 1 - i div 8)) (i mod 8)"
proof (induction bs arbitrary: i rule: rev_induct)
  case (snoc b bs)
  have s: "be_word (bs @ [b]) = push_bit 8 (be_word bs :: 'a word) OR ucast b" by (simp add: be_word_def be_step_def)
  show ?case
  proof (cases "i < 8")
    case True
    then show ?thesis using snoc.prems by (simp add: s bit_simps)
  next
    case False
    then have i: "i - 8 < 8 * length bs" "i div 8 = Suc ((i - 8) div 8)" "i mod 8 = (i - 8) mod 8"
      using snoc.prems by (simp_all add: le_div_geq le_mod_geq)
    have "(i - 8) div 8 < length bs" using i(1) by (simp add: less_mult_imp_div_less)
    then have "length bs - Suc ((i - 8) div 8) < length bs" by linarith
    then have "(bs @ [b]) ! (length (bs @ [b]) - 1 - i div 8) = bs ! (length bs - 1 - (i - 8) div 8)"
      using i(2) nth_append [of bs "[b]" "length bs - 1 - (i - 8) div 8"] by simp
    moreover have "bit (be_word (bs @ [b]) :: 'a word) i = bit (be_word bs :: 'a word) (i - 8)"
      using False snoc.prems bit_imp_le_length [of b i] by (auto simp: s bit_simps)
    ultimately show ?thesis using snoc.IH [OF i(1)] snoc.prems i(3) by simp
  qed
qed simp

lemma be_bytes_be_word: "8 * length bs \<le> LENGTH('a) \<Longrightarrow> be_bytes (length bs) (be_word bs :: 'a::len word) = bs"
proof (rule nth_equalityI)
  fix i
  assume l: "8 * length bs \<le> LENGTH('a)" and "i < length (be_bytes (length bs) (be_word bs :: 'a word))"
  then have i: "i < length bs" by simp
  let ?k = "length bs - 1 - i"
  show "be_bytes (length bs) (be_word bs :: 'a word) ! i = bs ! i"
  proof (rule bit_word_eqI)
    fix j assume "j < LENGTH(8)"
    then have j: "j < 8" by simp
    have "8 * ?k + j < 8 * length bs" "length bs - 1 - (8 * ?k + j) div 8 = i" "(8 * ?k + j) mod 8 = j" using i j by auto
    then have "bit (be_word bs :: 'a word) (8 * ?k + j) = bit (bs ! i) j" using be_word_bits [OF _ l] by simp
    then show "bit (be_bytes (length bs) (be_word bs :: 'a word) ! i) j = bit (bs ! i) j"
      using i j by (simp add: be_bytes_nth bit_simps add.commute)
  qed
qed simp

lemma map2_rev: "length xs = length ys \<Longrightarrow> map2 f (rev xs) (rev ys) = rev (map2 f xs ys)"
  by (simp add: zip_rev rev_map)

lemma native32_bits: "map2 (XOR) (map2 (AND) (native32 w) (native32 k)) (native32 x) = native32 ((w AND k) XOR x)"
  by (simp only: native32_def map2_rev length_be_bytes be_bytes_and be_bytes_xor)

lemma native32_eq: "native32 a = native32 b \<longleftrightarrow> a = b"
  by (simp add: native32_def be_bytes_inj)

lemma length_native32 [simp]: "length (native32 w) = 4"
  by (simp add: native32_def)

lemma take_native32 [simp]: "take 4 (native32 w) = native32 w"
  by simp

lemma cidr_mask_word:
  assumes "n \<le> 8 * len" and "8 * len = LENGTH('a)"
  shows "cidr_mask (int n) len = be_bytes len (push_bit (8 * len - n) (mask n) :: 'a::len word)"
proof (rule nth_equalityI)
  show "length (cidr_mask (int n) len) = length (be_bytes len (push_bit (8 * len - n) (mask n) :: 'a word))"
    using assms by (simp add: cidr_mask_def)
  fix i assume "i < length (cidr_mask (int n) len)"
  then have i: "i < len" using assms by (simp add: cidr_mask_def split: if_splits)
  let ?k = "min 8 (n - 8 * i)"
  have "(push_bit (8 - ?k) (mask ?k) :: byte) = ucast (drop_bit (8 * (len - 1 - i)) (push_bit (8 * len - n) (mask n) :: 'a word))"
  proof (rule bit_word_eqI)
    fix j assume "j < LENGTH(8)"
    then have j: "j < 8" by simp
    obtain d where d: "len = Suc (i + d)" using less_imp_Suc_add [OF i] by blast
    have l: "LENGTH('a) = 8 + 8 * i + 8 * d" using assms(2) d by simp
    then show "bit (push_bit (8 - ?k) (mask ?k) :: byte) j \<longleftrightarrow>
        bit (ucast (drop_bit (8 * (len - 1 - i)) (push_bit (8 * len - n) (mask n) :: 'a word)) :: byte) j"
      using j assms(1) unfolding l [symmetric] by (auto simp: bit_simps d l min_def split: if_splits)
  qed
  then show "cidr_mask (int n) len ! i = be_bytes len (push_bit (8 * len - n) (mask n) :: 'a word) ! i"
    using i assms by (simp add: cidr_mask_def be_bytes_nth)
qed

text \<open>Under its mask, an address is the network's exactly when it is in the prefix.\<close>

lemma masked_bytes:
  fixes a :: "'a::len word"
  assumes "n \<le> 8 * length bs" and "8 * length bs = LENGTH('a)" and "top_bits n a = a"
  shows "map2 (XOR) (map2 (AND) bs (cidr_mask (int n) (length bs))) (replicate (length bs) 0) = be_bytes (length bs) a \<longleftrightarrow>
    drop_bit (LENGTH('a) - n) (be_word bs) = drop_bit (LENGTH('a) - n) a"
proof -
  let ?w = "be_word bs :: 'a word" and ?m = "push_bit (LENGTH('a) - n) (mask n) :: 'a word" and ?k = "LENGTH('a) - n"
  have b: "bs = be_bytes (length bs) ?w" using be_bytes_be_word [of bs, where 'a = 'a] assms(2) by simp
  have "map2 (XOR) (map2 (AND) bs (cidr_mask (int n) (length bs))) (replicate (length bs) 0) = be_bytes (length bs) (?w AND ?m)"
    using be_bytes_and [of "length bs" ?w ?m] be_bytes_xor [of "length bs" "?w AND ?m" 0] b cidr_mask_word [OF assms(1,2)] assms(2)
    by (simp add: be_bytes_zero)
  moreover have "?w AND ?m = top_bits n ?w"
    by (rule bit_word_eqI) (use assms in \<open>auto simp: top_bits_def bit_simps\<close>)
  ultimately have "map2 (XOR) (map2 (AND) bs (cidr_mask (int n) (length bs))) (replicate (length bs) 0) = be_bytes (length bs) a \<longleftrightarrow>
      top_bits n ?w = top_bits n a"
    using assms(2,3) be_bytes_inj [where 'a = 'a, of "length bs"] by simp
  also have "\<dots> \<longleftrightarrow> drop_bit ?k ?w = drop_bit ?k a"
    using drop_top_bits [of n ?w] drop_top_bits [of n a] assms(1,2) by (metis top_bits_def)
  finally show ?thesis .
qed


section \<open>What the rules do\<close>

text \<open>Our bits of a mark, and a mark with our bits set.\<close>

definition our_bits :: "u32 \<Rightarrow> u32" where
  "our_bits w = w AND MarkMask"

definition with_bits :: "u32 \<Rightarrow> u32 \<Rightarrow> u32" where
  "with_bits w v = (w AND NOT MarkMask) XOR v"

lemma with_bits_our:
  assumes "our_bits v = v"
  shows "our_bits (with_bits w v) = v" "with_bits w v AND NOT MarkMask = w AND NOT MarkMask"
proof -
  have b: "\<And>i. bit v i \<Longrightarrow> bit MarkMask i" using assms by (metis bit_and_iff our_bits_def)
  show "our_bits (with_bits w v) = v"
    unfolding our_bits_def with_bits_def by (rule bit_word_eqI) (use b in \<open>auto simp: bit_simps\<close>)
  show "with_bits w v AND NOT MarkMask = w AND NOT MarkMask"
    unfolding with_bits_def by (rule bit_word_eqI) (use b in \<open>auto simp: bit_simps\<close>)
qed

text \<open>The addresses of a packet, as far as its header holds them.\<close>

definition gp_addr :: "gw_packet \<Rightarrow> nat \<Rightarrow> nat \<Rightarrow> addr" where
  "gp_addr p off4 off6 =
     (let net = gp_network p
      in if gp_nfproto p = 2 \<and> off4 + 4 \<le> length net then V4 (be_word (take 4 (drop off4 net)))
         else if gp_nfproto p = 10 \<and> off6 + 16 \<le> length net then V6 (be_word (take 16 (drop off6 net))) []
         else AddrNone)"

definition gp_src :: "gw_packet \<Rightarrow> addr" where "gp_src p = gp_addr p 12 8"
definition gp_dst :: "gw_packet \<Rightarrow> addr" where "gp_dst p = gp_addr p 16 24"

definition unmarked :: "gw_packet \<Rightarrow> marks \<Rightarrow> bool" where
  "unmarked p m \<longleftrightarrow> our_bits (mk_meta m) = 0"

definition forwarded_fresh :: "gw_packet \<Rightarrow> bool" where
  "forwarded_fresh p \<longleftrightarrow> gp_ct_status p AND ctStatusDstNAT = 0 \<and> gp_daddr_type p \<noteq> RTN_LOCAL"

definition set_meta :: "u32 \<Rightarrow> marks \<Rightarrow> marks" where
  "set_meta v m = m\<lparr>mk_meta := with_bits (mk_meta m) v\<rparr>"

definition source_matches :: "'a source_rule_scheme \<Rightarrow> gw_packet \<Rightarrow> bool" where
  "source_matches s p \<longleftrightarrow> contains (sr_prefix s) (gp_src p)"

definition destination_matches :: "destination_rule \<Rightarrow> gw_packet \<Rightarrow> bool" where
  "destination_matches r p \<longleftrightarrow> source_matches r p \<and> gp_iif p = sr_interface r \<and> contains (dest_prefix r) (gp_dst p)"

definition device_matches :: "device_rule \<Rightarrow> gw_packet \<Rightarrow> bool" where
  "device_matches r p \<longleftrightarrow> source_matches r p \<and> gp_iif p = sr_interface r \<and> gp_iiftype p = ARPHRD_ETHER \<and>
     12 \<le> length (gp_ll p) \<and> parse_mac (dr_mac r) = Some (take 6 (drop 6 (gp_ll p)))"

lemma gp_addr_family:
  "gp_addr p i j = V4 a \<Longrightarrow> gp_nfproto p = 2" "gp_addr p i j = V6 b z \<Longrightarrow> gp_nfproto p = 10"
  by (auto simp: gp_addr_def Let_def split: if_splits)

lemma contains_family:
  assumes "contains q (gp_addr p i j)"
  shows "gp_nfproto p = nfproto_of q"
  using assms gp_addr_family [of p i j]
  by (cases "paddr q"; cases "gp_addr p i j") (auto simp: contains_def nfproto_of_def)

lemma is6_masked: "prefix_valid q \<Longrightarrow> is6 (paddr (masked q)) = is6 (paddr q)"
  by (cases "paddr q") (auto simp: masked_def prefix_valid_def)

lemma length_as_slice: "prefix_valid q \<Longrightarrow> length (as_slice (paddr (masked q))) = (if is6 (paddr q) then 16 else 4)"
  by (cases "paddr q") (auto simp: masked_def prefix_valid_def)

lemma length_ifname [simp]: "length (ifname s) = 16"
  by (simp add: ifname_def)

text \<open>Comparing a name with its NUL is comparing all of it.\<close>

lemma ifname_prefix:
  assumes "kernel_name a" and "kernel_name b"
  shows "take (Suc (length b)) (ifname a) = map of_char b @ [0] \<longleftrightarrow> a = b"
proof -
  have pad: "ifname s = map of_char s @ replicate (16 - length s) 0" "\<forall>x \<in> set (map of_char s). x \<noteq> (0::byte)"
    if "kernel_name s" for s
    using that by (auto simp: ifname_def kernel_name_def)
  have cut: "takeWhile (\<lambda>x. x \<noteq> 0) (map of_char s @ 0 # xs) = (map of_char s :: byte list)" if "kernel_name s" for s xs
    using pad(2) [OF that] by (simp add: takeWhile_append2 takeWhile_tail)
  have l: "length b < 16" using assms(2) by (simp add: kernel_name_def)
  show ?thesis
  proof
    assume e: "take (Suc (length b)) (ifname a) = map of_char b @ [0]"
    have "ifname a = (map of_char b @ [0]) @ drop (Suc (length b)) (ifname a)" using e append_take_drop_id by metis
    then obtain xs where "ifname a = map of_char b @ 0 # xs" by (metis append.assoc append_Cons append_Nil)
    then have "takeWhile (\<lambda>x. x \<noteq> 0) (ifname a) = map of_char b" using cut [OF assms(2)] by simp
    moreover have "takeWhile (\<lambda>x. x \<noteq> 0) (ifname b) = map of_char b"
    proof -
      have "16 - length b = Suc (15 - length b)" using l by simp
      then have "ifname b = map of_char b @ 0 # replicate (15 - length b) 0" using pad(1) [OF assms(2)] by simp
      then show ?thesis using cut [OF assms(2)] by simp
    qed
    moreover have "takeWhile (\<lambda>x. x \<noteq> 0) (ifname a) = map of_char a"
    proof -
      have "16 - length a = Suc (15 - length a)" using assms(1) unfolding kernel_name_def by linarith
      then have "ifname a = map of_char a @ 0 # replicate (15 - length a) 0" using pad(1) [OF assms(1)] by simp
      then show ?thesis using cut [OF assms(1)] by simp
    qed
    ultimately have "ifname a = ifname b" using pad(1) assms by (metis length_map)
    then show "a = b" using ifname_inj assms by blast
  next
    have "16 - length b = Suc (15 - length b)" using l by simp
    then show "a = b \<Longrightarrow> take (Suc (length b)) (ifname a) = map of_char b @ [0]" using pad(1) [OF assms(2)] by simp
  qed
qed

context mark_machine begin

lemma run_bits_native:
  "run p (BitsOf (native32 k) (native32 x) # es) (native32 w) m = run p es (native32 ((w AND k) XOR x)) m"
  by (simp add: run_bits native32_bits)

lemma run_test_native:
  "run p (Test op (native32 d) # es) (native32 w) m = (if (w = d) = (op = CmpOpEq) then run p es (native32 w) m else m)"
  by (simp add: run_test native32_eq)

lemmas run_simps = run_Nil run_load run_meta run_ct run_bits_native run_test_native run_count run_masq

lemma run_mark: "run p (markExprs v) r m = set_meta v m"
  by (simp add: markExprs_def setOurMarkBits_def run_simps with_bits_def set_meta_def)

lemma run_restore:
  "run p (restoreExprs e) r m = (if our_bits (mk_ct m) = er_mark e then set_meta (er_mark e) m else m)"
  by (simp add: restoreExprs_def maskOurMarkBits_def setOurMarkBits_def run_simps our_bits_def with_bits_def set_meta_def)

lemma run_account:
  "run p (accountExprs e) r m =
     (if our_bits (mk_meta m) = er_mark e
      then m\<lparr>mk_counted := mk_counted m @ [er_counter e], mk_ct := with_bits (mk_ct m) (er_mark e)\<rparr> else m)"
  by (simp add: accountExprs_def maskOurMarkBits_def setOurMarkBits_def run_simps our_bits_def with_bits_def)

lemma run_unpoliced:
  "run p unpolicedExprs r m = (if our_bits (mk_meta m) = 0 then m\<lparr>mk_counted := mk_counted m @ [''unpoliced'']\<rparr> else m)"
  by (simp add: unpolicedExprs_def maskOurMarkBits_def run_simps our_bits_def)

lemma run_guard:
  "run p (guardExprs f @ es) r m =
     (if unmarked p m \<and> forwarded_fresh p \<and> gp_nfproto p = f then run p es (native32 (gp_daddr_type p)) m else m)"
  by (simp add: guardExprs_def maskOurMarkBits_def run_simps our_bits_def unmarked_def forwarded_fresh_def run_test)

lemma run_addr:
  assumes "prefix_valid q" and "masked q = q" and "gp_nfproto p = nfproto_of q"
    and "len = length (as_slice (paddr q))" and "off = (if is6 (paddr q) then j else i)"
  shows "run p (addrExprs off len q @ es) r m =
    (if contains q (gp_addr p i j) then run p es (as_slice (paddr q)) m else m)"
proof -
  obtain n where n: "pbits q = int n" "n \<le> bit_len (paddr q)"
    using assms(1) by (metis prefix_valid_def int_nat_eq nat_le_iff nat_int)
  have t: "take (length xs) xs = xs" for xs :: "byte list" by simp
  show ?thesis
  proof (cases "paddr q")
    case AddrNone
    then show ?thesis using assms(1) by (simp add: prefix_valid_def)
  next
    case (V4 a)
    let ?bs = "take 4 (drop i (gp_network p))"
    have a: "top_bits n a = a" using assms(1,2) V4 n by (auto simp: masked_def dest!: arg_cong [where f = paddr])
    have "map2 (XOR) (map2 (AND) ?bs (cidr_mask (int n) 4)) (replicate 4 0) = be_bytes 4 a \<longleftrightarrow>
        drop_bit (32 - n) (be_word ?bs) = drop_bit (32 - n) a" if "i + 4 \<le> length (gp_network p)"
      using masked_bytes [of n ?bs a] a n V4 that by simp
    moreover have "length (cidr_mask (int n) 4) = 4" using n(2) V4 by (simp add: cidr_mask_def)
    ultimately show ?thesis
      using assms V4 n
      by (cases "i + 4 \<le> length (gp_network p) \<and> drop_bit (32 - n) (be_word ?bs) = drop_bit (32 - n) a")
         (auto simp: addrExprs_def Let_def run_load run_bits run_test gp_addr_def nfproto_of_def contains_V4)
  next
    case (V6 a z)
    let ?bs = "take 16 (drop j (gp_network p))"
    have a: "top_bits n a = a" using assms(1,2) V6 n by (auto simp: masked_def dest!: arg_cong [where f = paddr])
    have "map2 (XOR) (map2 (AND) ?bs (cidr_mask (int n) 16)) (replicate 16 0) = be_bytes 16 a \<longleftrightarrow>
        drop_bit (128 - n) (be_word ?bs) = drop_bit (128 - n) a" if "j + 16 \<le> length (gp_network p)"
      using masked_bytes [of n ?bs a] a n V6 that by simp
    moreover have "length (cidr_mask (int n) 16) = 16" using n(2) V6 by (simp add: cidr_mask_def)
    ultimately show ?thesis
      using assms V6 n
      by (cases "j + 16 \<le> length (gp_network p) \<and> drop_bit (128 - n) (be_word ?bs) = drop_bit (128 - n) a")
         (auto simp: addrExprs_def Let_def run_load run_bits run_test gp_addr_def nfproto_of_def contains_V6)
  qed
qed

lemma run_sourceAddr:
  assumes "prefix_valid q" and "gp_nfproto p = nfproto_of q"
  shows "run p (sourceAddr q @ es) r m = (if contains q (gp_src p) then run p es (as_slice (paddr (masked q))) m else m)"
proof -
  have "gp_nfproto p = nfproto_of (masked q)" using assms by (simp add: nfproto_of_def is6_masked)
  then show ?thesis
    unfolding sourceAddr_def gp_src_def
    using run_addr [of "masked q" p _ _ 8 12] assms(1) by (simp add: is6_masked length_as_slice)
qed

lemma run_source:
  assumes "prefix_valid (sr_prefix s)"
  shows "run p (gwSourceExprs s es) r m =
    (if unmarked p m \<and> forwarded_fresh p \<and> source_matches s p
     then run p (es @ markExprs (sr_mark s)) (as_slice (paddr (masked (sr_prefix s)))) m else m)"
  using contains_family [of "sr_prefix s" p 12 8] run_sourceAddr [OF assms, of p]
  by (auto simp: gwSourceExprs_def run_guard source_matches_def gp_src_def)

lemma run_destination:
  assumes "prefix_valid (sr_prefix s)" and "prefix_valid (dest_prefix s)" and "masked (dest_prefix s) = dest_prefix s"
    and "is6 (paddr (sr_prefix s)) = is6 (paddr (dest_prefix s))" and "kernel_name (gp_iif p)" and "kernel_name (sr_interface s)"
  shows "run p (destinationExprs s) r m =
    (if unmarked p m \<and> forwarded_fresh p \<and> destination_matches s p then set_meta (sr_mark s) m else m)"
proof -
  let ?q = "dest_prefix s"
  have l: "length (map of_char (sr_interface s) @ [0 :: byte]) \<le> 16" using assms(6) by (simp add: kernel_name_def)
  have t: "run p (MetaIifname # Test CmpOpEq (map of_char (sr_interface s) @ [0]) # es) r m =
      (if gp_iif p = sr_interface s then run p es (ifname (gp_iif p)) m else m)" for es r
    using ifname_prefix [OF assms(5,6)] l by (simp add: run_load run_test)
  have a: "run p (addrExprs (if is6 (paddr ?q) then 24 else 16) (length (as_slice (paddr ?q))) ?q @ es) r m =
      (if contains ?q (gp_dst p) then run p es (as_slice (paddr ?q)) m else m)" if "source_matches s p" for es r
  proof -
    have "gp_nfproto p = nfproto_of ?q"
      using that contains_family [of "sr_prefix s" p 12 8] assms(4) by (simp add: source_matches_def gp_src_def nfproto_of_def)
    then show ?thesis unfolding gp_dst_def by (rule run_addr [OF assms(2,3) _ refl refl])
  qed
  show ?thesis
    using t a by (auto simp: destinationExprs_def run_source [OF assms(1)] destination_matches_def run_mark)
qed

lemma run_device:
  assumes "prefix_valid (sr_prefix s)" and "kernel_name (gp_iif p)" and "kernel_name (sr_interface s)"
    and "parse_mac (dr_mac s) = Some mac" and "length mac = 6"
  shows "run p (deviceExprs s) r m =
    (if unmarked p m \<and> forwarded_fresh p \<and> device_matches s p then set_meta (sr_mark s) m else m)"
proof -
  have n: "native16 a = native16 b \<longleftrightarrow> a = b" "length (native16 a) = 2" for a b :: u16
    by (simp_all add: native16_def be_bytes_inj)
  have h: "run p ([MetaIiftype, Test CmpOpEq (native16 ARPHRD_ETHER), MetaIifname, Test CmpOpEq (ifname (sr_interface s))] @ es) r m =
      (if gp_iiftype p = ARPHRD_ETHER \<and> gp_iif p = sr_interface s then run p es (ifname (gp_iif p)) m else m)" for es r
    using ifname_inj [OF assms(2,3)] n by (auto simp: run_load run_test)
  have l: "run p ([LLPayload 6 6, Test CmpOpEq mac] @ es) r m =
      (if 12 \<le> length (gp_ll p) \<and> take 6 (drop 6 (gp_ll p)) = mac then run p es mac m else m)" for es r
    using assms(5) by (auto simp: run_load run_test)
  have f: "source_matches s p \<Longrightarrow> gp_nfproto p = nfproto_of (sr_prefix s)"
    using contains_family [of "sr_prefix s" p 12 8] by (simp add: source_matches_def gp_src_def)
  show ?thesis
    using f run_sourceAddr [OF assms(1), of p] h l assms(4)
    by (auto simp: deviceExprs_def Let_def run_guard device_matches_def source_matches_def run_mark simp del: append.simps)
qed

lemma run_snat:
  assumes "kernel_name (gp_oif p)" and "kernel_name (sn_dev s)"
  shows "run p (snatExprs s) r m =
    (if our_bits (mk_meta m) = sn_mark s \<and> (sn_dev s = [] \<or> gp_oif p = sn_dev s) then m\<lparr>mk_masq := True\<rparr> else m)"
  using ifname_inj [OF assms]
  by (auto simp: snatExprs_def maskOurMarkBits_def run_simps our_bits_def run_test)

end

end
