(* ===== verification/Classify.thy ===== *)
theory Classify
  imports GwNft Interfaces
begin

text \<open>
  The classification chain as a whole, and with the policy rules of \<open>ExitRender\<close>: which exit a
  configuration chooses for a packet, and where the packet then goes.
\<close>

unbundle bit_operations_syntax

section \<open>The chain\<close>

text \<open>What the chain asks of what is rendered, for it to be loaded and to mean what it says.\<close>

definition source_ok :: "'a source_rule_scheme \<Rightarrow> bool" where
  "source_ok s \<longleftrightarrow> prefix_valid (sr_prefix s) \<and> our_bits (sr_mark s) = sr_mark s \<and> sr_mark s \<noteq> 0"

definition destination_ok :: "destination_rule \<Rightarrow> bool" where
  "destination_ok s \<longleftrightarrow> source_ok s \<and> prefix_valid (dest_prefix s) \<and> masked (dest_prefix s) = dest_prefix s \<and>
     is6 (paddr (sr_prefix s)) = is6 (paddr (dest_prefix s)) \<and> kernel_name (sr_interface s)"

definition device_ok :: "device_rule \<Rightarrow> bool" where
  "device_ok s \<longleftrightarrow> source_ok s \<and> kernel_name (sr_interface s) \<and> (\<exists>mac. parse_mac (dr_mac s) = Some mac \<and> length mac = 6)"

definition exits_ok :: "exit_rule list \<Rightarrow> bool" where
  "exits_ok es \<longleftrightarrow> distinct (map er_mark es) \<and> (\<forall>e \<in> set es. our_bits (er_mark e) = er_mark e \<and> er_mark e \<noteq> 0)"

definition rules_ok :: "gw_desired \<Rightarrow> bool" where
  "rules_ok d \<longleftrightarrow> exits_ok (gd_exits d) \<and> (\<forall>s \<in> set (gd_destinations d). destination_ok s) \<and>
     (\<forall>s \<in> set (gd_devices d). device_ok s) \<and> (\<forall>s \<in> set (gd_sources d). source_ok s)"

text \<open>The mark of the first rule that matches a packet, zero for none.\<close>

definition first_mark :: "gw_desired \<Rightarrow> gw_packet \<Rightarrow> u32" where
  "first_mark d p =
     (case find (\<lambda>s. destination_matches s p) (gd_destinations d) of
        Some s \<Rightarrow> sr_mark s
      | None \<Rightarrow>
          (case find (\<lambda>s. device_matches s p) (gd_devices d) of
             Some s \<Rightarrow> sr_mark s
           | None \<Rightarrow> (case find (\<lambda>s. source_matches s p) (gd_sources d) of Some s \<Rightarrow> sr_mark s | None \<Rightarrow> 0)))"

definition exit_with :: "gw_desired \<Rightarrow> u32 \<Rightarrow> exit_rule option" where
  "exit_with d v = find (\<lambda>e. er_mark e = v) (gd_exits d)"

lemma with_bits_again: "our_bits v = v \<Longrightarrow> with_bits (with_bits w v) v = with_bits w v"
  using with_bits_our(2) [of v w] by (simp add: with_bits_def)

lemma set_meta_again: "our_bits v = v \<Longrightarrow> set_meta v (set_meta v m) = set_meta v m"
  by (simp add: set_meta_def with_bits_again)

lemma unmarked_set_meta: "our_bits v = v \<Longrightarrow> unmarked p (set_meta v m) \<longleftrightarrow> v = 0"
  by (simp add: unmarked_def set_meta_def with_bits_our)

text \<open>Rules that each mark what is not marked yet: the first match decides.\<close>

lemma fold_first_match:
  assumes "\<forall>s \<in> set xs. our_bits (v s) = v s \<and> v s \<noteq> 0"
    and "\<And>s m. s \<in> set xs \<Longrightarrow> f s m = (if unmarked p m \<and> forwarded_fresh p \<and> M s then set_meta (v s) m else m)"
  shows "fold f xs m = (if unmarked p m \<and> forwarded_fresh p
    then (case find M xs of None \<Rightarrow> m | Some s \<Rightarrow> set_meta (v s) m) else m)"
  using assms
proof (induction xs arbitrary: m)
  case (Cons x xs)
  have IH: "fold f xs m' = (if unmarked p m' \<and> forwarded_fresh p
      then (case find M xs of None \<Rightarrow> m' | Some s \<Rightarrow> set_meta (v s) m') else m')" for m'
    by (rule Cons.IH) (use Cons.prems in auto)
  have x: "f x m = (if unmarked p m \<and> forwarded_fresh p \<and> M x then set_meta (v x) m else m)"
    "our_bits (v x) = v x" "v x \<noteq> 0" using Cons.prems by simp_all
  show ?case
    by (cases "unmarked p m \<and> forwarded_fresh p \<and> M x") (auto simp: IH x unmarked_set_meta)
qed simp

lemma find_er_mark:
  assumes "exits_ok es" and "e \<in> set es"
  shows "find (\<lambda>x. er_mark x = er_mark e) es = Some e"
  using assms by (induction es) (auto simp: exits_ok_def)

context mark_machine begin

lemma fold_restore:
  assumes "exits_ok es"
  shows "fold (\<lambda>e m. run p (restoreExprs e) [] m) es m =
    (case find (\<lambda>e. er_mark e = our_bits (mk_ct m)) es of None \<Rightarrow> m | Some e \<Rightarrow> set_meta (er_mark e) m)"
  using assms
proof (induction es arbitrary: m)
  case (Cons e es)
  then have o: "exits_ok es" "our_bits (er_mark e) = er_mark e" by (simp_all add: exits_ok_def)
  show ?case
  proof (cases "er_mark e = our_bits (mk_ct m)")
    case True
    have "find (\<lambda>x. er_mark x = our_bits (mk_ct m)) es = None"
      using Cons.prems unfolding True [symmetric] by (auto simp: find_None_iff exits_ok_def) (metis image_eqI)
    moreover have "run p (restoreExprs e) [] m = set_meta (er_mark e) m" using True by (simp add: run_restore)
    ultimately show ?thesis using True Cons.IH [OF o(1), of "set_meta (er_mark e) m"] by simp (simp add: set_meta_def)
  next
    case False
    then have "run p (restoreExprs e) [] m = m" by (simp add: run_restore)
    then show ?thesis using False Cons.IH [OF o(1), of m] by simp
  qed
qed simp

lemma fold_account:
  assumes "exits_ok es"
  shows "fold (\<lambda>e m. run p (accountExprs e) [] m) es m =
    (case find (\<lambda>e. er_mark e = our_bits (mk_meta m)) es of None \<Rightarrow> m
     | Some e \<Rightarrow> m\<lparr>mk_counted := mk_counted m @ [er_counter e], mk_ct := with_bits (mk_ct m) (er_mark e)\<rparr>)"
  using assms
proof (induction es arbitrary: m)
  case (Cons e es)
  then have o: "exits_ok es" by (simp add: exits_ok_def)
  show ?case
  proof (cases "er_mark e = our_bits (mk_meta m)")
    case True
    have "find (\<lambda>x. er_mark x = our_bits (mk_meta m)) es = None"
      using Cons.prems unfolding True [symmetric] by (auto simp: find_None_iff exits_ok_def) (metis image_eqI)
    moreover have "run p (accountExprs e) [] m =
        m\<lparr>mk_counted := mk_counted m @ [er_counter e], mk_ct := with_bits (mk_ct m) (er_mark e)\<rparr>" (is "_ = ?m")
      using True by (simp add: run_account)
    ultimately show ?thesis using True Cons.IH [OF o, of ?m] by simp
  next
    case False
    then have "run p (accountExprs e) [] m = m" by (simp add: run_account)
    then show ?thesis using False Cons.IH [OF o, of m] by simp
  qed
qed simp

lemma fold_classify:
  assumes "rules_ok d" and "kernel_name (gp_iif p)"
  shows "fold (\<lambda>es m. run p es [] m)
      (map destinationExprs (gd_destinations d) @ map deviceExprs (gd_devices d) @ map (\<lambda>s. gwSourceExprs s []) (gd_sources d)) m =
    (if unmarked p m \<and> forwarded_fresh p \<and> first_mark d p \<noteq> 0 then set_meta (first_mark d p) m else m)"
proof -
  have d: "destination_ok s" if "s \<in> set (gd_destinations d)" for s using assms(1) that by (simp add: rules_ok_def)
  have v: "device_ok s" if "s \<in> set (gd_devices d)" for s using assms(1) that by (simp add: rules_ok_def)
  have s: "source_ok s" if "s \<in> set (gd_sources d)" for s using assms(1) that by (simp add: rules_ok_def)
  have 1: "fold (\<lambda>s m. run p (destinationExprs s) [] m) (gd_destinations d) m =
      (if unmarked p m \<and> forwarded_fresh p
       then (case find (\<lambda>s. destination_matches s p) (gd_destinations d) of None \<Rightarrow> m | Some s \<Rightarrow> set_meta (sr_mark s) m) else m)" for m
    by (rule fold_first_match) (use d assms(2) run_destination in \<open>auto simp: destination_ok_def source_ok_def\<close>)
  have 2: "fold (\<lambda>s m. run p (deviceExprs s) [] m) (gd_devices d) m =
      (if unmarked p m \<and> forwarded_fresh p
       then (case find (\<lambda>s. device_matches s p) (gd_devices d) of None \<Rightarrow> m | Some s \<Rightarrow> set_meta (sr_mark s) m) else m)" for m
  proof (rule fold_first_match)
    show "\<forall>s \<in> set (gd_devices d). our_bits (sr_mark s) = sr_mark s \<and> sr_mark s \<noteq> 0"
      using v by (auto simp: device_ok_def source_ok_def)
    fix s m assume "s \<in> set (gd_devices d)"
    then have o: "device_ok s" by (rule v)
    then obtain mac where "parse_mac (dr_mac s) = Some mac" "length mac = 6" by (auto simp: device_ok_def)
    then show "run p (deviceExprs s) [] m = (if unmarked p m \<and> forwarded_fresh p \<and> device_matches s p then set_meta (sr_mark s) m else m)"
      using run_device [OF _ assms(2)] o by (simp add: device_ok_def source_ok_def)
  qed
  have 3: "fold (\<lambda>s m. run p (gwSourceExprs s []) [] m) (gd_sources d) m =
      (if unmarked p m \<and> forwarded_fresh p
       then (case find (\<lambda>s. source_matches s p) (gd_sources d) of None \<Rightarrow> m | Some s \<Rightarrow> set_meta (sr_mark s) m) else m)" for m
    by (rule fold_first_match) (use s in \<open>auto simp: source_ok_def run_source run_mark\<close>)
  have z: "our_bits (sr_mark s) = sr_mark s \<and> sr_mark s \<noteq> 0"
    if "find (\<lambda>s. destination_matches s p) (gd_destinations d) = Some s" for s
    using that d by (auto simp: find_Some_iff destination_ok_def source_ok_def)
  have z': "our_bits (sr_mark s) = sr_mark s \<and> sr_mark s \<noteq> 0"
    if "find (\<lambda>s. device_matches s p) (gd_devices d) = Some s" for s
    using that v by (auto simp: find_Some_iff device_ok_def source_ok_def)
  have z'': "sr_mark s \<noteq> 0" if "find (\<lambda>s. source_matches s p) (gd_sources d) = Some s" for s
    using that s by (auto simp: find_Some_iff source_ok_def)
  show ?thesis
    using z z' z'' unmarked_set_meta by (auto simp: fold_map o_def 1 2 3 first_mark_def split: option.split)
qed

text \<open>The chain, whole.\<close>

lemma chain_result:
  assumes "rules_ok d" and "kernel_name (gp_iif p)" and "unmarked p m"
  shows "run_chain run (classify_rules d) p m =
    (let v = (case exit_with d (our_bits (mk_ct m)) of Some e \<Rightarrow> er_mark e
              | None \<Rightarrow> if forwarded_fresh p then first_mark d p else 0);
         m' = (if v = 0 then m else set_meta v m)
     in if v = 0 then m'\<lparr>mk_counted := mk_counted m @ [''unpoliced'']\<rparr>
        else (case exit_with d v of
                None \<Rightarrow> m'
              | Some e \<Rightarrow> m'\<lparr>mk_counted := mk_counted m @ [er_counter e], mk_ct := with_bits (mk_ct m) v\<rparr>))"
proof -
  let ?cls = "map destinationExprs (gd_destinations d) @ map deviceExprs (gd_devices d) @ map (\<lambda>s. gwSourceExprs s []) (gd_sources d)"
  let ?f = "\<lambda>es m. run p es [] m"
  have o: "exits_ok (gd_exits d)" using assms(1) by (simp add: rules_ok_def)
  have f: "our_bits (first_mark d p) = first_mark d p"
    using assms(1)
    by (auto simp: first_mark_def rules_ok_def destination_ok_def device_ok_def source_ok_def find_Some_iff our_bits_def split: option.split)
  have r: "fold ?f (map restoreExprs (gd_exits d)) m =
      (case exit_with d (our_bits (mk_ct m)) of None \<Rightarrow> m | Some e \<Rightarrow> set_meta (er_mark e) m)"
    using fold_restore [OF o, of p m] by (simp add: fold_map o_def exit_with_def)
  have a: "fold ?f (map accountExprs (gd_exits d) @ [unpolicedExprs]) m' =
      (if our_bits (mk_meta m') = 0 then m'\<lparr>mk_counted := mk_counted m' @ [''unpoliced'']\<rparr>
       else (case exit_with d (our_bits (mk_meta m')) of None \<Rightarrow> m'
             | Some e \<Rightarrow> m'\<lparr>mk_counted := mk_counted m' @ [er_counter e], mk_ct := with_bits (mk_ct m') (er_mark e)\<rparr>))" for m'
  proof -
    have "find (\<lambda>e. er_mark e = 0) (gd_exits d) = None" using o by (auto simp: find_None_iff exits_ok_def)
    then show ?thesis
      using fold_account [OF o, of p m'] by (auto simp: fold_map o_def exit_with_def run_unpoliced split: option.split)
  qed
  have e: "er_mark e = v" "our_bits v = v" "v \<noteq> 0" if "exit_with d v = Some e" for e v
    using that o by (auto simp: exit_with_def find_Some_iff exits_ok_def)
  have all: "run_chain run (classify_rules d) p m =
      fold ?f (map accountExprs (gd_exits d) @ [unpolicedExprs]) (fold ?f ?cls (fold ?f (map restoreExprs (gd_exits d)) m))"
    by (simp add: run_chain_def classify_rules_def)
  show ?thesis
  proof (cases "exit_with d (our_bits (mk_ct m))")
    case None
    show ?thesis
      unfolding all r fold_classify [OF assms(1,2)] a
      using None assms(3) f e with_bits_our(1) [OF f]
      by (auto simp: Let_def set_meta_def unmarked_def split: option.split)
  next
    case (Some x)
    note x = e [OF Some]
    have "\<not> unmarked p (set_meta (er_mark x) m)" using x unmarked_set_meta by simp
    then show ?thesis
      unfolding all r fold_classify [OF assms(1,2)] a
      using Some x with_bits_our(1) [of "er_mark x"] by (auto simp: Let_def set_meta_def)
  qed
qed

end


section \<open>What a configuration renders\<close>

text \<open>What validation asks of the devices, and of the networks the link module reports.\<close>

definition links_ok :: "link_view \<Rightarrow> bool" where
  "links_ok links \<longleftrightarrow>
     (\<forall>ls. all_links links = Some ls \<longrightarrow> (\<forall>l \<in> set ls. kernel_name (l_name l) \<and> (\<forall>q \<in> set (l_prefixes l). prefix_valid q))) \<and>
     (\<forall>x l. lookup_link links x = Some l \<longrightarrow> (\<forall>q \<in> set (l_prefixes l). prefix_valid q))"

definition devices_ok :: "gateway \<Rightarrow> bool" where
  "devices_ok c \<longleftrightarrow> (\<forall>a \<in> set (devices c). (\<exists>mac. parse_mac (as_key a) = Some mac \<and> length mac = 6) \<and>
     (as_exit a = [] \<or> find_exit c (as_exit a) \<noteq> None))"

definition exit_rule_of :: "exit \<Rightarrow> exit_rule" where
  "exit_rule_of e = \<lparr>er_exit = ex_name e, er_mark = slot_mark (ex_slot e), er_counter = counter_name e\<rparr>"

definition direct_rule :: exit_rule where
  "direct_rule = \<lparr>er_exit = ''direct'', er_mark = DirectMark, er_counter = DirectCounter\<rparr>"

definition device_rule_of :: "gateway \<Rightarrow> assignment \<Rightarrow> string \<times> prefix \<Rightarrow> device_rule" where
  "device_rule_of c a ip =
     \<lparr>sr_interface = fst ip, sr_exit = as_exit a, sr_prefix = masked (snd ip), sr_mark = device_mark c a, dr_mac = as_key a\<rparr>"

definition device_pairs :: "gateway \<Rightarrow> link_view \<Rightarrow> (assignment \<times> (string \<times> prefix)) list" where
  "device_pairs c links =
     (case all_links links of
        None \<Rightarrow> []
      | Some ls \<Rightarrow> concat (map (\<lambda>a. map (Pair a) (adopted_prefixes (sort_by link_by_name ls))) (devices c)))"

lemma fold_nested: "fold (\<lambda>a. fold (f a) ys) xs d = fold (\<lambda>(a, y). f a y) (concat (map (\<lambda>a. map (Pair a) ys) xs)) d"
proof (induction xs arbitrary: d)
  case (Cons x xs)
  have "fold (\<lambda>(a, y). f a y) (map (Pair x) ys) d = fold (f x) ys d" by (simp add: fold_map o_def)
  then show ?case using Cons by simp
qed simp

lemma render_devices_pairs:
  "render_devices c links d = fold (\<lambda>(a, ip). render_device c a ip) (device_pairs c links) d"
  by (simp add: render_devices_def device_pairs_def fold_nested split: option.split)

lemma fold_render_device:
  "gd_devices (fold (\<lambda>(a, ip). render_device c a ip) ps d) = gd_devices d @ map (\<lambda>(a, ip). device_rule_of c a ip) ps"
  "gd_exits (fold (\<lambda>(a, ip). render_device c a ip) ps d) = gd_exits d @
     (if DirectCounter \<notin> set (gd_counters d) \<and> (\<exists>(a, ip) \<in> set ps. as_exit a = []) then [direct_rule] else [])"
proof (induction ps arbitrary: d)
  case (Cons x ps)
  obtain a ip where x: "x = (a, ip)" by (cases x)
  case 1
  show ?case using Cons(1) by (simp add: x render_device_def device_rule_of_def Let_def)
  case 2
  show ?case using Cons(2) by (cases "as_exit a = []") (auto simp: x render_device_def direct_rule_def Let_def)
qed simp_all

lemma fold_render_exit:
  "gd_exits (fold (\<lambda>e d. render_exit links h e (account_exit e d)) es d) = gd_exits d @ map exit_rule_of es"
  "set (gd_counters (fold (\<lambda>e d. render_exit links h e (account_exit e d)) es d)) = set (gd_counters d) \<union> counter_name ` set es"
  "gd_devices (fold (\<lambda>e d. render_exit links h e (account_exit e d)) es d) = gd_devices d"
  by (induction es arbitrary: d) (simp_all add: render_exit_def account_exit_def exit_rule_of_def Let_def)

abbreviation used_exits :: "gateway \<Rightarrow> exit list" where
  "used_exits c \<equiv> filter (\<lambda>e. in_use c (ex_name e)) (exits c)"

lemma counter_not_direct: "counter_name e \<noteq> DirectCounter"
  by (simp add: counter_name_def DirectCounter_def)

lemma rendered_exits:
  assumes "gw_enabled c"
  shows "gd_exits (render_gateway c links h) =
    map exit_rule_of (used_exits c) @ (if \<exists>(a, ip) \<in> set (device_pairs c links). as_exit a = [] then [direct_rule] else [])"
  using assms counter_not_direct [symmetric]
  by (simp add: image_iff render_gateway_def Let_def render_exits_def render_devices_pairs fold_render_device fold_render_exit
    render_start_def) (simp add: DirectCounter_def)

lemma rendered_devices:
  assumes "gw_enabled c"
  shows "gd_devices (render_gateway c links h) = map (\<lambda>(a, ip). device_rule_of c a ip) (device_pairs c links)"
  using assms
  by (simp add: render_gateway_def Let_def render_exits_def render_devices_pairs fold_render_device fold_render_exit render_start_def)

lemma rendered_others:
  assumes "gw_enabled c"
  shows "gd_sources (render_gateway c links h) = render_sources c links"
    "gd_destinations (render_gateway c links h) = render_destinations c links"
  using assms by (simp_all add: render_gateway_def Let_def)

lemma slot_mark_bits: "our_bits (slot_mark s) = slot_mark s"
  by (simp add: our_bits_def slot_mark_def and.assoc)

lemma slot_mark_shift:
  assumes "exit_slot_valid s"
  shows "uint (drop_bit 16 (slot_mark s)) = s"
proof -
  have "MarkMask = push_bit 16 (mask 8)" by (simp add: MarkMask_def mask_eq_exp_minus_1 push_bit_eq_mult)
  then have "slot_mark s = push_bit 16 (of_int s AND mask 8)" by (simp add: slot_mark_def MarkShift_def)
  then have "drop_bit 16 (slot_mark s) = take_bit 8 (of_int s :: u32)" by (intro bit_word_eqI) (auto simp: bit_simps)
  then show ?thesis
    using assms by (simp add: exit_slot_valid_def MaxExitSlot_def unsigned_take_bit_eq unsigned_of_int take_bit_int_eq_self)
qed

lemma slot_mark_neq:
  assumes "exit_slot_valid s"
  shows "slot_mark s \<noteq> 0" "slot_mark s \<noteq> DirectMark"
proof -
  show "slot_mark s \<noteq> 0" using slot_mark_shift [OF assms] assms by (auto simp: exit_slot_valid_def)
  have "uint (drop_bit 16 DirectMark) = 255" by (simp add: DirectMark_def drop_bit_eq_div)
  then show "slot_mark s \<noteq> DirectMark"
    using slot_mark_shift [OF assms] assms by (auto simp: exit_slot_valid_def MaxExitSlot_def)
qed

lemma direct_bits: "our_bits DirectMark = DirectMark" "DirectMark \<noteq> 0"
  by (simp_all add: our_bits_def DirectMark_def MarkMask_def)

lemma find_exitE:
  assumes "find_exit c x = Some e"
  shows "e \<in> set (exits c)" "ex_name e = x"
  using assms by (auto simp: find_exit_def find_Some_iff)

lemma adopted_in:
  "(i, q) \<in> set (adopted_prefixes ls) \<longleftrightarrow> (\<exists>l \<in> set ls. l_adopted l \<and> i = l_name l \<and> q \<in> set (l_prefixes l) \<and> prefix_valid q)"
  by (auto simp: adopted_prefixes_def)

lemma parse_addr_valid: "parse_addr s = Some a \<Longrightarrow> is_valid a"
  by (auto simp: parse_addr_def parse_v6_def Let_def split: option.splits if_splits prod.splits)

lemma parse_prefix_valid: "parse_prefix s = Some q \<Longrightarrow> prefix_valid q"
proof -
  assume p: "parse_prefix s = Some q"
  then obtain i a n where "parse_addr (take i s) = Some a" "0 \<le> n" "n \<le> int (bit_len a)" "q = prefix_from a n" "zone a = []"
    by (auto simp: parse_prefix_def Let_def not_less split: option.splits if_splits)
  then show ?thesis using parse_addr_valid [of "take i s" a] by (cases a) (auto simp: prefix_from_def prefix_valid_def)
qed

lemma masked_full: "is_valid a \<Longrightarrow> zone a = [] \<Longrightarrow> masked (prefix_from a (int (bit_len a))) = prefix_from a (int (bit_len a))"
  by (cases a) (auto simp: masked_def prefix_from_def prefix_valid_def top_bits_def)

lemma destination_prefix_masked:
  assumes "destination_prefix s = Some q"
  shows "prefix_valid q" "masked q = q"
proof -
  consider a where "q = prefix_from a (int (bit_len a))" "is_valid a" "zone a = []" | r where "q = masked r" "prefix_valid r"
    using assms parse_addr_valid parse_prefix_valid
    by (auto simp: destination_prefix_def split: option.splits if_splits)
  then have "prefix_valid q \<and> masked q = q"
  proof cases
    case 1
    then have "prefix_valid q" by (cases a) (auto simp: prefix_from_def prefix_valid_def)
    then show ?thesis using 1 masked_full by simp
  qed simp
  then show "prefix_valid q" "masked q = q" by simp_all
qed

lemma rendered_rules_ok:
  assumes c: "c = normalize_gateway c0" "length (exits c0) \<le> 80" "gw_enabled c" and l: "links_ok links" and v: "devices_ok c"
  shows "rules_ok (render_gateway c links h)"
proof -
  have sv: "exit_slot_valid (ex_slot e)" if "e \<in> set (exits c)" for e using normalized_slots(2) [OF c(1,2)] that by simp
  note mk = slot_mark_neq [OF sv] slot_mark_bits direct_bits
  have "distinct (map (\<lambda>e. slot_mark (ex_slot e)) (used_exits c))"
  proof -
    have "inj_on slot_mark (ex_slot ` set (exits c))" using slot_mark_inj sv by (auto intro!: inj_onI)
    then have "distinct (map slot_mark (map ex_slot (exits c)))"
      using normalized_slots(1) [OF c(1,2)] by (simp only: distinct_map set_map)
    then show ?thesis by (simp add: o_def distinct_map_filter)
  qed
  then have x: "exits_ok (gd_exits (render_gateway c links h))"
    unfolding rendered_exits [OF c(3)] exits_ok_def
    using mk by (fastforce simp: exit_rule_of_def direct_rule_def o_def)
  have s: "source_ok s" if r: "s \<in> set (render_sources c links)" for s
  proof -
    obtain a where a: "s \<in> set (sources_of c links a)" using r by (auto simp: render_sources_def)
    obtain x e k q where p: "find_exit c x = Some e" "lookup_link links (sr_interface s) = Some k" "q \<in> set (l_prefixes k)"
        "sr_prefix s = masked q" "sr_mark s = slot_mark (ex_slot e)"
    proof (cases "find_exit c (fst (assigned c (as_key a)))"; cases "lookup_link links (as_key a)")
      fix e k assume "find_exit c (fst (assigned c (as_key a))) = Some e" "lookup_link links (as_key a) = Some k"
      then show thesis using a that [of "fst (assigned c (as_key a))" e k]
        by (auto simp: sources_of_def Let_def prefixes_for_def split: if_splits)
    qed (use a in \<open>auto simp: sources_of_def Let_def split: if_splits\<close>)
    then show ?thesis using l mk find_exitE(1) [OF p(1)] by (simp add: source_ok_def links_ok_def)
  qed
  have dm: "our_bits (device_mark c a) = device_mark c a \<and> device_mark c a \<noteq> 0" for a
    using mk find_exitE by (auto simp: device_mark_def split: option.split)
  have dv: "device_ok s" if s: "s \<in> set (map (\<lambda>(a, ip). device_rule_of c a ip) (device_pairs c links))" for s
  proof -
    obtain a i q ls where p: "s = device_rule_of c a (i, q)" "a \<in> set (devices c)" "all_links links = Some ls"
        "(i, q) \<in> set (adopted_prefixes ls)"
      using s by (cases "all_links links") (auto simp: device_pairs_def adopted_in)
    then show ?thesis
      using l v dm by (auto simp: adopted_in device_ok_def source_ok_def device_rule_of_def links_ok_def devices_ok_def)
  qed
  have ds: "destination_ok s" if s: "s \<in> set (render_destinations c links)" for s
  proof -
    obtain ls a where a: "all_links links = Some ls" "s \<in> set (destinations_of c ls a)"
      using s by (cases "all_links links") (auto simp: render_destinations_def)
    then obtain P e i q where p: "destination_prefix (as_key a) = Some P" "find_exit c (as_exit a) = Some e"
        "(i, q) \<in> set (adopted_prefixes ls)" "is6 (paddr q) = is6 (paddr P)"
        "s = \<lparr>sr_interface = i, sr_exit = ex_name e, sr_prefix = masked q, sr_mark = slot_mark (ex_slot e), dest_prefix = P\<rparr>"
      by (cases "destination_prefix (as_key a)"; cases "find_exit c (as_exit a)") (auto simp: destinations_of_def)
    have "prefix_valid P" "masked P = P" using destination_prefix_masked [OF p(1)] by simp_all
    then show ?thesis
      using p a(1) l mk find_exitE(1) [OF p(2)] is6_masked
      by (auto simp: destination_ok_def source_ok_def links_ok_def adopted_in)
  qed
  show ?thesis using x s dv ds rendered_devices [OF c(3)] rendered_others [OF c(3)] by (simp add: rules_ok_def)
qed

section \<open>What a configuration chooses\<close>

text \<open>
  A packet is from a network of ours when it came in by an adopted interface from one of its prefixes.
  Such a packet goes by the most specific destination assignment that covers its address, or else by the
  assignment of its device; any other by the assignment of the network its address is in.
\<close>

datatype choice = Unassigned | Direct | Via exit

definition from_lan :: "link_view \<Rightarrow> gw_packet \<Rightarrow> bool" where
  "from_lan links p \<longleftrightarrow>
     (case all_links links of
        None \<Rightarrow> False
      | Some ls \<Rightarrow> list_ex (\<lambda>l. l_adopted l \<and> l_name l = gp_iif p \<and> link_contains l (gp_src p)) ls)"

definition covers :: "assignment \<Rightarrow> gw_packet \<Rightarrow> bool" where
  "covers a p \<longleftrightarrow> (case destination_prefix (as_key a) of None \<Rightarrow> False | Some q \<Rightarrow> contains q (gp_dst p))"

definition dest_bits :: "assignment \<Rightarrow> int" where
  "dest_bits a = (case destination_prefix (as_key a) of None \<Rightarrow> -1 | Some q \<Rightarrow> pbits q)"

definition destination_choice :: "gateway \<Rightarrow> link_view \<Rightarrow> gw_packet \<Rightarrow> assignment option" where
  "destination_choice c links p =
     (if from_lan links p then find (\<lambda>a. covers a p) (sort_by (\<lambda>a b. dest_bits b \<le> dest_bits a) (destinations c)) else None)"

definition device_choice :: "gateway \<Rightarrow> link_view \<Rightarrow> gw_packet \<Rightarrow> assignment option" where
  "device_choice c links p =
     (if from_lan links p \<and> gp_iiftype p = ARPHRD_ETHER \<and> 12 \<le> length (gp_ll p)
      then find (\<lambda>a. parse_mac (as_key a) = Some (take 6 (drop 6 (gp_ll p)))) (devices c) else None)"

definition network_exit :: "gateway \<Rightarrow> assignment \<Rightarrow> exit option" where
  "network_exit c a = (let x = fst (assigned c (as_key a)) in if x = [] then None else find_exit c x)"

definition in_network :: "link_view \<Rightarrow> assignment \<Rightarrow> addr \<Rightarrow> bool" where
  "in_network links a x \<longleftrightarrow> (case lookup_link links (as_key a) of None \<Rightarrow> False | Some l \<Rightarrow> link_contains l x)"

definition network_choice :: "gateway \<Rightarrow> link_view \<Rightarrow> gw_packet \<Rightarrow> assignment option" where
  "network_choice c links p = find (\<lambda>a. network_exit c a \<noteq> None \<and> in_network links a (gp_src p)) (interfaces c)"

definition by_exit :: "exit option \<Rightarrow> choice \<Rightarrow> choice" where
  "by_exit e other = (case e of None \<Rightarrow> other | Some e \<Rightarrow> Via e)"

definition choice_of :: "gateway \<Rightarrow> link_view \<Rightarrow> gw_packet \<Rightarrow> choice" where
  "choice_of c links p =
     (case destination_choice c links p of
        Some a \<Rightarrow> by_exit (find_exit c (as_exit a)) Unassigned
      | None \<Rightarrow>
          (case device_choice c links p of
             Some a \<Rightarrow> by_exit (find_exit c (as_exit a)) Direct
           | None \<Rightarrow>
               (case network_choice c links p of
                  Some a \<Rightarrow> by_exit (network_exit c a) Unassigned
                | None \<Rightarrow> Unassigned)))"

fun choice_mark :: "choice \<Rightarrow> u32" where
  "choice_mark Unassigned = 0"
| "choice_mark Direct = DirectMark"
| "choice_mark (Via e) = slot_mark (ex_slot e)"

fun choice_counter :: "choice \<Rightarrow> string" where
  "choice_counter Unassigned = ''unpoliced''"
| "choice_counter Direct = ''direct''"
| "choice_counter (Via e) = counter_name e"

text \<open>
  What the choice rests on. Validation asks for names, for destinations that are prefixes of known exits and
  for one exit per destination. It does not ask that the networks of two interfaces lie apart: that two
  assigned networks that share an address go the same way is a condition on the addresses of the box.
\<close>

definition policy_ok :: "gateway \<Rightarrow> link_view \<Rightarrow> bool" where
  "policy_ok c links \<longleftrightarrow> links_ok links \<and> devices_ok c \<and>
     (\<forall>e \<in> set (exits c). ex_name e \<noteq> []) \<and>
     (\<forall>a \<in> set (destinations c). destination_prefix (as_key a) \<noteq> None \<and> as_exit a \<noteq> [] \<and> find_exit c (as_exit a) \<noteq> None) \<and>
     (\<forall>a \<in> set (destinations c). \<forall>b \<in> set (destinations c).
        destination_prefix (as_key a) = destination_prefix (as_key b) \<longrightarrow> as_exit a = as_exit b) \<and>
     (\<forall>a \<in> set (interfaces c). \<forall>b \<in> set (interfaces c). \<forall>x.
        in_network links a x \<and> in_network links b x \<longrightarrow> network_exit c a = network_exit c b)"

section \<open>The rules and the choice\<close>

lemma destination_before_order:
  "destination_before a b \<or> destination_before b a"
  "destination_before a b \<Longrightarrow> destination_before b x \<Longrightarrow> destination_before a x"
  "destination_before a b \<Longrightarrow> pbits (dest_prefix b) \<le> pbits (dest_prefix a)"
  unfolding destination_before_def by (auto split: if_splits)

interpretation destination_table: match_table "\<lambda>s p. destination_matches s p" "\<lambda>s. pbits (dest_prefix s)"
  "sort_by destination_before" "\<lambda>t p. find (\<lambda>s. destination_matches s p) t"
proof
  show "sorted_wrt (\<lambda>s t. pbits (dest_prefix t) \<le> pbits (dest_prefix s)) (sort_by destination_before ss)" for ss
  proof (rule sorted_wrt_mono_rel [OF destination_before_order(3)])
    show "sorted_wrt destination_before (sort_by destination_before ss)"
      by (rule sorted_sort_by) (use destination_before_order(1,2) in blast)+
  qed
qed simp_all

interpretation destination_choices: match_table covers dest_bits "sort_by (\<lambda>a b. dest_bits b \<le> dest_bits a)"
  "\<lambda>t p. find (\<lambda>a. covers a p) t"
proof
  show "sorted_wrt (\<lambda>a b. dest_bits b \<le> dest_bits a) (sort_by (\<lambda>a b. dest_bits b \<le> dest_bits a) as)" for as
    by (rule sorted_sort_by) auto
qed simp_all

lemma contains_same:
  assumes "contains q x" and "contains r x" and "pbits q = pbits r" and "masked q = q" and "masked r = r"
  shows "q = r"
proof -
  have v: "prefix_valid q" "prefix_valid r" using assms(1,2) by (simp_all add: contains_def)
  show ?thesis
  proof (cases x)
    case (V4 y)
    obtain a b where ab: "paddr q = V4 a" "paddr r = V4 b"
      "drop_bit (32 - nat (pbits q)) a = drop_bit (32 - nat (pbits q)) b"
      using assms(1-3) by (auto simp: V4 contains_V4)
    have "top_bits (nat (pbits q)) a = a" "top_bits (nat (pbits q)) b = b"
      using assms(3-5) v ab by (auto simp: masked_def dest!: arg_cong [where f = paddr])
    then have "a = b" using ab(3) by (simp add: top_bits_def)
    then show ?thesis using ab assms(3) by simp
  next
    case (V6 y z)
    obtain a b w w' where ab: "paddr q = V6 a w" "paddr r = V6 b w'"
      "drop_bit (128 - nat (pbits q)) a = drop_bit (128 - nat (pbits q)) b"
      using assms(1-3) by (auto simp: V6 contains_V6)
    have "top_bits (nat (pbits q)) a = a" "top_bits (nat (pbits q)) b = b" "w = []" "w' = []"
      using assms(3-5) v ab by (auto simp: masked_def dest!: arg_cong [where f = paddr])
    then have "a = b" "w = w'" using ab(3) by (simp_all add: top_bits_def)
    then show ?thesis using ab assms(3) by simp
  qed (use assms in simp)
qed

lemma from_lan_pair:
  "from_lan links p \<longleftrightarrow>
    (\<exists>ls q. all_links links = Some ls \<and> (gp_iif p, q) \<in> set (adopted_prefixes ls) \<and> contains q (gp_src p))"
proof -
  have "from_lan links p \<longleftrightarrow> (\<exists>ls. all_links links = Some ls \<and>
      (\<exists>l \<in> set ls. l_adopted l \<and> l_name l = gp_iif p \<and> (\<exists>q \<in> set (l_prefixes l). contains q (gp_src p))))"
    by (cases "all_links links") (simp_all add: from_lan_def list_ex_iff link_contains_def)
  then show ?thesis unfolding adopted_in using contains_valid by metis
qed

lemma rendered_destination:
  "s \<in> set (render_destinations c links) \<longleftrightarrow>
    (\<exists>ls a P e i q. all_links links = Some ls \<and> a \<in> set (destinations c) \<and> destination_prefix (as_key a) = Some P \<and>
       find_exit c (as_exit a) = Some e \<and> (i, q) \<in> set (adopted_prefixes ls) \<and> is6 (paddr q) = is6 (paddr P) \<and>
       s = \<lparr>sr_interface = i, sr_exit = ex_name e, sr_prefix = masked q, sr_mark = slot_mark (ex_slot e), dest_prefix = P\<rparr>)"
proof -
  have d: "s \<in> set (destinations_of c ls a) \<longleftrightarrow> (\<exists>P e i q. destination_prefix (as_key a) = Some P \<and>
      find_exit c (as_exit a) = Some e \<and> (i, q) \<in> set (adopted_prefixes ls) \<and> is6 (paddr q) = is6 (paddr P) \<and>
      s = \<lparr>sr_interface = i, sr_exit = ex_name e, sr_prefix = masked q, sr_mark = slot_mark (ex_slot e), dest_prefix = P\<rparr>)" for ls a
    by (cases "destination_prefix (as_key a)"; cases "find_exit c (as_exit a)") (auto simp: destinations_of_def)
  have "s \<in> set (render_destinations c links) \<longleftrightarrow>
      (\<exists>ls a. all_links links = Some ls \<and> a \<in> set (destinations c) \<and> s \<in> set (destinations_of c ls a))"
    by (cases "all_links links") (auto simp: render_destinations_def)
  then show ?thesis unfolding d by blast
qed

lemma policy_parts:
  assumes "policy_ok c links"
  shows policy_links: "links_ok links"
    and policy_devices: "devices_ok c"
    and policy_names: "\<And>e. e \<in> set (exits c) \<Longrightarrow> ex_name e \<noteq> []"
    and policy_destination: "\<And>a. a \<in> set (destinations c) \<Longrightarrow> as_exit a \<noteq> [] \<and> (\<exists>e. find_exit c (as_exit a) = Some e)"
    and policy_destinations: "\<And>a b. a \<in> set (destinations c) \<Longrightarrow> b \<in> set (destinations c) \<Longrightarrow>
      destination_prefix (as_key a) = destination_prefix (as_key b) \<Longrightarrow> as_exit a = as_exit b"
    and policy_networks: "\<And>a b x. a \<in> set (interfaces c) \<Longrightarrow> b \<in> set (interfaces c) \<Longrightarrow>
      in_network links a x \<Longrightarrow> in_network links b x \<Longrightarrow> network_exit c a = network_exit c b"
  using assms unfolding policy_ok_def by blast+

lemma some_destination:
  assumes "policy_ok c links"
  shows "(\<exists>s \<in> set (render_destinations c links). destination_matches s p \<and> pbits (dest_prefix s) = n) \<longleftrightarrow>
    from_lan links p \<and> (\<exists>a \<in> set (destinations c). covers a p \<and> dest_bits a = n)" (is "?l \<longleftrightarrow> ?r")
proof
  assume ?l
  then obtain s where "s \<in> set (render_destinations c links)" and s: "destination_matches s p" "pbits (dest_prefix s) = n" by blast
  from this(1) obtain ls a P e i q where a: "all_links links = Some ls" "a \<in> set (destinations c)" "destination_prefix (as_key a) = Some P"
      "find_exit c (as_exit a) = Some e" "(i, q) \<in> set (adopted_prefixes ls)" "is6 (paddr q) = is6 (paddr P)"
      "s = \<lparr>sr_interface = i, sr_exit = ex_name e, sr_prefix = masked q, sr_mark = slot_mark (ex_slot e), dest_prefix = P\<rparr>"
    unfolding rendered_destination by (elim exE conjE) blast
  then have "contains q (gp_src p)" "i = gp_iif p" "covers a p" "dest_bits a = n"
    using s by (simp_all add: destination_matches_def source_matches_def covers_def dest_bits_def)
  then show ?r using a(1,2,5) unfolding from_lan_pair by blast
next
  assume ?r
  then obtain ls q a P where a: "all_links links = Some ls" "(gp_iif p, q) \<in> set (adopted_prefixes ls)" "contains q (gp_src p)"
      "a \<in> set (destinations c)" "destination_prefix (as_key a) = Some P" "contains P (gp_dst p)" "pbits P = n"
    unfolding from_lan_pair by (auto simp: covers_def dest_bits_def split: option.splits)
  obtain e where e: "find_exit c (as_exit a) = Some e" using policy_destination [OF assms a(4)] by blast
  have "is6 (paddr q) = is6 (paddr P)"
    using contains_family [of q p 12 8] contains_family [of P p 16 24] a(3,6)
    by (auto simp: gp_src_def gp_dst_def nfproto_of_def split: if_splits)
  then have "\<lparr>sr_interface = gp_iif p, sr_exit = ex_name e, sr_prefix = masked q, sr_mark = slot_mark (ex_slot e), dest_prefix = P\<rparr>
      \<in> set (render_destinations c links)" unfolding rendered_destination using a e by blast
  then show ?l using a(3,6,7) by (intro bexI) (auto simp: destination_matches_def source_matches_def)
qed

lemma destination_first:
  assumes "policy_ok c links"
  shows "case find (\<lambda>s. destination_matches s p) (render_destinations c links) of
      None \<Rightarrow> destination_choice c links p = None
    | Some s \<Rightarrow> \<exists>a e. destination_choice c links p = Some a \<and> find_exit c (as_exit a) = Some e \<and> sr_mark s = slot_mark (ex_slot e)"
proof -
  let ?ss = "concat (map (destinations_of c (the (all_links links))) (destinations c))"
  have built: "render_destinations c links = sort_by destination_before (if all_links links = None then [] else ?ss)"
    by (cases "all_links links") (simp_all add: render_destinations_def)
  note some = some_destination [OF assms, of p]
  show ?thesis
  proof (cases "find (\<lambda>s. destination_matches s p) (render_destinations c links)")
    case None
    then have "\<not> (from_lan links p \<and> (\<exists>a \<in> set (destinations c). covers a p))"
      using some by (metis find_None_iff)
    then have "destination_choice c links p = None" by (auto simp: destination_choice_def find_None_iff)
    then show ?thesis by (simp add: None)
  next
    case (Some s)
    note best = destination_table.lookup_most_specific [OF Some [unfolded built]]
    have s: "s \<in> set (render_destinations c links)" "destination_matches s p" using best(1,2) unfolding built by simp_all
    then obtain a P e where a: "a \<in> set (destinations c)" "destination_prefix (as_key a) = Some P" "find_exit c (as_exit a) = Some e"
        "sr_mark s = slot_mark (ex_slot e)" "dest_prefix s = P"
      unfolding rendered_destination by auto
    have P: "contains P (gp_dst p)" "dest_bits a = pbits P" using s(2) a by (simp_all add: destination_matches_def dest_bits_def)
    then have l: "from_lan links p" "covers a p" using some [of "pbits P"] s a by (auto simp: covers_def)
    then obtain b where b: "destination_choice c links p = Some b"
      using a(1) by (cases "destination_choice c links p") (auto simp: destination_choice_def find_None_iff)
    then have f: "find (\<lambda>a. covers a p) (sort_by (\<lambda>a b. dest_bits b \<le> dest_bits a) (destinations c)) = Some b"
      using l by (simp add: destination_choice_def)
    note bb = destination_choices.lookup_most_specific [OF f]
    have "dest_bits a \<le> dest_bits b" using bb(3) [OF a(1) l(2)] .
    moreover have "dest_bits b \<le> dest_bits a"
    proof -
      obtain s' where "s' \<in> set (render_destinations c links)" "destination_matches s' p" "pbits (dest_prefix s') = dest_bits b"
        using some [of "dest_bits b"] l(1) bb(1,2) by auto
      then show ?thesis using best(3) [of s'] a(5) P(2) unfolding built by simp
    qed
    moreover obtain Q where Q: "destination_prefix (as_key b) = Some Q" "contains Q (gp_dst p)" "dest_bits b = pbits Q"
      using bb(2) by (auto simp: covers_def dest_bits_def split: option.splits)
    ultimately have "pbits P = pbits Q" using P(2) by simp
    then have "P = Q"
      by (rule contains_same [OF P(1) Q(2) _ destination_prefix_masked(2) [OF a(2)] destination_prefix_masked(2) [OF Q(1)]])
    then have "destination_prefix (as_key b) = destination_prefix (as_key a)" using a(2) Q(1) by simp
    then have "as_exit b = as_exit a" using policy_destinations [OF assms bb(1) a(1)] by blast
    then show ?thesis using Some b a by simp
  qed
qed

lemma find_nested:
  "find P (concat (map (\<lambda>a. map (f a) ys) xs)) =
     (case find (\<lambda>a. \<exists>y \<in> set ys. P (f a y)) xs of None \<Rightarrow> None | Some a \<Rightarrow> find P (map (f a) ys))"
proof (induction xs)
  case (Cons x xs)
  have "find P (us @ vs) = (case find P us of None \<Rightarrow> find P vs | Some u \<Rightarrow> Some u)" for us vs
    by (induction us) auto
  moreover have "find P (map (f x) ys) = None \<longleftrightarrow> \<not> (\<exists>y \<in> set ys. P (f x y))" by (auto simp: find_None_iff)
  ultimately show ?case using Cons by (cases "find P (map (f x) ys)") auto
qed simp

lemma device_first:
  "map_option sr_mark (find (\<lambda>s. device_matches s p) (map (\<lambda>(a, ip). device_rule_of c a ip) (device_pairs c links))) =
   map_option (device_mark c) (device_choice c links p)"
proof (cases "all_links links")
  case None
  then show ?thesis by (simp add: device_pairs_def device_choice_def from_lan_def)
next
  case (Some ls)
  let ?ps = "adopted_prefixes (sort_by link_by_name ls)"
  let ?mac = "take 6 (drop 6 (gp_ll p))"
  have m: "device_matches (device_rule_of c a ip) p \<longleftrightarrow> contains (snd ip) (gp_src p) \<and> fst ip = gp_iif p \<and>
      gp_iiftype p = ARPHRD_ETHER \<and> 12 \<le> length (gp_ll p) \<and> parse_mac (as_key a) = Some ?mac" for a ip
    by (auto simp: device_matches_def source_matches_def device_rule_of_def)
  have l: "from_lan links p \<longleftrightarrow> (\<exists>ip \<in> set ?ps. contains (snd ip) (gp_src p) \<and> fst ip = gp_iif p)"
  proof -
    have "set ?ps = set (adopted_prefixes ls)" by (auto simp: adopted_prefixes_def)
    then show ?thesis unfolding from_lan_pair Some by force
  qed
  have e: "(\<exists>ip \<in> set ?ps. device_matches (device_rule_of c a ip) p) \<longleftrightarrow>
      (from_lan links p \<and> gp_iiftype p = ARPHRD_ETHER \<and> 12 \<le> length (gp_ll p)) \<and> parse_mac (as_key a) = Some ?mac" for a
    unfolding m l by blast
  have c: "find (\<lambda>a. Q \<and> R a) xs = (if Q then find R xs else None)" for Q R and xs :: "assignment list"
    by (induction xs) auto
  have d: "find (\<lambda>a. \<exists>ip \<in> set ?ps. device_matches (device_rule_of c a ip) p) (devices c) = device_choice c links p"
    unfolding e c device_choice_def ..
  have mk: "map_option sr_mark (find (\<lambda>s. device_matches s p) (map (device_rule_of c a) ?ps)) = Some (device_mark c a)"
    if "\<exists>ip \<in> set ?ps. device_matches (device_rule_of c a ip) p" for a
  proof (cases "find (\<lambda>s. device_matches s p) (map (device_rule_of c a) ?ps)")
    case (Some s)
    then show ?thesis by (auto simp: find_Some_iff device_rule_of_def)
  qed (use that in \<open>auto simp: find_None_iff\<close>)
  have p: "map (\<lambda>(a, ip). device_rule_of c a ip) (device_pairs c links) = concat (map (\<lambda>a. map (device_rule_of c a) ?ps) (devices c))"
    by (simp add: device_pairs_def Some map_concat o_def)
  show ?thesis
  proof (cases "device_choice c links p")
    case (Some a)
    then have "\<exists>ip \<in> set ?ps. device_matches (device_rule_of c a ip) p" using d by (auto simp: find_Some_iff)
    then show ?thesis unfolding p find_nested d using mk Some by simp
  qed (simp add: p find_nested d)
qed

lemma find_SomeD: "find P xs = Some x \<Longrightarrow> x \<in> set xs \<and> P x"
  by (auto simp: find_Some_iff)

lemma rendered_source:
  "(\<exists>s \<in> set (render_sources c links). source_matches s p \<and> sr_mark s = v) \<longleftrightarrow>
    (\<exists>a \<in> set (interfaces c). \<exists>e. network_exit c a = Some e \<and> in_network links a (gp_src p) \<and> slot_mark (ex_slot e) = v)"
proof -
  have "(\<exists>s \<in> set (sources_of c links a). source_matches s p \<and> sr_mark s = v) \<longleftrightarrow>
      (\<exists>e. network_exit c a = Some e \<and> in_network links a (gp_src p) \<and> slot_mark (ex_slot e) = v)" for a
  proof (cases "network_exit c a")
    case None
    then have "sources_of c links a = []" by (auto simp: sources_of_def network_exit_def Let_def split: if_splits)
    then show ?thesis using None by simp
  next
    case (Some e)
    then have e: "fst (assigned c (as_key a)) \<noteq> []" "find_exit c (fst (assigned c (as_key a))) = Some e"
      by (auto simp: network_exit_def Let_def split: if_splits)
    show ?thesis
    proof (cases "lookup_link links (as_key a)")
      case (Some l)
      have "set (prefixes_for l False @ prefixes_for l True) = set (l_prefixes l)" by (auto simp: prefixes_for_def)
      moreover have "(\<exists>s \<in> set (sources_of c links a). source_matches s p \<and> sr_mark s = v) \<longleftrightarrow>
          (\<exists>q \<in> set (prefixes_for l False @ prefixes_for l True). contains q (gp_src p)) \<and> slot_mark (ex_slot e) = v"
      proof -
        have "sources_of c links a =
            map (\<lambda>q. \<lparr>sr_interface = as_key a, sr_exit = ex_name e, sr_prefix = masked q, sr_mark = slot_mark (ex_slot e)\<rparr>)
              (prefixes_for l False @ prefixes_for l True)"
          using e Some by (simp add: sources_of_def)
        then show ?thesis by (auto simp: source_matches_def simp del: set_append map_append)
      qed
      ultimately have "(\<exists>s \<in> set (sources_of c links a). source_matches s p \<and> sr_mark s = v) \<longleftrightarrow>
          (\<exists>q \<in> set (l_prefixes l). contains q (gp_src p)) \<and> slot_mark (ex_slot e) = v" by simp
      then show ?thesis using \<open>network_exit c a = Some e\<close> Some by (simp add: in_network_def link_contains_def list_ex_iff)
    qed (use e \<open>network_exit c a = Some e\<close> in \<open>simp add: sources_of_def Let_def in_network_def\<close>)
  qed
  then show ?thesis by (simp add: render_sources_def)
qed

lemma network_first:
  assumes "policy_ok c links"
  shows "(case find (\<lambda>s. source_matches s p) (render_sources c links) of None \<Rightarrow> 0 | Some s \<Rightarrow> sr_mark s) =
    choice_mark (case network_choice c links p of None \<Rightarrow> Unassigned | Some a \<Rightarrow> by_exit (network_exit c a) Unassigned)"
proof (cases "network_choice c links p")
  case None
  then have "\<not> (\<exists>a \<in> set (interfaces c). network_exit c a \<noteq> None \<and> in_network links a (gp_src p))"
    by (auto simp: network_choice_def find_None_iff)
  then have "\<not> (\<exists>s \<in> set (render_sources c links). source_matches s p)"
    using rendered_source [of c links p] by (metis option.distinct(1))
  then have "find (\<lambda>s. source_matches s p) (render_sources c links) = None" by (auto simp: find_None_iff)
  then show ?thesis using None by simp
next
  case (Some a)
  then obtain e where a: "a \<in> set (interfaces c)" "network_exit c a = Some e" "in_network links a (gp_src p)"
    by (auto simp: network_choice_def find_Some_iff)
  then obtain s where s: "s \<in> set (render_sources c links)" "source_matches s p" using rendered_source [of c links p] by blast
  then obtain t where t: "find (\<lambda>s. source_matches s p) (render_sources c links) = Some t"
    by (cases "find (\<lambda>s. source_matches s p) (render_sources c links)") (auto simp: find_None_iff)
  then have "t \<in> set (render_sources c links)" "source_matches t p" by (auto simp: find_Some_iff)
  then obtain b e' where b: "b \<in> set (interfaces c)" "network_exit c b = Some e'" "in_network links b (gp_src p)"
      "slot_mark (ex_slot e') = sr_mark t" using rendered_source [of c links p "sr_mark t"] by blast
  then have "e' = e" using policy_networks [OF assms a(1) b(1) a(3) b(3)] a(2) by simp
  then show ?thesis using Some t a b by (simp add: by_exit_def)
qed

text \<open>What the rules mark is what the configuration chooses.\<close>

lemma first_mark_choice:
  assumes "policy_ok c links" and "gw_enabled c"
  shows "first_mark (render_gateway c links h) p = choice_mark (choice_of c links p)"
proof -
  have d: "device_mark c a = choice_mark (by_exit (find_exit c (as_exit a)) Direct)" for a
    by (simp add: device_mark_def by_exit_def split: option.split)
  show ?thesis
  proof (cases "find (\<lambda>s. destination_matches s p) (render_destinations c links)")
    case (Some s)
    then show ?thesis
      using destination_first [OF assms(1), of p]
      by (auto simp: first_mark_def rendered_others [OF assms(2)] choice_of_def by_exit_def)
  next
    case None
    then have n: "destination_choice c links p = None" using destination_first [OF assms(1), of p] by simp
    show ?thesis
    proof (cases "device_choice c links p")
      case (Some a)
      then obtain s where "find (\<lambda>s. device_matches s p) (map (\<lambda>(a, ip). device_rule_of c a ip) (device_pairs c links)) = Some s"
          "sr_mark s = device_mark c a" using device_first [of p c links] by auto
      then show ?thesis
        using None n Some d by (simp add: first_mark_def rendered_others [OF assms(2)] rendered_devices [OF assms(2)] choice_of_def)
    next
      case no: None
      then have "find (\<lambda>s. device_matches s p) (map (\<lambda>(a, ip). device_rule_of c a ip) (device_pairs c links)) = None"
        using device_first [of p c links] by simp
      then show ?thesis
        using None n no network_first [OF assms(1), of p]
        by (simp add: first_mark_def rendered_others [OF assms(2)] rendered_devices [OF assms(2)] choice_of_def)
    qed
  qed
qed

text \<open>An exit that is chosen is in use, and the choice of going direct has its own counter.\<close>

lemma chosen_in_use:
  assumes "policy_ok c links" and "choice_of c links p = Via e"
  shows "e \<in> set (exits c)" "in_use c (ex_name e)"
proof -
  have v: "by_exit x y = Via e \<Longrightarrow> y \<noteq> Via e \<Longrightarrow> x = Some e" for x y by (simp add: by_exit_def split: option.splits)
  consider a where "destination_choice c links p = Some a" "find_exit c (as_exit a) = Some e"
    | a where "device_choice c links p = Some a" "find_exit c (as_exit a) = Some e"
    | a where "network_choice c links p = Some a" "network_exit c a = Some e"
    using assms(2) v by (auto simp: choice_of_def split: option.splits)
  then have "e \<in> set (exits c) \<and> in_use c (ex_name e)"
  proof cases
    case 1
    then have "a \<in> set (destinations c)" by (auto simp: destination_choice_def dest: find_SomeD split: if_splits)
    then show ?thesis
      using find_exitE [OF 1(2)] policy_destination [OF assms(1)] by (auto simp: in_use_def list_ex_iff)
  next
    case 2
    then have "a \<in> set (devices c)" by (auto simp: device_choice_def find_Some_iff split: if_splits)
    then show ?thesis
      using find_exitE [OF 2(2)] policy_names [OF assms(1)] by (auto simp: in_use_def list_ex_iff)
  next
    case 3
    then have a: "find_exit c (fst (assigned c (as_key a))) = Some e" "fst (assigned c (as_key a)) \<noteq> []"
      by (auto simp: network_exit_def Let_def split: if_splits)
    have "fst (assigned c (as_key a)) = gw_default c \<or> (\<exists>b \<in> set (interfaces c). as_exit b = fst (assigned c (as_key a)))"
      by (auto simp: assigned_def find_Some_iff split: option.split)
    then show ?thesis using a find_exitE [OF a(1)] by (auto simp: in_use_def list_ex_iff)
  qed
  then show "e \<in> set (exits c)" "in_use c (ex_name e)" by simp_all
qed

lemma choice_counted:
  assumes c: "c = normalize_gateway c0" "length (exits c0) \<le> 80" "gw_enabled c" and ok: "policy_ok c links"
    and x: "choice_of c links p \<noteq> Unassigned"
  shows "choice_mark (choice_of c links p) \<noteq> 0 \<and> (\<exists>r. exit_with (render_gateway c links h) (choice_mark (choice_of c links p)) = Some r \<and>
    er_counter r = choice_counter (choice_of c links p))"
proof -
  have r: "exits_ok (gd_exits (render_gateway c links h))"
    using rendered_rules_ok [OF c policy_links [OF ok] policy_devices [OF ok]] by (simp add: rules_ok_def)
  have f: "exit_with (render_gateway c links h) (er_mark y) = Some y" if "y \<in> set (gd_exits (render_gateway c links h))" for y
    using find_er_mark [OF r that] by (simp add: exit_with_def)
  show ?thesis
  proof (cases "choice_of c links p")
    case (Via e)
    have "exit_rule_of e \<in> set (gd_exits (render_gateway c links h))"
      using chosen_in_use [OF ok Via] rendered_exits [OF c(3)] by simp
    then show ?thesis
      using f [of "exit_rule_of e"] Via slot_mark_neq normalized_slots(2) [OF c(1,2)] chosen_in_use(1) [OF ok Via]
      by (simp add: exit_rule_of_def)
  next
    case Direct
    then obtain a where a: "device_choice c links p = Some a" "find_exit c (as_exit a) = None"
      by (auto simp: choice_of_def by_exit_def split: option.splits)
    then have v: "a \<in> set (devices c)" "from_lan links p" by (auto simp: device_choice_def find_Some_iff split: if_splits)
    then have "as_exit a = []" using policy_devices [OF ok] a(2) by (auto simp: devices_ok_def)
    moreover obtain ls q where "all_links links = Some ls" "(gp_iif p, q) \<in> set (adopted_prefixes ls)"
      using v(2) from_lan_pair by blast
    ultimately have "\<exists>(a, ip) \<in> set (device_pairs c links). as_exit a = []"
      using v(1) by (auto simp: device_pairs_def adopted_prefixes_def intro!: bexI [of _ "(a, (gp_iif p, q))"])
    then have "direct_rule \<in> set (gd_exits (render_gateway c links h))" using rendered_exits [OF c(3)] by simp
    then show ?thesis using f [of direct_rule] Direct direct_bits by (simp add: direct_rule_def DirectCounter_def)
  qed (use x in simp)
qed

section \<open>Where connections go\<close>

definition exit_path :: "exit \<Rightarrow> link_view \<Rightarrow> health \<Rightarrow> bool \<Rightarrow> path" where
  "exit_path e links h v6 =
     (case (if fails_open e h then None else family_route e links v6 (health_down h (ex_name e))) of
        None \<Rightarrow> MainTable | Some rt \<Rightarrow> path_of rt)"

lemma choice_bits: "our_bits (choice_mark x) = choice_mark x"
  by (cases x) (simp_all add: slot_mark_bits direct_bits our_bits_def [of 0])

lemma with_zero: "our_bits w = 0 \<Longrightarrow> with_bits w 0 = w"
proof -
  assume z: "our_bits w = 0"
  have "\<not> (bit w i \<and> bit MarkMask i)" for i using arg_cong [OF z, of "\<lambda>x. bit x i"] by (simp add: our_bits_def bit_and_iff)
  then show ?thesis unfolding with_bits_def by (intro bit_word_eqI) (auto simp: bit_simps)
qed

lemma unmarked_path:
  assumes p: "policy_routing path" and c: "c = normalize_gateway c0" "length (exits c0) \<le> 80" "gw_enabled c"
    and v: "our_bits w = 0 \<or> our_bits w = DirectMark"
  shows "path (gd_rules (render_gateway c links h)) (gd_routes (render_gateway c links h)) v6 w = MainTable"
proof (rule policy_routing.untaken [OF p])
  fix r assume r: "r \<in> set (gd_rules (render_gateway c links h))"
  show "\<not> takes r v6 w"
  proof
    assume t: "takes r v6 w"
    then obtain e u where e: "e \<in> set (exits c)" "r \<in> set (snd (render_family e links (health_down h (ex_name e)) u))"
      using r rendered_rules [OF c(3), of r links h] unfolding takes_def by blast
    have "our_bits w = slot_mark (ex_slot e)" using t family_fields(1) [OF e(2)] by (simp add: takes_def our_bits_def)
    moreover have "exit_slot_valid (ex_slot e)" using normalized_slots(2) [OF c(1,2)] e(1) by simp
    ultimately show False using v slot_mark_neq [of "ex_slot e"] by auto
  qed
qed

lemma new_marks:
  assumes "mark_machine run" and c: "c = normalize_gateway c0" "length (exits c0) \<le> 80" "gw_enabled c" and ok: "policy_ok c links"
    and "kernel_name (gp_iif p)" and z: "our_bits (mk_meta m) = 0" "our_bits (mk_ct m) = 0" and "forwarded_fresh p"
  shows "run_chain run (classify_rules (render_gateway c links h)) p m =
    (let x = choice_of c links p
     in m\<lparr>mk_meta := with_bits (mk_meta m) (choice_mark x), mk_ct := with_bits (mk_ct m) (choice_mark x),
          mk_counted := mk_counted m @ [choice_counter x]\<rparr>)"
proof -
  let ?d = "render_gateway c links h" and ?x = "choice_of c links p"
  have r: "rules_ok ?d" by (rule rendered_rules_ok [OF c policy_links [OF ok] policy_devices [OF ok]])
  then have "exit_with ?d 0 = None" by (auto simp: exit_with_def find_None_iff rules_ok_def exits_ok_def)
  note e = mark_machine.chain_result [OF assms(1) r assms(6), of m, unfolded z(2) this first_mark_choice [OF ok c(3)]]
  show ?thesis
  proof (cases "?x = Unassigned")
    case True
    then show ?thesis using e z assms(9) by (simp add: unmarked_def Let_def with_zero)
  next
    case False
    then obtain y where "choice_mark ?x \<noteq> 0" "exit_with ?d (choice_mark ?x) = Some y" "er_counter y = choice_counter ?x"
      using choice_counted [OF c ok False] by blast
    then show ?thesis using e z assms(9) by (simp add: unmarked_def Let_def set_meta_def)
  qed
qed

lemma kept_marks:
  assumes "mark_machine run" and c: "c = normalize_gateway c0" "length (exits c0) \<le> 80" "gw_enabled c" and ok: "policy_ok c links"
    and "kernel_name (gp_iif p)" and z: "our_bits (mk_meta m) = 0"
    and e: "e \<in> set (exits c)" "in_use c (ex_name e)" "our_bits (mk_ct m) = slot_mark (ex_slot e)"
  shows "mk_meta (run_chain run (classify_rules (render_gateway c links h)) p m) = with_bits (mk_meta m) (slot_mark (ex_slot e))"
proof -
  let ?d = "render_gateway c links h"
  have r: "rules_ok ?d" by (rule rendered_rules_ok [OF c policy_links [OF ok] policy_devices [OF ok]])
  have "exit_rule_of e \<in> set (gd_exits ?d)" using e rendered_exits [OF c(3)] by simp
  then have "exit_with ?d (our_bits (mk_ct m)) = Some (exit_rule_of e)"
    using find_er_mark [of "gd_exits ?d" "exit_rule_of e"] r e(3) by (simp add: exit_with_def rules_ok_def exit_rule_of_def)
  moreover have "slot_mark (ex_slot e) \<noteq> 0" using slot_mark_neq normalized_slots(2) [OF c(1,2)] e(1) by blast
  ultimately show ?thesis
    using mark_machine.chain_result [OF assms(1) r assms(6), of m] z e(3)
    by (simp add: unmarked_def Let_def set_meta_def exit_rule_of_def)
qed

text \<open>
  A connection whose exit is no longer in use has no restore rule: its next packet is classified again, by
  the configuration in force by then, and its connection is remembered with the new choice.
\<close>

lemma moved_marks:
  assumes "mark_machine run" and c: "c = normalize_gateway c0" "length (exits c0) \<le> 80" "gw_enabled c" and ok: "policy_ok c links"
    and "kernel_name (gp_iif p)" and z: "our_bits (mk_meta m) = 0" and f: "forwarded_fresh p"
    and s: "exit_slot_valid s" "our_bits (mk_ct m) = slot_mark s" "\<not> (\<exists>e \<in> set (exits c). in_use c (ex_name e) \<and> ex_slot e = s)"
  shows "mk_meta (run_chain run (classify_rules (render_gateway c links h)) p m) =
    with_bits (mk_meta m) (choice_mark (choice_of c links p))"
proof -
  let ?d = "render_gateway c links h" and ?x = "choice_of c links p"
  have r: "rules_ok ?d" by (rule rendered_rules_ok [OF c policy_links [OF ok] policy_devices [OF ok]])
  have "slot_mark (ex_slot e) \<noteq> slot_mark s" if "e \<in> set (exits c)" "in_use c (ex_name e)" for e
    using slot_mark_inj [OF _ s(1)] normalized_slots(2) [OF c(1,2)] s(3) that by blast
  then have "exit_with ?d (our_bits (mk_ct m)) = None"
    using slot_mark_neq(2) [OF s(1)]
    by (auto simp: exit_with_def find_None_iff rendered_exits [OF c(3)] exit_rule_of_def direct_rule_def s(2))
  note e = mark_machine.chain_result [OF assms(1) r assms(6), of m, unfolded this first_mark_choice [OF ok c(3)]]
  show ?thesis
  proof (cases "?x = Unassigned")
    case True
    then show ?thesis using e z f by (simp add: unmarked_def Let_def with_zero)
  next
    case False
    then obtain y where "choice_mark ?x \<noteq> 0" "exit_with ?d (choice_mark ?x) = Some y"
      using choice_counted [OF c ok False] by blast
    then show ?thesis using e z f by (simp add: unmarked_def Let_def set_meta_def)
  qed
qed

lemma path_of_mark:
  assumes "policy_routing path" and c: "c = normalize_gateway c0" "length (exits c0) \<le> 80" "gw_enabled c"
    and "e \<in> set (exits c)" and "in_use c (ex_name e)"
  shows "path (gd_rules (render_gateway c links h)) (gd_routes (render_gateway c links h)) v6 (with_bits w (slot_mark (ex_slot e))) =
    exit_path e links h v6"
proof -
  have "with_bits w (slot_mark (ex_slot e)) AND MarkMask = slot_mark (ex_slot e)"
    using with_bits_our(1) [OF slot_mark_bits] by (simp add: our_bits_def)
  then show ?thesis unfolding exit_path_def by (rule marked_path [OF assms])
qed

text \<open>
  C8. The first packet of a connection is marked, and its connection remembered, with the choice of the
  configuration: the most specific destination assignment that covers it, or that of its device, or that
  of its network. The bits of the marks that are not ours stay, and exactly one counter counts the packet.
\<close>

theorem new_connection_marks:
  assumes "mark_machine run" and "c = normalize_gateway c0" and "length (exits c0) \<le> 80" and "gw_enabled c" and "policy_ok c links"
    and "kernel_name (gp_iif p)" and "our_bits (mk_meta m) = 0" and "our_bits (mk_ct m) = 0" and "forwarded_fresh p"
  shows "let x = choice_of c links p; m' = run_chain run (classify_rules (render_gateway c links h)) p m
    in our_bits (mk_meta m') = choice_mark x \<and> our_bits (mk_ct m') = choice_mark x \<and>
       mk_meta m' AND NOT MarkMask = mk_meta m AND NOT MarkMask \<and> mk_ct m' AND NOT MarkMask = mk_ct m AND NOT MarkMask \<and>
       mk_counted m' = mk_counted m @ [choice_counter x]"
  unfolding new_marks [OF assms] by (simp add: Let_def with_bits_our [OF choice_bits])

lemma choice_path:
  assumes "policy_routing path" and c: "c = normalize_gateway c0" "length (exits c0) \<le> 80" "gw_enabled c" and ok: "policy_ok c links"
    and z: "our_bits w = 0"
  shows "path (gd_rules (render_gateway c links h)) (gd_routes (render_gateway c links h)) v6
      (with_bits w (choice_mark (choice_of c links p))) =
    (case choice_of c links p of Via e \<Rightarrow> exit_path e links h v6 | _ \<Rightarrow> MainTable)"
proof (cases "choice_of c links p")
  case (Via e)
  then show ?thesis using path_of_mark [OF assms(1) c chosen_in_use [OF ok Via]] by simp
next
  case Direct
  have "our_bits (with_bits w DirectMark) = DirectMark" by (rule with_bits_our(1) [OF direct_bits(1)])
  then show ?thesis using Direct unmarked_path [OF assms(1) c] by simp
next
  case Unassigned
  then show ?thesis using unmarked_path [OF assms(1) c] z by (simp add: with_zero)
qed

text \<open>
  C1. From the document to the road. The first packet of a forwarded connection goes where the exit that is
  chosen for it goes, and by the main table when nothing is assigned or its device is to go direct. A later
  packet of the connection, under the document in force by then, goes by the exit that has the slot of the
  first choice when an exit with that slot is still in use there; when none is, the packet is classified
  again and goes where the document then in force chooses for it.
\<close>

theorem connection_path:
  assumes "mark_machine run" and "policy_routing path"
    and "c = normalize_gateway c0" and "length (exits c0) \<le> 80" and "gw_enabled c" and "policy_ok c links"
    and "kernel_name (gp_iif p)" and "our_bits (mk_meta m) = 0" and "our_bits (mk_ct m) = 0" and "forwarded_fresh p"
    and "m' = run_chain run (classify_rules (render_gateway c links h)) p m"
  shows "path (gd_rules (render_gateway c links h)) (gd_routes (render_gateway c links h)) v6 (mk_meta m') =
      (case choice_of c links p of Via e \<Rightarrow> exit_path e links h v6 | _ \<Rightarrow> MainTable) \<and>
    (\<forall>c2 c02 links2 h2 p2 m2 e.
       choice_of c links p = Via e \<and> c2 = normalize_gateway c02 \<and> length (exits c02) \<le> 80 \<and> gw_enabled c2 \<and> policy_ok c2 links2 \<and>
       kernel_name (gp_iif p2) \<and> our_bits (mk_meta m2) = 0 \<and> mk_ct m2 = mk_ct m' \<longrightarrow>
       (let to = path (gd_rules (render_gateway c2 links2 h2)) (gd_routes (render_gateway c2 links2 h2)) v6
           (mk_meta (run_chain run (classify_rules (render_gateway c2 links2 h2)) p2 m2))
        in (\<forall>e2 \<in> set (exits c2). in_use c2 (ex_name e2) \<and> ex_slot e2 = ex_slot e \<longrightarrow> to = exit_path e2 links2 h2 v6) \<and>
           (\<not> (\<exists>e2 \<in> set (exits c2). in_use c2 (ex_name e2) \<and> ex_slot e2 = ex_slot e) \<and> forwarded_fresh p2 \<longrightarrow>
              to = (case choice_of c2 links2 p2 of Via e2 \<Rightarrow> exit_path e2 links2 h2 v6 | _ \<Rightarrow> MainTable))))"
proof (intro conjI allI impI)
  note m = new_marks [OF assms(1,3-10), of h, folded assms(11)]
  show "path (gd_rules (render_gateway c links h)) (gd_routes (render_gateway c links h)) v6 (mk_meta m') =
      (case choice_of c links p of Via e \<Rightarrow> exit_path e links h v6 | _ \<Rightarrow> MainTable)"
    using choice_path [OF assms(2-6,8)] m by (simp add: Let_def)
  fix c2 c02 :: gateway and links2 :: link_view and h2 :: health and p2 :: gw_packet and m2 :: marks and e :: exit
  assume a: "choice_of c links p = Via e \<and> c2 = normalize_gateway c02 \<and> length (exits c02) \<le> 80 \<and> gw_enabled c2 \<and> policy_ok c2 links2 \<and>
       kernel_name (gp_iif p2) \<and> our_bits (mk_meta m2) = 0 \<and> mk_ct m2 = mk_ct m'"
  have ct: "our_bits (mk_ct m2) = slot_mark (ex_slot e)"
    using a m with_bits_our(1) [OF slot_mark_bits, of "mk_ct m" "ex_slot e"] by (simp add: Let_def)
  have c2: "c2 = normalize_gateway c02" "length (exits c02) \<le> 80" "gw_enabled c2" "policy_ok c2 links2"
      "kernel_name (gp_iif p2)" "our_bits (mk_meta m2) = 0" using a by blast+
  have v: "exit_slot_valid (ex_slot e)" using normalized_slots(2) [OF assms(3,4)] chosen_in_use(1) [OF assms(6)] a by blast
  have kept: "mk_meta (run_chain run (classify_rules (render_gateway c2 links2 h2)) p2 m2) = with_bits (mk_meta m2) (slot_mark (ex_slot e2))"
    if "e2 \<in> set (exits c2)" "in_use c2 (ex_name e2)" "ex_slot e2 = ex_slot e" for e2
    using kept_marks [OF assms(1) c2 that(1,2)] ct that(3) by simp
  have stays: "path (gd_rules (render_gateway c2 links2 h2)) (gd_routes (render_gateway c2 links2 h2)) v6
      (mk_meta (run_chain run (classify_rules (render_gateway c2 links2 h2)) p2 m2)) = exit_path e2 links2 h2 v6"
    if "e2 \<in> set (exits c2)" "in_use c2 (ex_name e2)" "ex_slot e2 = ex_slot e" for e2
    unfolding kept [OF that] by (rule path_of_mark [OF assms(2) c2(1-3) that(1,2)])
  show "let to = path (gd_rules (render_gateway c2 links2 h2)) (gd_routes (render_gateway c2 links2 h2)) v6
           (mk_meta (run_chain run (classify_rules (render_gateway c2 links2 h2)) p2 m2))
        in (\<forall>e2 \<in> set (exits c2). in_use c2 (ex_name e2) \<and> ex_slot e2 = ex_slot e \<longrightarrow> to = exit_path e2 links2 h2 v6) \<and>
           (\<not> (\<exists>e2 \<in> set (exits c2). in_use c2 (ex_name e2) \<and> ex_slot e2 = ex_slot e) \<and> forwarded_fresh p2 \<longrightarrow>
              to = (case choice_of c2 links2 p2 of Via e2 \<Rightarrow> exit_path e2 links2 h2 v6 | _ \<Rightarrow> MainTable))"
    using stays choice_path [OF assms(2) c2(1-4,6)]
      moved_marks [OF assms(1) c2 _ v ct] by (simp add: Let_def)
qed

text \<open>A packet from 192.168.1.5 to 1.1.1.1, in a network whose traffic goes through the tunnel.\<close>

definition lan_link :: link_info where
  "lan_link = \<lparr>l_name = ''lan'', l_adopted = True, l_up = True, l_prefixes = [\<lparr>paddr = V4 0xc0a80101, pbits = 24\<rparr>]\<rparr>"

definition lan_view :: link_view where
  "lan_view = \<lparr>lookup_link = (\<lambda>x. if x = ''lan'' then Some lan_link else None), all_links = Some [lan_link]\<rparr>"

definition lan_packet :: gw_packet where
  "lan_packet =
     \<lparr>gp_iif = ''lan'', gp_iiftype = 1, gp_oif = ''wg0'', gp_nfproto = 2, gp_ct_status = 0, gp_daddr_type = 1,
      gp_network = replicate 12 0 @ [192, 168, 1, 5, 1, 1, 1, 1], gp_ll = replicate 14 0\<rparr>"

definition no_marks :: marks where
  "no_marks = \<lparr>mk_meta = 0, mk_ct = 0, mk_counted = [], mk_masq = False\<rparr>"

lemma lan_facts:
  "gw_enabled (normalize_gateway tunnel_config)" "length (exits tunnel_config) \<le> 80"
  "kernel_name (gp_iif lan_packet)" "our_bits (mk_meta no_marks) = 0" "our_bits (mk_ct no_marks) = 0" "forwarded_fresh lan_packet"
  "choice_of (normalize_gateway tunnel_config) lan_view lan_packet = Via (tunnel_exit\<lparr>ex_slot := 1\<rparr>)"
  by code_simp+

lemma lan_policy: "policy_ok (normalize_gateway tunnel_config) lan_view"
proof -
  have "exits (normalize_gateway tunnel_config) = [tunnel_exit\<lparr>ex_slot := 1\<rparr>]" "destinations (normalize_gateway tunnel_config) = []"
    "devices (normalize_gateway tunnel_config) = []" "interfaces (normalize_gateway tunnel_config) = [\<lparr>as_key = ''lan'', as_exit = ''vpn''\<rparr>]"
    by code_simp+
  then show ?thesis
    by (simp add: policy_ok_def links_ok_def devices_ok_def lan_view_def lan_link_def kernel_name_def prefix_valid_def tunnel_exit_def
      split: if_splits)
qed

text \<open>
  The operator moves the network from one tunnel to the other and leaves both configured: the first is in use
  by nothing, so the running connection of the packet is marked with the slot of the second from then on.
\<close>

definition two_tunnels :: "string \<Rightarrow> gateway" where
  "two_tunnels x = normalize_gateway (tunnel_config\<lparr>
     exits := [tunnel_exit, tunnel_exit\<lparr>ex_name := ''vpn2'', ex_via := (ex_via tunnel_exit)\<lparr>vs_interface := ''wg1''\<rparr>\<rparr>],
     interfaces := [\<lparr>as_key = ''lan'', as_exit = x\<rparr>]\<rparr>)"

lemma reassigned_connection_moves:
  "(let m1 = run_chain mark_run (classify_rules (render_gateway (two_tunnels ''vpn'') lan_view Map.empty)) lan_packet no_marks;
        m2 = run_chain mark_run (classify_rules (render_gateway (two_tunnels ''vpn2'') lan_view Map.empty)) lan_packet
          (m1\<lparr>mk_meta := 0\<rparr>)
    in (mk_ct m1, mk_ct m2)) = (slot_mark 1, slot_mark 2)"
  by code_simp

theorem new_connection_marks_witness:
  "mk_counted (run_chain mark_run (classify_rules (render_gateway (normalize_gateway tunnel_config) lan_view Map.empty)) lan_packet no_marks) =
     [''exit1'']"
proof -
  have "choice_counter (Via (tunnel_exit\<lparr>ex_slot := 1\<rparr>)) = ''exit1''" "mk_counted no_marks = []" by code_simp+
  then show ?thesis
    using new_connection_marks [OF marking.mark_machine_axioms refl lan_facts(2,1) lan_policy lan_facts(3-6), of Map.empty]
    by (simp add: Let_def lan_facts(7))
qed

theorem connection_path_witness:
  "let d = render_gateway (normalize_gateway tunnel_config) lan_view Map.empty
   in policy_path (gd_rules d) (gd_routes d) False (mk_meta (run_chain mark_run (classify_rules d) lan_packet no_marks)) = Out None ''wg0''"
proof -
  have "exit_path (tunnel_exit\<lparr>ex_slot := 1\<rparr>) lan_view Map.empty False = Out None ''wg0''" by code_simp
  then show ?thesis
    using conjunct1 [OF connection_path [OF marking.mark_machine_axioms kernel_path.policy_routing_axioms refl lan_facts(2,1) lan_policy
      lan_facts(3-6) refl, of Map.empty False]]
    by (simp add: Let_def lan_facts(7))
qed

end
