(* ===== verification/AddrUnique.thy ===== *)
theory AddrUnique
  imports AddrText Mac
begin

text \<open>
  The text of an address tells it from every other address, and holds no space: what comparing
  canonical lines rests on.
\<close>

unbundle bit_operations_syntax

section \<open>Digits\<close>

lemma itoa_inj: "itoa m = itoa n \<Longrightarrow> m = n"
  using digits_value_itoa [of 0 m] digits_value_itoa [of 0 n] by (metis add_0 mult_0 option.inject)

lemma hex_char_inj: "m < 16 \<Longrightarrow> n < 16 \<Longrightarrow> hex_char m = hex_char n \<Longrightarrow> m = n"
  by (metis hex_digit_hex_char option.inject)

lemma hex_digits_nonempty [simp]: "hex_digits_of n \<noteq> []"
  by (subst hex_digits_of.simps) simp

lemma hex_digits_chars: "c \<in> set (hex_digits_of n) \<Longrightarrow> \<exists>d < 16. c = hex_char d"
proof (induction n rule: hex_digits_of.induct)
  case (1 n)
  show ?case
  proof (cases "n < 16")
    case False
    then have "c \<in> set (hex_digits_of (n div 16)) \<or> c = hex_char (n mod 16)" using 1(2) by (auto simp: hex_digits_of.simps [of n])
    then show ?thesis using 1(1) [OF False] mod_less_divisor [of 16 n] by (metis zero_less_numeral)
  qed (use 1(2) in \<open>auto simp: hex_digits_of.simps [of n]\<close>)
qed

lemma hex_digits_inj: "hex_digits_of m = hex_digits_of n \<Longrightarrow> m = n"
proof (induction m arbitrary: n rule: hex_digits_of.induct)
  case (1 m)
  show ?case
  proof (cases "m < 16")
    case True
    show ?thesis
    proof (cases "n < 16")
      case True
      then show ?thesis using 1(2) \<open>m < 16\<close> hex_char_inj [of m n] by (simp add: hex_digits_of.simps)
    next
      case False
      then show ?thesis using 1(2) True hex_digits_nonempty [of "n div 16"] by (simp add: hex_digits_of.simps [of m] hex_digits_of.simps [of n])
    qed
  next
    case False
    have n: "\<not> n < 16"
      using 1(2) False hex_digits_nonempty [of "m div 16"] by (auto simp: hex_digits_of.simps [of m] hex_digits_of.simps [of n])
    then have "hex_digits_of (m div 16) = hex_digits_of (n div 16)" "hex_char (m mod 16) = hex_char (n mod 16)"
      using 1(2) False by (simp_all add: hex_digits_of.simps [of m] hex_digits_of.simps [of n])
    then have "m div 16 = n div 16" "m mod 16 = n mod 16" using 1(1) False hex_char_inj [of "m mod 16" "n mod 16"] by auto
    then show ?thesis by (metis div_mult_mod_eq)
  qed
qed


section \<open>IPv6\<close>

lemma longest_zeros_ok:
  assumes "length gs = 8" and "longest_zeros gs = (zs, ze)"
  shows "zs = 255 \<or> zs < ze \<and> ze \<le> 8 \<and> (\<forall>j. zs \<le> j \<and> j < ze \<longrightarrow> gs ! j = 0)"
proof -
  let ?P = "\<lambda>(zs, ze). zs = 255 \<or> zs < ze \<and> ze \<le> 8 \<and> (\<forall>j. zs \<le> j \<and> j < ze \<longrightarrow> gs ! j = 0)"
  let ?f = "\<lambda>(zs, ze) i. let l = zero_run gs i in if l \<ge> 2 \<and> l > ze - zs then (i, i + l) else (zs, ze)"
  have run: "i + zero_run gs i \<le> 8" "\<forall>j. i \<le> j \<and> j < i + zero_run gs i \<longrightarrow> gs ! j = 0" if "i < 8" for i
  proof -
    let ?l = "length (takeWhile (\<lambda>g. g = 0) (drop i gs))"
    have "?l \<le> length (drop i gs)" by (rule length_takeWhile_le)
    then show "i + zero_run gs i \<le> 8" using assms(1) that by (simp add: zero_run_def)
    show "\<forall>j. i \<le> j \<and> j < i + zero_run gs i \<longrightarrow> gs ! j = 0"
    proof (intro allI impI)
      fix j assume "i \<le> j \<and> j < i + zero_run gs i"
      then have k: "j - i < ?l" "i + (j - i) = j" by (auto simp: zero_run_def)
      then have "takeWhile (\<lambda>g. g = 0) (drop i gs) ! (j - i) = drop i gs ! (j - i)" by (rule_tac takeWhile_nth)
      moreover have "takeWhile (\<lambda>g. g = 0) (drop i gs) ! (j - i) = 0" using nth_mem [OF k(1)] set_takeWhileD by fast
      ultimately show "gs ! j = 0" using k assms(1) that by simp
    qed
  qed
  have "?P (foldl ?f p is)" if "?P p" "\<forall>i \<in> set is. i < 8" for p "is"
    using that
  proof (induction "is" arbitrary: p)
    case (Cons i "is")
    have "?P (?f p i)" using Cons.prems run [of i] by (cases p) (auto simp: Let_def)
    then show ?case using Cons by simp
  qed simp
  from this [of "(255, 255)" "[0 ..< 8]"] show ?thesis using assms(2) by (auto simp: longest_zeros_def)
qed

text \<open>The groups before and after the zeros left out, joined.\<close>

lemma v6_text_rest:
  "zs < i \<or> 8 \<le> zs \<Longrightarrow> v6_text gs zs ze i =
     concat (map (\<lambda>j. (if j > 0 then '':'' else []) @ hex_digits_of (gs ! j)) [i ..< 8])"
proof (induction gs zs ze i rule: v6_text.induct)
  case (1 gs zs ze i)
  show ?case
  proof (cases "i \<ge> 8")
    case False
    then have "i \<noteq> zs" "zs < Suc i \<or> 8 \<le> zs" using 1(3) by auto
    then show ?thesis using 1 False by (simp add: v6_text.simps [of gs zs ze i] upt_conv_Cons)
  qed (simp add: v6_text.simps [of gs zs ze i])
qed

lemma v6_text_split:
  "i \<le> zs \<Longrightarrow> zs < 8 \<Longrightarrow> zs < ze \<Longrightarrow> v6_text gs zs ze i =
     concat (map (\<lambda>j. (if j > 0 then '':'' else []) @ hex_digits_of (gs ! j)) [i ..< zs]) @ ''::''
     @ (if ze \<ge> 8 then [] else hex_digits_of (gs ! ze) @ concat (map (\<lambda>j. '':'' @ hex_digits_of (gs ! j)) [Suc ze ..< 8]))"
proof (induction gs zs ze i rule: v6_text.induct)
  case (1 gs zs ze i)
  show ?case
  proof (cases "i = zs")
    case True
    have "map (\<lambda>j. (if j > 0 then '':'' else []) @ hex_digits_of (gs ! j)) [Suc ze ..< 8] =
        map (\<lambda>j. '':'' @ hex_digits_of (gs ! j)) [Suc ze ..< 8]" by (rule map_cong) auto
    then have "v6_text gs zs ze (Suc ze) = concat (map (\<lambda>j. '':'' @ hex_digits_of (gs ! j)) [Suc ze ..< 8])"
      using 1(5) v6_text_rest [of zs "Suc ze" gs ze] by (simp only: less_Suc_eq simp_thms)
    then show ?thesis using True 1(4,5) by (simp add: v6_text.simps [of gs zs ze zs])
  next
    case False
    then show ?thesis using 1 by (simp add: v6_text.simps [of gs zs ze i] upt_conv_Cons)
  qed
qed

lemma join_colon:
  "concat (map (\<lambda>j. '':'' @ f j) xs) = (if xs = [] then [] else '':'' @ join_with '':'' (map f xs))"
  by (induction xs) (auto simp: neq_Nil_conv)


lemma join_with_snoc: "join_with sep (xs @ [y]) = (if xs = [] then y else join_with sep xs @ sep @ y)"
  by (induction xs rule: join_with.induct [of _ sep]) auto

lemma join_colon0:
  "concat (map (\<lambda>j. (if j > 0 then '':'' else []) @ f j) [0 ..< n]) = join_with '':'' (map f [0 ..< n])"
  by (induction n) (simp_all add: join_with_snoc)

definition fields_of :: "nat list \<Rightarrow> nat list \<Rightarrow> bool \<Rightarrow> string list" where
  "fields_of ps qs gap =
     (if gap then (if ps = [] then [[]] else map hex_digits_of ps) @ [[]] @ (if qs = [] then [[]] else map hex_digits_of qs)
      else map hex_digits_of ps)"

lemma hex_no_colon: "CHR '':'' \<notin> set (hex_digits_of n)"
  using hex_digits_chars hex_char_not_colon by metis

lemma split_gap:
  "split_on CHR '':'' (join_with '':'' (map hex_digits_of ps) @ ''::'' @ join_with '':'' (map hex_digits_of qs)) = fields_of ps qs True"
proof -
  have q: "split_on CHR '':'' (join_with '':'' (map hex_digits_of qs)) = (if qs = [] then [[]] else map hex_digits_of qs)"
    using split_on_join [of "map hex_digits_of qs" "CHR '':''"] hex_no_colon by simp
  have "split_on CHR '':'' (join_with '':'' (map hex_digits_of ps) @ CHR '':'' # x) =
      (if ps = [] then [[]] else map hex_digits_of ps) @ split_on CHR '':'' x" for x
  proof (induction ps)
    case (Cons p ps)
    then show ?case by (cases ps) (simp_all add: split_on_append hex_no_colon)
  qed simp
  then show ?thesis using q by (simp add: fields_of_def)
qed

lemma fields_inj:
  assumes "fields_of ps qs gap = fields_of ps' qs' gap'"
    and "gap \<Longrightarrow> length ps + length qs < 8" "gap' \<Longrightarrow> length ps' + length qs' < 8"
  shows "ps = ps' \<and> gap = gap' \<and> (gap \<longrightarrow> qs = qs')"
proof -
  have t: "takeWhile (\<lambda>s. s \<noteq> []) (map hex_digits_of xs @ [] # ys) = map hex_digits_of xs"
    "takeWhile (\<lambda>s. s \<noteq> []) (map hex_digits_of xs) = map hex_digits_of xs" "[] \<notin> set (map hex_digits_of xs)" for xs ys
    by (induction xs) (auto dest: sym)
  have tw: "takeWhile (\<lambda>s. s \<noteq> []) (fields_of ps qs gap) = map hex_digits_of ps"
    "gap = ([] \<in> set (fields_of ps qs gap))"
    "gap \<Longrightarrow> takeWhile (\<lambda>s. s \<noteq> []) (rev (fields_of ps qs gap)) = map hex_digits_of (rev qs)" for ps qs gap
    using t [of ps] t [of "rev qs"] by (auto simp: fields_of_def rev_map)
  have "inj hex_digits_of" by (rule injI, rule hex_digits_inj)
  then have i: "map hex_digits_of x = map hex_digits_of y \<longleftrightarrow> x = y" for x y by (rule inj_map_eq_map)
  show ?thesis using tw [where ps = ps and qs = qs and gap = gap] tw [where ps = ps' and qs = qs' and gap = gap'] assms(1) i [of ps ps'] i [of "rev qs" "rev qs'"] by auto
qed


lemma v6_groups_inj:
  assumes "v6_groups a = v6_groups b"
  shows "a = b"
proof (rule bit_word_eqI)
  fix n assume n: "n < LENGTH(128)"
  let ?i = "7 - n div 16"
  have "n div 16 \<le> 7" "16 * (n div 16) + n mod 16 = n" using n by auto
  then have i: "?i < 8" "112 - 16 * ?i + n mod 16 = n" by (simp, presburger)
  have "v6_groups a ! ?i = v6_groups b ! ?i" using assms by simp
  then have "drop_bit (112 - 16 * ?i) a AND 0xffff = drop_bit (112 - 16 * ?i) b AND 0xffff"
    using i(1) by (simp add: v6_groups_def word_unat_eq_iff del: upt_Suc)
  then have "bit (drop_bit (112 - 16 * ?i) a AND mask 16) (n mod 16) = bit (drop_bit (112 - 16 * ?i) b AND mask 16) (n mod 16)"
    by (simp add: mask_eq_exp_minus_1)
  moreover have "n mod 16 < 128" using mod_less_divisor [of 16 n] by linarith
  ultimately show "bit a n = bit b n" using i(2) n by (simp add: bit_simps)
qed

fun plain_addr :: "addr \<Rightarrow> bool" where
  "plain_addr AddrNone = False"
| "plain_addr (V4 a) = True"
| "plain_addr (V6 a z) = (drop_bit 32 a \<noteq> 0xffff \<and> z = [])"

lemma v6_fields:
  assumes "plain_addr (V6 a z)"
  shows "\<exists>ps qs gap. split_on CHR '':'' (addr_string (V6 a z)) = fields_of ps qs gap \<and>
    (if gap then length ps + length qs < 8 \<and> v6_groups a = ps @ replicate (8 - length ps - length qs) 0 @ qs
     else v6_groups a = ps)"
proof -
  let ?gs = "v6_groups a"
  have l: "length ?gs = 8" by (simp add: v6_groups_def)
  obtain zs ze where z: "longest_zeros ?gs = (zs, ze)" by fastforce
  have s: "addr_string (V6 a z) = v6_text ?gs zs ze 0" using assms z by simp
  show ?thesis
  proof (cases "zs = 255")
    case True
    have "v6_text ?gs zs ze 0 = join_with '':'' (map (\<lambda>j. hex_digits_of (?gs ! j)) [0 ..< 8])"
      using True v6_text_rest [of zs 0 ?gs ze] join_colon0 [of "\<lambda>j. hex_digits_of (?gs ! j)" 8] by simp
    also have "map (\<lambda>j. hex_digits_of (?gs ! j)) [0 ..< 8] = map hex_digits_of ?gs"
      using l by (intro nth_equalityI) (simp_all del: upt_Suc)
    finally have "split_on CHR '':'' (addr_string (V6 a z)) = fields_of ?gs [] False"
      using split_on_join [of "map hex_digits_of ?gs" "CHR '':''"] hex_no_colon l unfolding s by (cases ?gs) (auto simp: fields_of_def)
    then show ?thesis by fastforce
  next
    case False
    then have o: "zs < ze" "ze \<le> 8" "zs < 8" "\<forall>j. zs \<le> j \<and> j < ze \<longrightarrow> ?gs ! j = 0"
      using longest_zeros_ok [OF l z] by auto
    let ?h = "\<lambda>j. hex_digits_of (?gs ! j)"
    have p: "map ?h [0 ..< zs] = map hex_digits_of (take zs ?gs)"
      using l o by (intro nth_equalityI) (simp_all del: upt_Suc)
    have "map ?h [ze ..< 8] = map hex_digits_of (drop ze ?gs)"
      using l o by (intro nth_equalityI) (simp_all del: upt_Suc)
    moreover have "(if ze \<ge> 8 then [] else ?h ze @ concat (map (\<lambda>j. '':'' @ ?h j) [Suc ze ..< 8])) = join_with '':'' (map ?h [ze ..< 8])"
      using o(2) join_colon [of ?h "[Suc ze ..< 8]"]
      by (cases "Suc ze < 8") (auto simp: upt_conv_Cons [of ze 8] upt_conv_Cons [of "Suc ze" 8] simp del: upt_Suc)
    ultimately have "addr_string (V6 a z) =
        join_with '':'' (map hex_digits_of (take zs ?gs)) @ ''::'' @ join_with '':'' (map hex_digits_of (drop ze ?gs))"
      using s v6_text_split [of 0 zs ze ?gs] o join_colon0 [of ?h zs] p by simp
    then have "split_on CHR '':'' (addr_string (V6 a z)) = fields_of (take zs ?gs) (drop ze ?gs) True" using split_gap by metis
    moreover have "?gs = take zs ?gs @ replicate (ze - zs) 0 @ drop ze ?gs"
      using l o by (intro nth_equalityI) (auto simp: nth_append)
    moreover have "8 - length (take zs ?gs) - length (drop ze ?gs) = ze - zs" "length (take zs ?gs) + length (drop ze ?gs) < 8"
      using l o by auto
    ultimately show ?thesis by (metis (full_types))
  qed
qed


section \<open>Addresses\<close>

lemma v4_string_inj: "v4_string a = v4_string b \<Longrightarrow> a = b"
proof -
  let ?p = "\<lambda>a i. itoa (unat (drop_bit i a AND 0xff :: u32))"
  assume e: "v4_string a = v4_string b"
  have s: "split_on CHR ''.'' (v4_string a) = map (?p a) [24, 16, 8, 0]" for a
    unfolding v4_string_def by (rule split_on_join) (auto simp: itoa_free)
  have "map (?p a) [24, 16, 8, 0] = map (?p b) [24, 16, 8, 0]" using e s by metis
  then have d: "drop_bit i a AND mask 8 = drop_bit i b AND mask 8" if "i \<in> {24, 16, 8, 0}" for i
    using that by (auto simp: mask_eq_exp_minus_1 word_unat_eq_iff dest!: itoa_inj)
  show "a = b"
  proof (rule bit_word_eqI)
    fix n assume n: "n < LENGTH(32)"
    let ?i = "8 * (n div 8)"
    have "n div 8 = 0 \<or> n div 8 = 1 \<or> n div 8 = 2 \<or> n div 8 = 3" using n by auto
    then have i: "?i \<in> {24, 16, 8, 0}" "?i + n mod 8 = n" using mult_div_mod_eq [of 8 n] by auto
    have "bit (drop_bit ?i a AND mask 8) (n mod 8) = bit (drop_bit ?i b AND mask 8) (n mod 8)" using d [OF i(1)] by simp
    moreover have "n mod 8 < 32" using mod_less_divisor [of 8 n] by linarith
    ultimately show "bit a n = bit b n" using i(2) by (simp add: bit_simps)
  qed
qed

lemma set_join_with: "set (join_with sep ls) \<subseteq> set sep \<union> \<Union> (set (map set ls))"
  by (induction sep ls rule: join_with.induct) auto

lemma addr_string_chars:
  assumes "plain_addr a" and "c \<in> set (addr_string a)"
  shows "c = CHR ''.'' \<or> c = CHR '':'' \<or> (\<exists>d < 16. c = hex_char d)"
proof (cases a)
  case (V4 w)
  then obtain n where "c = CHR ''.'' \<or> c \<in> set (itoa n)"
    using assms(2) set_join_with [of "''.''" "map (\<lambda>i. itoa (unat (drop_bit i w AND 0xff))) [24, 16, 8, 0]"]
    by (auto simp: v4_string_def)
  moreover have "\<exists>d < 16. c = hex_char d" if "c \<in> set (itoa n)"
    using itoa_digits [OF that] by (auto simp: hex_char_def)
  ultimately show ?thesis by blast
next
  case (V6 w z)
  then obtain ps qs gap where f: "split_on CHR '':'' (addr_string a) = fields_of ps qs gap" using v6_fields assms(1) by metis
  have "c \<in> set (join_with '':'' (fields_of ps qs gap))" using assms(2) join_split_on [of "CHR '':''" "addr_string a"] f by simp
  then have "c = CHR '':'' \<or> (\<exists>n. c \<in> set (hex_digits_of n))"
    using set_join_with [of "'':''" "fields_of ps qs gap"] by (auto simp: fields_of_def split: if_splits)
  then show ?thesis using hex_digits_chars by blast
qed (use assms in simp)

text \<open>What a canonical line needs to know about an address it holds.\<close>

lemma addr_string_free: "plain_addr a \<Longrightarrow> CHR '' '' \<notin> set (addr_string a)"
proof
  assume "plain_addr a" and "CHR '' '' \<in> set (addr_string a)"
  then obtain d where d: "d < 16" "CHR '' '' = hex_char d" using addr_string_chars [of a "CHR '' ''"] by auto
  then have "of_char (hex_char d) = (32 :: nat)" by (simp flip: d(2))
  then show False using hex_char_code [OF d(1)] by (simp split: if_splits)
qed

lemma v4_no_colon: "CHR '':'' \<notin> set (v4_string a)"
  using set_join_with [of "''.''" "map (\<lambda>i. itoa (unat (drop_bit i a AND 0xff))) [24, 16, 8, 0]"]
  by (auto simp: v4_string_def itoa_free)

lemma addr_string_inj:
  assumes "plain_addr a" and "plain_addr b" and "addr_string a = addr_string b"
  shows "a = b"
proof -
  have no_mix: "addr_string (V6 w z) \<noteq> v4_string v" if p: "plain_addr (V6 w z)" for w z v
  proof
    assume e: "addr_string (V6 w z) = v4_string v"
    obtain ps qs gap where f: "split_on CHR '':'' (addr_string (V6 w z)) = fields_of ps qs gap"
      "if gap then length ps + length qs < 8 \<and> v6_groups w = ps @ replicate (8 - length ps - length qs) 0 @ qs
       else v6_groups w = ps" using v6_fields [OF p] by blast
    have "fields_of ps qs gap = [v4_string v]" using f(1) e split_on_free [OF v4_no_colon] by metis
    moreover have "length (fields_of ps qs gap) \<ge> 3"
    proof (cases gap)
      case False
      then have "length ps = length (v6_groups w)" using f(2) by simp
      then show ?thesis using False by (simp add: fields_of_def v6_groups_def)
    qed (cases ps; cases qs; simp add: fields_of_def)
    ultimately show False by simp
  qed
  show ?thesis
  proof (cases a)
    case (V4 v)
    show ?thesis
    proof (cases b)
      case (V6 w z)
      then show ?thesis using no_mix [of w z v] assms(2,3) V4 by (simp del: addr_string.simps(3))
    qed (use assms V4 v4_string_inj in auto)
  next
    case (V6 w z)
    then obtain w' where b: "b = V6 w' []" using assms no_mix by (cases b) auto
    obtain ps qs gap where f: "split_on CHR '':'' (addr_string a) = fields_of ps qs gap"
      "if gap then length ps + length qs < 8 \<and> v6_groups w = ps @ replicate (8 - length ps - length qs) 0 @ qs
       else v6_groups w = ps" using v6_fields assms(1) V6 by blast
    obtain ps' qs' gap' where g: "split_on CHR '':'' (addr_string b) = fields_of ps' qs' gap'"
      "if gap' then length ps' + length qs' < 8 \<and> v6_groups w' = ps' @ replicate (8 - length ps' - length qs') 0 @ qs'
       else v6_groups w' = ps'" using v6_fields assms(2) b by blast
    have "ps = ps' \<and> gap = gap' \<and> (gap \<longrightarrow> qs = qs')"
      using fields_inj [of ps qs gap ps' qs' gap'] f g assms(3) by (auto split: if_splits)
    then have "v6_groups w = v6_groups w'" using f(2) g(2) by (auto split: if_splits)
    then show ?thesis using v6_groups_inj V6 b assms(1) by simp
  qed (use assms in simp)
qed

end
