(* ===== verification/ExitApply.thy ===== *)
theory ExitApply
  imports Classify AddrUnique "HOL-Library.AList"
begin

text \<open>
  \<open>Apply\<close> of \<open>internal/gateway/kernel_linux.go\<close>: programming what was rendered, in the order that keeps
  every state in between safe. The kernel is a parameter, \<open>netlink\<close>, whose calls may fail at any time;
  what its calls do when they succeed is the locale \<open>netlink_kernel\<close>. A run records every state the
  kernel was in.
\<close>

section \<open>Netlink objects\<close>

definition RT_TABLE_MAIN :: int where "RT_TABLE_MAIN = 254"
definition RTPROT_STATIC :: int where "RTPROT_STATIC = 4"
definition RTN_UNICAST :: int where "RTN_UNICAST = 1"
definition RTN_UNREACHABLE :: int where "RTN_UNREACHABLE = 7"

text \<open>\<open>nr_ones\<close> is the length of the destination's mask, \<open>None\<close> for no destination; no link is zero.\<close>

record nl_route =
  nr_table :: int
  nr_v6 :: bool
  nr_ones :: "int option"
  nr_protocol :: int
  nr_type :: int
  nr_gw :: "byte list option"
  nr_link :: int
  nr_priority :: int

record nl_rule =
  nu_priority :: int
  nu_v6 :: bool
  nu_table :: int
  nu_suppress :: int
  nu_mark :: u32
  nu_mask :: "u32 option"

text \<open>The classification table as it is written: its counters, its chain, and the SNAT chain if any.\<close>

record class_table =
  ct_counters :: "string list"
  ct_classify :: "gw_expr list list"
  ct_post :: "gw_expr list list option"

record nl_kernel =
  nk_routes :: "nl_route list"
  nk_rules :: "nl_rule list"
  nk_class :: "class_table option"
  nk_stat :: "stat_chain list"
  nk_sysctl :: "string \<Rightarrow> string option"

text \<open>The interfaces, by name and by index.\<close>

record ports =
  index_of :: "string \<Rightarrow> int option"
  name_of :: "int \<Rightarrow> string option"

datatype apply_error = NoDevice string string | Os string

record netlink =
  route_list :: "nl_kernel \<Rightarrow> bool \<Rightarrow> apply_error + nl_route list"
  rule_list :: "nl_kernel \<Rightarrow> bool \<Rightarrow> apply_error + nl_rule list"
  route_replace :: "nl_route \<Rightarrow> nl_kernel \<Rightarrow> apply_error + nl_kernel"
  route_del :: "nl_route \<Rightarrow> nl_kernel \<Rightarrow> apply_error + nl_kernel"
  rule_add :: "nl_rule \<Rightarrow> nl_kernel \<Rightarrow> apply_error + nl_kernel"
  rule_del :: "nl_rule \<Rightarrow> nl_kernel \<Rightarrow> apply_error + nl_kernel"
  write_class :: "class_table option \<Rightarrow> nl_kernel \<Rightarrow> apply_error + nl_kernel"
  write_stat :: "stat_chain list \<Rightarrow> nl_kernel \<Rightarrow> apply_error + nl_kernel"
  write_sysctl :: "string \<Rightarrow> string \<Rightarrow> nl_kernel \<Rightarrow> apply_error + nl_kernel"

section \<open>Routes\<close>

fun addr_from_slice :: "byte list \<Rightarrow> addr option" where
  "addr_from_slice bs =
     (if length bs = 4 then Some (V4 (be_word bs)) else if length bs = 16 then Some (V6 (be_word bs) []) else None)"

definition desired_route :: "ports \<Rightarrow> route_spec \<Rightarrow> apply_error + nl_route" where
  "desired_route ps r =
     (let base = \<lparr>nr_table = rt_table r, nr_v6 = rt_v6 r, nr_ones = Some 0, nr_protocol = RTPROT_STATIC,
                  nr_type = RTN_UNICAST, nr_gw = None, nr_link = 0, nr_priority = rt_priority r\<rparr>
      in if rt_type r = RouteUnreachable then Inr (base\<lparr>nr_type := RTN_UNREACHABLE\<rparr>)
         else let via = base\<lparr>nr_gw := map_option as_slice (rt_gateway r)\<rparr>
              in if rt_dev r = [] then Inr via
                 else (case index_of ps (rt_dev r) of
                         None \<Rightarrow> Inl (NoDevice (rt_exit r) (rt_dev r))
                       | Some i \<Rightarrow> Inr (via\<lparr>nr_link := i\<rparr>)))"

text \<open>The maps of the code are keyed by the canonical line; a later entry replaces an earlier one.\<close>

fun desired_routes_from :: "ports \<Rightarrow> route_spec list \<Rightarrow> (string \<times> nl_route) list \<Rightarrow> apply_error + (string \<times> nl_route) list" where
  "desired_routes_from ps [] out = Inr out"
| "desired_routes_from ps (r # rs) out =
     (case desired_route ps r of
        Inl e \<Rightarrow> Inl e
      | Inr n \<Rightarrow> desired_routes_from ps rs (AList.update (route_line r) n out))"

definition desired_routes :: "ports \<Rightarrow> gw_desired \<Rightarrow> apply_error + (string \<times> nl_route) list" where
  "desired_routes ps d = desired_routes_from ps (gd_routes d) []"

definition is_default :: "nl_route \<Rightarrow> bool" where
  "is_default r = (case nr_ones r of None \<Rightarrow> True | Some n \<Rightarrow> n = 0)"

text \<open>The kernel fills in 1024 for an IPv6 route without a metric; it is read as the metric left out.\<close>

definition read_metric :: "nl_route \<Rightarrow> int" where
  "read_metric r = (if nr_v6 r \<and> nr_priority r = 1024 then 0 else nr_priority r)"

definition observed_route_line :: "ports \<Rightarrow> nl_route \<Rightarrow> string" where
  "observed_route_line ps r =
     (if nr_type r = RTN_UNREACHABLE
      then ''route '' @ family_text (nr_v6 r) @ '' table '' @ itoa_int (nr_table r) @ '' unreachable default''
        @ metric_text (read_metric r)
      else ''route '' @ family_text (nr_v6 r) @ '' table '' @ itoa_int (nr_table r) @ '' default''
        @ (case nr_gw r of
             None \<Rightarrow> []
           | Some g \<Rightarrow> (case addr_from_slice g of None \<Rightarrow> [] | Some a \<Rightarrow> '' via '' @ addr_string (unmap a)))
        @ (if nr_link r > 0
           then (case name_of ps (nr_link r) of None \<Rightarrow> [] | Some n \<Rightarrow> '' dev '' @ n) else [])
        @ metric_text (read_metric r))"

definition owned_route :: "nl_route \<Rightarrow> bool" where
  "owned_route r = (owns_table (nr_table r) \<and> is_default r)"

definition keyed :: "('a \<Rightarrow> string) \<Rightarrow> 'a list \<Rightarrow> (string \<times> 'a) list" where
  "keyed line xs = fold (\<lambda>x out. AList.update (line x) x out) xs []"

definition both_families :: "('k \<Rightarrow> bool \<Rightarrow> apply_error + 'a list) \<Rightarrow> 'k \<Rightarrow> apply_error + 'a list" where
  "both_families read k =
     (case read k False of
        Inl e \<Rightarrow> Inl e
      | Inr xs \<Rightarrow> (case read k True of Inl e \<Rightarrow> Inl e | Inr ys \<Rightarrow> Inr (xs @ ys)))"

definition current_routes :: "netlink \<Rightarrow> ports \<Rightarrow> nl_kernel \<Rightarrow> apply_error + (string \<times> nl_route) list" where
  "current_routes nl ps k =
     (case both_families (route_list nl) k of
        Inl e \<Rightarrow> Inl e
      | Inr rs \<Rightarrow> Inr (keyed (observed_route_line ps) (filter owned_route rs)))"

section \<open>Rules\<close>

definition desired_rule :: "rule_spec \<Rightarrow> nl_rule" where
  "desired_rule r =
     (let rule = \<lparr>nu_priority = rs_priority r, nu_v6 = rs_v6 r, nu_table = 0, nu_suppress = -1, nu_mark = 0, nu_mask = None\<rparr>
      in case rs_kind r of
           RuleLocal \<Rightarrow> rule\<lparr>nu_table := RT_TABLE_MAIN, nu_suppress := 0\<rparr>
         | RuleMark \<Rightarrow> rule\<lparr>nu_table := rs_table r, nu_mark := rs_mark r, nu_mask := Some MarkMask\<rparr>)"

definition desired_rules :: "gw_desired \<Rightarrow> (string \<times> nl_rule) list" where
  "desired_rules d = fold (\<lambda>r out. AList.update (rule_line r) (desired_rule r) out) (gd_rules d) []"

definition observed_rule_line :: "nl_rule \<Rightarrow> string" where
  "observed_rule_line r =
     (if nu_priority r = LocalPriority \<and> nu_suppress r = 0 \<and> nu_table r = RT_TABLE_MAIN
      then ''rule '' @ family_text (nu_v6 r) @ '' priority '' @ itoa_int (nu_priority r)
        @ '' from all lookup main suppress_prefixlength 0''
      else if nu_mask r = Some MarkMask
      then ''rule '' @ family_text (nu_v6 r) @ '' priority '' @ itoa_int (nu_priority r) @ '' fwmark '' @ hex_mark (nu_mark r)
        @ ''/'' @ hex_mark MarkMask @ '' lookup '' @ itoa_int (nu_table r)
      else ''rule '' @ family_text (nu_v6 r) @ '' priority '' @ itoa_int (nu_priority r) @ '' unrecognised'')"

definition current_rules :: "netlink \<Rightarrow> nl_kernel \<Rightarrow> apply_error + (string \<times> nl_rule) list" where
  "current_rules nl k =
     (case both_families (rule_list nl) k of
        Inl e \<Rightarrow> Inl e
      | Inr rs \<Rightarrow> Inr (keyed observed_rule_line (filter (\<lambda>r. owns_priority (nu_priority r)) rs)))"

section \<open>What differs\<close>

text \<open>
  \<open>diffRoutes\<close> and \<open>diffRules\<close>. A map is visited in the order \<open>order\<close> gives its keys.
\<close>

definition missing_from :: "(string list \<Rightarrow> string list) \<Rightarrow> (string \<times> 'a) list \<Rightarrow> (string \<times> 'a) list \<Rightarrow> 'a list" where
  "missing_from order xs ys =
     concat (map (\<lambda>l. if map_of ys l = None then (case map_of xs l of None \<Rightarrow> [] | Some x \<Rightarrow> [x]) else [])
       (order (map fst xs)))"

definition diff_objects ::
  "(string list \<Rightarrow> string list) \<Rightarrow> (string \<times> 'a) list \<Rightarrow> (string \<times> 'a) list \<Rightarrow> 'a list \<times> 'a list" where
  "diff_objects order have want = (missing_from order want have, missing_from order have want)"

section \<open>Apply\<close>

datatype step_name =
    PrepareRoutes | ReadRoutes | ReadRules
  | AddRoutes nat | AddRules nat | WriteTable | WriteAccounting | RemoveRules nat | RemoveRoutes nat
  | SetSysctl string string

text \<open>A run: where the kernel is, the states it has been in since, the steps reported, and the error that ended it.\<close>

record progress =
  pg_kernel :: nl_kernel
  pg_seen :: "nl_kernel list"
  pg_steps :: "(step_name \<times> apply_error option) list"
  pg_error :: "apply_error option"

fun each :: "('a \<Rightarrow> nl_kernel \<Rightarrow> apply_error + nl_kernel) \<Rightarrow> 'a list \<Rightarrow> nl_kernel \<Rightarrow> nl_kernel list \<times> apply_error option" where
  "each f [] k = ([], None)"
| "each f (x # xs) k =
     (case f x k of
        Inl e \<Rightarrow> ([], Some e)
      | Inr k' \<Rightarrow> (case each f xs k' of (ks, e) \<Rightarrow> (k' # ks, e)))"

definition run_step ::
  "step_name \<Rightarrow> ('a \<Rightarrow> nl_kernel \<Rightarrow> apply_error + nl_kernel) \<Rightarrow> 'a list \<Rightarrow> progress \<Rightarrow> progress" where
  "run_step n f xs p =
     (if pg_error p \<noteq> None then p
      else (case each f xs (pg_kernel p) of
              (ks, e) \<Rightarrow> \<lparr>pg_kernel = last (pg_kernel p # ks), pg_seen = pg_seen p @ ks,
                         pg_steps = pg_steps p @ [(n, e)], pg_error = e\<rparr>))"

definition step_unless_nil ::
  "(nat \<Rightarrow> step_name) \<Rightarrow> ('a \<Rightarrow> nl_kernel \<Rightarrow> apply_error + nl_kernel) \<Rightarrow> 'a list \<Rightarrow> progress \<Rightarrow> progress" where
  "step_unless_nil n f xs p = (if xs = [] then p else run_step (n (length xs)) f xs p)"

definition set_sysctl :: "netlink \<Rightarrow> string \<times> string \<Rightarrow> progress \<Rightarrow> progress" where
  "set_sysctl nl s p =
     (if nk_sysctl (pg_kernel p) (fst s) = Some (snd s) then p
      else run_step (SetSysctl (fst s) (snd s)) (\<lambda>s. write_sysctl nl (fst s) (snd s)) [s] p)"

definition class_table_of :: "gw_desired \<Rightarrow> class_table option" where
  "class_table_of d =
     (if \<not> gd_enabled d then None
      else Some \<lparr>ct_counters = gd_counters d, ct_classify = classify_rules d,
                 ct_post = (if gd_snat d \<noteq> [] then Some (postrouting_rules d) else None)\<rparr>)"

definition stopped :: "step_name \<Rightarrow> apply_error \<Rightarrow> nl_kernel \<Rightarrow> progress" where
  "stopped n e k = \<lparr>pg_kernel = k, pg_seen = [], pg_steps = [(n, Some e)], pg_error = Some e\<rparr>"

definition program_kernel ::
  "netlink \<Rightarrow> gw_desired \<Rightarrow> nl_route list \<times> nl_route list \<Rightarrow> nl_rule list \<times> nl_rule list \<Rightarrow> nl_kernel \<Rightarrow> progress" where
  "program_kernel nl d routes rules k =
     (let p = \<lparr>pg_kernel = k, pg_seen = [], pg_steps = [], pg_error = None\<rparr>;
          p = step_unless_nil AddRoutes (route_replace nl) (fst routes) p;
          p = step_unless_nil AddRules (rule_add nl) (fst rules) p;
          p = run_step WriteTable (write_class nl) [class_table_of d] p;
          p = run_step WriteAccounting (write_stat nl) [gd_stat d] p;
          p = step_unless_nil RemoveRules (rule_del nl) (snd rules) p;
          p = step_unless_nil RemoveRoutes (route_del nl) (snd routes) p
      in fold (set_sysctl nl) (gd_sysctls d) p)"

definition apply_kernel ::
  "netlink \<Rightarrow> ports \<Rightarrow> (string list \<Rightarrow> string list) \<Rightarrow> gw_desired \<Rightarrow> nl_kernel \<Rightarrow> progress" where
  "apply_kernel nl ps order d k =
     (case desired_routes ps d of
        Inl e \<Rightarrow> stopped PrepareRoutes e k
      | Inr want_routes \<Rightarrow>
     (case current_routes nl ps k of
        Inl e \<Rightarrow> stopped ReadRoutes e k
      | Inr have_routes \<Rightarrow>
     (case current_rules nl k of
        Inl e \<Rightarrow> stopped ReadRules e k
      | Inr have_rules \<Rightarrow>
          program_kernel nl d (diff_objects order have_routes want_routes)
            (diff_objects order have_rules (desired_rules d)) k)))"


section \<open>Lines tell objects apart\<close>

text \<open>What is read back of a route, as the renderer would describe it.\<close>

definition seen_route :: "ports \<Rightarrow> nl_route \<Rightarrow> route_spec" where
  "seen_route ps r =
     (let u = (nr_type r = RTN_UNREACHABLE)
      in \<lparr>rt_table = nr_table r, rt_v6 = nr_v6 r, rt_type = (if u then RouteUnreachable else RouteVia),
          rt_gateway = (if u then None else case nr_gw r of None \<Rightarrow> None | Some g \<Rightarrow> map_option unmap (addr_from_slice g)),
          rt_dev = (if u then [] else if nr_link r > 0 then (case name_of ps (nr_link r) of None \<Rightarrow> [] | Some n \<Rightarrow> n) else []),
          rt_priority = read_metric r, rt_exit = []\<rparr>)"

text \<open>
  A route whose line says everything about it: its interface is named, its gateway has no zone, and its
  metric is not the one IPv6 routes get unasked.
\<close>

definition told_route :: "route_spec \<Rightarrow> bool" where
  "told_route r \<longleftrightarrow> rt_table r \<ge> 0 \<and> rt_priority r \<ge> 0 \<and> \<not> (rt_v6 r \<and> rt_priority r = 1024) \<and>
     (if rt_type r = RouteUnreachable then rt_gateway r = None \<and> rt_dev r = []
      else rt_type r = RouteVia \<and> rt_dev r \<noteq> [] \<and> CHR '' '' \<notin> set (rt_dev r) \<and>
        (case rt_gateway r of None \<Rightarrow> True | Some g \<Rightarrow> plain_addr g))"

definition route_words :: "route_spec \<Rightarrow> string list" where
  "route_words r =
     [''route'', family_text (rt_v6 r), ''table'', itoa_int (rt_table r)]
     @ (if rt_type r = RouteUnreachable then [''unreachable'', ''default'']
        else ''default'' # (case rt_gateway r of None \<Rightarrow> [] | Some g \<Rightarrow> [''via'', addr_string g])
          @ (if rt_dev r \<noteq> [] then [''dev'', rt_dev r] else []))
     @ (if rt_priority r > 0 then [''metric'', itoa_int (rt_priority r)] else [])"

lemma itoa_int_free: "0 \<le> i \<Longrightarrow> CHR '' '' \<notin> set (itoa_int i)"
  by (simp add: itoa_int_def itoa_free)

lemma itoa_int_eq: "0 \<le> i \<Longrightarrow> 0 \<le> j \<Longrightarrow> itoa_int i = itoa_int j \<longleftrightarrow> i = j"
  by (auto simp: itoa_int_def dest: itoa_inj)

lemma route_line_words:
  "route_line r = join_with '' '' (route_words r)"
  by (cases "rt_gateway r") (simp_all add: route_line_def route_words_def metric_text_def)

lemma split_route_line: "told_route r \<Longrightarrow> split_on CHR '' '' (route_line r) = route_words r"
  unfolding route_line_words
  by (rule split_on_join)
    (auto simp: route_words_def told_route_def itoa_int_free addr_string_free family_text_def split: option.splits if_splits)

lemma route_line_inj:
  assumes "told_route r" and "told_route r'" and "route_line r = route_line r'"
  shows "r\<lparr>rt_exit := []\<rparr> = r'\<lparr>rt_exit := []\<rparr>"
proof -
  have w: "route_words r = route_words r'" using assms split_route_line by metis
  have a: "rt_v6 r = rt_v6 r'" "rt_table r = rt_table r'"
    using w assms(1,2) by (auto simp: route_words_def family_text_def told_route_def itoa_int_eq split: if_splits)
  have b: "rt_priority r = rt_priority r' \<and> rt_type r = rt_type r' \<and> rt_dev r = rt_dev r' \<and> rt_gateway r = rt_gateway r'"
  proof (cases "rt_type r = RouteUnreachable")
    case True
    then show ?thesis using w assms(1,2)
      by (auto simp: route_words_def told_route_def itoa_int_eq split: if_splits)
  next
    case False
    then have f: "rt_type r' \<noteq> RouteUnreachable" using w by (auto simp: route_words_def)
    then show ?thesis using w False assms(1,2)
      by (auto simp: route_words_def told_route_def itoa_int_eq dest: addr_string_inj split: if_splits option.splits)
  qed
  show ?thesis using a b by simp
qed

definition ports_ok :: "ports \<Rightarrow> bool" where
  "ports_ok ps \<longleftrightarrow> (\<forall>n i. index_of ps n = Some i \<longrightarrow> i > 0 \<and> name_of ps i = Some n) \<and>
     (\<forall>i n. name_of ps i = Some n \<longrightarrow> n \<noteq> [] \<and> CHR '' '' \<notin> set n)"

lemma observed_line_seen: "ports_ok ps \<Longrightarrow> observed_route_line ps r = route_line (seen_route ps r)"
  by (auto simp: observed_route_line_def route_line_def seen_route_def Let_def read_metric_def ports_ok_def split: option.split)

section \<open>The kernel\<close>

text \<open>The metric the kernel keeps, and two default routes that cannot both be in a table.\<close>

definition metric_of :: "nl_route \<Rightarrow> int" where
  "metric_of r = (if nr_v6 r \<and> nr_priority r = 0 then 1024 else nr_priority r)"

definition same_place :: "nl_route \<Rightarrow> nl_route \<Rightarrow> bool" where
  "same_place r r' \<longleftrightarrow> nr_table r = nr_table r' \<and> nr_v6 r = nr_v6 r' \<and> metric_of r = metric_of r'"

text \<open>A route as the kernel keeps it: with its metric, and with the link it found when none was named.\<close>

definition kept_as :: "nl_route \<Rightarrow> nl_route \<Rightarrow> bool" where
  "kept_as r r' \<longleftrightarrow> owned_route r' \<and> nr_table r' = nr_table r \<and> nr_v6 r' = nr_v6 r \<and> nr_type r' = nr_type r \<and>
     nr_gw r' = nr_gw r \<and> nr_priority r' = metric_of r \<and> (nr_link r \<noteq> 0 \<longrightarrow> nr_link r' = nr_link r)"

text \<open>What a request to delete \<open>r\<close> may delete: a metric of zero stands for any.\<close>

definition deletes :: "nl_route \<Rightarrow> nl_route \<Rightarrow> bool" where
  "deletes r x \<longleftrightarrow> owned_route x \<and> nr_table x = nr_table r \<and> nr_v6 x = nr_v6 r \<and> nr_type x = nr_type r \<and>
     nr_gw x = nr_gw r \<and> nr_link x = nr_link r \<and> (nr_priority r = 0 \<or> nr_priority x = nr_priority r)"

definition same_rule :: "nl_rule \<Rightarrow> nl_rule \<Rightarrow> bool" where
  "same_rule r x \<longleftrightarrow> nu_priority x = nu_priority r \<and> nu_v6 x = nu_v6 r \<and> nu_table x = nu_table r \<and> nu_mark x = nu_mark r \<and> nu_mask x = nu_mask r"

locale netlink_kernel =
  fixes nl :: netlink
  assumes lists_routes: "route_list nl k v6 = Inr rs \<Longrightarrow> set rs = {r \<in> set (nk_routes k). nr_v6 r = v6}"
    and lists_rules: "rule_list nl k v6 = Inr us \<Longrightarrow> set us = {r \<in> set (nk_rules k). nu_v6 r = v6}"
    and replaces: "route_replace nl r k = Inr k' \<Longrightarrow> owned_route r \<Longrightarrow>
      nk_rules k' = nk_rules k \<and>
      (\<exists>r'. kept_as r r' \<and> {x \<in> set (nk_routes k'). owned_route x} = insert r' {x \<in> set (nk_routes k). owned_route x \<and> \<not> same_place x r})"
    and deletes: "route_del nl r k = Inr k' \<Longrightarrow> owned_route r \<Longrightarrow>
      nk_rules k' = nk_rules k \<and> (\<exists>x \<in> set (nk_routes k). deletes r x \<and> set (nk_routes k') = set (nk_routes k) - {x})"
    and adds: "rule_add nl u k = Inr k' \<Longrightarrow> nk_routes k' = nk_routes k \<and> set (nk_rules k') = insert u (set (nk_rules k))"
    and removes: "rule_del nl u k = Inr k' \<Longrightarrow>
      nk_routes k' = nk_routes k \<and> (\<exists>x \<in> set (nk_rules k). same_rule u x \<and> set (nk_rules k') = set (nk_rules k) - {x})"
    and writes_class: "write_class nl t k = Inr k' \<Longrightarrow> k' = k\<lparr>nk_class := t\<rparr>"
    and writes_stat: "write_stat nl s k = Inr k' \<Longrightarrow> k' = k\<lparr>nk_stat := s\<rparr>"
    and writes_sysctl: "write_sysctl nl key v k = Inr k' \<Longrightarrow> k' = k\<lparr>nk_sysctl := (nk_sysctl k)(key := Some v)\<rparr>"

text \<open>One kernel that does it.\<close>

definition plain_netlink :: netlink where
  "plain_netlink =
     \<lparr>route_list = (\<lambda>k v6. Inr (filter (\<lambda>r. nr_v6 r = v6) (nk_routes k))),
      rule_list = (\<lambda>k v6. Inr (filter (\<lambda>r. nu_v6 r = v6) (nk_rules k))),
      route_replace = (\<lambda>r k. Inr (k\<lparr>nk_routes := r\<lparr>nr_priority := metric_of r\<rparr> # filter (\<lambda>x. \<not> (is_default x \<and> same_place x r)) (nk_routes k)\<rparr>)),
      route_del = (\<lambda>r k. case find (deletes r) (nk_routes k) of
        None \<Rightarrow> Inl (Os ''no such process'')
      | Some x \<Rightarrow> Inr (k\<lparr>nk_routes := removeAll x (nk_routes k)\<rparr>)),
      rule_add = (\<lambda>u k. if u \<in> set (nk_rules k) then Inl (Os ''file exists'') else Inr (k\<lparr>nk_rules := u # nk_rules k\<rparr>)),
      rule_del = (\<lambda>u k. case find (same_rule u) (nk_rules k) of
        None \<Rightarrow> Inl (Os ''no such file or directory'')
      | Some x \<Rightarrow> Inr (k\<lparr>nk_rules := removeAll x (nk_rules k)\<rparr>)),
      write_class = (\<lambda>t k. Inr (k\<lparr>nk_class := t\<rparr>)),
      write_stat = (\<lambda>s k. Inr (k\<lparr>nk_stat := s\<rparr>)),
      write_sysctl = (\<lambda>key v k. Inr (k\<lparr>nk_sysctl := (nk_sysctl k)(key := Some v)\<rparr>))\<rparr>"

lemma find_eq_Some: "find P xs = Some x \<Longrightarrow> x \<in> set xs \<and> P x"
  by (induction xs) (auto split: if_splits)

interpretation plain: netlink_kernel plain_netlink
proof
  fix r k k' assume a: "route_replace plain_netlink r k = Inr k'" "owned_route r"
  have "owned_route x \<Longrightarrow> is_default x" for x by (simp add: owned_route_def)
  then have "{x \<in> set (nk_routes k'). owned_route x} =
      insert (r\<lparr>nr_priority := metric_of r\<rparr>) {x \<in> set (nk_routes k). owned_route x \<and> \<not> same_place x r}"
    using a by (auto simp: plain_netlink_def owned_route_def is_default_def)
  moreover have "kept_as r (r\<lparr>nr_priority := metric_of r\<rparr>)"
    using a(2) by (simp add: kept_as_def owned_route_def is_default_def)
  ultimately show "nk_rules k' = nk_rules k \<and>
      (\<exists>r'. kept_as r r' \<and> {x \<in> set (nk_routes k'). owned_route x} = insert r' {x \<in> set (nk_routes k). owned_route x \<and> \<not> same_place x r})"
    using a(1) by (auto simp: plain_netlink_def)
qed (auto simp: plain_netlink_def split: option.splits if_splits dest!: find_eq_Some)

section \<open>Runs\<close>

text \<open>
  A run has kept to \<open>P\<close> in every state, and ends in \<open>Q\<close> unless it stopped. A step keeps this when it has
  an invariant of what it has done so far.
\<close>

definition safe :: "(nl_kernel \<Rightarrow> bool) \<Rightarrow> (nl_kernel \<Rightarrow> bool) \<Rightarrow> progress \<Rightarrow> bool" where
  "safe P Q p \<longleftrightarrow> (\<forall>k \<in> set (pg_seen p). P k) \<and> (pg_error p = None \<longrightarrow> Q (pg_kernel p))"

lemma each_invariant:
  assumes "\<And>D k x k'. J D k \<Longrightarrow> x \<in> set xs \<Longrightarrow> f x k = Inr k' \<Longrightarrow> J (insert x D) k'"
    and "J D k" and "each f xs k = (ks, e)"
  shows "(\<forall>k' \<in> set ks. \<exists>D' \<subseteq> D \<union> set xs. J D' k') \<and> (e = None \<longrightarrow> J (D \<union> set xs) (last (k # ks)))"
  using assms
proof (induction xs arbitrary: D k ks)
  case (Cons x xs)
  show ?case
  proof (cases "f x k")
    case (Inr k')
    obtain ks' where e: "each f xs k' = (ks', e)" "ks = k' # ks'" using Cons.prems(3) Inr by (auto split: prod.splits)
    have j: "J (insert x D) k'" using Cons.prems(1,2) Inr by simp
    have "(\<forall>k'' \<in> set ks'. \<exists>D' \<subseteq> insert x D \<union> set xs. J D' k'') \<and> (e = None \<longrightarrow> J (insert x D \<union> set xs) (last (k' # ks')))"
      by (rule Cons.IH [OF _ j e(1)]) (use Cons.prems(1) in auto)
    then show ?thesis using j e(2) by auto
  qed (use Cons.prems in auto)
qed simp

lemma safe_step:
  assumes "safe P Q p" and "\<And>k. Q k \<Longrightarrow> J {} k"
    and "\<And>D k x k'. J D k \<Longrightarrow> x \<in> set xs \<Longrightarrow> f x k = Inr k' \<Longrightarrow> J (insert x D) k'"
    and "\<And>D k. J D k \<Longrightarrow> D \<subseteq> set xs \<Longrightarrow> P k" and "\<And>k. J (set xs) k \<Longrightarrow> Q' k"
  shows "safe P Q' (run_step n f xs p)"
proof (cases "pg_error p")
  case None
  obtain ks e where e: "each f xs (pg_kernel p) = (ks, e)" by fastforce
  have j: "J {} (pg_kernel p)" using assms(1,2) None by (simp add: safe_def)
  have "(\<forall>k \<in> set ks. \<exists>D \<subseteq> set xs. J D k) \<and> (e = None \<longrightarrow> J (set xs) (last (pg_kernel p # ks)))"
    using each_invariant [where J = J, OF assms(3) j e] by simp
  then show ?thesis using assms(1,4,5) None e by (fastforce simp: safe_def run_step_def)
qed (use assms(1) in \<open>simp add: safe_def run_step_def\<close>)

lemma safe_step_unless_nil:
  assumes "safe P Q p" and "\<And>k. Q k \<Longrightarrow> J {} k"
    and "\<And>D k x k'. J D k \<Longrightarrow> x \<in> set xs \<Longrightarrow> f x k = Inr k' \<Longrightarrow> J (insert x D) k'"
    and "\<And>D k. J D k \<Longrightarrow> D \<subseteq> set xs \<Longrightarrow> P k" and "\<And>k. J (set xs) k \<Longrightarrow> Q' k"
  shows "safe P Q' (step_unless_nil n f xs p)"
proof (cases "xs = []")
  case True
  then show ?thesis using assms by (auto simp: step_unless_nil_def safe_def)
qed (use safe_step [where J = J, OF assms] in \<open>simp add: step_unless_nil_def\<close>)

lemma set_missing_from:
  assumes "\<And>ks. set (order ks) = set ks"
  shows "set (missing_from order xs ys) = {x. \<exists>l. map_of xs l = Some x \<and> map_of ys l = None}"
proof -
  have k: "map_of xs l = Some x \<Longrightarrow> l \<in> fst ` set xs" for l x using map_of_SomeD [of xs l x] by force
  show ?thesis (is "?L = ?R")
  proof
    show "?L \<subseteq> ?R" by (auto simp: missing_from_def split: if_splits option.splits)
    show "?R \<subseteq> ?L"
    proof
      fix x assume "x \<in> ?R"
      then obtain l where l: "map_of xs l = Some x" "map_of ys l = None" by blast
      then have "l \<in> set (order (map fst xs))" using k assms by simp
      then show "x \<in> ?L" using l unfolding missing_from_def by (auto intro!: bexI [of _ l])
    qed
  qed
qed

lemma keyed_fold_Some:
  "map_of (fold (\<lambda>x. AList.update (line x) (g x)) xs out) l = Some y \<Longrightarrow>
     map_of out l = Some y \<or> (\<exists>x \<in> set xs. line x = l \<and> g x = y)"
  by (induction xs arbitrary: out) (fastforce simp: update_conv' split: if_splits)+

lemma keyed_fold_None:
  "map_of (fold (\<lambda>x. AList.update (line x) (g x)) xs out) l = None \<longleftrightarrow> map_of out l = None \<and> l \<notin> line ` set xs"
  by (induction xs arbitrary: out) (auto simp: update_conv')

lemma desired_routes_from_spec:
  "desired_routes_from ps rs out = Inr want \<Longrightarrow>
     (\<forall>l n. map_of want l = Some n \<longrightarrow> map_of out l = Some n \<or> (\<exists>r \<in> set rs. route_line r = l \<and> desired_route ps r = Inr n)) \<and>
     (\<forall>l. map_of want l = None \<longleftrightarrow> map_of out l = None \<and> l \<notin> route_line ` set rs)"
  by (induction ps rs out rule: desired_routes_from.induct) (auto simp: update_conv' split: sum.splits if_splits)

end
