(* ===== verification/ApplySteps.thy ===== *)
theory ApplySteps
  imports ExitApply
begin

text \<open>
  What every step of \<open>Apply\<close> keeps: which rules and routes are this module's, what the two sides of the
  difference hold, and an invariant for each of the steps. The locale \<open>kernel_change\<close> is one change, from a
  kernel in order to a complete configuration.
\<close>

section \<open>What is ours\<close>

definition slot_rule :: "int \<Rightarrow> bool \<Rightarrow> rule_spec" where
  "slot_rule s v6 =
     \<lparr>rs_kind = RuleMark, rs_priority = slot_priority s, rs_v6 = v6, rs_mark = slot_mark s, rs_table = slot_table s, rs_exit = []\<rparr>"

definition our_rule :: "rule_spec \<Rightarrow> bool" where
  "our_rule r \<longleftrightarrow> r = local_rule (rs_v6 r) \<or>
     (exit_slot_valid (rs_table r - Base) \<and> r = slot_rule (rs_table r - Base) (rs_v6 r))"

definition seen_rule :: "nl_rule \<Rightarrow> rule_spec" where
  "seen_rule r =
     (let l = (nu_mask r = None)
      in \<lparr>rs_kind = (if l then RuleLocal else RuleMark), rs_priority = nu_priority r, rs_v6 = nu_v6 r,
          rs_mark = nu_mark r, rs_table = (if l then 0 else nu_table r), rs_exit = []\<rparr>)"

abbreviation unnamed :: "rule_spec \<Rightarrow> rule_spec" where
  "unnamed r \<equiv> r\<lparr>rs_exit := []\<rparr>"

abbreviation unnamed_route :: "route_spec \<Rightarrow> route_spec" where
  "unnamed_route r \<equiv> r\<lparr>rt_exit := []\<rparr>"

lemma slot_rule_simps [simp]:
  "rs_kind (slot_rule s v6) = RuleMark" "rs_priority (slot_rule s v6) = Base + s" "rs_v6 (slot_rule s v6) = v6"
  "rs_mark (slot_rule s v6) = slot_mark s" "rs_table (slot_rule s v6) = Base + s" "rs_exit (slot_rule s v6) = []"
  "rs_kind (local_rule v6) = RuleLocal" "rs_priority (local_rule v6) = Base" "rs_v6 (local_rule v6) = v6"
  "rs_mark (local_rule v6) = 0" "rs_table (local_rule v6) = 0" "rs_exit (local_rule v6) = []"
  by (simp_all add: slot_rule_def local_rule_def slot_priority_def slot_table_def LocalPriority_def)

lemma our_ruleE:
  assumes "our_rule r"
  obtains v6 where "r = local_rule v6" | s v6 where "exit_slot_valid s" "r = slot_rule s v6"
  using assms unfolding our_rule_def by metis

lemma our_rule_eq: "our_rule r \<Longrightarrow> our_rule r' \<Longrightarrow> rs_priority r = rs_priority r' \<Longrightarrow> rs_v6 r = rs_v6 r' \<Longrightarrow> r = r'"
  by (elim our_ruleE) (auto simp: exit_slot_valid_def)

lemma our_rule_mark:
  "our_rule r \<Longrightarrow> our_rule r' \<Longrightarrow> takes r v6 m \<Longrightarrow> takes r' v6 m \<Longrightarrow> r = r'"
  by (elim our_ruleE) (auto simp: takes_def dest: slot_mark_inj)

lemma seen_desired_rule: "our_rule (unnamed r) \<Longrightarrow> seen_rule (desired_rule r) = unnamed r"
  by (cases r) (auto elim!: our_ruleE simp: seen_rule_def desired_rule_def Let_def local_rule_def slot_rule_def)

lemma rule_line_head:
  assumes "rs_priority r \<ge> 0"
  shows "\<exists>ws. split_on CHR '' '' (rule_line r) = ''rule'' # family_text (rs_v6 r) # ''priority'' # itoa_int (rs_priority r) # ws"
  using itoa_int_free [OF assms]
  by (cases "rs_v6 r"; cases "rs_kind r") (simp_all add: rule_line_def family_text_def split_on_append)

lemma rule_line_inj:
  assumes "our_rule (unnamed r)" and "our_rule (unnamed r')" and "rule_line r = rule_line r'"
  shows "unnamed r = unnamed r'"
proof -
  have p: "rs_priority x \<ge> 0" if "our_rule (unnamed x)" for x
    using that by (elim our_ruleE) (auto simp: Base_def exit_slot_valid_def dest!: arg_cong [where f = rs_priority])
  obtain ws ws' where "split_on CHR '' '' (rule_line r) = ''rule'' # family_text (rs_v6 r) # ''priority'' # itoa_int (rs_priority r) # ws"
    "split_on CHR '' '' (rule_line r') = ''rule'' # family_text (rs_v6 r') # ''priority'' # itoa_int (rs_priority r') # ws'"
    using rule_line_head p assms by meson
  then have "rs_priority r = rs_priority r'" "rs_v6 r = rs_v6 r'"
    using assms(3) itoa_int_eq p assms(1,2) by (auto simp: family_text_def split: if_splits)
  then show ?thesis using our_rule_eq [OF assms(1,2)] by simp
qed

lemma rule_line_unnamed [simp]: "rule_line (unnamed r) = rule_line r"
  by (simp add: rule_line_def)

lemma observed_rule_seen: "our_rule (seen_rule r) \<Longrightarrow> r = desired_rule (seen_rule r) \<Longrightarrow> observed_rule_line r = rule_line (seen_rule r)"
  by (erule our_ruleE)
    (auto simp: observed_rule_line_def rule_line_def desired_rule_def Let_def LocalPriority_def MarkMask_def exit_slot_valid_def)

section \<open>Between two configurations\<close>

definition owned_routes :: "nl_kernel \<Rightarrow> nl_route list" where
  "owned_routes k = filter owned_route (nk_routes k)"

definition owned_rules :: "nl_kernel \<Rightarrow> nl_rule list" where
  "owned_rules k = filter (\<lambda>u. owns_priority (nu_priority u)) (nk_rules k)"

definition kernel_routes :: "ports \<Rightarrow> nl_kernel \<Rightarrow> route_spec list" where
  "kernel_routes ps k = map (seen_route ps) (owned_routes k)"

definition kernel_rules :: "nl_kernel \<Rightarrow> rule_spec list" where
  "kernel_rules k = map seen_rule (owned_rules k)"

definition rules_ours :: "nl_kernel \<Rightarrow> bool" where
  "rules_ours k \<longleftrightarrow> (\<forall>u \<in> set (owned_rules k). our_rule (seen_rule u) \<and> u = desired_rule (seen_rule u))"

definition places_distinct :: "nl_kernel \<Rightarrow> bool" where
  "places_distinct k \<longleftrightarrow> (\<forall>x \<in> set (owned_routes k). \<forall>y \<in> set (owned_routes k). same_place x y \<longrightarrow> x = y)"

text \<open>A route of a rule's own table that nothing comes before.\<close>

definition first_route :: "rule_spec \<Rightarrow> route_spec \<Rightarrow> bool" where
  "first_route u t \<longleftrightarrow> in_table t (rs_table u) (rs_v6 u) \<and> rt_priority t = 0"

text \<open>
  Our part of the kernel as an \<open>Apply\<close> leaves it: no rule but those of the slots, and no rule whose
  table is without its first route.
\<close>

definition in_order :: "ports \<Rightarrow> nl_kernel \<Rightarrow> bool" where
  "in_order ps k \<longleftrightarrow> rules_ours k \<and> places_distinct k \<and>
     (\<forall>t \<in> set (kernel_routes ps k). told_route t) \<and>
     (\<forall>u \<in> set (kernel_rules k). rs_kind u = RuleMark \<longrightarrow> (\<exists>t \<in> set (kernel_routes ps k). first_route u t))"

text \<open>What is asked for: a rule for a table exactly when it has a first route.\<close>

definition complete :: "gw_desired \<Rightarrow> bool" where
  "complete d \<longleftrightarrow>
     (\<forall>u \<in> set (gd_rules d). our_rule (unnamed u)) \<and>
     (\<forall>u \<in> set (gd_rules d). \<forall>u' \<in> set (gd_rules d). unnamed u = unnamed u' \<longrightarrow> u = u') \<and>
     (\<forall>t \<in> set (gd_routes d). told_route t \<and> owns_table (rt_table t)) \<and>
     (\<forall>t \<in> set (gd_routes d). \<forall>t' \<in> set (gd_routes d).
        in_table t (rt_table t') (rt_v6 t') \<and> rt_priority t = rt_priority t' \<longrightarrow> t = t') \<and>
     (\<forall>u \<in> set (gd_rules d). rs_kind u = RuleMark \<longrightarrow> (\<exists>t \<in> set (gd_routes d). first_route u t)) \<and>
     (\<forall>t \<in> set (gd_routes d). rt_priority t = 0 \<longrightarrow> (\<exists>u \<in> set (gd_rules d). rs_kind u = RuleMark \<and> first_route u t))"

definition between :: "ports \<Rightarrow> nl_kernel \<Rightarrow> gw_desired \<Rightarrow> nl_kernel \<Rightarrow> bool" where
  "between ps k0 d k \<longleftrightarrow> rules_ours k \<and> places_distinct k \<and>
     (\<forall>t \<in> set (kernel_routes ps k). told_route t) \<and>
     set (kernel_rules k0) \<inter> unnamed ` set (gd_rules d) \<subseteq> set (kernel_rules k) \<and>
     (\<forall>u \<in> set (kernel_rules k). rs_kind u = RuleMark \<longrightarrow>
        (\<exists>t \<in> set (kernel_routes ps k). first_route u t \<and>
           (u \<in> set (kernel_rules k0) \<and> t \<in> set (kernel_routes ps k0) \<or>
            u \<in> unnamed ` set (gd_rules d) \<and> t \<in> unnamed_route ` set (gd_routes d))))"

lemma path_by_rule:
  assumes p: "policy_routing path" and u: "u \<in> set us" "takes u v6 m" "\<forall>x \<in> set us. our_rule (unnamed x)"
    "\<forall>x \<in> set us. \<forall>y \<in> set us. unnamed x = unnamed y \<longrightarrow> x = y"
    and t: "t \<in> set ts" "first_route u t" "\<forall>x \<in> set ts. told_route x"
    "\<forall>x \<in> set ts. \<forall>y \<in> set ts. in_table x (rt_table y) (rt_v6 y) \<and> rt_priority x = rt_priority y \<longrightarrow> x = y"
  shows "path us ts v6 m = path_of t"
proof (rule policy_routing.taken [OF p u(1,2) _ t(1)])
  show "x = u" if "x \<in> set us" "takes x v6 m" for x
    using our_rule_mark [of "unnamed x" "unnamed u" v6 m] that u by (auto simp: takes_def)
  show "in_table t (rs_table u) v6" using t(2) u(2) by (simp add: first_route_def takes_def)
  show "x = t \<or> rt_priority t < rt_priority x" if "x \<in> set ts" "in_table x (rs_table u) v6" for x
  proof -
    have "rt_priority x \<ge> 0" "rt_priority t = 0" using t(2,3) that(1) by (auto simp: first_route_def told_route_def)
    moreover have "in_table x (rt_table t) (rt_v6 t)" using t(2) u(2) that(2) by (simp add: first_route_def takes_def in_table_def)
    ultimately show ?thesis using t(1,4) that(1) by force
  qed
qed

lemma read_metric_place: "read_metric x = read_metric y \<Longrightarrow> nr_v6 x = nr_v6 y \<Longrightarrow> metric_of x = metric_of y"
  by (auto simp: read_metric_def metric_of_def split: if_splits)

lemma seen_route_simps [simp]:
  "rt_table (seen_route ps x) = nr_table x" "rt_v6 (seen_route ps x) = nr_v6 x" "rt_priority (seen_route ps x) = read_metric x"
  "rt_exit (seen_route ps x) = []"
  by (simp_all add: seen_route_def Let_def)

lemma kernel_path_by_rule:
  assumes "policy_routing path" "rules_ours k" "places_distinct k" "\<forall>t \<in> set (kernel_routes ps k). told_route t"
    and "u \<in> set (kernel_rules k)" "takes u v6 m" "t \<in> set (kernel_routes ps k)" "first_route u t"
  shows "path (kernel_rules k) (kernel_routes ps k) v6 m = path_of t"
proof (rule path_by_rule [OF assms(1,5,6) _ _ assms(7,8,4)])
  have e: "unnamed x = x" if "x \<in> set (kernel_rules k)" for x
    using that by (auto simp: kernel_rules_def seen_rule_def Let_def)
  show "\<forall>x \<in> set (kernel_rules k). our_rule (unnamed x)" using assms(2) e by (auto simp: rules_ours_def kernel_rules_def)
  show "\<forall>x \<in> set (kernel_rules k). \<forall>y \<in> set (kernel_rules k). unnamed x = unnamed y \<longrightarrow> x = y" using e by metis
  show "\<forall>x \<in> set (kernel_routes ps k). \<forall>y \<in> set (kernel_routes ps k).
      in_table x (rt_table y) (rt_v6 y) \<and> rt_priority x = rt_priority y \<longrightarrow> x = y"
    using assms(3) by (auto simp: kernel_routes_def places_distinct_def in_table_def same_place_def dest!: read_metric_place)
qed

lemma complete_path_by_rule:
  assumes "policy_routing path" "complete d" "u \<in> set (gd_rules d)" "takes u v6 m" "t \<in> set (gd_routes d)" "first_route u t"
  shows "path (gd_rules d) (gd_routes d) v6 m = path_of t"
  by (rule path_by_rule [OF assms(1,3,4) _ _ assms(5,6)]) (use assms(2) in \<open>unfold complete_def, blast+\<close>)

lemma takes_unnamed [simp]: "takes (unnamed u) = takes u" "first_route (unnamed u) = first_route u"
    "first_route u (unnamed_route t) = first_route u t" "path_of (unnamed_route t) = path_of t"
  by (simp_all add: fun_eq_iff takes_def first_route_def in_table_def path_of_def)

lemma between_path:
  assumes p: "policy_routing path" and k0: "in_order ps k0" and d: "complete d" and k: "between ps k0 d k"
  shows "path (kernel_rules k) (kernel_routes ps k) v6 m \<in>
    {path (kernel_rules k0) (kernel_routes ps k0) v6 m, path (gd_rules d) (gd_routes d) v6 m}"
proof (cases "\<exists>u \<in> set (kernel_rules k). takes u v6 m")
  case True
  then obtain u where u: "u \<in> set (kernel_rules k)" "takes u v6 m" by blast
  then have "rs_kind u = RuleMark" by (simp add: takes_def)
  then obtain t where t: "t \<in> set (kernel_routes ps k)" "first_route u t"
      "u \<in> set (kernel_rules k0) \<and> t \<in> set (kernel_routes ps k0) \<or>
       u \<in> unnamed ` set (gd_rules d) \<and> t \<in> unnamed_route ` set (gd_routes d)"
    using k u(1) unfolding between_def by meson
  have pk: "path (kernel_rules k) (kernel_routes ps k) v6 m = path_of t"
    using kernel_path_by_rule [OF p _ _ _ u t(1,2)] k unfolding between_def by blast
  from t(3) show ?thesis
  proof
    assume "u \<in> set (kernel_rules k0) \<and> t \<in> set (kernel_routes ps k0)"
    then have "path (kernel_rules k0) (kernel_routes ps k0) v6 m = path_of t"
      using kernel_path_by_rule [OF p _ _ _ _ u(2) _ t(2)] k0 unfolding in_order_def by blast
    then show ?thesis using pk by simp
  next
    assume "u \<in> unnamed ` set (gd_rules d) \<and> t \<in> unnamed_route ` set (gd_routes d)"
    then obtain u' t' where "u = unnamed u'" "u' \<in> set (gd_rules d)" "t = unnamed_route t'" "t' \<in> set (gd_routes d)" by blast
    then have "path (gd_rules d) (gd_routes d) v6 m = path_of t"
      using complete_path_by_rule [OF p d, of u' v6 m t'] u(2) t(2) by simp
    then show ?thesis using pk by simp
  qed
next
  case False
  then have pk: "path (kernel_rules k) (kernel_routes ps k) v6 m = MainTable" using policy_routing.untaken [OF p] by blast
  show ?thesis
  proof (rule ccontr)
    assume n: "\<not> ?thesis"
    then obtain u u' where u: "u \<in> set (kernel_rules k0)" "takes u v6 m" "u' \<in> set (gd_rules d)" "takes u' v6 m"
      using pk policy_routing.untaken [OF p, of "kernel_rules k0" v6 m] policy_routing.untaken [OF p, of "gd_rules d" v6 m]
      by (metis insertCI)
    have "our_rule u" "our_rule (unnamed u')"
      using u(1,3) k0 d unfolding in_order_def complete_def rules_ours_def kernel_rules_def by auto
    then have "u = unnamed u'" using our_rule_mark u(2,4) by (metis takes_unnamed(1))
    then have "u \<in> set (kernel_rules k)" using k u(1,3) unfolding between_def by blast
    then show False using False u(2) by blast
  qed
qed

section \<open>The two sides of the difference\<close>

lemma be_word_as_slice: "plain_addr g \<Longrightarrow> addr_from_slice (as_slice g) = Some g"
  by (cases g) (simp_all add: length_be_bytes be_word32 be_word128 be_word_be_bytes)

lemma unmap_plain: "plain_addr g \<Longrightarrow> unmap g = g"
  by (cases g) simp_all

lemma desired_route_seen:
  assumes "ports_ok ps" and told: "told_route r" and "owns_table (rt_table r)" and n: "desired_route ps r = Inr n"
  shows "seen_route ps n = unnamed_route r" "owned_route n" "nr_type n = RTN_UNREACHABLE \<or> nr_link n \<noteq> 0"
proof -
  have u: "RTN_UNICAST \<noteq> RTN_UNREACHABLE" by (simp add: RTN_UNICAST_def RTN_UNREACHABLE_def)
  have "seen_route ps n = unnamed_route r \<and> owned_route n \<and> (nr_type n = RTN_UNREACHABLE \<or> nr_link n \<noteq> 0)"
  proof (cases "rt_type r = RouteUnreachable")
    case True
    then show ?thesis using assms(2-)
      by (cases r) (auto simp: desired_route_def seen_route_def Let_def told_route_def read_metric_def owned_route_def is_default_def)
  next
    case False
    then have t: "rt_type r = RouteVia" "rt_dev r \<noteq> []" using told by (auto simp: told_route_def)
    then obtain i where i: "index_of ps (rt_dev r) = Some i" using n False by (auto simp: desired_route_def Let_def split: option.splits)
    then have l: "i > 0" "name_of ps i = Some (rt_dev r)" using assms(1) unfolding ports_ok_def by blast+
    have v: "n = \<lparr>nr_table = rt_table r, nr_v6 = rt_v6 r, nr_ones = Some 0, nr_protocol = RTPROT_STATIC,
        nr_type = RTN_UNICAST, nr_gw = map_option as_slice (rt_gateway r), nr_link = i, nr_priority = rt_priority r\<rparr>"
      using n t i by (simp add: desired_route_def Let_def)
    have g: "(case nr_gw n of None \<Rightarrow> None | Some g \<Rightarrow> map_option unmap (addr_from_slice g)) = rt_gateway r"
      using told t(1) v by (cases "rt_gateway r") (simp_all add: told_route_def be_word_as_slice unmap_plain del: addr_from_slice.simps)
    show ?thesis using g l t u told v assms(3)
      by (cases r) (simp add: seen_route_def Let_def read_metric_def told_route_def owned_route_def is_default_def)
  qed
  then show "seen_route ps n = unnamed_route r" "owned_route n" "nr_type n = RTN_UNREACHABLE \<or> nr_link n \<noteq> 0" by simp_all
qed

lemma kept_seen:
  "kept_as n n' \<Longrightarrow> nr_type n = RTN_UNREACHABLE \<or> nr_link n \<noteq> 0 \<Longrightarrow> seen_route ps n' = seen_route ps n \<and> metric_of n' = metric_of n"
  by (auto simp: kept_as_def seen_route_def Let_def read_metric_def metric_of_def)

lemma kept_place: "kept_as n n' \<Longrightarrow> same_place x n' = same_place x n"
  by (auto simp: kept_as_def same_place_def metric_of_def)

lemma told_unnamed [simp]: "told_route (unnamed_route r) = told_route r"
  by (simp add: told_route_def)

lemma route_line_unnamed [simp]: "route_line (unnamed_route r) = route_line r"
  by (simp add: route_line_def)

lemma set_both: "set (owned_routes k) = {x \<in> set (nk_routes k). owned_route x}"
    "set (owned_rules k) = {u \<in> set (nk_rules k). owns_priority (nu_priority u)}"
  by (simp_all add: owned_routes_def owned_rules_def)

lemma stale_set:
  assumes f: "\<And>l x. f l = Some x \<Longrightarrow> x \<in> A \<and> line x = l" "\<And>x. x \<in> A \<Longrightarrow> f (line x) = Some x"
    and g: "\<And>x. x \<in> A \<Longrightarrow> (g (line x) = None) = P x"
  shows "{x. \<exists>l. f l = Some x \<and> g l = None} = {x \<in> A. P x}"
proof (intro set_eqI iffI)
  fix x assume "x \<in> {x. \<exists>l. f l = Some x \<and> g l = None}"
  then obtain l where "f l = Some x" "g l = None" by blast
  then show "x \<in> {x \<in> A. P x}" using f(1) [of l x] g [of x] by auto
qed (use f(2) g in blast)

context netlink_kernel
begin

lemma current_routes_spec:
  assumes "current_routes nl ps k = Inr have_routes"
  shows "map_of have_routes l = Some x \<Longrightarrow> x \<in> set (owned_routes k) \<and> observed_route_line ps x = l"
    and "map_of have_routes l = None \<longleftrightarrow> l \<notin> observed_route_line ps ` set (owned_routes k)"
proof -
  obtain a b where "route_list nl k False = Inr a" "route_list nl k True = Inr b"
      "have_routes = keyed (observed_route_line ps) (filter owned_route (a @ b))"
    using assms by (auto simp: current_routes_def both_families_def split: sum.splits)
  moreover have "set (filter owned_route (a @ b)) = set (owned_routes k)"
    using lists_routes calculation(1,2) by (auto simp: owned_routes_def)
  ultimately show "map_of have_routes l = Some x \<Longrightarrow> x \<in> set (owned_routes k) \<and> observed_route_line ps x = l"
    "map_of have_routes l = None \<longleftrightarrow> l \<notin> observed_route_line ps ` set (owned_routes k)"
    using keyed_fold_Some [of "observed_route_line ps" "\<lambda>x. x" "filter owned_route (a @ b)" "[]" l x]
      keyed_fold_None [of "observed_route_line ps" "\<lambda>x. x" "filter owned_route (a @ b)" "[]" l]
    by (auto simp: keyed_def)
qed

lemma current_rules_spec:
  assumes "current_rules nl k = Inr have_rules"
  shows "map_of have_rules l = Some x \<Longrightarrow> x \<in> set (owned_rules k) \<and> observed_rule_line x = l"
    and "map_of have_rules l = None \<longleftrightarrow> l \<notin> observed_rule_line ` set (owned_rules k)"
proof -
  let ?p = "\<lambda>r. owns_priority (nu_priority r)"
  obtain a b where "rule_list nl k False = Inr a" "rule_list nl k True = Inr b"
      "have_rules = keyed observed_rule_line (filter ?p (a @ b))"
    using assms by (auto simp: current_rules_def both_families_def split: sum.splits)
  moreover have "set (filter ?p (a @ b)) = set (owned_rules k)"
    using lists_rules calculation(1,2) by (auto simp: owned_rules_def)
  ultimately show "map_of have_rules l = Some x \<Longrightarrow> x \<in> set (owned_rules k) \<and> observed_rule_line x = l"
    "map_of have_rules l = None \<longleftrightarrow> l \<notin> observed_rule_line ` set (owned_rules k)"
    using keyed_fold_Some [of observed_rule_line "\<lambda>x. x" "filter ?p (a @ b)" "[]" l x]
      keyed_fold_None [of observed_rule_line "\<lambda>x. x" "filter ?p (a @ b)" "[]" l]
    by (auto simp: keyed_def)
qed

end

text \<open>The differences, by what is seen of them.\<close>

definition differences ::
  "ports \<Rightarrow> gw_desired \<Rightarrow> nl_kernel \<Rightarrow> nl_route list \<times> nl_route list \<Rightarrow> nl_rule list \<times> nl_rule list \<Rightarrow> bool" where
  "differences ps d k rs us \<longleftrightarrow>
     (\<forall>n \<in> set (fst rs). owned_route n \<and> seen_route ps n \<in> unnamed_route ` set (gd_routes d) \<and>
        (nr_type n = RTN_UNREACHABLE \<or> nr_link n \<noteq> 0)) \<and>
     unnamed_route ` set (gd_routes d) \<subseteq> set (kernel_routes ps k) \<union> seen_route ps ` set (fst rs) \<and>
     set (snd rs) = {x \<in> set (owned_routes k). seen_route ps x \<notin> unnamed_route ` set (gd_routes d)} \<and>
     set (fst us) \<subseteq> desired_rule ` set (gd_rules d) \<and>
     unnamed ` set (gd_rules d) \<subseteq> set (kernel_rules k) \<union> seen_rule ` set (fst us) \<and>
     set (snd us) = {u \<in> set (owned_rules k). seen_rule u \<notin> unnamed ` set (gd_rules d)}"

context netlink_kernel
begin

lemma route_differences:
  assumes ok: "ports_ok ps" "in_order ps k" "complete d" and o: "\<And>ks. set (order ks) = set ks"
    and w: "desired_routes ps d = Inr want" and h: "current_routes nl ps k = Inr have_routes"
    and rs: "rs = diff_objects order have_routes want"
  shows "\<forall>n \<in> set (fst rs). owned_route n \<and> seen_route ps n \<in> unnamed_route ` set (gd_routes d) \<and>
        (nr_type n = RTN_UNREACHABLE \<or> nr_link n \<noteq> 0)"
    "unnamed_route ` set (gd_routes d) \<subseteq> set (kernel_routes ps k) \<union> seen_route ps ` set (fst rs)"
    "set (snd rs) = {x \<in> set (owned_routes k). seen_route ps x \<notin> unnamed_route ` set (gd_routes d)}"
proof -
  have wS: "\<exists>r \<in> set (gd_routes d). route_line r = l \<and> desired_route ps r = Inr n" if "map_of want l = Some n" for l n
    using desired_routes_from_spec [OF w [unfolded desired_routes_def]] that by auto
  have wN: "map_of want l = None \<longleftrightarrow> l \<notin> route_line ` set (gd_routes d)" for l
    using desired_routes_from_spec [OF w [unfolded desired_routes_def]] by auto
  note hS = current_routes_spec(1) [OF h] and hN = current_routes_spec(2) [OF h]
  have told: "told_route r" "owns_table (rt_table r)" if "r \<in> set (gd_routes d)" for r
    using that ok(3) unfolding complete_def by blast+
  have line: "observed_route_line ps x = route_line (seen_route ps x)" for x by (rule observed_line_seen [OF ok(1)])
  have toldk: "told_route (seen_route ps x)" if "x \<in> set (owned_routes k)" for x
    using ok(2) that unfolding in_order_def kernel_routes_def by simp
  have same: "observed_route_line ps x = route_line r \<longleftrightarrow> seen_route ps x = unnamed_route r"
    if "x \<in> set (owned_routes k)" "r \<in> set (gd_routes d)" for x r
  proof -
    have "unnamed_route (seen_route ps x) = seen_route ps x" by (simp add: seen_route_def Let_def)
    moreover have "unnamed_route (seen_route ps x) = unnamed_route r" if "route_line (seen_route ps x) = route_line r"
      by (rule route_line_inj [OF toldk told(1) that]) fact+
    moreover have "route_line (unnamed_route r) = route_line r" by simp
    ultimately show ?thesis unfolding line by metis
  qed
  have adds_of: "set (fst rs) = {x. \<exists>l. map_of want l = Some x \<and> map_of have_routes l = None}"
    unfolding rs diff_objects_def using set_missing_from [OF o] by simp
  show "\<forall>n \<in> set (fst rs). owned_route n \<and> seen_route ps n \<in> unnamed_route ` set (gd_routes d) \<and>
        (nr_type n = RTN_UNREACHABLE \<or> nr_link n \<noteq> 0)"
  proof
    fix n assume "n \<in> set (fst rs)"
    then obtain r where "r \<in> set (gd_routes d)" "desired_route ps r = Inr n"
      using wS unfolding adds_of by blast
    then show "owned_route n \<and> seen_route ps n \<in> unnamed_route ` set (gd_routes d) \<and> (nr_type n = RTN_UNREACHABLE \<or> nr_link n \<noteq> 0)"
      using desired_route_seen [OF ok(1), of r n] told by auto
  qed
  show "unnamed_route ` set (gd_routes d) \<subseteq> set (kernel_routes ps k) \<union> seen_route ps ` set (fst rs)"
  proof (intro subsetI, elim imageE, hypsubst)
    fix r assume r: "r \<in> set (gd_routes d)"
    show "unnamed_route r \<in> set (kernel_routes ps k) \<union> seen_route ps ` set (fst rs)"
    proof (cases "map_of have_routes (route_line r)")
      case None
      obtain n where n: "map_of want (route_line r) = Some n" using wN r by fastforce
      then obtain r' where r': "r' \<in> set (gd_routes d)" "route_line r' = route_line r" "desired_route ps r' = Inr n" using wS by blast
      have "unnamed_route r' = unnamed_route r" by (rule route_line_inj [OF told(1) told(1) r'(2)]) (use r r' in auto)
      moreover have "seen_route ps n = unnamed_route r'"
        by (rule desired_route_seen(1) [OF ok(1) told r'(3)]) (use r' in auto)
      moreover have "n \<in> set (fst rs)" using n None unfolding adds_of by blast
      ultimately show ?thesis by force
    next
      case (Some x)
      then have "x \<in> set (owned_routes k)" "observed_route_line ps x = route_line r" using hS by auto
      then show ?thesis using same r unfolding kernel_routes_def by force
    qed
  qed
  show "set (snd rs) = {x \<in> set (owned_routes k). seen_route ps x \<notin> unnamed_route ` set (gd_routes d)}"
  proof -
    have m: "set (snd rs) = {x. \<exists>l. map_of have_routes l = Some x \<and> map_of want l = None}"
      unfolding rs diff_objects_def using set_missing_from [OF o] by simp
    have a: "map_of want (observed_route_line ps x) = None \<longleftrightarrow> seen_route ps x \<notin> unnamed_route ` set (gd_routes d)"
      if "x \<in> set (owned_routes k)" for x unfolding wN using same [OF that] by (auto simp: image_iff)
    have b: "map_of have_routes (observed_route_line ps x) = Some x" if x: "x \<in> set (owned_routes k)" for x
    proof -
      obtain y where y: "map_of have_routes (observed_route_line ps x) = Some y" using hN x by (metis imageI option.exhaust)
      then have y': "y \<in> set (owned_routes k)" "observed_route_line ps y = observed_route_line ps x" using hS by auto
      then have "seen_route ps y = seen_route ps x" using route_line_inj [OF toldk toldk, of y x] x line
        by (simp add: seen_route_def Let_def)
      then have "same_place y x" using read_metric_place unfolding same_place_def by (metis seen_route_simps(1-3))
      then show ?thesis using ok(2) x y y'(1) unfolding in_order_def places_distinct_def by blast
    qed
    show ?thesis unfolding m by (rule stale_set [where line = "observed_route_line ps"]) (use a b hS in auto)
  qed
qed

lemma rule_differences:
  assumes ok: "in_order ps k" "complete d" and o: "\<And>ks. set (order ks) = set ks"
    and h: "current_rules nl k = Inr have_rules" and us: "us = diff_objects order have_rules (desired_rules d)"
  shows "set (fst us) \<subseteq> desired_rule ` set (gd_rules d)"
    "unnamed ` set (gd_rules d) \<subseteq> set (kernel_rules k) \<union> seen_rule ` set (fst us)"
    "set (snd us) = {u \<in> set (owned_rules k). seen_rule u \<notin> unnamed ` set (gd_rules d)}"
proof -
  let ?want = "desired_rules d"
  have wS: "\<exists>r \<in> set (gd_rules d). rule_line r = l \<and> desired_rule r = u" if "map_of ?want l = Some u" for l u
    using keyed_fold_Some [of rule_line desired_rule "gd_rules d" "[]" l u] that by (simp add: desired_rules_def)
  have wN: "map_of ?want l = None \<longleftrightarrow> l \<notin> rule_line ` set (gd_rules d)" for l
    using keyed_fold_None [of rule_line desired_rule "gd_rules d" "[]" l] by (simp add: desired_rules_def)
  note hS = current_rules_spec(1) [OF h] and hN = current_rules_spec(2) [OF h]
  have ours: "our_rule (unnamed r)" if "r \<in> set (gd_rules d)" for r using that ok(2) unfolding complete_def by blast
  have kept: "our_rule (seen_rule u)" "u = desired_rule (seen_rule u)" "observed_rule_line u = rule_line (seen_rule u)"
    if "u \<in> set (owned_rules k)" for u
  proof -
    show "our_rule (seen_rule u)" "u = desired_rule (seen_rule u)" using ok(1) that unfolding in_order_def rules_ours_def by blast+
    then show "observed_rule_line u = rule_line (seen_rule u)" by (rule observed_rule_seen)
  qed
  have bare: "unnamed (seen_rule u) = seen_rule u" for u by (simp add: seen_rule_def Let_def)
  have same: "observed_rule_line u = rule_line r \<longleftrightarrow> seen_rule u = unnamed r"
    if "u \<in> set (owned_rules k)" "r \<in> set (gd_rules d)" for u r
  proof -
    have "seen_rule u = unnamed r" if "rule_line (seen_rule u) = rule_line r"
      using rule_line_inj [of "seen_rule u" r] that kept(1) ours \<open>u \<in> _\<close> \<open>r \<in> _\<close> by (simp add: bare)
    moreover have "rule_line (unnamed r) = rule_line r" by simp
    ultimately show ?thesis using kept(3) [OF that(1)] by metis
  qed
  have adds_of: "set (fst us) = {x. \<exists>l. map_of ?want l = Some x \<and> map_of have_rules l = None}"
    unfolding us diff_objects_def using set_missing_from [OF o] by simp
  show "set (fst us) \<subseteq> desired_rule ` set (gd_rules d)" unfolding adds_of using wS by blast
  show "unnamed ` set (gd_rules d) \<subseteq> set (kernel_rules k) \<union> seen_rule ` set (fst us)"
  proof (intro subsetI, elim imageE, hypsubst)
    fix r assume r: "r \<in> set (gd_rules d)"
    show "unnamed r \<in> set (kernel_rules k) \<union> seen_rule ` set (fst us)"
    proof (cases "map_of have_rules (rule_line r)")
      case None
      obtain u where u: "map_of ?want (rule_line r) = Some u" using wN r by fastforce
      then obtain r' where r': "r' \<in> set (gd_rules d)" "rule_line r' = rule_line r" "desired_rule r' = u" using wS by blast
      have "unnamed r' = unnamed r" by (rule rule_line_inj [OF ours ours r'(2)]) (use r r' in auto)
      moreover have "seen_rule u = unnamed r'" using seen_desired_rule [OF ours] r' by blast
      moreover have "u \<in> set (fst us)" using u None unfolding adds_of by blast
      ultimately show ?thesis by force
    next
      case (Some u)
      then have "u \<in> set (owned_rules k)" "observed_rule_line u = rule_line r" using hS by auto
      then show ?thesis using same r unfolding kernel_rules_def by force
    qed
  qed
  have m: "set (snd us) = {x. \<exists>l. map_of have_rules l = Some x \<and> map_of ?want l = None}"
    unfolding us diff_objects_def using set_missing_from [OF o] by simp
  have a: "map_of ?want (observed_rule_line u) = None \<longleftrightarrow> seen_rule u \<notin> unnamed ` set (gd_rules d)"
    if "u \<in> set (owned_rules k)" for u unfolding wN using same [OF that] by (auto simp: image_iff)
  have b: "map_of have_rules (observed_rule_line u) = Some u" if u: "u \<in> set (owned_rules k)" for u
  proof -
    obtain v where v: "map_of have_rules (observed_rule_line u) = Some v" using hN u by (metis imageI option.exhaust)
    then have v': "v \<in> set (owned_rules k)" "observed_rule_line v = observed_rule_line u" using hS by auto
    then have "seen_rule v = seen_rule u"
      using rule_line_inj [of "seen_rule v" "seen_rule u"] kept(1,3) u by (simp add: bare)
    then show ?thesis using v kept(2) [OF u] kept(2) [OF v'(1)] by simp
  qed
  show "set (snd us) = {u \<in> set (owned_rules k). seen_rule u \<notin> unnamed ` set (gd_rules d)}"
    unfolding m by (rule stale_set [where line = observed_rule_line]) (use a b hS in auto)
qed

end

section \<open>Apply, step by step\<close>

definition same_spot :: "route_spec \<Rightarrow> route_spec \<Rightarrow> bool" where
  "same_spot t t' \<longleftrightarrow> in_table t' (rt_table t) (rt_v6 t) \<and> rt_priority t' = rt_priority t"

text \<open>Routes on the way: old ones and wanted ones, and one wherever one was.\<close>

definition routes_underway :: "ports \<Rightarrow> gw_desired \<Rightarrow> nl_kernel \<Rightarrow> nl_kernel \<Rightarrow> bool" where
  "routes_underway ps d k0 k \<longleftrightarrow> places_distinct k \<and>
     set (kernel_routes ps k) \<subseteq> set (kernel_routes ps k0) \<union> unnamed_route ` set (gd_routes d) \<and>
     (\<forall>t \<in> set (kernel_routes ps k0). \<exists>t' \<in> set (kernel_routes ps k). same_spot t t')"

text \<open>
  No stale route whose metric is left out is told from another route of its table by the metric alone:
  deleting the one could delete the other.
\<close>

definition metrics_apart :: "ports \<Rightarrow> gw_desired \<Rightarrow> nl_kernel \<Rightarrow> bool" where
  "metrics_apart ps d k0 \<longleftrightarrow>
     (\<forall>x \<in> set (owned_routes k0). \<forall>t \<in> set (kernel_routes ps k0) \<union> unnamed_route ` set (gd_routes d).
        seen_route ps x \<notin> unnamed_route ` set (gd_routes d) \<and> nr_priority x = 0 \<and>
        t = (seen_route ps x)\<lparr>rt_priority := rt_priority t\<rparr> \<longrightarrow> rt_priority t = 0)"

lemma place_read: "same_place x y \<Longrightarrow> same_spot (seen_route ps x) (seen_route ps y)"
  by (auto simp: same_place_def same_spot_def in_table_def metric_of_def read_metric_def split: if_splits)

lemma spot_place: "same_spot (seen_route ps x) (seen_route ps y) \<Longrightarrow> same_place x y"
  by (auto simp: same_place_def same_spot_def in_table_def intro: read_metric_place)

lemma same_place_sym: "same_place x y \<longleftrightarrow> same_place y x"
  by (auto simp: same_place_def)

lemma first_spot: "first_route u t \<Longrightarrow> same_spot t t' \<Longrightarrow> first_route u t'"
  by (simp add: first_route_def same_spot_def in_table_def)

lemma deletes_seen:
  "deletes x0 x \<Longrightarrow> seen_route ps x = (seen_route ps x0)\<lparr>rt_priority := read_metric x\<rparr> \<and>
     (nr_priority x0 = 0 \<or> read_metric x = read_metric x0)"
  by (auto simp: deletes_def seen_route_def Let_def read_metric_def)

lemma our_desired_rule:
  "complete d \<Longrightarrow> r \<in> set (gd_rules d) \<Longrightarrow>
     seen_rule (desired_rule r) = unnamed r \<and> our_rule (unnamed r) \<and> owns_priority (nu_priority (desired_rule r)) \<and>
     desired_rule (unnamed r) = desired_rule r"
proof (intro conjI)
  assume c: "complete d" "r \<in> set (gd_rules d)"
  then show o: "our_rule (unnamed r)" unfolding complete_def by blast
  then show "seen_rule (desired_rule r) = unnamed r" by (rule seen_desired_rule)
  then have "nu_priority (desired_rule r) = rs_priority (unnamed r)" by (metis rule_spec.select_convs(2) seen_rule_def)
  then show "owns_priority (nu_priority (desired_rule r))" using o
    by (auto elim!: our_ruleE simp: owns_priority_def LocalPriority_def exit_slot_valid_def MaxExitSlot_def dest!: arg_cong [where f = rs_priority])
  show "desired_rule (unnamed r) = desired_rule r" by (cases "rs_kind r") (simp_all add: desired_rule_def)
qed

lemma our_mark_eq:
  "our_rule r \<Longrightarrow> our_rule r' \<Longrightarrow> rs_kind r = RuleMark \<Longrightarrow> rs_kind r' = RuleMark \<Longrightarrow> rs_table r = rs_table r' \<Longrightarrow>
     rs_v6 r = rs_v6 r' \<Longrightarrow> r = r'"
  by (elim our_ruleE) auto

locale kernel_change = netlink_kernel nl for nl :: netlink +
  fixes ps :: ports and d :: gw_desired and k0 :: nl_kernel
    and rs :: "nl_route list \<times> nl_route list" and us :: "nl_rule list \<times> nl_rule list"
  assumes start: "in_order ps k0" and target: "complete d" and diffs: "differences ps d k0 rs us"
begin

lemma covered:
  assumes "routes_underway ps d k0 k" and "u \<in> set (kernel_rules k0)" and "rs_kind u = RuleMark"
  shows "\<exists>t \<in> set (kernel_routes ps k). first_route u t \<and>
    (u \<in> set (kernel_rules k0) \<and> t \<in> set (kernel_routes ps k0) \<or>
     u \<in> unnamed ` set (gd_rules d) \<and> t \<in> unnamed_route ` set (gd_routes d))"
proof -
  obtain t0 where "t0 \<in> set (kernel_routes ps k0)" "first_route u t0" using start assms(2,3) unfolding in_order_def by blast
  then obtain t where t: "t \<in> set (kernel_routes ps k)" "first_route u t"
    using assms(1) first_spot unfolding routes_underway_def by blast
  show ?thesis
  proof (cases "t \<in> set (kernel_routes ps k0)")
    case False
    then obtain t' where t': "t = unnamed_route t'" "t' \<in> set (gd_routes d)" using t(1) assms(1) unfolding routes_underway_def by blast
    have "rt_priority t' = 0" using t(2) t'(1) by (simp add: first_route_def)
    then obtain u' where u': "u' \<in> set (gd_rules d)" "rs_kind u' = RuleMark" "first_route u' t'"
      using target t'(2) unfolding complete_def by blast
    have "our_rule u" "our_rule (unnamed u')"
      using start target assms(2) u'(1) unfolding in_order_def complete_def rules_ours_def kernel_rules_def by auto
    moreover have "rs_table u = rs_table u'" "rs_v6 u = rs_v6 u'" using t(2) t'(1) u'(3) by (auto simp: first_route_def in_table_def)
    ultimately have "u = unnamed u'" using our_mark_eq [of u "unnamed u'"] assms(3) u'(2) by simp
    then show ?thesis using t t' u'(1) by blast
  qed (use t assms(2) in blast)
qed

lemma between_during:
  assumes "rules_ours k" and r: "routes_underway ps d k0 k"
    and u: "set (kernel_rules k0) \<inter> unnamed ` set (gd_rules d) \<subseteq> set (kernel_rules k)"
      "set (kernel_rules k) \<subseteq> set (kernel_rules k0) \<union> unnamed ` set (gd_rules d)"
    and a: "unnamed_route ` set (gd_routes d) \<subseteq> set (kernel_routes ps k) \<or> set (kernel_rules k) \<subseteq> set (kernel_rules k0)"
  shows "between ps k0 d k"
proof -
  have told: "\<forall>t \<in> set (kernel_routes ps k). told_route t"
    using r start target unfolding routes_underway_def in_order_def complete_def by fastforce
  have "\<exists>t \<in> set (kernel_routes ps k). first_route v t \<and>
    (v \<in> set (kernel_rules k0) \<and> t \<in> set (kernel_routes ps k0) \<or>
     v \<in> unnamed ` set (gd_rules d) \<and> t \<in> unnamed_route ` set (gd_routes d))"
    if v: "v \<in> set (kernel_rules k)" "rs_kind v = RuleMark" for v
  proof (cases "v \<in> set (kernel_rules k0)")
    case False
    then obtain v' where v': "v = unnamed v'" "v' \<in> set (gd_rules d)" using u(2) v(1) by blast
    then obtain t where t: "t \<in> set (gd_routes d)" "first_route v' t" using target v(2) unfolding complete_def by auto
    have "unnamed_route t \<in> set (kernel_routes ps k)" using a t(1) False v(1) by blast
    then show ?thesis using t v' by (intro bexI [of _ "unnamed_route t"]) auto
  qed (use covered [OF r _ v(2)] in blast)
  then show ?thesis using assms(1) r u(1) told unfolding between_def routes_underway_def by blast
qed

lemma replaced:
  assumes "route_replace nl n k = Inr k'" and "n \<in> set (fst rs)"
  shows "nk_rules k' = nk_rules k"
    and "\<exists>n'. set (owned_routes k') = insert n' {x \<in> set (owned_routes k). \<not> same_place x n} \<and>
      seen_route ps n' = seen_route ps n \<and> (\<forall>x. same_place x n' = same_place x n)"
proof -
  have n: "owned_route n" "nr_type n = RTN_UNREACHABLE \<or> nr_link n \<noteq> 0" using diffs assms(2) unfolding differences_def by auto
  note r = replaces [OF assms(1) n(1)]
  then show "nk_rules k' = nk_rules k" by blast
  obtain n' where n': "kept_as n n'"
    "{x \<in> set (nk_routes k'). owned_route x} = insert n' {x \<in> set (nk_routes k). owned_route x \<and> \<not> same_place x n}" using r by blast
  have "set (owned_routes k') = insert n' {x \<in> set (owned_routes k). \<not> same_place x n}" unfolding set_both n'(2) by auto
  moreover have "seen_route ps n' = seen_route ps n" "\<forall>x. same_place x n' = same_place x n"
    using kept_seen [OF n'(1) n(2)] kept_place [OF n'(1)] by blast+
  ultimately show "\<exists>n'. set (owned_routes k') = insert n' {x \<in> set (owned_routes k). \<not> same_place x n} \<and>
      seen_route ps n' = seen_route ps n \<and> (\<forall>x. same_place x n' = same_place x n)" by blast
qed

end

context kernel_change
begin

text \<open>Adding routes.\<close>

lemma added_seen: "n \<in> set (fst rs) \<Longrightarrow> seen_route ps n \<in> unnamed_route ` set (gd_routes d)"
  using diffs unfolding differences_def by auto

lemma wanted_spot:
  assumes "s \<in> unnamed_route ` set (gd_routes d)" and "t \<in> unnamed_route ` set (gd_routes d)" and "same_spot s t"
  shows "s = t"
proof -
  obtain s' t' where s: "s = unnamed_route s'" "s' \<in> set (gd_routes d)" "t = unnamed_route t'" "t' \<in> set (gd_routes d)" using assms(1,2) by blast
  then have "in_table t' (rt_table s') (rt_v6 s')" "rt_priority t' = rt_priority s'" using assms(3) by (simp_all add: same_spot_def in_table_def)
  then have "t' = s'" using target s(2,4) unfolding complete_def by blast
  then show ?thesis using s by simp
qed

lemma route_added:
  assumes "route_replace nl n k = Inr k'" and n: "n \<in> set (fst rs)" and u: "routes_underway ps d k0 k"
    and keep: "set (kernel_routes ps k0) \<inter> unnamed_route ` set (gd_routes d) \<union> seen_route ps ` D \<subseteq> set (kernel_routes ps k)"
      "D \<subseteq> set (fst rs)"
  shows "routes_underway ps d k0 k' \<and>
    set (kernel_routes ps k0) \<inter> unnamed_route ` set (gd_routes d) \<union> seen_route ps ` insert n D \<subseteq> set (kernel_routes ps k')"
proof -
  obtain n' where n': "set (owned_routes k') = insert n' {x \<in> set (owned_routes k). \<not> same_place x n}"
      "seen_route ps n' = seen_route ps n" "\<And>x. same_place x n' = same_place x n"
    using replaced(2) [OF assms(1) n] by blast
  have seen: "set (kernel_routes ps k') = insert (seen_route ps n) (seen_route ps ` {x \<in> set (owned_routes k). \<not> same_place x n})"
    using n'(1,2) by (simp add: kernel_routes_def)
  have p1: "places_distinct k'"
    using u n'(1,3) same_place_sym unfolding places_distinct_def routes_underway_def by (metis (no_types, lifting) insertE mem_Collect_eq)
  have p2: "set (kernel_routes ps k') \<subseteq> set (kernel_routes ps k0) \<union> unnamed_route ` set (gd_routes d)"
  proof -
    have "seen_route ps ` {x \<in> set (owned_routes k). \<not> same_place x n} \<subseteq> set (kernel_routes ps k)" by (auto simp: kernel_routes_def)
    then have "set (kernel_routes ps k') \<subseteq> insert (seen_route ps n) (set (kernel_routes ps k))" using seen by blast
    then show ?thesis using u added_seen [OF n] unfolding routes_underway_def by blast
  qed
  have p3: "\<exists>t' \<in> set (kernel_routes ps k'). same_spot t t'" if t: "t \<in> set (kernel_routes ps k0)" for t
  proof -
    obtain x where x: "x \<in> set (owned_routes k)" "same_spot t (seen_route ps x)"
      using u t unfolding routes_underway_def kernel_routes_def by auto
    show ?thesis
    proof (cases "same_place x n")
      case True
      then have "same_spot t (seen_route ps n)" using x(2) place_read [OF True, of ps] by (simp add: same_spot_def in_table_def)
      then show ?thesis unfolding seen by blast
    qed (use x seen in blast)
  qed
  have p4: "s \<in> set (kernel_routes ps k')"
    if s: "s \<in> set (kernel_routes ps k)" "s \<in> unnamed_route ` set (gd_routes d)" for s
  proof -
    obtain x where x: "x \<in> set (owned_routes k)" "s = seen_route ps x" using s(1) by (auto simp: kernel_routes_def)
    show ?thesis
    proof (cases "same_place x n")
      case True
      then have "s = seen_route ps n" using wanted_spot [OF s(2) added_seen [OF n]] place_read x(2) by simp
      then show ?thesis unfolding seen by simp
    qed (use x seen in blast)
  qed
  have p5: "seen_route ps n \<in> set (kernel_routes ps k')" "seen_route ps ` D \<subseteq> unnamed_route ` set (gd_routes d)"
    unfolding seen using keep(2) added_seen by blast+
  show ?thesis
  proof
    show "routes_underway ps d k0 k'" unfolding routes_underway_def using p1 p2 p3 by simp
    show "set (kernel_routes ps k0) \<inter> unnamed_route ` set (gd_routes d) \<union> seen_route ps ` insert n D \<subseteq> set (kernel_routes ps k')"
    proof
      fix s assume "s \<in> set (kernel_routes ps k0) \<inter> unnamed_route ` set (gd_routes d) \<union> seen_route ps ` insert n D"
      then show "s \<in> set (kernel_routes ps k')" using p4 [of s] p5 keep(1) by blast
    qed
  qed
qed


text \<open>Adding rules, writing the tables and removing rules: the routes are all there.\<close>

lemma added_rules: "set (fst us) \<subseteq> desired_rule ` set (gd_rules d)"
  using diffs unfolding differences_def by simp

lemma rule_seen:
  assumes "u \<in> set (owned_rules k0) \<union> set (fst us)"
  shows "our_rule (seen_rule u)" "u = desired_rule (seen_rule u)" "owns_priority (nu_priority u)"
    "u \<in> set (fst us) \<Longrightarrow> seen_rule u \<in> unnamed ` set (gd_rules d)"
proof -
  have a: "seen_rule u \<in> unnamed ` set (gd_rules d) \<and> our_rule (seen_rule u) \<and> u = desired_rule (seen_rule u) \<and> owns_priority (nu_priority u)"
    if mem: "u \<in> set (fst us)"
  proof -
    obtain r where r: "r \<in> set (gd_rules d)" "u = desired_rule r" using added_rules mem by blast
    then show ?thesis using our_desired_rule [OF target r(1)] by auto
  qed
  have b: "our_rule (seen_rule u) \<and> u = desired_rule (seen_rule u) \<and> owns_priority (nu_priority u)" if "u \<in> set (owned_rules k0)"
    using start that by (auto simp: in_order_def rules_ours_def owned_rules_def)
  show "our_rule (seen_rule u)" "u = desired_rule (seen_rule u)" "owns_priority (nu_priority u)"
    "u \<in> set (fst us) \<Longrightarrow> seen_rule u \<in> unnamed ` set (gd_rules d)" using a b assms by blast+
qed

lemma stale_rules: "set (snd us) = {u \<in> set (owned_rules k0). seen_rule u \<notin> unnamed ` set (gd_rules d)}"
  using diffs unfolding differences_def by simp

lemma wanted_rules: "unnamed ` set (gd_rules d) \<subseteq> set (kernel_rules k0) \<union> seen_rule ` set (fst us)"
  using diffs unfolding differences_def by simp

lemma kernel_rules_during:
  assumes "set (owned_rules k) = (set (owned_rules k0) \<union> A) - D" and "A \<subseteq> set (fst us)" and "D \<subseteq> set (snd us)"
  shows "rules_ours k" "set (kernel_rules k0) \<inter> unnamed ` set (gd_rules d) \<subseteq> set (kernel_rules k)"
    "set (kernel_rules k) \<subseteq> set (kernel_rules k0) \<union> unnamed ` set (gd_rules d)"
    "A = {} \<Longrightarrow> set (kernel_rules k) \<subseteq> set (kernel_rules k0)"
proof -
  show "rules_ours k" unfolding rules_ours_def assms(1) using rule_seen(1,2) assms(2) by blast
  show "set (kernel_rules k0) \<inter> unnamed ` set (gd_rules d) \<subseteq> set (kernel_rules k)"
    using assms stale_rules unfolding kernel_rules_def by auto
  show "set (kernel_rules k) \<subseteq> set (kernel_rules k0) \<union> unnamed ` set (gd_rules d)"
  proof
    fix s assume "s \<in> set (kernel_rules k)"
    then obtain u where "u \<in> set (owned_rules k0) \<or> u \<in> set (fst us)" "s = seen_rule u"
      using assms unfolding kernel_rules_def by auto
    then show "s \<in> set (kernel_rules k0) \<union> unnamed ` set (gd_rules d)"
      using rule_seen(4) [of u] unfolding kernel_rules_def by auto
  qed
  show "A = {} \<Longrightarrow> set (kernel_rules k) \<subseteq> set (kernel_rules k0)" using assms(1) unfolding kernel_rules_def by auto
qed

lemma rules_settled:
  assumes "set (owned_rules k) = (set (owned_rules k0) \<union> set (fst us)) - set (snd us)"
  shows "set (kernel_rules k) = unnamed ` set (gd_rules d)"
proof
  show "set (kernel_rules k) \<subseteq> unnamed ` set (gd_rules d)"
  proof
    fix s assume "s \<in> set (kernel_rules k)"
    then obtain u where "u \<in> set (owned_rules k0) \<or> u \<in> set (fst us)" "u \<notin> set (snd us)" "s = seen_rule u"
      using assms unfolding kernel_rules_def by auto
    then show "s \<in> unnamed ` set (gd_rules d)" using rule_seen(4) [of u] stale_rules by auto
  qed
  show "unnamed ` set (gd_rules d) \<subseteq> set (kernel_rules k)"
  proof
    fix s assume s: "s \<in> unnamed ` set (gd_rules d)"
    then obtain u where "u \<in> set (owned_rules k0) \<union> set (fst us)" "s = seen_rule u"
      using wanted_rules unfolding kernel_rules_def by auto
    then show "s \<in> set (kernel_rules k)" using s assms stale_rules unfolding kernel_rules_def by auto
  qed
qed

lemma owned_routes_cong: "nk_routes k = nk_routes k' \<Longrightarrow> owned_routes k = owned_routes k' \<and> kernel_routes ps k = kernel_routes ps k' \<and>
    routes_underway ps d k0 k = routes_underway ps d k0 k'"
  by (simp add: owned_routes_def kernel_routes_def routes_underway_def places_distinct_def)

lemma rule_added:
  assumes "rule_add nl u k = Inr k'" and "u \<in> set (fst us)"
  shows "nk_routes k' = nk_routes k" "set (owned_rules k') = insert u (set (owned_rules k))"
  using adds [OF assms(1)] rule_seen(3) [of u] assms(2) by (auto simp: set_both)

lemma rule_removed:
  assumes "rule_del nl u k = Inr k'" and u: "u \<in> set (snd us)"
    and k: "set (owned_rules k) = (set (owned_rules k0) \<union> set (fst us)) - D"
  shows "nk_routes k' = nk_routes k" "set (owned_rules k') = set (owned_rules k) - {u}"
proof -
  note r = removes [OF assms(1)]
  then show "nk_routes k' = nk_routes k" by simp
  obtain x where x: "x \<in> set (nk_rules k)" "same_rule u x" "set (nk_rules k') = set (nk_rules k) - {x}" using r by blast
  have o: "u \<in> set (owned_rules k0)" using u stale_rules by simp
  have "owns_priority (nu_priority u)" using rule_seen(3) o by blast
  then have "x \<in> set (owned_rules k)" using x(1,2) by (simp add: set_both same_rule_def)
  then have "x \<in> set (owned_rules k0) \<union> set (fst us)" using k by blast
  then have "seen_rule x = seen_rule u"
    using our_rule_eq [OF rule_seen(1) rule_seen(1), of x u] o x(2) by (simp add: seen_rule_def Let_def same_rule_def)
  then have "x = u" using rule_seen(2) \<open>x \<in> _ \<union> _\<close> o by (metis UnI1)
  then show "set (owned_rules k') = set (owned_rules k) - {u}" using x(3) by (auto simp: set_both)
qed

end

text \<open>Removing routes: the rules are the wanted ones, and so is the first route of each.\<close>

definition routes_ending :: "ports \<Rightarrow> gw_desired \<Rightarrow> nl_kernel \<Rightarrow> nl_route set \<Rightarrow> nl_kernel \<Rightarrow> bool" where
  "routes_ending ps d k0 D k \<longleftrightarrow> places_distinct k \<and>
     set (kernel_routes ps k) \<subseteq> set (kernel_routes ps k0) \<union> unnamed_route ` set (gd_routes d) \<and>
     (\<forall>t \<in> unnamed_route ` set (gd_routes d). rt_priority t = 0 \<longrightarrow> t \<in> set (kernel_routes ps k)) \<and>
     (metrics_apart ps d k0 \<longrightarrow>
        unnamed_route ` set (gd_routes d) \<subseteq> set (kernel_routes ps k) \<and>
        (\<forall>x \<in> D. seen_route ps x \<notin> set (kernel_routes ps k) \<and>
           (\<forall>t \<in> unnamed_route ` set (gd_routes d). \<not> same_spot (seen_route ps x) t)))"

lemma routes_endingD:
  assumes "routes_ending ps d k0 D k"
  shows "places_distinct k"
    "set (kernel_routes ps k) \<subseteq> set (kernel_routes ps k0) \<union> unnamed_route ` set (gd_routes d)"
    "\<forall>t \<in> unnamed_route ` set (gd_routes d). rt_priority t = 0 \<longrightarrow> t \<in> set (kernel_routes ps k)"
    "metrics_apart ps d k0 \<Longrightarrow> unnamed_route ` set (gd_routes d) \<subseteq> set (kernel_routes ps k)"
    "metrics_apart ps d k0 \<Longrightarrow> x \<in> D \<Longrightarrow> seen_route ps x \<notin> set (kernel_routes ps k)"
    "metrics_apart ps d k0 \<Longrightarrow> x \<in> D \<Longrightarrow> t \<in> unnamed_route ` set (gd_routes d) \<Longrightarrow> \<not> same_spot (seen_route ps x) t"
proof -
  note a = assms [unfolded routes_ending_def]
  show "places_distinct k" using a by (elim conjE)
  show "set (kernel_routes ps k) \<subseteq> set (kernel_routes ps k0) \<union> unnamed_route ` set (gd_routes d)" using a by (elim conjE)
  show "\<forall>t \<in> unnamed_route ` set (gd_routes d). rt_priority t = 0 \<longrightarrow> t \<in> set (kernel_routes ps k)" using a by (elim conjE)
  assume m: "metrics_apart ps d k0"
  have b: "unnamed_route ` set (gd_routes d) \<subseteq> set (kernel_routes ps k) \<and>
      (\<forall>x \<in> D. seen_route ps x \<notin> set (kernel_routes ps k) \<and>
        (\<forall>t \<in> unnamed_route ` set (gd_routes d). \<not> same_spot (seen_route ps x) t))" 
    by (rule mp [OF conjunct2 [OF conjunct2 [OF conjunct2 [OF a]]] m])
  then show "unnamed_route ` set (gd_routes d) \<subseteq> set (kernel_routes ps k)" by (rule conjunct1)
  assume "x \<in> D"
  then have c: "seen_route ps x \<notin> set (kernel_routes ps k) \<and> (\<forall>t \<in> unnamed_route ` set (gd_routes d). \<not> same_spot (seen_route ps x) t)"
    by (rule bspec [OF conjunct2 [OF b]])
  then show "seen_route ps x \<notin> set (kernel_routes ps k)" by (rule conjunct1)
  assume "t \<in> unnamed_route ` set (gd_routes d)"
  then show "\<not> same_spot (seen_route ps x) t" by (rule bspec [OF conjunct2 [OF c]])
qed

lemma safe_sysctls:
  assumes "safe P Q p" and "\<And>k s k'. Q k \<Longrightarrow> write_sysctl nl (fst s) (snd s) k = Inr k' \<Longrightarrow> P k' \<and> Q k'"
  shows "safe P Q (fold (set_sysctl nl) ss p)"
  using assms(1)
proof (induction ss arbitrary: p)
  case (Cons s ss)
  have "safe P Q (set_sysctl nl s p)"
    using Cons.prems assms(2) by (auto simp: set_sysctl_def run_step_def safe_def split: sum.splits)
  then show ?case using Cons.IH by simp
qed simp

context kernel_change
begin

lemma stale_routes: "set (snd rs) = {x \<in> set (owned_routes k0). seen_route ps x \<notin> unnamed_route ` set (gd_routes d)}"
  using diffs unfolding differences_def by simp

lemma wanted_routes: "unnamed_route ` set (gd_routes d) \<subseteq> set (kernel_routes ps k0) \<union> seen_route ps ` set (fst rs)"
  using diffs unfolding differences_def by simp

lemma route_removed:
  assumes "route_del nl x0 k = Inr k'" and x0: "x0 \<in> set (snd rs)" and k: "routes_ending ps d k0 D k"
  shows "nk_rules k' = nk_rules k" "routes_ending ps d k0 (insert x0 D) k'"
proof -
  let ?Rn = "unnamed_route ` set (gd_routes d)"
  have "owned_route x0" using x0 stale_routes by (simp add: owned_routes_def)
  note r = deletes [OF assms(1) this]
  then show "nk_rules k' = nk_rules k" by simp
  obtain x where x: "x \<in> set (nk_routes k)" "deletes x0 x" "set (nk_routes k') = set (nk_routes k) - {x}" using r by blast
  have o: "x \<in> set (owned_routes k)" "set (owned_routes k') = set (owned_routes k) - {x}"
    using x by (auto simp: set_both deletes_def)
  have pd: "y = z" if "y \<in> set (owned_routes k)" "z \<in> set (owned_routes k)" "same_spot (seen_route ps y) (seen_route ps z)" for y z
  proof -
    have "places_distinct k" by (rule routes_endingD(1) [OF k])
    then show ?thesis using that(1,2) spot_place [OF that(3)] unfolding places_distinct_def by blast
  qed
  have sx: "seen_route ps x = (seen_route ps x0)\<lparr>rt_priority := read_metric x\<rparr>" "nr_priority x0 = 0 \<or> read_metric x = read_metric x0"
    using deletes_seen [OF x(2)] by blast+
  have n0: "seen_route ps x0 \<notin> ?Rn" using x0 stale_routes by blast
  have z0: "read_metric x0 = 0" if "nr_priority x0 = 0" using that by (simp add: read_metric_def)
  have same: "seen_route ps x = seen_route ps x0" if "read_metric x = read_metric x0"
    using sx(1) that by (metis seen_route_simps(3) route_spec.surjective route_spec.update_convs(6))
  have R': "set (kernel_routes ps k') = seen_route ps ` (set (owned_routes k) - {x})" by (simp add: kernel_routes_def o(2))
  then have sub: "set (kernel_routes ps k') \<subseteq> set (kernel_routes ps k)" by (auto simp: kernel_routes_def)
  have gone: "t \<in> set (kernel_routes ps k')" if t: "t \<in> set (kernel_routes ps k)" "t \<noteq> seen_route ps x" for t
  proof -
    obtain y where "y \<in> set (owned_routes k)" "t = seen_route ps y" using t(1) by (auto simp: kernel_routes_def)
    then show ?thesis using t(2) unfolding R' by blast
  qed
  have first: "seen_route ps x \<notin> ?Rn" if "read_metric x = 0"
    using n0 same sx(2) z0 that by metis
  have exact: "?Rn \<subseteq> set (kernel_routes ps k') \<and>
      (\<forall>y \<in> insert x0 D. seen_route ps y \<notin> set (kernel_routes ps k') \<and> (\<forall>t \<in> ?Rn. \<not> same_spot (seen_route ps y) t))"
    if apart: "metrics_apart ps d k0"
  proof -
    have all: "?Rn \<subseteq> set (kernel_routes ps k)"
        "\<forall>y \<in> D. seen_route ps y \<notin> set (kernel_routes ps k) \<and> (\<forall>t \<in> ?Rn. \<not> same_spot (seen_route ps y) t)"
      using routes_endingD(4-6) [OF k apart] by blast+
    have sR: "seen_route ps x \<in> set (kernel_routes ps k)" using o(1) by (simp add: kernel_routes_def)
    have "read_metric x = 0" if "nr_priority x0 = 0"
    proof -
      have "seen_route ps x \<in> set (kernel_routes ps k0) \<union> ?Rn" using sR routes_endingD(2) [OF k] by blast
      moreover have "x0 \<in> set (owned_routes k0)" using x0 stale_routes by blast
      moreover have "seen_route ps x = (seen_route ps x0)\<lparr>rt_priority := rt_priority (seen_route ps x)\<rparr>" using sx(1) by simp
      ultimately have "rt_priority (seen_route ps x) = 0" using apart n0 that unfolding metrics_apart_def by blast
      then show ?thesis by simp
    qed
    then have e: "seen_route ps x = seen_route ps x0" using same sx(2) z0 by metis
    have "\<not> same_spot (seen_route ps x0) t" if t: "t \<in> ?Rn" for t
    proof
      assume s: "same_spot (seen_route ps x0) t"
      obtain y where "y \<in> set (owned_routes k)" "t = seen_route ps y" using all(1) t by (auto simp: kernel_routes_def)
      then have "y = x" using pd [of x y] o(1) e s by simp
      then show False using \<open>t = _\<close> t n0 e by simp
    qed
    moreover have "seen_route ps x0 \<notin> set (kernel_routes ps k')"
    proof
      assume "seen_route ps x0 \<in> set (kernel_routes ps k')"
      then obtain y where y: "y \<in> set (owned_routes k) - {x}" "seen_route ps x0 = seen_route ps y" unfolding R' by blast
      then show False using pd [of y x] o(1) e by (simp add: same_spot_def in_table_def)
    qed
    moreover have "?Rn \<subseteq> set (kernel_routes ps k')"
    proof
      fix t assume t: "t \<in> ?Rn"
      then have "t \<noteq> seen_route ps x" using n0 e by metis
      then show "t \<in> set (kernel_routes ps k')" using gone [of t] all(1) t by blast
    qed
    moreover have "seen_route ps y \<notin> set (kernel_routes ps k') \<and> (\<forall>t \<in> ?Rn. \<not> same_spot (seen_route ps y) t)" if "y \<in> D" for y
      using all(2) that sub by blast
    ultimately show ?thesis by simp
  qed
  show "routes_ending ps d k0 (insert x0 D) k'" unfolding routes_ending_def
  proof (intro conjI)
    have "places_distinct k" by (rule routes_endingD(1) [OF k])
    then show "places_distinct k'" using o(2) unfolding places_distinct_def by simp
    show "set (kernel_routes ps k') \<subseteq> set (kernel_routes ps k0) \<union> ?Rn" using routes_endingD(2) [OF k] sub by blast
    have "\<forall>t \<in> ?Rn. rt_priority t = 0 \<longrightarrow> t \<in> set (kernel_routes ps k)" by (rule routes_endingD(3) [OF k])
    moreover have "t \<noteq> seen_route ps x" if t: "t \<in> ?Rn" "rt_priority t = 0" for t
    proof
      assume "t = seen_route ps x"
      then have "read_metric x = 0" "seen_route ps x \<in> ?Rn" using t by simp_all
      then show False using first by simp
    qed
    ultimately show "\<forall>t \<in> ?Rn. rt_priority t = 0 \<longrightarrow> t \<in> set (kernel_routes ps k')" using gone by blast
    show "metrics_apart ps d k0 \<longrightarrow> ?Rn \<subseteq> set (kernel_routes ps k') \<and>
        (\<forall>y \<in> insert x0 D. seen_route ps y \<notin> set (kernel_routes ps k') \<and> (\<forall>t \<in> ?Rn. \<not> same_spot (seen_route ps y) t))"
      using exact by (rule impI)
  qed
qed

lemma between_ending:
  assumes "rules_ours k" and r: "routes_ending ps d k0 D k" and u: "set (kernel_rules k) = unnamed ` set (gd_rules d)"
  shows "between ps k0 d k"
proof -
  have told: "\<forall>t \<in> set (kernel_routes ps k). told_route t"
    using routes_endingD(2) [OF r] start target unfolding in_order_def complete_def by fastforce
  have "\<exists>t \<in> set (kernel_routes ps k). first_route v t \<and>
    (v \<in> set (kernel_rules k0) \<and> t \<in> set (kernel_routes ps k0) \<or>
     v \<in> unnamed ` set (gd_rules d) \<and> t \<in> unnamed_route ` set (gd_routes d))"
    if v: "v \<in> set (kernel_rules k)" "rs_kind v = RuleMark" for v
  proof -
    obtain v' where v': "v = unnamed v'" "v' \<in> set (gd_rules d)" using u v(1) by blast
    then obtain t where t: "t \<in> set (gd_routes d)" "first_route v' t" using target v(2) unfolding complete_def by auto
    then have "rt_priority (unnamed_route t) = 0" by (simp add: first_route_def)
    then have "unnamed_route t \<in> set (kernel_routes ps k)" using routes_endingD(3) [OF r] t(1) by blast
    then show ?thesis using t v' by (intro bexI [of _ "unnamed_route t"]) auto
  qed
  moreover have "places_distinct k" by (rule routes_endingD(1) [OF r])
  moreover have "set (kernel_rules k0) \<inter> unnamed ` set (gd_rules d) \<subseteq> set (kernel_rules k)" using u by simp
  ultimately show ?thesis using assms(1) told unfolding between_def by blast
qed

lemma program_safe:
  "safe (between ps k0 d) (\<lambda>k. set (kernel_rules k) = unnamed ` set (gd_rules d) \<and> routes_ending ps d k0 (set (snd rs)) k)
     (program_kernel nl d rs us k0)"
proof -
  let ?Rn = "unnamed_route ` set (gd_routes d)" and ?R0 = "set (kernel_routes ps k0)" and ?B = "between ps k0 d"
  let ?Q1 = "\<lambda>k. routes_underway ps d k0 k \<and> ?Rn \<subseteq> set (kernel_routes ps k) \<and> set (owned_rules k) = set (owned_rules k0)"
  let ?Q2 = "\<lambda>k. routes_underway ps d k0 k \<and> ?Rn \<subseteq> set (kernel_routes ps k) \<and>
    set (owned_rules k) = set (owned_rules k0) \<union> set (fst us)"
  let ?Q5 = "\<lambda>k. routes_underway ps d k0 k \<and> ?Rn \<subseteq> set (kernel_routes ps k) \<and>
    set (owned_rules k) = (set (owned_rules k0) \<union> set (fst us)) - set (snd us)"
  let ?Q6 = "\<lambda>k. rules_ours k \<and> set (kernel_rules k) = unnamed ` set (gd_rules d) \<and> routes_ending ps d k0 (set (snd rs)) k"
  have u0: "routes_underway ps d k0 k0"
    using start unfolding routes_underway_def in_order_def by (auto simp: same_spot_def in_table_def)
  have s0: "safe ?B (\<lambda>k. k = k0) \<lparr>pg_kernel = k0, pg_seen = [], pg_steps = [], pg_error = None\<rparr>" by (simp add: safe_def)
  let ?J1 = "\<lambda>D k. routes_underway ps d k0 k \<and> set (owned_rules k) = set (owned_rules k0) \<and> D \<subseteq> set (fst rs) \<and>
    ?R0 \<inter> ?Rn \<union> seen_route ps ` D \<subseteq> set (kernel_routes ps k)"
  have s1: "safe ?B ?Q1 (step_unless_nil AddRoutes (route_replace nl) (fst rs) \<lparr>pg_kernel = k0, pg_seen = [], pg_steps = [], pg_error = None\<rparr>)"
    (is "safe _ _ ?p1")
  proof (rule safe_step_unless_nil [OF s0, where J = ?J1])
    show "?J1 {} k" if "k = k0" for k using that u0 by auto
    show "?J1 (insert n D) k'" if "?J1 D k" "n \<in> set (fst rs)" "route_replace nl n k = Inr k'" for D k n k'
      using that route_added [of n k k' D] replaced(1) [of n k k'] by (simp add: owned_rules_def)
    show "?B k" if "?J1 D k" for D k
      using that kernel_rules_during [of k "{}" "{}"] by (intro between_during) auto
    show "?Q1 k" if "?J1 (set (fst rs)) k" for k using that wanted_routes by blast
  qed
  let ?J2 = "\<lambda>D k. routes_underway ps d k0 k \<and> ?Rn \<subseteq> set (kernel_routes ps k) \<and>
    set (owned_rules k) = set (owned_rules k0) \<union> D"
  have s2: "safe ?B ?Q2 (step_unless_nil AddRules (rule_add nl) (fst us) ?p1)" (is "safe _ _ ?p2")
  proof (rule safe_step_unless_nil [OF s1, where J = ?J2])
    show "?J2 (insert u D) k'" if "?J2 D k" "u \<in> set (fst us)" "rule_add nl u k = Inr k'" for D k u k'
      using that rule_added [of u k k'] owned_routes_cong [of k' k] by auto
    show "?B k" if "?J2 D k" "D \<subseteq> set (fst us)" for D k
      using that kernel_rules_during [of k D "{}"] by (intro between_during) auto
  qed auto
  have b2: "?B k" if "?Q2 k" for k using that kernel_rules_during [of k "set (fst us)" "{}"] by (intro between_during) auto
  have q2: "?Q2 k'" if "nk_routes k' = nk_routes k" "nk_rules k' = nk_rules k" "?Q2 k" for k k'
    using that owned_routes_cong [OF that(1)] by (simp add: owned_rules_def)
  have s3: "safe ?B ?Q2 (run_step WriteTable (write_class nl) [class_table_of d] ?p2)" (is "safe _ _ ?p3")
  proof (rule safe_step [OF s2, where J = "\<lambda>_. ?Q2"])
    show "?Q2 k'" if "?Q2 k" "write_class nl x k = Inr k'" for k x k' by (rule q2 [OF _ _ that(1)]) (simp_all add: writes_class [OF that(2)])
  qed (use b2 in blast)+
  have s4: "safe ?B ?Q2 (run_step WriteAccounting (write_stat nl) [gd_stat d] ?p3)" (is "safe _ _ ?p4")
  proof (rule safe_step [OF s3, where J = "\<lambda>_. ?Q2"])
    show "?Q2 k'" if "?Q2 k" "write_stat nl x k = Inr k'" for k x k' by (rule q2 [OF _ _ that(1)]) (simp_all add: writes_stat [OF that(2)])
  qed (use b2 in blast)+
  let ?J5 = "\<lambda>D k. routes_underway ps d k0 k \<and> ?Rn \<subseteq> set (kernel_routes ps k) \<and>
    set (owned_rules k) = (set (owned_rules k0) \<union> set (fst us)) - D"
  have s5: "safe ?B ?Q5 (step_unless_nil RemoveRules (rule_del nl) (snd us) ?p4)" (is "safe _ _ ?p5")
  proof (rule safe_step_unless_nil [OF s4, where J = ?J5])
    show "?J5 (insert u D) k'" if "?J5 D k" "u \<in> set (snd us)" "rule_del nl u k = Inr k'" for D k u k'
      using that rule_removed [of u k k' D] owned_routes_cong [of k' k] by auto
    show "?B k" if "?J5 D k" "D \<subseteq> set (snd us)" for D k
      using that kernel_rules_during [of k "set (fst us)" D] by (intro between_during) auto
  qed auto
  let ?J6 = "\<lambda>D k. rules_ours k \<and> set (kernel_rules k) = unnamed ` set (gd_rules d) \<and> routes_ending ps d k0 D k"
  have s6: "safe ?B ?Q6 (step_unless_nil RemoveRoutes (route_del nl) (snd rs) ?p5)" (is "safe _ _ ?p6")
  proof (rule safe_step_unless_nil [OF s5, where J = ?J6])
    show "?J6 {} k" if "?Q5 k" for k
      using that rules_settled [of k] kernel_rules_during(1) [of k "set (fst us)" "set (snd us)"]
      unfolding routes_ending_def routes_underway_def by blast
    show "?J6 (insert x D) k'" if "?J6 D k" "x \<in> set (snd rs)" "route_del nl x k = Inr k'" for D k x k'
      using that route_removed [of x k k' D] by (simp add: rules_ours_def kernel_rules_def owned_rules_def)
    show "?B k" if "?J6 D k" for D k using that between_ending by blast
  qed auto
  have "safe ?B ?Q6 (fold (set_sysctl nl) (gd_sysctls d) ?p6)"
  proof (rule safe_sysctls [OF s6])
    fix k s k' assume q: "?Q6 k" and w: "write_sysctl nl (fst s) (snd s) k = Inr k'"
    have "nk_routes k' = nk_routes k" "nk_rules k' = nk_rules k" using writes_sysctl [OF w] by simp_all
    then have "?Q6 k'" using q by (simp add: rules_ours_def kernel_rules_def owned_rules_def routes_ending_def places_distinct_def owned_routes_def kernel_routes_def)
    then show "?B k' \<and> ?Q6 k'" using between_ending by blast
  qed
  then show ?thesis unfolding program_kernel_def Let_def safe_def by blast
qed

end

end
