(* ===== verification/ExitChange.thy ===== *)
theory ExitChange
  imports ApplySteps
begin

text \<open>
  \<open>Apply\<close> as a whole, for the configurations that are rendered: where traffic goes while it runs, what it
  leaves behind, and when it reports an error.
\<close>

section \<open>The whole of Apply\<close>

lemma apply_safe:
  assumes nl: "netlink_kernel nl" and ps: "ports_ok ps" and o: "\<And>ks. set (order ks) = set ks"
    and k: "in_order ps k" and d: "complete d"
  shows "\<exists>D. safe (between ps k d) (\<lambda>k'. set (kernel_rules k') = unnamed ` set (gd_rules d) \<and> routes_ending ps d k D k')
      (apply_kernel nl ps order d k) \<and> (pg_error (apply_kernel nl ps order d k) = None \<longrightarrow>
        D = {x \<in> set (owned_routes k). seen_route ps x \<notin> unnamed_route ` set (gd_routes d)})"
proof (cases "desired_routes ps d")
  case w: (Inr want)
  show ?thesis
  proof (cases "current_routes nl ps k")
    case h: (Inr have_routes)
    show ?thesis
    proof (cases "current_rules nl k")
      case u: (Inr have_rules)
      let ?rs = "diff_objects order have_routes want" and ?us = "diff_objects order have_rules (desired_rules d)"
      note r = netlink_kernel.route_differences [OF nl ps k d o w h refl]
      have "differences ps d k ?rs ?us"
        unfolding differences_def using r netlink_kernel.rule_differences [OF nl k d o u refl] by (intro conjI)
      then have "kernel_change nl ps d k ?rs ?us"
        using nl k d by (intro kernel_change.intro) (simp_all add: kernel_change_axioms_def)
      from kernel_change.program_safe [OF this] show ?thesis using w h u r(3) by (auto simp: apply_kernel_def)
    qed (use w h in \<open>simp add: apply_kernel_def stopped_def safe_def\<close>)
  qed (use w in \<open>simp add: apply_kernel_def stopped_def safe_def\<close>)
qed (simp add: apply_kernel_def stopped_def safe_def)

lemma traffic_between:
  assumes "netlink_kernel nl" and "policy_routing path" and "ports_ok ps" and "\<And>ks. set (order ks) = set ks"
    and "in_order ps k" and "complete d" and "k' \<in> set (pg_seen (apply_kernel nl ps order d k))"
  shows "path (kernel_rules k') (kernel_routes ps k') v6 m \<in>
    {path (kernel_rules k) (kernel_routes ps k) v6 m, path (gd_rules d) (gd_routes d) v6 m}"
  using apply_safe [OF assms(1,3-6)] assms(7) between_path [OF assms(2,5,6)] unfolding safe_def by blast

lemma apply_ends:
  assumes "netlink_kernel nl" and "ports_ok ps" and "\<And>ks. set (order ks) = set ks" and "in_order ps k" and "complete d"
    and p: "p = apply_kernel nl ps order d k" "pg_error p = None" and m: "metrics_apart ps d k"
  shows "set (kernel_rules (pg_kernel p)) = unnamed ` set (gd_rules d)"
    and "set (kernel_routes ps (pg_kernel p)) = unnamed_route ` set (gd_routes d)"
    and "x \<in> set (kernel_routes ps k) \<Longrightarrow> x \<notin> unnamed_route ` set (gd_routes d) \<Longrightarrow>
      t \<in> unnamed_route ` set (gd_routes d) \<Longrightarrow> \<not> same_spot x t"
proof -
  let ?D = "{x \<in> set (owned_routes k). seen_route ps x \<notin> unnamed_route ` set (gd_routes d)}"
  have r: "set (kernel_rules (pg_kernel p)) = unnamed ` set (gd_rules d)" "routes_ending ps d k ?D (pg_kernel p)"
    using apply_safe [OF assms(1-5)] p unfolding safe_def by auto
  then show "set (kernel_rules (pg_kernel p)) = unnamed ` set (gd_rules d)" by simp
  have out: "y \<notin> set (kernel_routes ps (pg_kernel p))" "t \<in> unnamed_route ` set (gd_routes d) \<Longrightarrow> \<not> same_spot y t"
    if y: "y \<in> set (kernel_routes ps k)" "y \<notin> unnamed_route ` set (gd_routes d)" for y t
  proof -
    obtain z where "z \<in> ?D" "y = seen_route ps z" using y by (auto simp: kernel_routes_def)
    then show "y \<notin> set (kernel_routes ps (pg_kernel p))" "t \<in> unnamed_route ` set (gd_routes d) \<Longrightarrow> \<not> same_spot y t"
      using routes_endingD(5,6) [OF r(2) m] by blast+
  qed
  then show "set (kernel_routes ps (pg_kernel p)) = unnamed_route ` set (gd_routes d)"
    using routes_endingD(2) [OF r(2)] routes_endingD(4) [OF r(2) m] by blast
  show "x \<in> set (kernel_routes ps k) \<Longrightarrow> x \<notin> unnamed_route ` set (gd_routes d) \<Longrightarrow>
      t \<in> unnamed_route ` set (gd_routes d) \<Longrightarrow> \<not> same_spot x t" by (rule out(2))
qed

section \<open>What is rendered is complete\<close>

lemma family_rules:
  "u \<in> set (snd (render_family e links dn v6)) \<Longrightarrow> unnamed u = slot_rule (ex_slot e) v6 \<and> rs_exit u = ex_name e \<and>
     (\<exists>t \<in> set (fst (render_family e links dn v6)). first_route u t)"
  "t \<in> set (fst (render_family e links dn v6)) \<Longrightarrow> rt_priority t = 0 \<Longrightarrow>
     (\<exists>u \<in> set (snd (render_family e links dn v6)). rs_kind u = RuleMark \<and> first_route u t)"
  "t \<in> set (fst (render_family e links dn v6)) \<Longrightarrow> t' \<in> set (fst (render_family e links dn v6)) \<Longrightarrow>
     rt_priority t = rt_priority t' \<Longrightarrow> t = t'"
  by (auto simp: render_family_def slot_rule_def first_route_def in_table_def family_route_def exit_route_def blank_route_def
      split: option.splits if_splits)

text \<open>What a route through an exit needs: a device with a name, and a next hop without a zone.\<close>

definition exit_routable :: "link_view \<Rightarrow> exit \<Rightarrow> bool" where
  "exit_routable links e \<longleftrightarrow>
     (vs_kind (ex_via e) = ViaInterface \<longrightarrow> vs_interface (ex_via e) \<noteq> [] \<and> CHR '' '' \<notin> set (vs_interface (ex_via e))) \<and>
     (vs_kind (ex_via e) = ViaNextHop \<longrightarrow> next_hop_dev e links \<noteq> [] \<and> CHR '' '' \<notin> set (next_hop_dev e links) \<and>
        (case vs_next_hop (ex_via e) of None \<Rightarrow> True | Some g \<Rightarrow> plain_addr g))"

lemma family_route_shape:
  assumes "family_route e links v6 dn = Some r"
  shows "r = blank_route RouteUnreachable \<or>
    vs_kind (ex_via e) = ViaInterface \<and> r = (blank_route RouteVia)\<lparr>rt_dev := vs_interface (ex_via e)\<rparr> \<or>
    vs_kind (ex_via e) = ViaNextHop \<and> r = (blank_route RouteVia)\<lparr>rt_gateway := vs_next_hop (ex_via e), rt_dev := next_hop_dev e links\<rparr>"
  using assms by (auto simp: family_route_def exit_route_def split: option.splits if_splits)

lemma family_told:
  assumes "exit_routable links e" and "exit_slot_valid (ex_slot e)" and "t \<in> set (fst (render_family e links dn v6))"
  shows "told_route t \<and> owns_table (rt_table t)"
proof -
  have s: "owns_table (slot_table (ex_slot e))" "slot_table (ex_slot e) \<ge> 0"
    using assms(2) by (auto simp: owns_table_def slot_table_def exit_slot_valid_def Base_def)
  have t: "rt_table t = slot_table (ex_slot e)" using family_fields(2) [OF assms(3)] by simp
  obtain r where r: "family_route e links v6 dn = Some r"
    "t = r\<lparr>rt_table := slot_table (ex_slot e), rt_v6 := v6, rt_exit := ex_name e\<rparr> \<or>
     t = (blank_route RouteUnreachable)\<lparr>rt_table := slot_table (ex_slot e), rt_v6 := v6, rt_priority := 100, rt_exit := ex_name e\<rparr>"
    using assms(3) by (auto simp: render_family_def split: option.splits if_splits)
  have u: "told_route ((blank_route RouteUnreachable)\<lparr>rt_table := slot_table (ex_slot e), rt_v6 := v6, rt_exit := ex_name e\<rparr>)"
    "told_route ((blank_route RouteUnreachable)\<lparr>rt_table := slot_table (ex_slot e), rt_v6 := v6, rt_priority := 100, rt_exit := ex_name e\<rparr>)"
    using s by (simp_all add: told_route_def blank_route_def)
  have "told_route t"
    using r(2)
  proof
    assume t: "t = r\<lparr>rt_table := slot_table (ex_slot e), rt_v6 := v6, rt_exit := ex_name e\<rparr>"
    show "told_route t" using family_route_shape [OF r(1)]
    proof (elim disjE conjE)
      assume "vs_kind (ex_via e) = ViaInterface" "r = (blank_route RouteVia)\<lparr>rt_dev := vs_interface (ex_via e)\<rparr>"
      then show ?thesis using t s assms(1) by (simp add: told_route_def blank_route_def exit_routable_def)
    next
      assume "vs_kind (ex_via e) = ViaNextHop"
        "r = (blank_route RouteVia)\<lparr>rt_gateway := vs_next_hop (ex_via e), rt_dev := next_hop_dev e links\<rparr>"
      then show ?thesis using t s assms(1) by (simp add: told_route_def blank_route_def exit_routable_def)
    qed (use t u in simp)
  qed (use u in simp)
  then show ?thesis using s t by simp
qed

lemma rendered_local:
  "u \<in> set (gd_rules (render_gateway c links h)) \<Longrightarrow> rs_kind u \<noteq> RuleMark \<Longrightarrow> u = local_rule (rs_v6 u)"
  by (auto simp: render_gateway_def Let_def render_devices_rules render_exits_def render_exits_rules render_start_def
      render_family_def split: option.splits if_splits)

lemma slotted_complete:
  assumes "distinct (map ex_slot (exits c))" and "\<forall>e \<in> set (exits c). exit_slot_valid (ex_slot e)"
    and r: "\<forall>e \<in> set (exits c). exit_routable links e"
  shows "complete (render_gateway c links h)"
proof (cases "gw_enabled c")
  case False
  then have "gd_rules (render_gateway c links h) = []" "gd_routes (render_gateway c links h) = []"
    by (simp_all add: render_gateway_def Let_def render_start_def)
  then show ?thesis by (simp add: complete_def)
next
  case True
  let ?d = "render_gateway c links h"
  let ?f = "\<lambda>e v6. render_family e links (health_down h (ex_name e)) v6"
  have slots: "distinct (map ex_slot (exits c))" "e \<in> set (exits c) \<Longrightarrow> exit_slot_valid (ex_slot e)" for e using assms(1,2) by simp_all
  have same: "e = f" if "e \<in> set (exits c)" "f \<in> set (exits c)" "ex_slot e = ex_slot f" for e f
    using slots(1) that by (auto simp: distinct_map inj_on_def)
  have U: "\<exists>e v6. e \<in> set (exits c) \<and> u \<in> set (snd (?f e v6)) \<and> (in_use c (ex_name e) \<and> \<not> fails_open e h)"
    if "u \<in> set (gd_rules ?d)" "rs_kind u = RuleMark" for u
    using that rendered_rules [OF True, of u links h] by blast
  have R: "\<exists>e v6. e \<in> set (exits c) \<and> t \<in> set (fst (?f e v6)) \<and> (in_use c (ex_name e) \<and> \<not> fails_open e h)"
    if "t \<in> set (gd_routes ?d)" for t
    using that rendered_routes [OF True, of t links h] by blast
  have our: "our_rule (unnamed u)" if u: "u \<in> set (gd_rules ?d)" for u
  proof (cases "rs_kind u = RuleMark")
    case True
    then obtain e v6 where "e \<in> set (exits c)" "u \<in> set (snd (?f e v6))" using U u by blast
    then have "unnamed u = slot_rule (ex_slot e) v6" "exit_slot_valid (ex_slot e)" using family_rules(1) slots(2) by blast+
    then show ?thesis by (simp add: our_rule_def)
  next
    case False
    then have "u = local_rule (rs_v6 u)" using rendered_local u by blast
    then have "unnamed u = local_rule (rs_v6 (unnamed u))" by (metis local_rule_def rule_spec.select_convs(3) rule_spec.update_convs(6) slot_rule_simps(9))
    then show ?thesis unfolding our_rule_def by blast
  qed
  have named: "u = u'" if u: "u \<in> set (gd_rules ?d)" "u' \<in> set (gd_rules ?d)" "unnamed u = unnamed u'" for u u'
  proof (cases "rs_kind u = RuleMark")
    case True
    have k: "rs_kind u' = RuleMark" using True u(3) by (metis rule_spec.select_convs(1) rule_spec.surjective rule_spec.update_convs(6))
    obtain e v6 e' v6' where e: "e \<in> set (exits c)" "u \<in> set (snd (?f e v6))" "e' \<in> set (exits c)" "u' \<in> set (snd (?f e' v6'))"
      using U [OF u(1) True] U [OF u(2) k] by blast
    have "slot_rule (ex_slot e) v6 = slot_rule (ex_slot e') v6'" using family_rules(1) [OF e(2)] family_rules(1) [OF e(4)] u(3) by simp
    then have "ex_slot e = ex_slot e'" by (metis add_left_cancel slot_rule_simps(2))
    then have "rs_exit u = rs_exit u'" using same e family_rules(1) [OF e(2)] family_rules(1) [OF e(4)] by metis
    then show ?thesis using u(3) by (cases u; cases u') simp
  next
    case False
    have "rs_kind u' \<noteq> RuleMark" using False u(3) by (metis rule_spec.select_convs(1) rule_spec.surjective rule_spec.update_convs(6))
    then obtain a b where l: "u = local_rule a" "u' = local_rule b" using rendered_local u False by blast
    then have "a = b" using u(3) by (simp add: local_rule_def)
    then show ?thesis using l by simp
  qed
  have told: "told_route t \<and> owns_table (rt_table t)" if "t \<in> set (gd_routes ?d)" for t
    using R [OF that] family_told r slots(2) by blast
  have place: "t = t'" if t: "t \<in> set (gd_routes ?d)" "t' \<in> set (gd_routes ?d)" "in_table t (rt_table t') (rt_v6 t') \<and> rt_priority t = rt_priority t'" for t t'
  proof -
    obtain e v6 e' v6' where e: "e \<in> set (exits c)" "t \<in> set (fst (?f e v6))" "e' \<in> set (exits c)" "t' \<in> set (fst (?f e' v6'))"
      using R [OF t(1)] R [OF t(2)] by blast
    then have "rt_table t = slot_table (ex_slot e)" "rt_v6 t = v6" "rt_table t' = slot_table (ex_slot e')" "rt_v6 t' = v6'"
      using family_fields(2) by blast+
    then have "e = e'" "v6 = v6'" using same [OF e(1,3)] t(3) by (auto simp: in_table_def slot_table_def)
    then show ?thesis using family_rules(3) e t(3) by blast
  qed
  have first: "\<exists>t \<in> set (gd_routes ?d). first_route u t" if "u \<in> set (gd_rules ?d)" "rs_kind u = RuleMark" for u
    using U [OF that] family_rules(1) rendered_routes [OF True] by meson
  have ruled: "\<exists>u \<in> set (gd_rules ?d). rs_kind u = RuleMark \<and> first_route u t" if "t \<in> set (gd_routes ?d)" "rt_priority t = 0" for t
    using R [OF that(1)] family_rules(2) [OF _ that(2)] rendered_rules [OF True] by meson
  show ?thesis unfolding complete_def using our named told place first ruled by blast
qed

lemma rendered_complete:
  assumes "c = normalize_gateway c0" "length (exits c0) \<le> 80" and "\<forall>e \<in> set (exits c). exit_routable links e"
  shows "complete (render_gateway c links h)"
  using slotted_complete [OF _ _ assms(3)] normalized_slots [OF assms(1,2)] by blast

section \<open>What Apply promises\<close>

text \<open>
  C10. An \<open>Apply\<close> that reports no error has left exactly the rules and the routes that were asked for in
  the range this module owns. It starts from a kernel in order, as an \<open>Apply\<close> leaves it, with every exit
  routable; and the metrics lie apart: no route that is to go has its metric left out while a route that is
  there, or is asked for, differs from it by a metric alone. Without the last the statement is false:
  \<open>fallback_lost\<close> below is an \<open>Apply\<close> without an error that ends without a route it was asked for.
\<close>

theorem applied_exactly:
  assumes "netlink_kernel nl" and "ports_ok ps" and "\<And>ks. set (order ks) = set ks" and "in_order ps k"
    and "c = normalize_gateway c0" and "length (exits c0) \<le> 80" and "\<forall>e \<in> set (exits c). exit_routable links e"
    and "d = render_gateway c links h" and "metrics_apart ps d k"
    and "p = apply_kernel nl ps order d k" and "pg_error p = None"
  shows "set (kernel_rules (pg_kernel p)) = unnamed ` set (gd_rules d) \<and>
    set (kernel_routes ps (pg_kernel p)) = unnamed_route ` set (gd_routes d)"
  using apply_ends(1,2) [OF assms(1-4) _ assms(10,11,9)] rendered_complete [OF assms(5-7), of h] assms(8) by simp_all

text \<open>
  C11. Replacing a route is reported as a failure. \<open>RouteReplace\<close> has already taken the place of the old
  route when its removal comes, and the kernel has none to remove: whenever a wanted route stands where
  a stale one stood, as when an exit goes down, \<open>Apply\<close> ends in an error. The conditions are those of C10,
  that the metrics lie apart among them: in \<open>fallback_lost\<close> they do not, the removal of the replaced route
  finds the fallback instead, and no error is reported.
\<close>

theorem replaced_route_fails:
  assumes "netlink_kernel nl" and "ports_ok ps" and "\<And>ks. set (order ks) = set ks" and "in_order ps k"
    and "c = normalize_gateway c0" and "length (exits c0) \<le> 80" and "\<forall>e \<in> set (exits c). exit_routable links e"
    and "d = render_gateway c links h" and "metrics_apart ps d k"
    and "x \<in> set (kernel_routes ps k)" and "t \<in> set (gd_routes d)" and "same_spot x t" and "x \<noteq> unnamed_route t"
  shows "pg_error (apply_kernel nl ps order d k) \<noteq> None"
proof
  assume e: "pg_error (apply_kernel nl ps order d k) = None"
  have d: "complete d" using rendered_complete [OF assms(5-7)] assms(8) by simp
  have "x \<notin> unnamed_route ` set (gd_routes d)"
  proof
    assume "x \<in> unnamed_route ` set (gd_routes d)"
    then obtain t' where t': "t' \<in> set (gd_routes d)" "x = unnamed_route t'" by blast
    then have "in_table t (rt_table t') (rt_v6 t') \<and> rt_priority t = rt_priority t'" using assms(12) by (simp add: same_spot_def in_table_def)
    then have "t = t'" using d t'(1) assms(11) unfolding complete_def by blast
    then show False using t'(2) assms(13) by simp
  qed
  moreover have "same_spot x (unnamed_route t)" using assms(12) by (simp add: same_spot_def in_table_def)
  ultimately show False using apply_ends(3) [OF assms(1-4) d refl e assms(9,10)] assms(11) by blast
qed

text \<open>A tunnel that comes up in an empty kernel, and goes down.\<close>

definition wg_ports :: ports where
  "wg_ports = \<lparr>index_of = (\<lambda>n. if n = ''wg0'' then Some 3 else None), name_of = (\<lambda>i. if i = 3 then Some ''wg0'' else None)\<rparr>"

definition tunnel_desired :: "health \<Rightarrow> gw_desired" where
  "tunnel_desired h = render_gateway (normalize_gateway tunnel_config) lan_view h"

definition no_kernel :: nl_kernel where
  "no_kernel = \<lparr>nk_routes = [], nk_rules = [], nk_class = None, nk_stat = [], nk_sysctl = (\<lambda>_. None)\<rparr>"

definition wg_route :: "bool \<Rightarrow> nl_route" where
  "wg_route v6 = \<lparr>nr_table = 8101, nr_v6 = v6, nr_ones = Some 0, nr_protocol = 4, nr_type = 1, nr_gw = None, nr_link = 3,
     nr_priority = (if v6 then 1024 else 0)\<rparr>"

definition tunnel_kernel :: nl_kernel where
  "tunnel_kernel = no_kernel\<lparr>nk_routes := [wg_route False, wg_route True],
     nk_rules := map desired_rule [local_rule False, local_rule True, slot_rule 1 False, slot_rule 1 True]\<rparr>"

abbreviation tunnel_route :: "bool \<Rightarrow> route_spec" where
  "tunnel_route v6 \<equiv> \<lparr>rt_table = 8101, rt_v6 = v6, rt_type = RouteVia, rt_gateway = None, rt_dev = ''wg0'', rt_priority = 0, rt_exit = ''vpn''\<rparr>"

abbreviation tunnel_down :: "bool \<Rightarrow> route_spec" where
  "tunnel_down v6 \<equiv> \<lparr>rt_table = 8101, rt_v6 = v6, rt_type = RouteUnreachable, rt_gateway = None, rt_dev = [], rt_priority = 0, rt_exit = ''vpn''\<rparr>"

lemma tunnel_renders:
  "gd_routes (tunnel_desired Map.empty) = [tunnel_route False, tunnel_route True]"
  "gd_rules (tunnel_desired Map.empty) =
     [local_rule False, local_rule True, (slot_rule 1 False)\<lparr>rs_exit := ''vpn''\<rparr>, (slot_rule 1 True)\<lparr>rs_exit := ''vpn''\<rparr>]"
  "gd_routes (tunnel_desired [''vpn'' \<mapsto> False]) = [tunnel_down False, tunnel_down True]"
  by code_simp+

lemma tunnel_facts:
  "length (exits tunnel_config) \<le> 80" "\<forall>e \<in> set (exits (normalize_gateway tunnel_config)). exit_routable lan_view e"
  by code_simp+

lemma wg_ports_ok: "ports_ok wg_ports"
  by (auto simp: ports_ok_def wg_ports_def)

lemma digits8101: "itoa 8100 = ''8100''" "itoa 8101 = ''8101''"
  by (simp_all add: itoa.simps [of 8100] itoa.simps [of 8101] itoa.simps [of 810] itoa.simps [of 81] itoa.simps [of 8] char_of_def bit_nat_def)

lemma tunnel_lines:
  "rule_line (local_rule v6) = ''rule '' @ family_text v6 @ '' priority 8100 from all lookup main suppress_prefixlength 0''"
  "rule_line ((slot_rule 1 v6)\<lparr>rs_exit := e\<rparr>) = ''rule '' @ family_text v6 @ '' priority 8101 fwmark '' @ hex_mark (slot_mark 1) @
     ''/'' @ hex_mark MarkMask @ '' lookup 8101''"
  "route_line (tunnel_route v6) = ''route '' @ family_text v6 @ '' table 8101 default dev wg0''"
  by (simp_all add: rule_line_def route_line_def local_rule_def slot_rule_def LocalPriority_def slot_priority_def slot_table_def Base_def
      itoa_int_def metric_text_def digits8101)

lemma family_texts: "family_text False = ''ip''" "family_text True = ''ip6''"
  by (simp_all add: family_text_def)

lemma tunnel_want:
  "desired_routes wg_ports (tunnel_desired Map.empty) =
     Inr [(route_line (tunnel_route False), wg_route False), (route_line (tunnel_route True), (wg_route True)\<lparr>nr_priority := 0\<rparr>)]"
  by (simp add: desired_routes_def tunnel_renders tunnel_lines family_texts desired_route_def Let_def wg_ports_def wg_route_def RTPROT_STATIC_def RTN_UNICAST_def)

lemma tunnel_diffs:
  "apply_kernel plain_netlink wg_ports (\<lambda>ks. ks) (tunnel_desired Map.empty) no_kernel =
     program_kernel plain_netlink (tunnel_desired Map.empty)
       ([wg_route False, (wg_route True)\<lparr>nr_priority := 0\<rparr>], []) (nk_rules tunnel_kernel, []) no_kernel"
proof -
  have h: "current_routes plain_netlink wg_ports no_kernel = Inr []" "current_rules plain_netlink no_kernel = Inr []"
    by (simp_all add: current_routes_def current_rules_def both_families_def plain_netlink_def no_kernel_def keyed_def)
  show ?thesis
    by (simp add: apply_kernel_def h tunnel_want diff_objects_def missing_from_def desired_rules_def tunnel_renders tunnel_lines
        family_texts tunnel_kernel_def desired_rule_def)
qed

lemma plain_sysctls:
  "pg_error (fold (set_sysctl plain_netlink) ss p) = pg_error p \<and>
     set (pg_seen p) \<subseteq> set (pg_seen (fold (set_sysctl plain_netlink) ss p))"
proof (induction ss arbitrary: p)
  case (Cons s ss)
  have "pg_error (set_sysctl plain_netlink s p) = pg_error p \<and> set (pg_seen p) \<subseteq> set (pg_seen (set_sysctl plain_netlink s p))"
    by (auto simp: set_sysctl_def run_step_def plain_netlink_def)
  then show ?case using Cons.IH [of "set_sysctl plain_netlink s p"] by auto
qed simp

lemma plain_ops:
  "route_replace plain_netlink r k =
     Inr (k\<lparr>nk_routes := r\<lparr>nr_priority := metric_of r\<rparr> # filter (\<lambda>x. \<not> (is_default x \<and> same_place x r)) (nk_routes k)\<rparr>)"
  "rule_add plain_netlink u k =
     (if u \<in> set (nk_rules k) then Inl (Os ''file exists'') else Inr (k\<lparr>nk_rules := u # nk_rules k\<rparr>))"
  "write_class plain_netlink t k = Inr (k\<lparr>nk_class := t\<rparr>)" "write_stat plain_netlink s k = Inr (k\<lparr>nk_stat := s\<rparr>)"
  by (simp_all add: plain_netlink_def)

lemma tunnel_run:
  assumes "p = apply_kernel plain_netlink wg_ports (\<lambda>ks. ks) (tunnel_desired Map.empty) no_kernel"
  shows "pg_error p = None" "no_kernel\<lparr>nk_routes := [wg_route False]\<rparr> \<in> set (pg_seen p)"
proof -
  let ?q = "fold (set_sysctl plain_netlink) (gd_sysctls (tunnel_desired Map.empty))"
  have q: "pg_error (?q p) = pg_error p" "k \<in> set (pg_seen p) \<Longrightarrow> k \<in> set (pg_seen (?q p))" for p k
    using plain_sysctls by blast+
  have "pg_error p = None \<and> no_kernel\<lparr>nk_routes := [wg_route False]\<rparr> \<in> set (pg_seen p)"
    unfolding assms tunnel_diffs program_kernel_def Let_def q(1)
    by (intro conjI q(2))
      (simp_all add: step_unless_nil_def run_step_def plain_ops no_kernel_def wg_route_def metric_of_def same_place_def is_default_def
        tunnel_kernel_def desired_rule_def local_rule_def slot_rule_def)
  then show "pg_error p = None" "no_kernel\<lparr>nk_routes := [wg_route False]\<rparr> \<in> set (pg_seen p)" by simp_all
qed

text \<open>
  A metric left out stands for any when a route is deleted. So when the interface of a SOCKS exit comes
  back, removing the stale unreachable route takes the fallback that was just added.
\<close>

lemma fallback_lost:
  assumes "gd_sysctls d = []"
    and "fallback = \<lparr>nr_table = 8101, nr_v6 = False, nr_ones = Some 0, nr_protocol = 4, nr_type = 7, nr_gw = None, nr_link = 0, nr_priority = 100\<rparr>"
    and "stale = fallback\<lparr>nr_priority := 0\<rparr>"
    and "p = program_kernel plain_netlink d ([wg_route False, fallback], [stale]) ([], []) (no_kernel\<lparr>nk_routes := [stale]\<rparr>)"
  shows "pg_error p = None \<and> nk_routes (pg_kernel p) = [wg_route False]"
  unfolding assms(4) program_kernel_def Let_def assms(1)
  by (simp add: step_unless_nil_def run_step_def plain_ops no_kernel_def wg_route_def metric_of_def same_place_def is_default_def
      assms(2,3) deletes_def owned_route_def owns_table_def Base_def MaxExitSlot_def plain_netlink_def)

lemma no_kernel_order: "in_order ps no_kernel" "metrics_apart ps d no_kernel"
  by (simp_all add: in_order_def metrics_apart_def rules_ours_def places_distinct_def kernel_routes_def kernel_rules_def
      owned_routes_def owned_rules_def no_kernel_def)

text \<open>The tunnel coming up is one change the steps are proved for.\<close>

lemma tunnel_differences:
  "differences wg_ports (tunnel_desired Map.empty) no_kernel ([wg_route False, (wg_route True)\<lparr>nr_priority := 0\<rparr>], [])
     (nk_rules tunnel_kernel, [])"
proof -
  have s: "seen_route wg_ports (wg_route False) = unnamed_route (tunnel_route False)"
    "seen_route wg_ports ((wg_route True)\<lparr>nr_priority := 0\<rparr>) = unnamed_route (tunnel_route True)"
    "owned_route (wg_route False)" "owned_route ((wg_route True)\<lparr>nr_priority := 0\<rparr>)"
    by (simp_all add: wg_route_def owned_route_def owns_table_def is_default_def Base_def MaxExitSlot_def seen_route_def
        read_metric_def RTN_UNREACHABLE_def wg_ports_def)
  have r: "set (nk_rules tunnel_kernel) = desired_rule ` set (gd_rules (tunnel_desired Map.empty))"
    by (simp add: tunnel_kernel_def tunnel_renders desired_rule_def)
  have u: "unnamed ` set (gd_rules (tunnel_desired Map.empty)) \<subseteq> seen_rule ` set (nk_rules tunnel_kernel)"
    using our_desired_rule [OF rendered_complete [OF refl tunnel_facts, of Map.empty, folded tunnel_desired_def]] unfolding r by force
  have e: "owned_routes no_kernel = []" "owned_rules no_kernel = []" by (simp_all add: owned_routes_def owned_rules_def no_kernel_def)
  show ?thesis unfolding differences_def using s u r e by (auto simp: tunnel_renders(1) wg_route_def kernel_routes_def)
qed

interpretation tunnel_up: kernel_change plain_netlink wg_ports "tunnel_desired Map.empty" no_kernel
    "([wg_route False, (wg_route True)\<lparr>nr_priority := 0\<rparr>], [])" "(nk_rules tunnel_kernel, [])"
  by unfold_locales
    (rule no_kernel_order(1), rule rendered_complete [OF refl tunnel_facts, folded tunnel_desired_def], rule tunnel_differences)

lemma tunnel_seen:
  "owned_routes tunnel_kernel = [wg_route False, wg_route True]"
  "seen_route wg_ports (wg_route v6) = unnamed_route (tunnel_route v6)"
  by (simp_all add: owned_routes_def tunnel_kernel_def wg_route_def owned_route_def owns_table_def is_default_def Base_def MaxExitSlot_def
      seen_route_def read_metric_def RTN_UNREACHABLE_def wg_ports_def)

lemma tunnel_order: "in_order wg_ports tunnel_kernel"
proof -
  let ?us = "[local_rule False, local_rule True, slot_rule 1 False, slot_rule 1 True]"
  have s: "seen_rule (desired_rule u) = u \<and> our_rule u \<and> owns_priority (nu_priority (desired_rule u))" if "u \<in> set ?us" for u
  proof -
    have o: "our_rule u" using that by (auto simp: our_rule_def exit_slot_valid_def MaxExitSlot_def)
    moreover have "unnamed u = u" using that by (auto simp: local_rule_def slot_rule_def)
    ultimately show ?thesis using seen_desired_rule [of u] that
      by (auto simp: owns_priority_def desired_rule_def LocalPriority_def MaxExitSlot_def)
  qed
  have r: "set (owned_rules tunnel_kernel) = desired_rule ` set ?us"
    using s by (auto simp: set_both tunnel_kernel_def)
  have k: "set (kernel_rules tunnel_kernel) = set ?us" unfolding kernel_rules_def using r s by (auto simp: image_iff)
  have t: "kernel_routes wg_ports tunnel_kernel = [unnamed_route (tunnel_route False), unnamed_route (tunnel_route True)]"
    by (simp add: kernel_routes_def tunnel_seen)
  show ?thesis unfolding in_order_def rules_ours_def places_distinct_def tunnel_seen t k r
    using s by (auto simp: same_place_def wg_route_def told_route_def first_route_def in_table_def Base_def)
qed

lemma tunnel_apart: "metrics_apart wg_ports (tunnel_desired [''vpn'' \<mapsto> False]) tunnel_kernel"
  by (auto simp: metrics_apart_def tunnel_seen kernel_routes_def tunnel_renders)

theorem applied_exactly_witness:
  "let p = apply_kernel plain_netlink wg_ports (\<lambda>ks. ks) (tunnel_desired Map.empty) no_kernel
   in pg_error p = None \<and>
     set (kernel_routes wg_ports (pg_kernel p)) = {unnamed_route (tunnel_route False), unnamed_route (tunnel_route True)}"
  using applied_exactly [OF plain.netlink_kernel_axioms wg_ports_ok _ no_kernel_order(1) refl tunnel_facts
      tunnel_desired_def [of Map.empty] no_kernel_order(2) refl tunnel_run(1) [OF refl]] tunnel_run(1) [OF refl]
  by (simp add: Let_def tunnel_renders)

theorem replaced_route_fails_witness:
  "pg_error (apply_kernel plain_netlink wg_ports (\<lambda>ks. ks) (tunnel_desired [''vpn'' \<mapsto> False]) tunnel_kernel) \<noteq> None"
  by (rule replaced_route_fails [OF plain.netlink_kernel_axioms wg_ports_ok _ tunnel_order refl tunnel_facts
        tunnel_desired_def tunnel_apart, where x = "unnamed_route (tunnel_route False)" and t = "tunnel_down False"])
    (simp_all add: kernel_routes_def tunnel_seen tunnel_renders same_spot_def in_table_def)

end
