(* ===== verification/ExitValidate.thy ===== *)
theory ExitValidate
  imports NatValidate ExitChange
begin

text \<open>
  \<open>internal/gateway/validate.go\<close>, with \<open>validateDestinations\<close> of \<open>destination.go\<close> and
  \<open>validateCustomSites\<close> of \<open>latency_custom.go\<close>: what has to hold of the exits before anything is written.
  A problem is where it is and what is wrong; the sentence shown to the operator is left out. What
  a valid configuration guarantees, and what it does not.
\<close>

section \<open>Problems\<close>

datatype exit_field =
    XName | XSlot | XVia | XViaKind | XViaInterface | XViaNextHop | XViaDev | XDns | XDnsMode | XDnsServer
  | XIPv6 | XOnFailure | XSnat | XProbe | XProbeTarget | XProbeInterval | XProbeTimeout

datatype row_field = RowAll | RowKey | RowExit

datatype gw_place =
    LatencyTargetP | LatencySitesP | LatencyCommonP | DefaultP
  | ExitP nat exit_field | InterfaceP nat row_field | DeviceP nat row_field | DestinationP nat row_field

datatype sites_problem =
    TooManySites | SiteName | SiteIcon string | DuplicateSite string | SiteURL string

datatype site_message =
    UnlistedTarget | BadSites sites_problem | UnknownSiteExit string string | NotCommonSite string | DuplicateCommonSite string

datatype exit_message =
    ExitNeedsName | ExitNameTooLong nat | ExitControlChar nat | ExitTwice string nat
  | ExitNoSlot | ExitSlotOutside int | ExitSlotTaken int nat

datatype dns_message =
    BlockedResolves | OlrTakesNoServer | ExitDnsNeedsHop | ExitDnsTakesNoServer | ExitDnsIPv6 | ExitDnsLoops
  | CustomDnsServer | CustomDnsLoops addr | UnknownDnsMode string

datatype mode_message =
    UnknownIPv6 string | UnknownFailure string | SocksIPv6 | SocksDirect | FailsOpen string | SnatIgnored string | IPv6Bypasses string

datatype via_message =
    NeedsForm | UnknownForm string | NeedsInterfaceName | InterfaceUnknownYet string | TakesNoHop | NamesNoDev | NamesNoInterface
  | BlockedTakesNothing

datatype hop_message =
    NeedsHop | HopInvalid | HopUnspecified | HopLoopback addr
  | DevUnknown string | DevNotAdopted string | HopNotOnDev addr string | HopUnreachable addr

datatype probe_message =
    NeverChecked string | BlockedNeverDown | ProbeNeedsTarget | TargetPort addr | TargetHere addr
  | TooOften int | Overlapping int int | NegativeCounts

datatype row_message =
    BadDeviceMAC string | NotEthernet | UnknownExit string | NoSourcePrefix
  | NeedsNetwork | RowTwice string nat | RowUnknown string | RowNotAdopted string
  | RowNoAddresses string | RowDown string | BadDestination string | DuplicateDestination prefix

datatype gw_message =
    SiteM site_message | ExitM exit_message | DnsM dns_message | ModeM mode_message | ViaM via_message | HopM hop_message
  | ProbeM probe_message | RowM row_message

type_synonym gw_problem = "gw_place \<times> gw_message"

record gw_result =
  gr_errors :: "gw_problem list"
  gr_warnings :: "gw_problem list"

definition gw_ok :: "gw_result \<Rightarrow> bool" where
  "gw_ok r = (gr_errors r = [])"

definition nothing :: gw_result where "nothing = \<lparr>gr_errors = [], gr_warnings = []\<rparr>"
definition err :: "gw_place \<Rightarrow> gw_message \<Rightarrow> gw_result" where "err p m = \<lparr>gr_errors = [(p, m)], gr_warnings = []\<rparr>"
definition warn :: "gw_place \<Rightarrow> gw_message \<Rightarrow> gw_result" where "warn p m = \<lparr>gr_errors = [], gr_warnings = [(p, m)]\<rparr>"

definition gw_also :: "gw_result \<Rightarrow> gw_result \<Rightarrow> gw_result" where
  "gw_also a b = \<lparr>gr_errors = gr_errors a @ gr_errors b, gr_warnings = gr_warnings a @ gr_warnings b\<rparr>"

definition gw_all :: "gw_result list \<Rightarrow> gw_result" where
  "gw_all rs = foldr gw_also rs nothing"

definition only_if :: "bool \<Rightarrow> gw_result \<Rightarrow> gw_result" where
  "only_if b r = (if b then r else nothing)"

lemma gr_errors_simps [simp]:
  "gr_errors nothing = []" "gr_errors (err p m) = [(p, m)]" "gr_errors (warn p m) = []"
  "gr_errors (gw_also a b) = gr_errors a @ gr_errors b"
  by (simp_all add: nothing_def err_def warn_def gw_also_def)

lemma gr_errors_all [simp]: "gr_errors (gw_all rs) = concat (map gr_errors rs)"
  by (induction rs) (simp_all add: gw_all_def)

lemma gr_errors_only_if [simp]: "gr_errors (only_if b r) = [] \<longleftrightarrow> b \<longrightarrow> gr_errors r = []"
  by (simp add: only_if_def)

section \<open>Latency sites\<close>

text \<open>
  What the standard library says of a URL (it parses, is HTTPS, has a host and neither credentials,
  port nor fragment), of the bytes of an image of a MIME type, and of case.
\<close>

record web =
  web_url :: "string \<Rightarrow> bool"
  web_image :: "string \<Rightarrow> string \<Rightarrow> bool"
  web_lower :: "string \<Rightarrow> string"

definition svg_slug :: "string \<Rightarrow> bool" where
  "svg_slug s =
     (let word = (\<lambda>c. CHR ''a'' \<le> c \<and> c \<le> CHR ''z'' \<or> CHR ''0'' \<le> c \<and> c \<le> CHR ''9'')
      in s \<noteq> [] \<and> word (hd s) \<and> length s \<le> 80 \<and> list_all (\<lambda>c. word c \<or> c = CHR ''-'') s)"

fun image_of :: "web \<Rightarrow> string \<Rightarrow> string list \<Rightarrow> bool" where
  "image_of w icon [] = False"
| "image_of w icon (mime # ms) =
     (let p = ''data:'' @ mime @ '';base64,''
      in if starts_with p icon then \<not> length icon > 130000 \<and> web_image w mime (drop (length p) icon)
         else image_of w icon ms)"

definition icon_ok :: "web \<Rightarrow> string \<Rightarrow> bool" where
  "icon_ok w icon =
     (if icon = [] then True
      else if starts_with ''thesvg:'' icon then svg_slug (drop (length ''thesvg:'') icon)
      else image_of w icon [''image/png'', ''image/jpeg'', ''image/webp''])"

definition maxCustomLatencySites :: nat where "maxCustomLatencySites = 20"

fun check_sites :: "web \<Rightarrow> string list \<Rightarrow> latency_site list \<Rightarrow> sites_problem option" where
  "check_sites w names [] = None"
| "check_sites w names (s # ss) =
     (let name = trim_space (ls_name s)
      in if name = [] \<or> length name > 40 then Some SiteName
         else if \<not> icon_ok w (ls_icon s) then Some (SiteIcon name)
         else if web_lower w name \<in> set names then Some (DuplicateSite name)
         else if \<not> web_url w (ls_url s) then Some (SiteURL name)
         else check_sites w (web_lower w name # names) ss)"

definition validate_custom_sites :: "web \<Rightarrow> latency_site list \<Rightarrow> sites_problem option" where
  "validate_custom_sites w ss = (if length ss > maxCustomLatencySites then Some TooManySites else check_sites w [] ss)"

definition latency_targets :: "string list" where
  "latency_targets = [''https://www.google.com/generate_204'', ''https://www.baidu.com/'', ''https://ya.ru/'',
     ''https://speed.cloudflare.com/__down?bytes=0'']"

definition valid_latency_target :: "string \<Rightarrow> bool" where
  "valid_latency_target t = (t = [] \<or> t \<in> set latency_targets)"

definition has_exit :: "gateway \<Rightarrow> string \<Rightarrow> bool" where
  "has_exit c name = (find_exit c name \<noteq> None)"

fun validate_common :: "gateway \<Rightarrow> string list \<Rightarrow> assignment list \<Rightarrow> gw_result" where
  "validate_common c seen [] = nothing"
| "validate_common c seen (a # as) =
     (if as_key a \<notin> set latency_catalog then gw_also (err LatencyCommonP (SiteM (NotCommonSite (as_key a)))) (validate_common c seen as)
      else if as_key a \<in> set seen then gw_also (err LatencyCommonP (SiteM (DuplicateCommonSite (as_key a)))) (validate_common c seen as)
      else gw_also (only_if (as_exit a \<noteq> [] \<and> \<not> has_exit c (as_exit a)) (err LatencyCommonP (SiteM (UnknownSiteExit (as_key a) (as_exit a)))))
             (validate_common c (as_key a # seen) as))"

definition validate_latency :: "web \<Rightarrow> gateway \<Rightarrow> gw_result" where
  "validate_latency w c = gw_all
     [only_if (\<not> valid_latency_target (latency_target c)) (err LatencyTargetP (SiteM UnlistedTarget)),
      (case validate_custom_sites w (latency_sites c) of None \<Rightarrow> nothing | Some e \<Rightarrow> err LatencySitesP (SiteM (BadSites e))),
      gw_all (map (\<lambda>s. only_if (ls_exit s \<noteq> [] \<and> \<not> has_exit c (ls_exit s)) (err LatencySitesP (SiteM (UnknownSiteExit (ls_name s) (ls_exit s)))))
        (latency_sites c)),
      validate_common c [] (latency_common c)]"

section \<open>Devices and destinations\<close>

definition any_source :: "link_view \<Rightarrow> bool" where
  "any_source links = (case all_links links of None \<Rightarrow> False | Some ls \<Rightarrow> list_ex (\<lambda>l. l_adopted l \<and> l_prefixes l \<noteq> []) ls)"

fun device_mac :: "nat \<Rightarrow> assignment \<Rightarrow> (string \<times> nat) list \<Rightarrow> gw_result \<times> (string \<times> nat) list" where
  "device_mac i a seen =
     (case normalize_mac (as_key a) of
        None \<Rightarrow> (err (DeviceP i RowKey) (RowM (BadDeviceMAC (as_key a))), seen)
      | Some m \<Rightarrow>
          if length (split_on CHR '':'' m) \<noteq> 6 then (err (DeviceP i RowKey) (RowM NotEthernet), seen)
          else (case map_of seen m of
                  Some first \<Rightarrow> (err (DeviceP i RowKey) (RowM (RowTwice m first)), seen)
                | None \<Rightarrow> (nothing, (m, i) # seen)))"

fun validate_devices :: "gateway \<Rightarrow> bool \<Rightarrow> nat \<Rightarrow> (string \<times> nat) list \<Rightarrow> assignment list \<Rightarrow> gw_result" where
  "validate_devices c usable i seen [] = nothing"
| "validate_devices c usable i seen (a # as) =
     (let (r, seen') = device_mac i a seen
      in gw_all [r, only_if (as_exit a \<noteq> [] \<and> \<not> has_exit c (as_exit a)) (err (DeviceP i RowExit) (RowM (UnknownExit (as_exit a)))),
           only_if (\<not> usable) (warn (DeviceP i RowAll) (RowM NoSourcePrefix)), validate_devices c usable (Suc i) seen' as])"

fun validate_destinations :: "gateway \<Rightarrow> nat \<Rightarrow> prefix list \<Rightarrow> assignment list \<Rightarrow> gw_result" where
  "validate_destinations c i seen [] = nothing"
| "validate_destinations c i seen (a # as) =
     (let (r, seen') = (case destination_prefix (as_key a) of
            None \<Rightarrow> (err (DestinationP i RowKey) (RowM (BadDestination (as_key a))), seen)
          | Some p \<Rightarrow> (only_if (p \<in> set seen) (err (DestinationP i RowKey) (RowM (DuplicateDestination p))), p # seen))
      in gw_all [r, only_if (\<not> has_exit c (as_exit a) \<or> as_exit a = []) (err (DestinationP i RowExit) (RowM (UnknownExit (as_exit a)))),
           validate_destinations c (Suc i) seen' as])"


section \<open>Exits\<close>

definition here_or_nowhere :: "addr \<Rightarrow> bool" where
  "here_or_nowhere a = (is_unspecified a \<or> is_loopback a)"

text \<open>The two maps are from a name or a slot to the exit that has it.\<close>

definition validate_exit_name :: "nat \<Rightarrow> exit \<Rightarrow> (string \<times> nat) list \<Rightarrow> gw_result \<times> (string \<times> nat) list" where
  "validate_exit_name i e seen =
     (if ex_name e = [] then (err (ExitP i XName) (ExitM ExitNeedsName), seen)
      else if length (runes (ex_name e)) > MaxNameLen
      then (err (ExitP i XName) (ExitM (ExitNameTooLong (length (runes (ex_name e))))), seen)
      else (let r = (case has_control_char (ex_name e) of None \<Rightarrow> nothing | Some b \<Rightarrow> err (ExitP i XName) (ExitM (ExitControlChar b)))
            in case map_of seen (ex_name e) of
                 Some first \<Rightarrow> (gw_also r (err (ExitP i XName) (ExitM (ExitTwice (ex_name e) first))), seen)
               | None \<Rightarrow> (r, (ex_name e, i) # seen)))"

definition validate_exit_slot :: "nat \<Rightarrow> exit \<Rightarrow> (int \<times> nat) list \<Rightarrow> gw_result \<times> (int \<times> nat) list" where
  "validate_exit_slot i e slots =
     (if ex_slot e = 0 then (err (ExitP i XSlot) (ExitM ExitNoSlot), slots)
      else if \<not> exit_slot_valid (ex_slot e) then (err (ExitP i XSlot) (ExitM (ExitSlotOutside (ex_slot e))), slots)
      else (case map_of slots (ex_slot e) of
              Some first \<Rightarrow> (err (ExitP i XSlot) (ExitM (ExitSlotTaken (ex_slot e) first)), slots)
            | None \<Rightarrow> (nothing, (ex_slot e, i) # slots)))"

definition validate_reachable :: "nat \<Rightarrow> exit \<Rightarrow> link_view \<Rightarrow> addr \<Rightarrow> gw_result" where
  "validate_reachable i e links hop =
     (let dev = vs_dev (ex_via e)
      in if dev \<noteq> [] then
           (case lookup_link links dev of
              None \<Rightarrow> err (ExitP i XViaDev) (HopM (DevUnknown dev))
            | Some l \<Rightarrow> gw_all
                [only_if (\<not> l_adopted l) (err (ExitP i XViaDev) (HopM (DevNotAdopted dev))),
                 only_if (\<not> link_contains l hop) (err (ExitP i XViaNextHop) (HopM (HopNotOnDev hop dev)))])
         else only_if (interface_containing links hop = None) (err (ExitP i XViaNextHop) (HopM (HopUnreachable hop))))"

definition validate_hop :: "nat \<Rightarrow> exit \<Rightarrow> link_view \<Rightarrow> gw_result" where
  "validate_hop i e links =
     (case vs_next_hop (ex_via e) of
        None \<Rightarrow> err (ExitP i XViaNextHop) (HopM NeedsHop)
      | Some hop \<Rightarrow>
          if \<not> is_valid hop then err (ExitP i XViaNextHop) (HopM HopInvalid)
          else if is_unspecified hop then err (ExitP i XViaNextHop) (HopM HopUnspecified)
          else if is_loopback hop then err (ExitP i XViaNextHop) (HopM (HopLoopback hop))
          else validate_reachable i e links hop)"

definition validate_via :: "nat \<Rightarrow> exit \<Rightarrow> link_view \<Rightarrow> gw_result" where
  "validate_via i e links =
     (let v = ex_via e
      in if vs_kind v \<notin> set ViaKinds
         then err (ExitP i XViaKind) (ViaM (if vs_kind v = [] then NeedsForm else UnknownForm (vs_kind v)))
         else if vs_kind v = ViaInterface then gw_all
           [if vs_interface v = [] then err (ExitP i XViaInterface) (ViaM NeedsInterfaceName)
            else only_if (lookup_link links (vs_interface v) = None \<and> vs_interface v \<noteq> socks_interface)
              (warn (ExitP i XViaInterface) (ViaM (InterfaceUnknownYet (vs_interface v)))),
            only_if (vs_next_hop v \<noteq> None) (err (ExitP i XViaNextHop) (ViaM TakesNoHop)),
            only_if (vs_dev v \<noteq> []) (err (ExitP i XViaDev) (ViaM NamesNoDev))]
         else if vs_kind v = ViaNextHop then gw_all
           [validate_hop i e links,
            only_if (vs_interface v \<noteq> []) (err (ExitP i XViaInterface) (ViaM NamesNoInterface))]
         else only_if (vs_interface v \<noteq> [] \<or> vs_next_hop v \<noteq> None \<or> vs_dev v \<noteq> []) (err (ExitP i XVia) (ViaM BlockedTakesNothing)))"

text \<open>One problem for every prefix of the router with that address.\<close>

definition own_prefixes :: "link_view \<Rightarrow> addr \<Rightarrow> prefix list" where
  "own_prefixes links a =
     (case all_links links of None \<Rightarrow> [] | Some ls \<Rightarrow> concat (map (\<lambda>l. filter (\<lambda>p. paddr p = a) (l_prefixes l)) ls))"

definition validate_dns :: "nat \<Rightarrow> exit \<Rightarrow> exit_dns \<Rightarrow> link_view \<Rightarrow> gw_result" where
  "validate_dns i e d links = gw_all
     [only_if (vs_kind (ex_via e) = ViaBlocked) (err (ExitP i XDns) (DnsM BlockedResolves)),
      (let server = fst (xd_server d); hop = vs_next_hop (ex_via e)
       in if xd_mode d = ''olr'' then only_if (is_valid server) (err (ExitP i XDnsServer) (DnsM OlrTakesNoServer))
          else if xd_mode d = ''exit'' then gw_all
            [only_if (vs_kind (ex_via e) \<noteq> ViaNextHop) (err (ExitP i XDnsMode) (DnsM ExitDnsNeedsHop)),
             only_if (is_valid server) (err (ExitP i XDnsServer) (DnsM ExitDnsTakesNoServer)),
             (case hop of None \<Rightarrow> nothing | Some h \<Rightarrow> only_if (is6 h) (err (ExitP i XDnsMode) (DnsM ExitDnsIPv6))),
             (case hop of None \<Rightarrow> nothing | Some h \<Rightarrow>
                gw_all (map (\<lambda>p. err (ExitP i XDnsMode) (DnsM ExitDnsLoops)) (own_prefixes links h)))]
          else if xd_mode d = ''custom'' then
            (if \<not> is_valid server \<or> snd (xd_server d) = 0 \<or> is_unspecified server \<or> is_multicast server \<or> is_loopback server \<or> is6 server
             then err (ExitP i XDnsServer) (DnsM CustomDnsServer)
             else gw_all (map (\<lambda>p. err (ExitP i XDnsServer) (DnsM (CustomDnsLoops server))) (own_prefixes links server)))
          else err (ExitP i XDnsMode) (DnsM (UnknownDnsMode (xd_mode d))))]"

definition validate_modes :: "nat \<Rightarrow> exit \<Rightarrow> gateway \<Rightarrow> gw_result" where
  "validate_modes i e c =
     (let direct = (failure_or_default (ex_on_failure e) = FailDirect)
      in gw_all
        [only_if (\<not> (ex_ipv6 e = [] \<or> ex_ipv6 e \<in> set IPv6Modes)) (err (ExitP i XIPv6) (ModeM (UnknownIPv6 (ex_ipv6 e)))),
         only_if (\<not> (ex_on_failure e = [] \<or> ex_on_failure e \<in> set FailureModes))
           (err (ExitP i XOnFailure) (ModeM (UnknownFailure (ex_on_failure e)))),
         only_if (is_socks e \<and> ipv6_or_default e = IPv6Direct) (err (ExitP i XIPv6) (ModeM SocksIPv6)),
         only_if (is_socks e \<and> direct) (err (ExitP i XOnFailure) (ModeM SocksDirect)),
         only_if (direct \<and> in_use c (ex_name e)) (warn (ExitP i XOnFailure) (ModeM (FailsOpen (ex_name e)))),
         only_if (ex_snat e \<noteq> None \<and> vs_kind (ex_via e) \<noteq> ViaNextHop)
           (warn (ExitP i XSnat) (ModeM (SnatIgnored (vs_kind (ex_via e)))))])"

definition MinProbeInterval :: int where "MinProbeInterval = 1000000000"

definition validate_probe :: "nat \<Rightarrow> exit \<Rightarrow> gateway \<Rightarrow> gw_result" where
  "validate_probe i e c =
     (case ex_probe e of
        None \<Rightarrow> only_if (in_use c (ex_name e) \<and> vs_kind (ex_via e) \<noteq> ViaBlocked) (warn (ExitP i XProbe) (ProbeM (NeverChecked (ex_name e))))
      | Some p \<Rightarrow>
          (let target = fst (pb_target p); r = probe_resolved p
           in gw_also
             (only_if (vs_kind (ex_via e) = ViaBlocked) (warn (ExitP i XProbe) (ProbeM BlockedNeverDown)))
             (if \<not> is_valid target then err (ExitP i XProbeTarget) (ProbeM ProbeNeedsTarget)
              else gw_all
                [only_if (snd (pb_target p) = 0) (err (ExitP i XProbeTarget) (ProbeM (TargetPort target))),
                 only_if (here_or_nowhere target) (err (ExitP i XProbeTarget) (ProbeM (TargetHere target))),
                 only_if (pb_interval p \<noteq> 0 \<and> pb_interval r < MinProbeInterval)
                   (err (ExitP i XProbeInterval) (ProbeM (TooOften (pb_interval r)))),
                 only_if (pb_timeout r \<ge> pb_interval r)
                   (err (ExitP i XProbeTimeout) (ProbeM (Overlapping (pb_timeout r) (pb_interval r)))),
                 only_if (pb_failures p < 0 \<or> pb_successes p < 0) (err (ExitP i XProbe) (ProbeM NegativeCounts))])))"

definition validate_ipv6 :: "nat \<Rightarrow> exit \<Rightarrow> gw_result" where
  "validate_ipv6 i e =
     only_if (vs_kind (ex_via e) \<noteq> ViaBlocked \<and> ipv6_or_default e = IPv6Direct) (warn (ExitP i XIPv6) (ModeM (IPv6Bypasses (ex_name e))))"

fun validate_exits :: "gateway \<Rightarrow> link_view \<Rightarrow> nat \<Rightarrow> (string \<times> nat) list \<Rightarrow> (int \<times> nat) list \<Rightarrow> exit list \<Rightarrow> gw_result" where
  "validate_exits c links i seen slots [] = nothing"
| "validate_exits c links i seen slots (e # es) =
     (let (r1, seen') = validate_exit_name i e seen;
          (r2, slots') = validate_exit_slot i e slots
      in gw_all [r1, r2, validate_via i e links,
           (case ex_dns e of None \<Rightarrow> nothing | Some d \<Rightarrow> validate_dns i e d links),
           validate_modes i e c, validate_probe i e c, validate_ipv6 i e,
           validate_exits c links (Suc i) seen' slots' es])"

section \<open>Networks and the whole\<close>

definition validate_default :: "gateway \<Rightarrow> gw_result" where
  "validate_default c =
     only_if (gw_default c \<noteq> [] \<and> \<not> has_exit c (gw_default c)) (err DefaultP (RowM (UnknownExit (gw_default c))))"

definition row_interface :: "nat \<Rightarrow> assignment \<Rightarrow> link_view \<Rightarrow> (string \<times> nat) list \<Rightarrow> gw_result \<times> (string \<times> nat) list" where
  "row_interface i a links seen =
     (let name = as_key a; place = InterfaceP i RowKey
      in if name = [] then (err place (RowM NeedsNetwork), seen)
         else (let (r, seen') = (case map_of seen name of
                   Some first \<Rightarrow> (err place (RowM (RowTwice name first)), seen)
                 | None \<Rightarrow> (nothing, (name, i) # seen))
               in (gw_also r
                     (case lookup_link links name of
                        None \<Rightarrow> err place (RowM (RowUnknown name))
                      | Some l \<Rightarrow>
                          if \<not> l_adopted l then err place (RowM (RowNotAdopted name))
                          else if l_prefixes l = [] then err place (RowM (RowNoAddresses name))
                          else only_if (\<not> l_up l) (warn place (RowM (RowDown name)))), seen')))"

fun validate_assignments :: "gateway \<Rightarrow> link_view \<Rightarrow> nat \<Rightarrow> (string \<times> nat) list \<Rightarrow> assignment list \<Rightarrow> gw_result" where
  "validate_assignments c links i seen [] = nothing"
| "validate_assignments c links i seen (a # as) =
     (let (r, seen') = row_interface i a links seen
      in gw_all [r, only_if (as_exit a \<noteq> [] \<and> \<not> has_exit c (as_exit a)) (err (InterfaceP i RowExit) (RowM (UnknownExit (as_exit a)))),
           validate_assignments c links (Suc i) seen' as])"

definition validate_gateway :: "web \<Rightarrow> gateway \<Rightarrow> link_view \<Rightarrow> gw_result" where
  "validate_gateway w c links = gw_all
     [validate_latency w c, validate_exits c links 0 [] [] (exits c), validate_default c,
      validate_assignments c links 0 [] (interfaces c), validate_devices c (any_source links) 0 [] (devices c),
      validate_destinations c 0 [] (destinations c)]"


section \<open>What a valid configuration guarantees\<close>

lemma validate_exit_name_ok:
  assumes "validate_exit_name i e seen = (r, seen')" and "gr_errors r = []"
  shows "ex_name e \<noteq> [] \<and> length (runes (ex_name e)) \<le> MaxNameLen \<and> has_control_char (ex_name e) = None \<and>
    ex_name e \<notin> fst ` set seen \<and> fst ` set seen' = insert (ex_name e) (fst ` set seen)"
  using assms by (auto simp: validate_exit_name_def Let_def map_of_eq_None_iff split: if_splits option.splits)

lemma validate_exit_slot_ok:
  assumes "validate_exit_slot i e slots = (r, slots')" and "gr_errors r = []"
  shows "exit_slot_valid (ex_slot e) \<and> ex_slot e \<notin> fst ` set slots \<and> fst ` set slots' = insert (ex_slot e) (fst ` set slots)"
  using assms by (auto simp: validate_exit_slot_def map_of_eq_None_iff split: if_splits option.splits)

text \<open>One exit of a valid configuration.\<close>

definition checked_exit :: "gateway \<Rightarrow> link_view \<Rightarrow> exit \<Rightarrow> bool" where
  "checked_exit c links e \<longleftrightarrow> ex_name e \<noteq> [] \<and> has_control_char (ex_name e) = None \<and> exit_slot_valid (ex_slot e) \<and>
     (\<exists>i. gr_errors (validate_via i e links) = [] \<and> gr_errors (validate_modes i e c) = [] \<and> gr_errors (validate_probe i e c) = [] \<and>
        (\<forall>d. ex_dns e = Some d \<longrightarrow> gr_errors (validate_dns i e d links) = []))"

lemma validate_exits_ok:
  assumes "gr_errors (validate_exits c links i seen slots es) = []"
  shows "(\<forall>e \<in> set es. checked_exit c links e) \<and> distinct (map ex_name es) \<and> distinct (map ex_slot es) \<and>
    ex_name ` set es \<inter> fst ` set seen = {} \<and> ex_slot ` set es \<inter> fst ` set slots = {}"
  using assms
proof (induction c links i seen slots es rule: validate_exits.induct)
  case (2 c links i seen slots e es)
  obtain r1 seen' where n: "validate_exit_name i e seen = (r1, seen')" by fastforce
  obtain r2 slots' where s: "validate_exit_slot i e slots = (r2, slots')" by fastforce
  have e: "gr_errors r1 = []" "gr_errors r2 = []" "gr_errors (validate_via i e links) = []"
    "gr_errors (validate_modes i e c) = []" "gr_errors (validate_probe i e c) = []"
    "\<forall>d. ex_dns e = Some d \<longrightarrow> gr_errors (validate_dns i e d links) = []"
    "gr_errors (validate_exits c links (Suc i) seen' slots' es) = []"
    using "2.prems" by (simp_all add: n s split: option.splits)
  note nm = validate_exit_name_ok [OF n e(1)] and sl = validate_exit_slot_ok [OF s e(2)]
  have "checked_exit c links e" unfolding checked_exit_def using nm sl e(3-6) by blast
  then show ?case using "2.IH" [OF n [symmetric] refl s [symmetric] refl e(7)] nm sl by auto
qed simp

text \<open>
  What the kernel guarantees of its interfaces: a name is not empty and has no space in it, and no
  prefix on one covers IPv4 addresses written as IPv6.
\<close>

definition kernel_link :: "link_info \<Rightarrow> bool" where
  "kernel_link l \<longleftrightarrow> (\<forall>p \<in> set (l_prefixes l). \<forall>a. contains p a \<longrightarrow> \<not> is4in6 a)"

definition named_links :: "link_view \<Rightarrow> bool" where
  "named_links links \<longleftrightarrow>
     (\<forall>n l. lookup_link links n = Some l \<longrightarrow> n \<noteq> [] \<and> CHR '' '' \<notin> set n \<and> kernel_link l) \<and>
     (\<forall>ls. all_links links = Some ls \<longrightarrow> (\<forall>l \<in> set ls. l_name l \<noteq> [] \<and> CHR '' '' \<notin> set (l_name l) \<and> kernel_link l))"

lemma contained_plain: "kernel_link l \<Longrightarrow> link_contains l a \<Longrightarrow> plain_addr a"
proof -
  assume "kernel_link l" and "link_contains l a"
  then obtain p where "contains p a" "\<not> is4in6 a" by (auto simp: kernel_link_def link_contains_def list_ex_iff)
  then show "plain_addr a" by (cases a; cases "paddr p") (simp_all add: contains_def)
qed

lemma checked_routable:
  assumes "checked_exit c links e" and "named_links links" and "CHR '' '' \<notin> set (vs_interface (ex_via e))"
  shows "exit_routable links e"
proof -
  obtain i where v: "gr_errors (validate_via i e links) = []" using assms(1) by (auto simp: checked_exit_def)
  have "vs_interface (ex_via e) \<noteq> []" if "vs_kind (ex_via e) = ViaInterface"
    using v that by (auto simp: validate_via_def Let_def ViaKinds_def split: if_splits)
  moreover have "next_hop_dev e links \<noteq> [] \<and> CHR '' '' \<notin> set (next_hop_dev e links) \<and>
      (case vs_next_hop (ex_via e) of None \<Rightarrow> True | Some g \<Rightarrow> plain_addr g)" if k: "vs_kind (ex_via e) = ViaNextHop"
  proof -
    have "gr_errors (validate_hop i e links) = []"
      using v k by (auto simp: validate_via_def Let_def ViaKinds_def ViaNextHop_def ViaInterface_def split: if_splits)
    then obtain hop where h: "vs_next_hop (ex_via e) = Some hop" "gr_errors (validate_reachable i e links hop) = []"
      by (auto simp: validate_hop_def split: option.splits if_splits)
    show ?thesis
    proof (cases "vs_dev (ex_via e) = []")
      case True
      then obtain l where l: "interface_containing links hop = Some l"
        using h(2) by (auto simp: validate_reachable_def)
      then obtain ls where "all_links links = Some ls" "l \<in> set ls" "link_contains l hop"
        by (auto simp: interface_containing_def split: option.splits dest!: find_eq_Some)
      then show ?thesis using True h(1) l assms(2) contained_plain by (auto simp: next_hop_dev_def named_links_def)
    next
      case False
      then obtain l where "lookup_link links (vs_dev (ex_via e)) = Some l" "link_contains l hop"
        using h(2) by (auto simp: validate_reachable_def Let_def split: option.splits)
      then show ?thesis using False h(1) assms(2) contained_plain by (auto simp: next_hop_dev_def named_links_def)
    qed
  qed
  ultimately show ?thesis using assms(3) by (simp add: exit_routable_def)
qed

lemma length_normalized: "length (exits (normalize_gateway c)) = length (exits c)"
proof -
  have "length (allocate_exit_slots es) = length es" for es
    using list_all2_lengthD [OF exit_slots.rest [of es]] by simp
  then show ?thesis by (simp add: normalize_gateway_def)
qed

lemma valid_exits:
  assumes "gw_ok (validate_gateway w c links)"
  shows "(\<forall>e \<in> set (exits c). checked_exit c links e) \<and> distinct (map ex_name (exits c)) \<and> distinct (map ex_slot (exits c))"
  using validate_exits_ok [of c links 0 "[]" "[]" "exits c"] assms by (simp add: gw_ok_def validate_gateway_def)

lemma valid_few:
  assumes "gw_ok (validate_gateway w c links)"
  shows "length (exits c) \<le> 80"
proof -
  have d: "distinct (map ex_slot (exits c))" and v: "ex_slot ` set (exits c) \<subseteq> {1..80}"
    using valid_exits [OF assms] by (auto simp: checked_exit_def exit_slot_valid_def MaxExitSlot_def)
  have "length (exits c) = card (ex_slot ` set (exits c))" using distinct_card [OF d] by simp
  also have "\<dots> \<le> card {1..80 :: int}" using v by (intro card_mono) simp_all
  finally show ?thesis by simp
qed

lemma valid_complete:
  assumes "c = normalize_gateway c0" and "gw_ok (validate_gateway w c links)" and "named_links links"
    and "\<forall>e \<in> set (exits c). CHR '' '' \<notin> set (vs_interface (ex_via e))"
  shows "complete (render_gateway c links h)"
proof (rule rendered_complete [OF assms(1)])
  show "length (exits c0) \<le> 80" using valid_few [OF assms(2)] assms(1) by (simp add: length_normalized)
  show "\<forall>e \<in> set (exits c). exit_routable links e" using valid_exits [OF assms(2)] checked_routable assms(3,4) by blast
qed

end
