(* ===== verification/ExitPlan.thy ===== *)
theory ExitPlan
  imports ExitValidate NatPlan
begin

text \<open>
  \<open>internal/gateway/plan.go\<close> and \<open>apply.go\<close>, with what \<open>Observe\<close> of \<open>kernel_linux.go\<close> reads: the plan
  against the live state, its impact and reasons, and applying it: observe, validate, render, refuse,
  store, program. A request brings the outcome of everything outside: the calls to the kernel, the
  links, the health of the exits, the document store. \<open>serve\<close> is one request, \<open>serve_all\<close> a history of them.
\<close>

section \<open>Observing\<close>

record foreign_rule =
  fr_priority :: int
  fr_v6 :: bool
  fr_table :: int
  fr_selector :: string
  fr_default :: bool

text \<open>
  The rest of the machine as it is read now: our two tables line by line, which rules belong to the
  uplink's tunnel broker, how \<open>netlink\<close> prints a rule, the names of the interfaces, and the
  neighbours of each family, if they can be listed, with their state.
\<close>

record machine =
  mc_nft :: "apply_error + string list"
  mc_stat :: "apply_error + string list"
  mc_broker :: "nl_rule \<Rightarrow> bool"
  mc_text :: "nl_rule \<Rightarrow> string"
  mc_names :: "string list option"
  mc_neighbours :: "bool \<Rightarrow> (u16 \<times> byte list) list option"

record gw_observed =
  go_known :: bool
  go_lines :: "string list"
  go_sysctls :: "string \<Rightarrow> string option"
  go_foreign :: "foreign_rule list"
  go_all_redirects :: "bool option"
  go_ra_hosts :: "string list"
  go_active :: "addr list"

definition reserved_table :: "int \<Rightarrow> bool" where
  "reserved_table t = (t = 0 \<or> t = 253 \<or> t = 254 \<or> t = 255)"

definition tables_with_default :: "netlink \<Rightarrow> nl_kernel \<Rightarrow> apply_error + int list" where
  "tables_with_default nl k =
     (case both_families (route_list nl) k of Inl e \<Rightarrow> Inl e | Inr rs \<Rightarrow> Inr (map nr_table (filter is_default rs)))"

definition observe_rules :: "netlink \<Rightarrow> machine \<Rightarrow> nl_kernel \<Rightarrow> apply_error + (string list \<times> foreign_rule list)" where
  "observe_rules nl mc k =
     (case tables_with_default nl k of
        Inl e \<Rightarrow> Inl e
      | Inr defaults \<Rightarrow>
     (case both_families (rule_list nl) k of
        Inl e \<Rightarrow> Inl e
      | Inr us \<Rightarrow>
          (let us = filter (\<lambda>u. \<not> mc_broker mc u) us;
               foreign = filter (\<lambda>u. \<not> owns_priority (nu_priority u) \<and> \<not> (reserved_table (nu_table u) \<or> owns_table (nu_table u)) \<and>
                 nu_table u \<in> set defaults) us
           in Inr (map observed_rule_line (filter (\<lambda>u. owns_priority (nu_priority u)) us),
                   map (\<lambda>u. \<lparr>fr_priority = nu_priority u, fr_v6 = nu_v6 u, fr_table = nu_table u,
                             fr_selector = trim_space (mc_text mc u), fr_default = True\<rparr>) foreign))))"

definition observe_routes :: "netlink \<Rightarrow> ports \<Rightarrow> nl_kernel \<Rightarrow> apply_error + string list" where
  "observe_routes nl ps k =
     (case both_families (route_list nl) k of
        Inl e \<Rightarrow> Inl e
      | Inr rs \<Rightarrow> Inr (map (observed_route_line ps) (filter owned_route rs)))"

definition ForwardingSysctl :: string where "ForwardingSysctl = ''net.ipv4.ip_forward''"
definition IPv6ForwardingSysctl :: string where "IPv6ForwardingSysctl = ''net.ipv6.conf.all.forwarding''"
definition AccountingSysctl :: string where "AccountingSysctl = ''net.netfilter.nf_conntrack_acct''"

text \<open>Where a setting is kept: every dot of its name is a slash of its path.\<close>

definition sysctl_path :: "string \<Rightarrow> string \<Rightarrow> string" where
  "sysctl_path root key = root @ ''/proc/sys/'' @ map (\<lambda>c. if c = CHR ''.'' then CHR ''/'' else c) key"

definition read_sysctls :: "machine \<Rightarrow> nl_kernel \<Rightarrow> string \<Rightarrow> string option" where
  "read_sysctls mc k =
     (let names = (case mc_names mc of None \<Rightarrow> [] | Some ns \<Rightarrow> ns);
          keys = [ForwardingSysctl, IPv6ForwardingSysctl, AccountingSysctl]
            @ concat (map (\<lambda>n. [''net.ipv4.conf.'' @ n @ ''.send_redirects'', ''net.ipv4.conf.'' @ n @ ''.accept_redirects'',
                               ''net.ipv6.conf.'' @ n @ ''.accept_redirects'']) names)
      in (\<lambda>key. if key \<in> set keys then nk_sysctl k key else None))"

definition RTPROT_RA :: int where "RTPROT_RA = 9"

definition observe_ra_hosts :: "netlink \<Rightarrow> ports \<Rightarrow> nl_kernel \<Rightarrow> string list" where
  "observe_ra_hosts nl ps k =
     (case route_list nl k True of
        Inl e \<Rightarrow> []
      | Inr rs \<Rightarrow> sorted_keys (filter (\<lambda>n. nk_sysctl k (''net.ipv6.conf.'' @ n @ ''.accept_ra'') \<noteq> Some ''2'')
          (List.map_filter (\<lambda>r. if nr_table r = RT_TABLE_MAIN \<and> nr_protocol r = RTPROT_RA \<and> is_default r then name_of ps (nr_link r) else None) rs)))"

text \<open>\<open>NUD_REACHABLE\<close>, \<open>NUD_DELAY\<close> and \<open>NUD_PROBE\<close>.\<close>

definition observe_active :: "machine \<Rightarrow> addr list" where
  "observe_active mc = concat (map (\<lambda>v6. case mc_neighbours mc v6 of
       None \<Rightarrow> []
     | Some ns \<Rightarrow> map unmap (List.map_filter (\<lambda>(state, ip). if state AND 26 = 0 then None else addr_from_slice ip) ns)) [False, True])"

definition observe_gateway :: "netlink \<Rightarrow> ports \<Rightarrow> machine \<Rightarrow> nl_kernel \<Rightarrow> apply_error + gw_observed" where
  "observe_gateway nl ps mc k =
     (case mc_nft mc of
        Inl e \<Rightarrow> Inl e
      | Inr nft \<Rightarrow>
     (case mc_stat mc of
        Inl e \<Rightarrow> Inl e
      | Inr stat \<Rightarrow>
     (case observe_rules nl mc k of
        Inl e \<Rightarrow> Inl e
      | Inr (rules, foreign) \<Rightarrow>
     (case observe_routes nl ps k of
        Inl e \<Rightarrow> Inl e
      | Inr routes \<Rightarrow>
          Inr \<lparr>go_known = True, go_lines = nft @ stat @ rules @ routes, go_sysctls = read_sysctls mc k, go_foreign = foreign,
               go_all_redirects = map_option (\<lambda>v. v \<noteq> ''0'') (nk_sysctl k ''net.ipv4.conf.all.send_redirects''),
               go_ra_hosts = observe_ra_hosts nl ps k, go_active = observe_active mc\<rparr>))))"

section \<open>The plan\<close>

datatype gw_reason =
    MovesActive "addr list" | MovesIdle | MovesAdmin addr string string | PolicyRemoved | AllRedirects | LosesRoutes "string list"

record gw_plan =
  xp_changes :: "change list"
  xp_impact :: impact
  xp_foreign :: "foreign_rule list"
  xp_reasons :: "gw_reason list"
  xp_blocked :: "(int list \<times> int list) option"
  xp_validation :: gw_result

definition xp_empty :: "gw_plan \<Rightarrow> bool" where
  "xp_empty p = (xp_changes p = [])"

definition line_before :: "change \<Rightarrow> change \<Rightarrow> bool" where
  "line_before a b = (ch_line a \<le> ch_line b)"

definition sysctl_changes :: "gw_desired \<Rightarrow> gw_observed \<Rightarrow> change list" where
  "sysctl_changes d obs = sort_by line_before
     (map (\<lambda>(k, v). \<lparr>ch_kind = ChangeAdd, ch_line = ''sysctl '' @ k @ '' = '' @ v\<rparr>)
       (filter (\<lambda>(k, v). go_sysctls obs k \<noteq> Some v) (gd_sysctls d)))"

definition moved_paths :: "change list \<Rightarrow> change list" where
  "moved_paths cs = filter (\<lambda>c. starts_with ''route '' (ch_line c) \<or> starts_with ''rule '' (ch_line c)) cs"

definition active_users :: "gw_observed \<Rightarrow> gw_desired \<Rightarrow> addr list" where
  "active_users obs d =
     (let sources = map sr_prefix (gd_sources d) @ map sr_prefix (gd_destinations d)
      in sort_by addr_le (filter (\<lambda>a. list_ex (\<lambda>p. contains p a) sources) (go_active obs)))"

definition admin_affected :: "gw_desired \<Rightarrow> addr \<Rightarrow> (string \<times> string) option" where
  "admin_affected d admin = map_option (\<lambda>s. (sr_exit s, sr_interface s)) (find (\<lambda>s. contains (sr_prefix s) admin) (gd_sources d))"

definition ipv6_forwarding_turns_on :: "gw_desired \<Rightarrow> gw_observed \<Rightarrow> bool" where
  "ipv6_forwarding_turns_on d obs =
     (list_ex (\<lambda>(k, v). k = IPv6ForwardingSysctl \<and> v = ''1'') (gd_sysctls d) \<and> go_sysctls obs IPv6ForwardingSysctl \<noteq> Some ''1'')"

definition has_send_redirects :: "gw_desired \<Rightarrow> bool" where
  "has_send_redirects d = list_ex (\<lambda>(k, v). starts_with (rev ''.send_redirects'') (rev k)) (gd_sysctls d)"

definition gw_classify :: "change list \<Rightarrow> gw_observed \<Rightarrow> gw_desired \<Rightarrow> addr \<Rightarrow> impact \<times> gw_reason list" where
  "gw_classify changes obs d admin =
     (if changes = [] then (ImpactNone, [])
      else (let users = active_users obs d;
                (i, r1) = (if moved_paths changes = [] then (ImpactReload, [])
                  else if users \<noteq> [] then (ImpactDisruptive, [MovesActive users])
                  else (ImpactReload, [MovesIdle]));
                (i, r2) = (case (if is_valid admin then admin_affected d admin else None) of
                    Some (x, iface) \<Rightarrow> (ImpactDisruptive, [MovesAdmin admin iface x])
                  | None \<Rightarrow> (i, []));
                r3 = (if gd_enabled d then [] else [PolicyRemoved]);
                r4 = (if go_all_redirects obs = Some True \<and> has_send_redirects d then [AllRedirects] else []);
                (i, r5) = (if go_ra_hosts obs \<noteq> [] \<and> ipv6_forwarding_turns_on d obs
                  then (ImpactDisruptive, [LosesRoutes (go_ra_hosts obs)]) else (i, []))
            in (i, r1 @ r2 @ r3 @ r4 @ r5)))"

text \<open>What the refusal names: the priorities of the foreign rules and their tables.\<close>

definition describe_foreign :: "foreign_rule list \<Rightarrow> int list \<times> int list" where
  "describe_foreign rs = (map fr_priority rs, sort (remdups (map fr_table rs)))"

definition gw_build_plan ::
  "web \<Rightarrow> gateway \<Rightarrow> link_view \<Rightarrow> health \<Rightarrow> gw_observed \<Rightarrow> addr \<Rightarrow> gw_result + (gw_plan \<times> gw_desired)" where
  "gw_build_plan w c links h obs admin =
     (let result = validate_gateway w c links
      in if \<not> gw_ok result then Inl result
         else (let d = render_gateway c links h;
                   p = \<lparr>xp_changes = [], xp_impact = ImpactNone, xp_foreign = go_foreign obs, xp_reasons = [],
                        xp_blocked = (if go_foreign obs \<noteq> [] \<and> gd_enabled d then Some (describe_foreign (go_foreign obs)) else None),
                        xp_validation = result\<rparr>
               in if \<not> go_known obs then Inr (p, d)
                  else (let changes = diff_lines (go_lines obs) (gw_object_lines d) @ sysctl_changes d obs;
                            (i, rs) = gw_classify changes obs d admin
                        in Inr (p\<lparr>xp_changes := changes, xp_impact := i, xp_reasons := rs\<rparr>, d))))"

section \<open>Applying it\<close>

datatype gw_error =
    Observing apply_error | Invalid gw_result | Refused "int list \<times> int list" | Storing string | Programming apply_error

text \<open>
  A request: what is asked for, by whom, and the world it is served in. The document is its section of
  this module; \<open>rq_saving\<close> is the error of storing it, if any.
\<close>

record gw_request =
  rq_config :: gateway
  rq_admin :: addr
  rq_netlink :: netlink
  rq_order :: "string list \<Rightarrow> string list"
  rq_machine :: machine
  rq_web :: web
  rq_links :: link_view
  rq_health :: health
  rq_saving :: "string option"

record gw_world =
  ww_stored :: gateway
  ww_kernel :: nl_kernel

record gw_applied =
  ap_error :: "gw_error option"
  ap_run :: "progress option"
  ap_world :: gw_world

definition save_gateway :: "web \<Rightarrow> link_view \<Rightarrow> string option \<Rightarrow> gateway \<Rightarrow> gw_world \<Rightarrow> gw_error option \<times> gw_world" where
  "save_gateway w links saving c world =
     (let c = normalize_gateway c; result = validate_gateway w c links
      in if \<not> gw_ok result then (Some (Invalid result), world)
         else (case saving of Some e \<Rightarrow> (Some (Storing e), world) | None \<Rightarrow> (None, world\<lparr>ww_stored := c\<rparr>)))"

definition gw_apply_planned :: "ports \<Rightarrow> gw_request \<Rightarrow> gw_plan \<Rightarrow> gw_desired \<Rightarrow> gw_world \<Rightarrow> gw_applied" where
  "gw_apply_planned ps q plan d world =
     (case xp_blocked plan of
        Some b \<Rightarrow> \<lparr>ap_error = Some (Refused b), ap_run = None, ap_world = world\<rparr>
      | None \<Rightarrow>
     (case save_gateway (rq_web q) (rq_links q) (rq_saving q) (rq_config q) world of
        (Some e, world) \<Rightarrow> \<lparr>ap_error = Some e, ap_run = None, ap_world = world\<rparr>
      | (None, world) \<Rightarrow>
          if xp_empty plan then \<lparr>ap_error = None, ap_run = None, ap_world = world\<rparr>
          else (let run = apply_kernel (rq_netlink q) ps (rq_order q) d (ww_kernel world)
                in \<lparr>ap_error = map_option Programming (pg_error run), ap_run = Some run,
                    ap_world = world\<lparr>ww_kernel := pg_kernel run\<rparr>\<rparr>)))"

definition serve :: "ports \<Rightarrow> gw_request \<Rightarrow> gw_world \<Rightarrow> gw_applied" where
  "serve ps q world =
     (case observe_gateway (rq_netlink q) ps (rq_machine q) (ww_kernel world) of
        Inl e \<Rightarrow> \<lparr>ap_error = Some (Observing e), ap_run = None, ap_world = world\<rparr>
      | Inr obs \<Rightarrow>
     (case gw_build_plan (rq_web q) (rq_config q) (rq_links q) (rq_health q) obs (rq_admin q) of
        Inl result \<Rightarrow> \<lparr>ap_error = Some (Invalid result), ap_run = None, ap_world = world\<rparr>
      | Inr (plan, d) \<Rightarrow> gw_apply_planned ps q plan d world))"

fun serve_all :: "ports \<Rightarrow> gw_request list \<Rightarrow> gw_world \<Rightarrow> gw_world" where
  "serve_all ps [] world = world"
| "serve_all ps (q # qs) world = serve_all ps qs (ap_world (serve ps q world))"

text \<open>The states a request takes the kernel through.\<close>

definition passed :: "gw_applied \<Rightarrow> nl_kernel list" where
  "passed r = (case ap_run r of None \<Rightarrow> [] | Some p \<Rightarrow> pg_seen p)"

section \<open>Usage and status\<close>

record flow =
  fl_addr :: addr
  fl_mark :: u32
  fl_up_bytes :: u64
  fl_up_packets :: u64
  fl_down_bytes :: u64
  fl_down_packets :: u64

record usage =
  us_addr :: addr
  us_exit :: string
  us_unknown :: bool
  us_up_bytes :: u64
  us_up_packets :: u64
  us_down_bytes :: u64
  us_down_packets :: u64

definition usage_total :: "usage \<Rightarrow> u64" where
  "usage_total u = us_up_bytes u + us_down_bytes u"

text \<open>The map from marks: the direct mark first, then every exit, a later entry replacing an earlier one.\<close>

definition exit_of_mark :: "gateway \<Rightarrow> u32 \<Rightarrow> string option" where
  "exit_of_mark c m =
     fold (\<lambda>e found. if slot_mark (ex_slot e) = m then Some (ex_name e) else found) (exits c)
       (if m = DirectMark then Some [] else None)"

definition usage_of :: "gateway \<Rightarrow> flow \<Rightarrow> usage" where
  "usage_of c f =
     (let u = \<lparr>us_addr = fl_addr f, us_exit = [], us_unknown = False, us_up_bytes = fl_up_bytes f, us_up_packets = fl_up_packets f,
               us_down_bytes = fl_down_bytes f, us_down_packets = fl_down_packets f\<rparr>
      in if fl_mark f = 0 then u
         else (case exit_of_mark c (fl_mark f) of Some name \<Rightarrow> u\<lparr>us_exit := name\<rparr> | None \<Rightarrow> u\<lparr>us_unknown := True\<rparr>))"

definition more_used :: "usage \<Rightarrow> usage \<Rightarrow> bool" where
  "more_used a b = (usage_total a \<ge> usage_total b)"

definition usages :: "gateway \<Rightarrow> flow list \<Rightarrow> usage list" where
  "usages c flows = sort_by more_used (map (usage_of c) (filter (\<lambda>f. \<not> is_loopback (fl_addr f)) flows))"

datatype row_reason = OwnConnection | FallsBack string | NoInternet string

record exit_status =
  es_exit :: exit
  es_up :: bool
  es_probed :: bool
  es_used_by :: "string list"
  es_mark :: u32
  es_table :: int
  es_priority :: int

record assignment_status =
  at_interface :: string
  at_exit :: string
  at_source :: exit_source
  at_reason :: "row_reason option"

record gw_status =
  gs_enabled :: bool
  gs_known :: bool
  gs_exits :: "exit_status list"
  gs_assignments :: "assignment_status list"
  gs_drifted :: bool
  gs_plan :: "gw_plan option"
  gs_foreign :: "foreign_rule list"

definition exit_status_of :: "gateway \<Rightarrow> health \<Rightarrow> exit \<Rightarrow> exit_status" where
  "exit_status_of c h e =
     \<lparr>es_exit = e, es_up = (case h (ex_name e) of None \<Rightarrow> True | Some up \<Rightarrow> up), es_probed = (h (ex_name e) \<noteq> None),
      es_used_by = used_by c (ex_name e), es_mark = slot_mark (ex_slot e), es_table = slot_table (ex_slot e),
      es_priority = slot_priority (ex_slot e)\<rparr>"

definition assignment_status_of :: "gateway \<Rightarrow> health \<Rightarrow> assignment \<Rightarrow> assignment_status" where
  "assignment_status_of c h a =
     (let (name, source) = assigned c (as_key a);
          fails_open = (case find_exit c name of None \<Rightarrow> False | Some e \<Rightarrow> failure_or_default (ex_on_failure e) = FailDirect)
      in \<lparr>at_interface = as_key a, at_exit = name, at_source = source,
          at_reason = (if name = [] then Some OwnConnection
            else if health_down h name then Some (if fails_open then FallsBack name else NoInternet name)
            else None)\<rparr>)"

definition gateway_status :: "web \<Rightarrow> gateway \<Rightarrow> link_view \<Rightarrow> health \<Rightarrow> apply_error + gw_observed \<Rightarrow> gw_status" where
  "gateway_status w c links h observed =
     (let rows = \<lparr>gs_enabled = gw_enabled c, gs_known = False, gs_exits = map (exit_status_of c h) (exits c),
                  gs_assignments = map (assignment_status_of c h) (interfaces c), gs_drifted = False, gs_plan = None, gs_foreign = []\<rparr>
      in case observed of
           Inl e \<Rightarrow> rows
         | Inr obs \<Rightarrow>
             (let rows = rows\<lparr>gs_known := go_known obs, gs_foreign := go_foreign obs\<rparr>
              in case gw_build_plan w c links h obs AddrNone of
                   Inl r \<Rightarrow> rows
                 | Inr (p, d) \<Rightarrow> rows\<lparr>gs_plan := Some p, gs_drifted := (go_known obs \<and> \<not> xp_empty p)\<rparr>))"

end
