(* ===== verification/ExitServe.thy ===== *)
theory ExitServe
  imports ExitPlan
begin

text \<open>
  What requests to \<open>ExitPlan\<close> promise: where traffic goes in any history of them, what a plan announces,
  and what one exit without an interface does to all the others.
\<close>

section \<open>Histories\<close>

lemma between_in_order: "between ps k0 d k \<Longrightarrow> in_order ps k"
  unfolding between_def in_order_def by blast

lemma run_step_kernel:
  "pg_kernel p \<in> insert k (set (pg_seen p)) \<Longrightarrow> pg_kernel (run_step n f xs p) \<in> insert k (set (pg_seen (run_step n f xs p)))"
proof (cases "pg_error p")
  case None
  obtain ks e where "each f xs (pg_kernel p) = (ks, e)" by fastforce
  moreover have "last (pg_kernel p # ks) \<in> insert (pg_kernel p) (set ks)" by simp
  moreover assume "pg_kernel p \<in> insert k (set (pg_seen p))"
  ultimately show ?thesis using None by (auto simp: run_step_def)
qed (simp add: run_step_def)

lemma step_unless_nil_kernel:
  "pg_kernel p \<in> insert k (set (pg_seen p)) \<Longrightarrow>
     pg_kernel (step_unless_nil n f xs p) \<in> insert k (set (pg_seen (step_unless_nil n f xs p)))"
  using run_step_kernel [of p k "n (length xs)" f xs] by (simp add: step_unless_nil_def)

lemma sysctls_kernel:
  "pg_kernel p \<in> insert k (set (pg_seen p)) \<Longrightarrow>
     pg_kernel (fold (set_sysctl nl) ss p) \<in> insert k (set (pg_seen (fold (set_sysctl nl) ss p)))"
proof (induction ss arbitrary: p)
  case (Cons s ss)
  have "pg_kernel (set_sysctl nl s p) \<in> insert k (set (pg_seen (set_sysctl nl s p)))"
    using Cons.prems run_step_kernel unfolding set_sysctl_def by (cases "nk_sysctl (pg_kernel p) (fst s) = Some (snd s)") simp_all
  then show ?case using Cons.IH by simp
qed simp

lemma apply_ends_seen: "pg_kernel (apply_kernel nl ps order d k) \<in> insert k (set (pg_seen (apply_kernel nl ps order d k)))"
proof -
  have "pg_kernel (program_kernel nl d rs us k) \<in> insert k (set (pg_seen (program_kernel nl d rs us k)))" for rs us
    unfolding program_kernel_def Let_def by (intro sysctls_kernel step_unless_nil_kernel run_step_kernel) simp
  then show ?thesis by (simp add: apply_kernel_def stopped_def split: sum.split)
qed

text \<open>What a request may rely on: the kernel's laws, and names as the kernel has them.\<close>

definition request_ok :: "gw_request \<Rightarrow> bool" where
  "request_ok q \<longleftrightarrow> netlink_kernel (rq_netlink q) \<and> (\<forall>ks. set (rq_order q ks) = set ks) \<and> named_links (rq_links q) \<and>
     (\<forall>e \<in> set (exits (rq_config q)). CHR '' '' \<notin> set (vs_interface (ex_via e)))"

definition rendered :: "gw_request \<Rightarrow> gw_desired" where
  "rendered q = render_gateway (rq_config q) (rq_links q) (rq_health q)"

lemma valid_slotted_complete:
  assumes "gw_ok (validate_gateway w c links)" and "named_links links"
    and "\<forall>e \<in> set (exits c). CHR '' '' \<notin> set (vs_interface (ex_via e))"
  shows "complete (render_gateway c links h)"
proof (rule slotted_complete)
  note v = valid_exits [OF assms(1)]
  show "distinct (map ex_slot (exits c))" using v by blast
  show "\<forall>e \<in> set (exits c). exit_slot_valid (ex_slot e)" using v by (simp add: checked_exit_def)
  show "\<forall>e \<in> set (exits c). exit_routable links e" using v checked_routable assms(2,3) by blast
qed

lemma built_plan:
  assumes "gw_build_plan w c links h obs admin = Inr (p, d)"
  shows "gw_ok (validate_gateway w c links)" "d = render_gateway c links h"
    "go_known obs \<Longrightarrow> xp_changes p = diff_lines (go_lines obs) (gw_object_lines d) @ sysctl_changes d obs"
    "go_known obs \<Longrightarrow> xp_impact p = fst (gw_classify (xp_changes p) obs d admin)"
    "xp_blocked p = None \<longleftrightarrow> go_foreign obs = [] \<or> \<not> gd_enabled d"
  using assms by (auto simp: gw_build_plan_def Let_def split: if_splits prod.splits)

lemma save_kernel: "save_gateway w links saving c world = (e, world') \<Longrightarrow> ww_kernel world' = ww_kernel world"
  by (auto simp: save_gateway_def Let_def split: if_splits option.splits)

text \<open>A request either leaves the kernel alone or runs \<open>Apply\<close> once, for a configuration that validated.\<close>

lemma served:
  assumes "r = serve ps q world"
  shows "passed r = [] \<and> ap_run r = None \<and> ww_kernel (ap_world r) = ww_kernel world \<or>
    gw_ok (validate_gateway (rq_web q) (rq_config q) (rq_links q)) \<and>
    ap_run r = Some (apply_kernel (rq_netlink q) ps (rq_order q) (rendered q) (ww_kernel world)) \<and>
    ww_kernel (ap_world r) = pg_kernel (apply_kernel (rq_netlink q) ps (rq_order q) (rendered q) (ww_kernel world)) \<and>
    ap_error r = map_option Programming (pg_error (apply_kernel (rq_netlink q) ps (rq_order q) (rendered q) (ww_kernel world))) \<and>
    ww_stored (ap_world r) = normalize_gateway (rq_config q)"
proof (cases "observe_gateway (rq_netlink q) ps (rq_machine q) (ww_kernel world)")
  case o: (Inr obs)
  show ?thesis
  proof (cases "gw_build_plan (rq_web q) (rq_config q) (rq_links q) (rq_health q) obs (rq_admin q)")
    case b: (Inr pd)
    obtain p d where pd: "pd = (p, d)" by fastforce
    note bp = built_plan(1,2) [OF b [unfolded pd]]
    obtain e world' where s: "save_gateway (rq_web q) (rq_links q) (rq_saving q) (rq_config q) world = (e, world')" by fastforce
    have r: "r = gw_apply_planned ps q p d world" using assms o b pd by (simp add: serve_def)
    have st: "e = None \<Longrightarrow> ww_stored world' = normalize_gateway (rq_config q)"
      using s by (auto simp: save_gateway_def Let_def split: if_splits option.splits)
    show ?thesis
    proof (cases "xp_blocked p = None \<and> e = None \<and> \<not> xp_empty p")
      case True
      then show ?thesis using r s bp save_kernel [OF s] st by (simp add: gw_apply_planned_def Let_def rendered_def)
    next
      case False
      then have "ap_run r = None \<and> ww_kernel (ap_world r) = ww_kernel world"
        using r s save_kernel [OF s] by (auto simp: gw_apply_planned_def split: option.splits)
      then show ?thesis by (simp add: passed_def)
    qed
  qed (use assms o in \<open>simp add: serve_def passed_def\<close>)
qed (use assms in \<open>simp add: serve_def passed_def\<close>)

lemma serve_in_order:
  assumes "ports_ok ps" and "request_ok q" and "in_order ps (ww_kernel world)" and r: "r = serve ps q world"
  shows "\<forall>k \<in> insert (ww_kernel (ap_world r)) (set (passed r)). in_order ps k"
  using served [OF r]
proof
  let ?p = "apply_kernel (rq_netlink q) ps (rq_order q) (rendered q) (ww_kernel world)"
  assume a: "gw_ok (validate_gateway (rq_web q) (rq_config q) (rq_links q)) \<and> ap_run r = Some ?p \<and>
    ww_kernel (ap_world r) = pg_kernel ?p \<and> ap_error r = map_option Programming (pg_error ?p) \<and>
    ww_stored (ap_world r) = normalize_gateway (rq_config q)"
  have q: "netlink_kernel (rq_netlink q)" "\<And>ks. set (rq_order q ks) = set ks" "complete (rendered q)"
    using assms(2) a valid_slotted_complete unfolding request_ok_def rendered_def by blast+
  have "\<forall>k \<in> set (pg_seen ?p). in_order ps k"
    using apply_safe [OF q(1) assms(1) q(2) assms(3) q(3)] between_in_order unfolding safe_def by blast
  moreover have "pg_kernel ?p \<in> insert (ww_kernel world) (set (pg_seen ?p))" by (rule apply_ends_seen)
  ultimately show ?thesis using a assms(3) by (auto simp: passed_def)
qed (use assms(3) in auto)

lemma serve_all_in_order:
  "ports_ok ps \<Longrightarrow> \<forall>q \<in> set qs. request_ok q \<Longrightarrow> in_order ps (ww_kernel world) \<Longrightarrow> in_order ps (ww_kernel (serve_all ps qs world))"
  by (induction ps qs world rule: serve_all.induct) (use serve_in_order in auto)

lemma untouched_in_order:
  assumes "owned_routes k = []" and "owned_rules k = []"
  shows "in_order ps k"
  using assms by (simp add: in_order_def rules_ours_def places_distinct_def kernel_routes_def kernel_rules_def)

text \<open>
  C2. Programming a configuration never sends traffic where neither configuration would. On a box
  whose routing this module has not touched before, after any history of requests, each with any
  configuration and any failures of the kernel or of the store: every state a request takes the
  kernel through sends the traffic of every mark either where it went before the request or where
  the requested configuration sends it.
\<close>

theorem traffic_while_serving:
  assumes "policy_routing path" and "ports_ok ps" and "\<forall>q' \<in> set (qs @ [q]). request_ok q'"
    and "owned_routes (ww_kernel world0) = []" and "owned_rules (ww_kernel world0) = []"
    and "world = serve_all ps qs world0" and "k = ww_kernel world" and "k' \<in> set (passed (serve ps q world))"
  shows "path (kernel_rules k') (kernel_routes ps k') v6 m =
      path (kernel_rules k) (kernel_routes ps k) v6 m \<or>
    path (kernel_rules k') (kernel_routes ps k') v6 m =
      (let d = render_gateway (rq_config q) (rq_links q) (rq_health q) in path (gd_rules d) (gd_routes d) v6 m)"
proof -
  let ?p = "apply_kernel (rq_netlink q) ps (rq_order q) (rendered q) k"
  have o: "in_order ps k" unfolding assms(6,7)
    by (rule serve_all_in_order [OF assms(2)]) (use assms(3) untouched_in_order [OF assms(4,5)] in auto)
  from served [OF refl, of ps q world] have s: "gw_ok (validate_gateway (rq_web q) (rq_config q) (rq_links q)) \<and> k' \<in> set (pg_seen ?p)"
    using assms(7,8) by (auto simp: passed_def)
  have q: "netlink_kernel (rq_netlink q)" "\<And>ks. set (rq_order q ks) = set ks" "complete (rendered q)"
    using assms(3) s valid_slotted_complete unfolding request_ok_def rendered_def by auto
  show ?thesis
    using traffic_between [OF q(1) assms(1,2) q(2) o q(3) conjunct2 [OF s], of v6 m] by (simp add: rendered_def Let_def)
qed

section \<open>Quiet plans\<close>

lemma quiet_changes:
  assumes "fst (gw_classify changes obs d admin) \<noteq> ImpactDisruptive" and "active_users obs d \<noteq> []"
  shows "moved_paths changes = []"
  using assms by (auto simp: gw_classify_def Let_def moved_paths_def split: if_splits option.splits prod.splits)

lemma unmoved_lines:
  assumes "moved_paths (diff_lines before after @ cs) = []" and l: "starts_with ''route '' l \<or> starts_with ''rule '' l"
  shows "l \<in> set before \<longleftrightarrow> l \<in> set after"
proof -
  have "ch_line c \<noteq> l" if "c \<in> set (diff_lines before after)" for c
    using assms that by (auto simp: moved_paths_def filter_empty_conv)
  then have "l \<notin> set (added (diff_lines before after))" "l \<notin> set (removed (diff_lines before after))"
    by (auto simp: added_def removed_def)
  then have "l \<notin># mset after - mset before" "l \<notin># mset before - mset after"
    unfolding diff_lines_counts(1) [of before after, symmetric] diff_lines_counts(2) [of before after, symmetric]
    by (simp_all only: set_mset_mset not_False_eq_True)
  then have "count (mset before) l = count (mset after) l" by (simp add: not_in_iff)
  then show ?thesis by (metis count_mset_0_iff)
qed

lemma object_lines_kinds:
  assumes "l \<in> set (gw_object_lines d)" and "\<not> starts_with ''nft '' l"
  shows "l \<in> rule_line ` set (gd_rules d) \<union> route_line ` set (gd_routes d)"
proof -
  have n: "starts_with ''nft '' (stat_rule_line x)" "starts_with ''nft '' (restore_line e)" "starts_with ''nft '' (destination_line r)"
    "starts_with ''nft '' (device_line v)" "starts_with ''nft '' (source_line s)" "starts_with ''nft '' (account_line e)"
    "starts_with ''nft '' (snat_line t)" for x e r v s t
    by (simp_all add: stat_rule_line_def restore_line_def destination_line_def device_line_def source_line_def account_line_def
        snat_line_def Let_def)
  show ?thesis using assms n by (auto simp: gw_object_lines_def split: if_splits)
qed

lemma line_heads:
  "starts_with ''rule '' (rule_line r)" "starts_with ''route '' (route_line t)" "rule_line r \<noteq> route_line t"
  "\<not> starts_with ''nft '' (rule_line r)" "\<not> starts_with ''nft '' (route_line t)"
  by (simp_all add: rule_line_def route_line_def)

text \<open>What is read of our tables starts as our lines do, and the tunnel broker's rules are outside our range.\<close>

definition reads_ours :: "machine \<Rightarrow> bool" where
  "reads_ours mc \<longleftrightarrow> (\<forall>u. mc_broker mc u \<longrightarrow> \<not> owns_priority (nu_priority u)) \<and>
     (\<forall>ls. mc_nft mc = Inr ls \<or> mc_stat mc = Inr ls \<longrightarrow> (\<forall>l \<in> set ls. starts_with ''nft '' l))"

lemma both_families_set:
  assumes "both_families f k = Inr xs" and "\<And>v6 ys. f k v6 = Inr ys \<Longrightarrow> set ys = {x \<in> A. fam x = v6}"
  shows "set xs = A"
  using assms by (auto simp: both_families_def split: sum.splits)

lemma observed_lines:
  assumes nl: "netlink_kernel nl" and ps: "ports_ok ps" and k: "in_order ps k" and mc: "reads_ours mc"
    and obs: "observe_gateway nl ps mc k = Inr obs"
  shows "l \<in> set (go_lines obs) \<and> \<not> starts_with ''nft '' l \<longleftrightarrow>
      l \<in> rule_line ` set (kernel_rules k) \<union> route_line ` set (kernel_routes ps k)"
    and "go_known obs"
proof -
  obtain nft stat rules foreign routes where o: "mc_nft mc = Inr nft" "mc_stat mc = Inr stat"
    "observe_rules nl mc k = Inr (rules, foreign)" "observe_routes nl ps k = Inr routes" "go_lines obs = nft @ stat @ rules @ routes"
    "go_known obs"
    using obs by (auto simp: observe_gateway_def split: sum.splits)
  then show "go_known obs" by simp
  obtain us where us: "both_families (rule_list nl) k = Inr us"
    "rules = map observed_rule_line (filter (\<lambda>u. owns_priority (nu_priority u)) (filter (\<lambda>u. \<not> mc_broker mc u) us))"
    using o(3) by (auto simp: observe_rules_def Let_def split: sum.splits)
  obtain rs where rs: "both_families (route_list nl) k = Inr rs" "routes = map (observed_route_line ps) (filter owned_route rs)"
    using o(4) by (auto simp: observe_routes_def split: sum.splits)
  have "set us = set (nk_rules k)" by (rule both_families_set [OF us(1) netlink_kernel.lists_rules [OF nl]])
  then have "set (filter (\<lambda>u. owns_priority (nu_priority u)) (filter (\<lambda>u. \<not> mc_broker mc u) us)) = set (owned_rules k)"
    using mc by (auto simp: set_both reads_ours_def)
  moreover have "observed_rule_line u = rule_line (seen_rule u)" if "u \<in> set (owned_rules k)" for u
    using that k observed_rule_seen by (auto simp: in_order_def rules_ours_def)
  ultimately have r: "set rules = rule_line ` set (kernel_rules k)" by (simp add: us(2) kernel_rules_def image_image)
  have "set rs = set (nk_routes k)" by (rule both_families_set [OF rs(1) netlink_kernel.lists_routes [OF nl]])
  then have t: "set routes = route_line ` set (kernel_routes ps k)"
    by (simp add: rs(2) kernel_routes_def owned_routes_def image_image observed_line_seen [OF ps])
  show "l \<in> set (go_lines obs) \<and> \<not> starts_with ''nft '' l \<longleftrightarrow>
      l \<in> rule_line ` set (kernel_rules k) \<union> route_line ` set (kernel_routes ps k)"
    using mc o(1,2) r t line_heads(4,5) by (auto simp: o(5) reads_ours_def)
qed

lemma same_path:
  assumes p: "policy_routing path" and k: "in_order ps k" and d: "complete d"
    and r: "set (kernel_rules k) = unnamed ` set (gd_rules d)" and t: "set (kernel_routes ps k) = unnamed_route ` set (gd_routes d)"
  shows "path (kernel_rules k) (kernel_routes ps k) v6 m = path (gd_rules d) (gd_routes d) v6 m"
proof (cases "\<exists>u \<in> set (kernel_rules k). takes u v6 m")
  case True
  then obtain u where u: "u \<in> set (kernel_rules k)" "takes u v6 m" by blast
  then have "rs_kind u = RuleMark" by (simp add: takes_def)
  then obtain x where x: "x \<in> set (kernel_routes ps k)" "first_route u x" using k u(1) unfolding in_order_def by blast
  obtain u' x' where w: "u = unnamed u'" "u' \<in> set (gd_rules d)" "x = unnamed_route x'" "x' \<in> set (gd_routes d)"
    using u(1) x(1) r t by blast
  have "path (kernel_rules k) (kernel_routes ps k) v6 m = path_of x"
    using kernel_path_by_rule [OF p _ _ _ u x] k unfolding in_order_def by blast
  then show ?thesis using complete_path_by_rule [OF p d w(2), of v6 m x'] w u(2) x(2) by simp
next
  case False
  then have "\<not> takes u v6 m" if "u \<in> set (gd_rules d)" for u using that r by (metis imageI takes_unnamed(1))
  then show ?thesis using False policy_routing.untaken [OF p] by metis
qed

lemma unmoved_sets:
  assumes k: "in_order ps k" and d: "complete d" and e: "gd_rules d = [] \<and> gd_routes d = [] \<or> gd_enabled d"
    and b: "\<And>l. l \<in> B \<and> \<not> starts_with ''nft '' l \<longleftrightarrow> l \<in> rule_line ` set (kernel_rules k) \<union> route_line ` set (kernel_routes ps k)"
    and m: "\<And>l. starts_with ''route '' l \<or> starts_with ''rule '' l \<Longrightarrow> l \<in> B \<longleftrightarrow> l \<in> set (gw_object_lines d)"
  shows "set (kernel_rules k) = unnamed ` set (gd_rules d)" "set (kernel_routes ps k) = unnamed_route ` set (gd_routes d)"
proof -
  have ru: "u \<in> set (gd_rules d) \<Longrightarrow> rule_line u \<in> set (gw_object_lines d)" for u using e by (auto simp: gw_object_lines_def)
  have rt: "t \<in> set (gd_routes d) \<Longrightarrow> route_line t \<in> set (gw_object_lines d)" for t using e by (auto simp: gw_object_lines_def)
  have rules: "rule_line u \<in> rule_line ` set (kernel_rules k) \<longleftrightarrow> rule_line u \<in> rule_line ` set (gd_rules d)" for u
    using b [of "rule_line u"] m [of "rule_line u"] object_lines_kinds [of "rule_line u" d] line_heads ru by (metis UnCI UnE imageE)
  have routes: "route_line t \<in> route_line ` set (kernel_routes ps k) \<longleftrightarrow> route_line t \<in> route_line ` set (gd_routes d)" for t
    using b [of "route_line t"] m [of "route_line t"] object_lines_kinds [of "route_line t" d] line_heads rt by (metis UnCI UnE imageE)
  have ku: "our_rule (unnamed u) \<and> unnamed u = u" if "u \<in> set (kernel_rules k)" for u
    using that k by (auto simp: in_order_def rules_ours_def kernel_rules_def seen_rule_def Let_def)
  have du: "our_rule (unnamed u)" if "u \<in> set (gd_rules d)" for u using that d unfolding complete_def by blast
  show "set (kernel_rules k) = unnamed ` set (gd_rules d)"
  proof (intro set_eqI iffI)
    fix u assume u: "u \<in> set (kernel_rules k)"
    then obtain u' where u': "u' \<in> set (gd_rules d)" "rule_line u = rule_line u'" using rules [of u] by blast
    then have "unnamed u = unnamed u'" using rule_line_inj ku [OF u] du [OF u'(1)] by blast
    then show "u \<in> unnamed ` set (gd_rules d)" using ku [OF u] u'(1) by force
  next
    fix u assume "u \<in> unnamed ` set (gd_rules d)"
    then obtain u' where u': "u' \<in> set (gd_rules d)" "u = unnamed u'" by blast
    then obtain x where x: "x \<in> set (kernel_rules k)" "rule_line u' = rule_line x" using rules [of u'] by blast
    then have "unnamed u' = unnamed x" using rule_line_inj ku [OF x(1)] du [OF u'(1)] by blast
    then show "u \<in> set (kernel_rules k)" using ku [OF x(1)] x(1) u'(2) by simp
  qed
  have kt: "told_route t \<and> unnamed_route t = t" if "t \<in> set (kernel_routes ps k)" for t
    using that k by (auto simp: in_order_def kernel_routes_def seen_route_def Let_def)
  have dt: "told_route t" if "t \<in> set (gd_routes d)" for t using that d unfolding complete_def by blast
  show "set (kernel_routes ps k) = unnamed_route ` set (gd_routes d)"
  proof (intro set_eqI iffI)
    fix t assume t: "t \<in> set (kernel_routes ps k)"
    then obtain t' where t': "t' \<in> set (gd_routes d)" "route_line t = route_line t'" using routes [of t] by blast
    then have "unnamed_route t = unnamed_route t'" using route_line_inj kt [OF t] dt [OF t'(1)] by blast
    then show "t \<in> unnamed_route ` set (gd_routes d)" using kt [OF t] t'(1) by force
  next
    fix t assume "t \<in> unnamed_route ` set (gd_routes d)"
    then obtain t' where t': "t' \<in> set (gd_routes d)" "t = unnamed_route t'" by blast
    then obtain x where x: "x \<in> set (kernel_routes ps k)" "route_line t' = route_line x" using routes [of t'] by blast
    then have "unnamed_route t' = unnamed_route x" using route_line_inj kt [OF x(1)] dt [OF t'(1)] by blast
    then show "t \<in> set (kernel_routes ps k)" using kt [OF x(1)] x(1) t'(2) by simp
  qed
qed

lemma disabled_empty: "gd_rules (render_gateway c links h) = [] \<and> gd_routes (render_gateway c links h) = [] \<or>
    gd_enabled (render_gateway c links h)"
proof (cases "gw_enabled c")
  case True
  have "gd_enabled (render_exit links h e (account_exit e d)) = gd_enabled d" for e d
    by (simp add: render_exit_def account_exit_def Let_def)
  then have e: "gd_enabled (fold (\<lambda>e d. render_exit links h e (account_exit e d)) es d) = gd_enabled d" for es d
    by (induction es arbitrary: d) simp_all
  have "gd_enabled (render_device c' a ip d) = gd_enabled d" for c' a ip d by (simp add: render_device_def Let_def)
  then have "gd_enabled (fold (render_device c' a) ips d) = gd_enabled d" for c' a ips d by (induction ips arbitrary: d) simp_all
  then have "gd_enabled (fold (\<lambda>a. fold (render_device c' a) ips) as d) = gd_enabled d" for c' ips as d
    by (induction as arbitrary: d) simp_all
  then show ?thesis using True e
    by (simp add: render_gateway_def Let_def render_start_def render_exits_def render_devices_def split: option.split)
qed (simp add: render_gateway_def Let_def render_start_def)

text \<open>
  C3. A plan that is not announced as disruptive moves nobody who is watched: when an address that
  sends traffic now is in a network or a destination's source that is routed, the kernel already sends
  every mark where the requested configuration does.
\<close>

theorem quiet_plan_moves_nothing:
  assumes "policy_routing path" and "netlink_kernel nl" and "ports_ok ps" and "in_order ps k" and "reads_ours mc"
    and "named_links links" and "\<forall>e \<in> set (exits c). CHR '' '' \<notin> set (vs_interface (ex_via e))"
    and "observe_gateway nl ps mc k = Inr obs" and "gw_build_plan w c links h obs admin = Inr (p, d)"
    and "xp_impact p \<noteq> ImpactDisruptive"
    and "a \<in> set (go_active obs)" and "q \<in> sr_prefix ` set (gd_sources d) \<union> sr_prefix ` set (gd_destinations d)" and "contains q a"
  shows "path (kernel_rules k) (kernel_routes ps k) v6 m = path (gd_rules d) (gd_routes d) v6 m"
proof -
  note o = observed_lines [OF assms(2-5,8)] and b = built_plan [OF assms(9)]
  have d: "complete d" using valid_slotted_complete [OF b(1) assms(6,7)] b(2) by simp
  have "a \<in> set (active_users obs d)" using assms(11-13) by (auto simp: active_users_def Let_def list_ex_iff)
  then have "active_users obs d \<noteq> []" by auto
  then have "moved_paths (xp_changes p) = []" using quiet_changes b(4) [OF o(2)] assms(10) by metis
  then have m: "starts_with ''route '' l \<or> starts_with ''rule '' l \<Longrightarrow> l \<in> set (go_lines obs) \<longleftrightarrow> l \<in> set (gw_object_lines d)" for l
    using unmoved_lines b(3) [OF o(2)] by metis
  have e: "gd_rules d = [] \<and> gd_routes d = [] \<or> gd_enabled d" unfolding b(2) by (rule disabled_empty)
  show ?thesis by (rule same_path [OF assms(1,4) d unmoved_sets [OF assms(4) d e o(1) m]])
qed

text \<open>
  Devices with an exit of their own are not watched: when nothing else is routed no plan counts
  anybody as sending through a path it moves, nor warns the operator about their own connection.
\<close>

lemma device_users_not_counted:
  assumes "gd_sources d = []" and "gd_destinations d = []" and "go_ra_hosts obs = []"
  shows "fst (gw_classify changes obs d admin) \<noteq> ImpactDisruptive"
  using assms by (simp add: gw_classify_def Let_def active_users_def admin_affected_def)

text \<open>The settings of an interface whose name has a dot are looked for in another directory.\<close>

lemma dotted_name_path:
  "sysctl_path root (''net.ipv4.conf.'' @ n @ ''.send_redirects'') =
     root @ ''/proc/sys/net/ipv4/conf/'' @ n @ ''/send_redirects'' \<longleftrightarrow> CHR ''.'' \<notin> set n"
proof -
  have "map (\<lambda>c. if c = CHR ''.'' then CHR ''/'' else c) n = n \<longleftrightarrow> CHR ''.'' \<notin> set n"
    by (induction n) auto
  then show ?thesis by (simp add: sysctl_path_def)
qed

section \<open>Interfaces that are not there\<close>

lemma desired_routes_all:
  "desired_routes_from ps rs out = Inr want \<Longrightarrow> r \<in> set rs \<Longrightarrow> \<exists>n. desired_route ps r = Inr n"
  by (induction ps rs out rule: desired_routes_from.induct) (auto split: sum.splits)

text \<open>
  C4. One exit whose interface does not exist keeps every other exit from being programmed. Validation
  warns that such an exit will not carry traffic until its interface appears, the configuration is
  stored, and \<open>Apply\<close> then stops before its first step: the kernel is left as it was.
\<close>

theorem absent_interface_stops_all:
  assumes "r = serve ps q world" and "ap_run r = Some p" and "gw_enabled (rq_config q)"
    and "e \<in> set (exits (rq_config q))" and "in_use (rq_config q) (ex_name e)" and "\<not> health_down (rq_health q) (ex_name e)"
    and "vs_kind (ex_via e) = ViaInterface" and "vs_interface (ex_via e) \<notin> {[], socks_interface}"
    and "index_of ps (vs_interface (ex_via e)) = None"
  shows "ww_kernel (ap_world r) = ww_kernel world \<and> passed r = [] \<and> ww_stored (ap_world r) = normalize_gateway (rq_config q) \<and>
    (\<exists>why. ap_error r = Some (Programming why))"
proof -
  let ?d = "rendered q" and ?k = "ww_kernel world"
  let ?t = "\<lparr>rt_table = slot_table (ex_slot e), rt_v6 = False, rt_type = RouteVia, rt_gateway = None, rt_dev = vs_interface (ex_via e),
    rt_priority = 0, rt_exit = ex_name e\<rparr>"
  have f: "family_route e (rq_links q) False False = Some ((blank_route RouteVia)\<lparr>rt_dev := vs_interface (ex_via e)\<rparr>)"
    using assms(7,8) by (simp add: family_route_def exit_route_def is_socks_def carries_def ViaInterface_def ViaBlocked_def)
  have "?t \<in> set (fst (render_family e (rq_links q) False False))"
    unfolding render_family_def f by (simp add: blank_route_def)
  moreover have "\<not> fails_open e (rq_health q)" using assms(6) by (simp add: fails_open_def)
  ultimately have t: "?t \<in> set (gd_routes ?d)" unfolding rendered_def rendered_routes [OF assms(3)]
    using assms(4-6) by (intro exI [of _ e] conjI exI [of _ False]) simp_all
  have "desired_route ps ?t = Inl (NoDevice (ex_name e) (vs_interface (ex_via e)))" using assms(8,9) by (simp add: desired_route_def Let_def)
  then have "desired_routes ps ?d \<noteq> Inr want" for want using desired_routes_all t by (fastforce simp: desired_routes_def)
  then obtain why where w: "desired_routes ps ?d = Inl why" by (cases "desired_routes ps ?d") auto
  have "apply_kernel (rq_netlink q) ps (rq_order q) ?d ?k = stopped PrepareRoutes why ?k" by (simp add: apply_kernel_def w)
  then show ?thesis using served [OF assms(1)] assms(2) by (auto simp: stopped_def passed_def)
qed

section \<open>Usage\<close>

text \<open>Every flow marked for an exit is reported under its name.\<close>

lemma usage_names_exit:
  assumes "distinct (map ex_slot (exits c))" and "\<forall>e \<in> set (exits c). exit_slot_valid (ex_slot e)" and "e \<in> set (exits c)"
  shows "exit_of_mark c (slot_mark (ex_slot e)) = Some (ex_name e)"
proof -
  have "fold (\<lambda>e' found. if slot_mark (ex_slot e') = slot_mark (ex_slot e) then Some (ex_name e') else found) es x =
      (if e \<in> set es then Some (ex_name e) else x)" if "set es \<subseteq> set (exits c)" "distinct (map ex_slot es)" for es x
    using that
  proof (induction es arbitrary: x)
    case (Cons a es)
    have "slot_mark (ex_slot a) = slot_mark (ex_slot e) \<longleftrightarrow> a = e"
      using slot_mark_inj assms Cons.prems(1) by (auto simp: distinct_map inj_on_def)
    moreover have "a \<notin> set es" using Cons.prems(2) by auto
    ultimately show ?case using Cons by auto
  qed simp
  then show ?thesis using assms by (simp add: exit_of_mark_def)
qed

section \<open>Examples\<close>

definition tunnel_request :: gw_request where
  "tunnel_request =
     \<lparr>rq_config = normalize_gateway tunnel_config, rq_admin = AddrNone, rq_netlink = plain_netlink, rq_order = (\<lambda>ks. ks),
      rq_machine = \<lparr>mc_nft = Inr [], mc_stat = Inr [], mc_broker = (\<lambda>_. False), mc_text = (\<lambda>_. []), mc_names = Some [],
                    mc_neighbours = (\<lambda>v6. Some (if v6 then [] else [(2, [192, 168, 1, 5])]))\<rparr>,
      rq_web = \<lparr>web_url = (\<lambda>_. True), web_image = (\<lambda>_ _. True), web_lower = (\<lambda>s. s)\<rparr>, rq_links = lan_view, rq_health = Map.empty,
      rq_saving = None\<rparr>"

definition fresh_world :: gw_world where
  "fresh_world = \<lparr>ww_stored = tunnel_config, ww_kernel = no_kernel\<rparr>"

lemma tunnel_valid: "gw_ok (validate_gateway (rq_web tunnel_request) (normalize_gateway tunnel_config) lan_view)"
  by code_simp

lemma tunnel_normal: "normalize_gateway (normalize_gateway tunnel_config) = normalize_gateway tunnel_config"
  by code_simp

lemma tunnel_observed:
  "observe_gateway plain_netlink ps (rq_machine tunnel_request) no_kernel =
     Inr \<lparr>go_known = True, go_lines = [], go_sysctls = read_sysctls (rq_machine tunnel_request) no_kernel, go_foreign = [],
          go_all_redirects = None, go_ra_hosts = sorted_keys [], go_active = [V4 0xc0a80105]\<rparr>"
proof -
  have "be_word [192, 168, 1, 5 :: byte] = (0xc0a80105 :: u32)" by code_simp
  then show ?thesis
    by (simp add: observe_gateway_def observe_rules_def observe_routes_def tables_with_default_def both_families_def plain_netlink_def
        no_kernel_def tunnel_request_def observe_ra_hosts_def observe_active_def map_filter_simps)
qed

lemma plan_exists:
  assumes "gw_ok (validate_gateway w c links)"
  shows "\<exists>p. gw_build_plan w c links h obs admin = Inr (p, render_gateway c links h)"
proof -
  let ?d = "render_gateway c links h"
  obtain i rs where "gw_classify (diff_lines (go_lines obs) (gw_object_lines ?d) @ sysctl_changes ?d obs) obs ?d admin = (i, rs)" by fastforce
  then show ?thesis using assms by (cases "go_known obs") (simp_all add: gw_build_plan_def Let_def)
qed

lemma tunnel_served:
  assumes "r = serve ps tunnel_request fresh_world"
  shows "ap_run r = Some (apply_kernel plain_netlink ps (\<lambda>ks. ks) (tunnel_desired Map.empty) no_kernel)"
proof -
  let ?d = "tunnel_desired Map.empty"
  have q: "rq_config tunnel_request = normalize_gateway tunnel_config" "rq_links tunnel_request = lan_view"
    "rq_health tunnel_request = Map.empty" "rq_netlink tunnel_request = plain_netlink" "rq_order tunnel_request = (\<lambda>ks. ks)"
    "rq_saving tunnel_request = None"
    by (simp_all add: tunnel_request_def)
  have d: "rendered tunnel_request = ?d" by (simp add: rendered_def tunnel_desired_def q)
  obtain obs where o: "observe_gateway plain_netlink ps (rq_machine tunnel_request) no_kernel = Inr obs" "go_known obs"
      "go_foreign obs = []" "go_lines obs = []"
    by (simp add: tunnel_observed)
  obtain p where p: "gw_build_plan (rq_web tunnel_request) (normalize_gateway tunnel_config) lan_view Map.empty obs
      (rq_admin tunnel_request) = Inr (p, ?d)"
    using plan_exists [OF tunnel_valid] unfolding tunnel_desired_def by blast
  have b: "xp_blocked p = None" using built_plan(5) [OF p] o(3) by simp
  have "gd_rules ?d \<noteq> []" by (simp add: tunnel_renders)
  then have "gw_object_lines ?d \<noteq> []" using disabled_empty [of "normalize_gateway tunnel_config" lan_view Map.empty]
    by (auto simp: gw_object_lines_def tunnel_desired_def)
  then have "diff_lines [] (gw_object_lines ?d) \<noteq> []" using counted.in_step [of "[]" "gw_object_lines ?d"] by auto
  then have "\<not> xp_empty p" using built_plan(3) [OF p o(2)] o(4) by (simp add: xp_empty_def)
  then show ?thesis using assms o(1) p b tunnel_valid
    by (simp add: serve_def fresh_world_def q gw_apply_planned_def save_gateway_def tunnel_normal Let_def)
qed

lemma lan_named: "named_links lan_view"
proof -
  have "kernel_link lan_link"
    unfolding kernel_link_def
  proof (intro ballI allI impI)
    fix p a assume "p \<in> set (l_prefixes lan_link)" "contains p a"
    then show "\<not> is4in6 a" by (cases a) (simp_all add: lan_link_def contains_def)
  qed
  then show ?thesis by (simp add: named_links_def lan_view_def) (simp add: lan_link_def)
qed

lemma tunnel_request_ok: "request_ok tunnel_request"
proof -
  have "\<forall>e \<in> set (exits (normalize_gateway tunnel_config)). CHR '' '' \<notin> set (vs_interface (ex_via e))" by code_simp
  then show ?thesis using plain.netlink_kernel_axioms lan_named by (simp add: request_ok_def tunnel_request_def)
qed

theorem traffic_while_serving_witness:
  "let k = no_kernel\<lparr>nk_routes := [wg_route False]\<rparr>; d = tunnel_desired Map.empty
   in k \<in> set (passed (serve wg_ports tunnel_request fresh_world)) \<and>
     policy_path (kernel_rules k) (kernel_routes wg_ports k) False 0x00010000 \<in>
       {policy_path [] [] False 0x00010000, policy_path (gd_rules d) (gd_routes d) False 0x00010000}"
proof -
  let ?k = "no_kernel\<lparr>nk_routes := [wg_route False]\<rparr>"
  have e: "kernel_rules no_kernel = []" "kernel_routes wg_ports no_kernel = []" "owned_routes no_kernel = []" "owned_rules no_kernel = []"
    by (simp_all add: kernel_rules_def kernel_routes_def owned_rules_def owned_routes_def no_kernel_def)
  have k: "?k \<in> set (passed (serve wg_ports tunnel_request fresh_world))"
    using tunnel_run(2) [OF refl] by (simp add: passed_def tunnel_served [OF refl])
  have "tunnel_desired Map.empty = render_gateway (rq_config tunnel_request) (rq_links tunnel_request) (rq_health tunnel_request)"
    by (simp add: tunnel_desired_def tunnel_request_def)
  then show ?thesis
    using traffic_while_serving [where qs = "[]" and ?world0.0 = fresh_world and ?v6.0 = False and m = "0x00010000", OF
        kernel_path.policy_routing_axioms wg_ports_ok _ _ _ _ _ k] tunnel_request_ok k
    by (simp add: e fresh_world_def Let_def)
qed

theorem absent_interface_stops_all_witness:
  "let ps = \<lparr>index_of = (\<lambda>_. None), name_of = (\<lambda>_. None)\<rparr>; r = serve ps tunnel_request fresh_world
   in gw_ok (validate_gateway (rq_web tunnel_request) (rq_config tunnel_request) (rq_links tunnel_request)) \<and>
     ww_kernel (ap_world r) = no_kernel \<and> passed r = [] \<and> (\<exists>why. ap_error r = Some (Programming why))"
proof -
  let ?ps = "\<lparr>index_of = (\<lambda>_. None), name_of = (\<lambda>_. None)\<rparr> :: ports"
  let ?e = "tunnel_exit\<lparr>ex_slot := 1\<rparr>"
  have c: "gw_enabled (normalize_gateway tunnel_config)" "exits (normalize_gateway tunnel_config) = [?e]"
    "in_use (normalize_gateway tunnel_config) (ex_name ?e)" "vs_kind (ex_via ?e) = ViaInterface"
    "vs_interface (ex_via ?e) \<notin> {[], socks_interface}"
    by code_simp+
  then show ?thesis
    using absent_interface_stops_all [OF refl tunnel_served [OF refl], where ps = ?ps and e = ?e] tunnel_valid
    by (simp add: tunnel_request_def Let_def health_down_def fresh_world_def)
qed

section \<open>A plan that moves nothing\<close>

lemma unmoved_when_same:
  assumes "mset (filter (\<lambda>l. starts_with ''route '' l \<or> starts_with ''rule '' l) before) =
      mset (filter (\<lambda>l. starts_with ''route '' l \<or> starts_with ''rule '' l) after)"
  shows "moved_paths (diff_lines before after) = []"
proof -
  let ?L = "\<lambda>l. starts_with ''route '' l \<or> starts_with ''rule '' l"
  have "l \<notin> set (added (diff_lines before after)) \<and> l \<notin> set (removed (diff_lines before after))" if "?L l" for l
  proof -
    have "count (mset before) l = count (mset after) l"
      using arg_cong [OF assms, of "\<lambda>M. count M l"] that by simp
    then have "l \<notin># mset after - mset before" "l \<notin># mset before - mset after" by (simp_all add: not_in_iff)
    then show ?thesis unfolding diff_lines_counts(1) [of before after, symmetric] diff_lines_counts(2) [of before after, symmetric]
      by (simp only: set_mset_mset simp_thms)
  qed
  then have "\<not> ?L (ch_line c)" if "c \<in> set (diff_lines before after)" for c
    using that by (cases "ch_kind c") (auto simp: added_def removed_def)
  then show ?thesis by (auto simp: moved_paths_def filter_empty_conv)
qed

lemma nft_stays: "starts_with ''nft '' l \<Longrightarrow> \<not> (starts_with ''route '' l \<or> starts_with ''rule '' l)"
  by (cases l) auto

lemma moved_object_lines:
  assumes "gd_enabled d"
  shows "filter (\<lambda>l. starts_with ''route '' l \<or> starts_with ''rule '' l) (gw_object_lines d) =
    map rule_line (gd_rules d) @ map route_line (gd_routes d)"
proof -
  let ?L = "\<lambda>l. starts_with ''route '' l \<or> starts_with ''rule '' l"
  obtain nft where n: "gw_object_lines d = nft @ map rule_line (gd_rules d) @ map route_line (gd_routes d)"
      "\<forall>l \<in> set nft. starts_with ''nft '' l"
  proof
    let ?nft = "(if gd_stat d \<noteq> [] then
          ''nft table inet olr_stat''
          # concat (map (\<lambda>c. (''nft chain '' @ sc_name c @ '' '' @ sc_hook c @ '' filter'') # map stat_rule_line (sc_rules c)) (gd_stat d))
        else [])
      @ [''nft table inet olr_route'', ''nft chain classify prerouting mangle'']
      @ map (\<lambda>n. ''nft counter '' @ n) (gd_counters d)
      @ map restore_line (gd_exits d) @ map destination_line (gd_destinations d) @ map device_line (gd_devices d)
      @ map source_line (gd_sources d) @ map account_line (gd_exits d) @ [''nft count-unpoliced'']
      @ (if gd_snat d \<noteq> [] then ''nft chain postrouting postrouting srcnat'' # map snat_line (gd_snat d) else [])"
    show "gw_object_lines d = ?nft @ map rule_line (gd_rules d) @ map route_line (gd_routes d)"
      using assms by (simp add: gw_object_lines_def)
    show "\<forall>l \<in> set ?nft. starts_with ''nft '' l"
      by (auto simp: stat_rule_line_def restore_line_def destination_line_def device_line_def source_line_def account_line_def
          snat_line_def Let_def)
  qed
  have "filter ?L nft = []" unfolding filter_empty_conv using n(2) nft_stays by blast
  moreover have "filter ?L (map rule_line us) = map rule_line us" "filter ?L (map route_line ts) = map route_line ts" for us ts
    using line_heads(1,2) by (simp_all add: filter_id_conv)
  ultimately show ?thesis unfolding n(1) filter_append by simp
qed

lemma quiet_when_unmoved:
  "moved_paths changes = [] \<Longrightarrow> go_ra_hosts obs = [] \<Longrightarrow> fst (gw_classify changes obs d AddrNone) \<noteq> ImpactDisruptive"
  by (simp add: gw_classify_def Let_def)

lemma moved_sysctls: "moved_paths (sysctl_changes d obs) = []"
  by (auto simp: moved_paths_def sysctl_changes_def filter_empty_conv)

lemma tunnel_settled:
  "\<exists>obs. observe_gateway plain_netlink wg_ports (rq_machine tunnel_request) tunnel_kernel = Inr obs \<and> go_known obs \<and>
     go_ra_hosts obs = [] \<and> V4 0xc0a80105 \<in> set (go_active obs) \<and>
     mset (go_lines obs) = mset (map rule_line (gd_rules (tunnel_desired Map.empty)) @ map route_line (gd_routes (tunnel_desired Map.empty)))"
proof -
  have w: "be_word [192, 168, 1, 5 :: byte] = (0xc0a80105 :: u32)" by code_simp
  have o: "observed_rule_line (desired_rule u) = rule_line u"
    if "u \<in> {local_rule False, local_rule True, slot_rule 1 False, slot_rule 1 True}" for u
  proof -
    have "our_rule u" using that by (auto simp: our_rule_def exit_slot_valid_def MaxExitSlot_def)
    moreover have "unnamed u = u" using that by (auto simp: local_rule_def slot_rule_def)
    ultimately show ?thesis using seen_desired_rule [of u] observed_rule_seen [of "desired_rule u"] by simp
  qed
  have f: "owns_priority (nu_priority (desired_rule u)) \<and> nu_v6 (desired_rule u) = rs_v6 u"
    if "u \<in> {local_rule False, local_rule True, slot_rule 1 False, slot_rule 1 True}" for u
    using that by (auto simp: owns_priority_def desired_rule_def Let_def local_rule_def slot_rule_def LocalPriority_def MaxExitSlot_def Base_def
        slot_priority_def)
  have v: "rs_v6 (local_rule v6) = v6" "rs_v6 (slot_rule 1 v6) = v6" for v6 by (simp_all add: local_rule_def slot_rule_def)
  have t: "observed_route_line wg_ports (wg_route v6) = route_line (tunnel_route v6)" for v6
    unfolding observed_line_seen [OF wg_ports_ok] tunnel_seen(2) by (rule route_line_unnamed)
  have r: "nr_v6 (wg_route v6) = v6" "owned_route (wg_route v6)" "nr_table (wg_route v6) \<noteq> RT_TABLE_MAIN" for v6
    by (simp_all add: wg_route_def owned_route_def owns_table_def is_default_def Base_def MaxExitSlot_def RT_TABLE_MAIN_def)
  have n: "rule_line ((slot_rule 1 v6)\<lparr>rs_exit := e\<rparr>) = rule_line (slot_rule 1 v6)" for v6 e by (simp add: rule_line_def)
  have s: "sorted_keys [] = []" by (simp add: sorted_keys_def sort_strings_def)
  show ?thesis
    by (simp add: observe_gateway_def observe_rules_def observe_routes_def tables_with_default_def both_families_def plain_netlink_def
        tunnel_kernel_def no_kernel_def tunnel_request_def observe_ra_hosts_def observe_active_def map_filter_simps w o f v t r s n
        tunnel_renders)
qed

theorem quiet_plan_moves_nothing_witness:
  "policy_path (kernel_rules tunnel_kernel) (kernel_routes wg_ports tunnel_kernel) False 0x00010000 =
     (let d = tunnel_desired Map.empty in policy_path (gd_rules d) (gd_routes d) False 0x00010000)"
proof -
  let ?q = tunnel_request and ?c = "normalize_gateway tunnel_config" and ?d = "tunnel_desired Map.empty"
  obtain obs where o: "observe_gateway plain_netlink wg_ports (rq_machine ?q) tunnel_kernel = Inr obs" "go_known obs"
    "go_ra_hosts obs = []" "V4 0xc0a80105 \<in> set (go_active obs)"
    "mset (go_lines obs) = mset (map rule_line (gd_rules ?d) @ map route_line (gd_routes ?d))"
    using tunnel_settled by blast
  obtain p where p: "gw_build_plan (rq_web ?q) ?c lan_view Map.empty obs AddrNone = Inr (p, ?d)"
    using plan_exists [OF tunnel_valid] unfolding tunnel_desired_def by blast
  have e: "gd_enabled ?d" using disabled_empty [of ?c lan_view Map.empty] by (auto simp: tunnel_desired_def tunnel_renders [unfolded tunnel_desired_def])
  have "filter (\<lambda>l. starts_with ''route '' l \<or> starts_with ''rule '' l) (go_lines obs) = go_lines obs"
    using arg_cong [OF o(5), of set_mset] line_heads by (auto simp: filter_id_conv)
  then have "moved_paths (diff_lines (go_lines obs) (gw_object_lines ?d)) = []"
    by (intro unmoved_when_same) (simp add: moved_object_lines [OF e] o(5))
  then have "moved_paths (xp_changes p) = []"
    using built_plan(3) [OF p o(2)] moved_sysctls [of ?d obs] by (simp add: moved_paths_def)
  then have i: "xp_impact p \<noteq> ImpactDisruptive" using built_plan(4) [OF p o(2)] quiet_when_unmoved o(3) by simp
  have x: "\<forall>e \<in> set (exits ?c). CHR '' '' \<notin> set (vs_interface (ex_via e))" by code_simp
  have s: "\<lparr>paddr = V4 0xc0a80100, pbits = 24\<rparr> \<in> sr_prefix ` set (gd_sources ?d) \<union> sr_prefix ` set (gd_destinations ?d)"
    "contains \<lparr>paddr = V4 0xc0a80100, pbits = 24\<rparr> (V4 0xc0a80105)" by code_simp+
  have r: "reads_ours (rq_machine ?q)" by (simp add: reads_ours_def tunnel_request_def)
  show ?thesis unfolding Let_def
    by (rule quiet_plan_moves_nothing [OF kernel_path.policy_routing_axioms plain.netlink_kernel_axioms wg_ports_ok tunnel_order r lan_named x
          o(1) p i o(4) s])
qed

end
