(* ===== verification/Prober.thy ===== *)
theory Prober
  imports ExitRender
begin

text \<open>
  \<open>internal/gateway/probe.go\<close>: which exits are probed, how attempts add up to a verdict, and what
  interleaving the probes with changes of the configuration can do. A verdict is exact: an exit is
  believed down when its last long enough run of failures has had no long enough run of successes
  since.
\<close>

section \<open>The prober\<close>

text \<open>A running probe has the exit it was started with.\<close>

record prober =
  pr_health :: health
  pr_streaks :: "string \<Rightarrow> int"
  pr_running :: "string \<Rightarrow> exit option"

definition new_prober :: prober where
  "new_prober = \<lparr>pr_health = Map.empty, pr_streaks = (\<lambda>_. 0), pr_running = Map.empty\<rparr>"

definition wants_probe :: "gateway \<Rightarrow> exit \<Rightarrow> bool" where
  "wants_probe c e = (\<not> (ex_probe e = None \<or> vs_kind (ex_via e) = ViaBlocked \<or> \<not> in_use c (ex_name e)))"

definition wanted :: "gateway \<Rightarrow> string \<Rightarrow> exit option" where
  "wanted c = fold (\<lambda>e want. if wants_probe c e then want(ex_name e \<mapsto> e) else want) (exits c) Map.empty"

definition watch :: "gateway \<Rightarrow> prober \<Rightarrow> prober" where
  "watch c p =
     (let want = wanted c;
          stop = (\<lambda>n. pr_running p n \<noteq> None \<and> want n = None);
          start = (\<lambda>n. want n \<noteq> None \<and> pr_running p n = None)
      in \<lparr>pr_health = (\<lambda>n. if start n then Some True else if stop n then None else pr_health p n),
          pr_streaks = (\<lambda>n. if start n \<or> stop n then 0 else pr_streaks p n),
          pr_running = (\<lambda>n. if start n then want n else if stop n then None else pr_running p n)\<rparr>)"

definition stop_probes :: "prober \<Rightarrow> prober" where
  "stop_probes p = p\<lparr>pr_running := Map.empty\<rparr>"

definition record_result :: "string \<Rightarrow> bool \<Rightarrow> probe \<Rightarrow> prober \<Rightarrow> (bool \<times> bool) \<times> prober" where
  "record_result name ok cfg p =
     (let was = (case pr_health p name of None \<Rightarrow> True | Some up \<Rightarrow> up)
      in if ok = was then ((False, was), p\<lparr>pr_streaks := (pr_streaks p)(name := 0)\<rparr>)
         else (let p = p\<lparr>pr_streaks := (pr_streaks p)(name := pr_streaks p name + 1)\<rparr>;
                   need = (if ok then pb_successes cfg else pb_failures cfg)
               in if pr_streaks p name < need then ((False, was), p)
                  else ((True, ok), p\<lparr>pr_health := (pr_health p)(name \<mapsto> ok), pr_streaks := (pr_streaks p)(name := 0)\<rparr>)))"

text \<open>
  One attempt: \<open>ok\<close> is whether the connection was made, \<open>cancelled\<close> whether the probe had been stopped by
  then. The callback is told of a verdict that changed.
\<close>

definition check :: "exit \<Rightarrow> bool \<Rightarrow> bool \<Rightarrow> prober \<Rightarrow> (string \<times> bool) option \<times> prober" where
  "check e ok cancelled p =
     (case ex_probe e of
        None \<Rightarrow> (None, p)
      | Some cfg \<Rightarrow>
          if cancelled then (None, p)
          else (case record_result (ex_name e) ok (probe_resolved cfg) p of
                  ((changed, up), p) \<Rightarrow> (if changed then Some (ex_name e, up) else None, p)))"

section \<open>The verdict\<close>

definition verdict :: "string \<Rightarrow> prober \<Rightarrow> bool" where
  "verdict name p = (case pr_health p name of None \<Rightarrow> True | Some up \<Rightarrow> up)"

fun results :: "string \<Rightarrow> probe \<Rightarrow> bool list \<Rightarrow> prober \<Rightarrow> prober" where
  "results name cfg [] p = p"
| "results name cfg (ok # oks) p = results name cfg oks (snd (record_result name ok cfg p))"

text \<open>\<open>n\<close> equal results in a row, somewhere in a list.\<close>

definition has_run :: "nat \<Rightarrow> bool \<Rightarrow> bool list \<Rightarrow> bool" where
  "has_run n b oks \<longleftrightarrow> (\<exists>us vs. oks = us @ replicate n b @ vs)"

definition run_at_end :: "bool \<Rightarrow> bool list \<Rightarrow> nat" where
  "run_at_end b oks = length (takeWhile (\<lambda>x. x = b) (rev oks))"

text \<open>The last time \<open>f\<close> failures came in a row, and no \<open>s\<close> successes in a row since.\<close>

definition failed :: "nat \<Rightarrow> nat \<Rightarrow> bool list \<Rightarrow> bool" where
  "failed f s oks \<longleftrightarrow> (\<exists>us vs. oks = us @ replicate f False @ vs \<and> \<not> has_run s True vs)"

lemma results_append: "results name cfg (xs @ ys) p = results name cfg ys (results name cfg xs p)"
  by (induction xs arbitrary: p) simp_all

lemma run_at_end_snoc [simp]:
  "run_at_end b [] = 0" "run_at_end b (oks @ [x]) = (if x = b then Suc (run_at_end b oks) else 0)"
  by (simp_all add: run_at_end_def)

lemma run_at_end_split: "n \<le> run_at_end b oks \<longleftrightarrow> (\<exists>us. oks = us @ replicate n b)"
proof (induction oks arbitrary: n rule: rev_induct)
  case (snoc x oks)
  show ?case
  proof (cases n)
    case (Suc m)
    have r: "replicate (Suc m) b = replicate m b @ [b]" by (simp add: replicate_append_same)
    have "(\<exists>us. oks @ [x] = us @ replicate (Suc m) b) \<longleftrightarrow> x = b \<and> (\<exists>us. oks = us @ replicate m b)"
      unfolding r by (auto simp del: replicate_Suc)
    then show ?thesis using snoc.IH [of m] Suc by auto
  qed simp
qed auto

lemma has_run_snoc: "has_run n b (oks @ [x]) \<longleftrightarrow> has_run n b oks \<or> n \<le> run_at_end b (oks @ [x])"
proof -
  have "(\<exists>us vs. oks @ [x] = us @ replicate n b @ vs) \<longleftrightarrow>
      (\<exists>us vs. oks = us @ replicate n b @ vs) \<or> (\<exists>us. oks @ [x] = us @ replicate n b)"
  proof
    assume "\<exists>us vs. oks @ [x] = us @ replicate n b @ vs"
    then obtain us vs where e: "oks @ [x] = us @ replicate n b @ vs" by blast
    show "(\<exists>us vs. oks = us @ replicate n b @ vs) \<or> (\<exists>us. oks @ [x] = us @ replicate n b)"
    proof (cases vs rule: rev_cases)
      case (snoc ws y)
      then have "oks = us @ replicate n b @ ws" using e by (metis append_assoc butlast_snoc)
      then show ?thesis by blast
    qed (use e in auto)
  next
    assume "(\<exists>us vs. oks = us @ replicate n b @ vs) \<or> (\<exists>us. oks @ [x] = us @ replicate n b)"
    then show "\<exists>us vs. oks @ [x] = us @ replicate n b @ vs" by (metis append.assoc append_Nil2)
  qed
  then show ?thesis unfolding has_run_def run_at_end_split .
qed

lemma has_run_Nil: "has_run n b [] \<longleftrightarrow> n = 0"
  by (auto simp: has_run_def)

lemma run_at_end_behind: "0 < f \<Longrightarrow> run_at_end True (us @ replicate f False @ vs) = run_at_end True vs"
proof (induction vs rule: rev_induct)
  case Nil
  then obtain g where "replicate f False = replicate g False @ [False]" by (metis Suc_pred replicate_Suc replicate_append_same)
  then show ?case by (metis append.assoc append_Nil2 run_at_end_snoc)
next
  case (snoc x vs)
  then show ?case using run_at_end_snoc(2) [of True "us @ replicate f False @ vs" x] by simp
qed

lemma failed_True:
  assumes "0 < f"
  shows "failed f s (oks @ [True]) \<longleftrightarrow> failed f s oks \<and> run_at_end True (oks @ [True]) < s"
proof
  assume "failed f s (oks @ [True])"
  then obtain us vs where e: "oks @ [True] = us @ replicate f False @ vs" "\<not> has_run s True vs" unfolding failed_def by blast
  have "vs \<noteq> []"
  proof
    assume "vs = []"
    then have "last (replicate f False) = True" using e(1) assms by (metis append_Nil2 last_appendR last_snoc replicate_empty not_gr_zero)
    then show False using assms by simp
  qed
  then obtain ws where w: "vs = ws @ [True]" using e(1) by (metis append_assoc last_appendR append_butlast_last_id last_snoc)
  have o: "oks = us @ replicate f False @ ws" using e(1) w by simp
  have "\<not> has_run s True ws" "run_at_end True vs < s" using e(2) unfolding w has_run_snoc by auto
  then show "failed f s oks \<and> run_at_end True (oks @ [True]) < s"
    using o run_at_end_behind [OF assms, of us vs] e(1) unfolding failed_def by auto
next
  assume a: "failed f s oks \<and> run_at_end True (oks @ [True]) < s"
  then obtain us vs where e: "oks = us @ replicate f False @ vs" "\<not> has_run s True vs" unfolding failed_def by blast
  have "run_at_end True (vs @ [True]) < s" using a run_at_end_behind [OF assms, of us "vs @ [True]"] e(1) by simp
  then have "\<not> has_run s True (vs @ [True])" using e(2) by (simp add: has_run_snoc del: run_at_end_snoc)
  then show "failed f s (oks @ [True])" using e(1) unfolding failed_def by (intro exI [of _ us] exI [of _ "vs @ [True]"]) simp
qed

lemma failed_False:
  assumes "0 < s"
  shows "failed f s (oks @ [False]) \<longleftrightarrow> failed f s oks \<or> f \<le> run_at_end False (oks @ [False])"
proof
  assume "failed f s (oks @ [False])"
  then obtain us vs where e: "oks @ [False] = us @ replicate f False @ vs" "\<not> has_run s True vs" unfolding failed_def by blast
  show "failed f s oks \<or> f \<le> run_at_end False (oks @ [False])"
  proof (cases vs rule: rev_cases)
    case Nil
    then show ?thesis using e(1) run_at_end_split by auto
  next
    case (snoc ws y)
    then have "oks = us @ replicate f False @ ws" using e(1) by (metis append_assoc butlast_snoc)
    then show ?thesis using e(2) snoc has_run_snoc unfolding failed_def by blast
  qed
next
  assume "failed f s oks \<or> f \<le> run_at_end False (oks @ [False])"
  then show "failed f s (oks @ [False])"
  proof
    assume "failed f s oks"
    then obtain us vs where e: "oks = us @ replicate f False @ vs" "\<not> has_run s True vs" unfolding failed_def by blast
    have "\<not> has_run s True (vs @ [False])" using e(2) assms by (simp add: has_run_snoc)
    then show ?thesis using e(1) unfolding failed_def by (intro exI [of _ us] exI [of _ "vs @ [False]"]) simp
  next
    assume "f \<le> run_at_end False (oks @ [False])"
    then obtain us where "oks @ [False] = us @ replicate f False" using run_at_end_split by blast
    then show ?thesis using assms unfolding failed_def by (intro exI [of _ us] exI [of _ "[]"]) (simp add: has_run_Nil)
  qed
qed

text \<open>What the state is after some results: the verdict, and the results in a row against it.\<close>

lemma results_state:
  assumes "verdict name p" and "pr_streaks p name = 0" and "0 < pb_failures cfg" and "0 < pb_successes cfg"
  shows "verdict name (results name cfg oks p) = (\<not> failed (nat (pb_failures cfg)) (nat (pb_successes cfg)) oks) \<and>
    pr_streaks (results name cfg oks p) name = int (run_at_end (\<not> verdict name (results name cfg oks p)) oks)"
proof (induction oks rule: rev_induct)
  case Nil
  then show ?case using assms by (auto simp: failed_def)
next
  case (snoc x oks)
  let ?p = "results name cfg oks p" and ?f = "nat (pb_failures cfg)" and ?s = "nat (pb_successes cfg)"
  have fs: "0 < ?f" "0 < ?s" using assms(3,4) by simp_all
  have r: "results name cfg (oks @ [x]) p = snd (record_result name x cfg ?p)" by (simp add: results_append)
  have v: "verdict name ?p = (\<not> failed ?f ?s oks)" and k: "pr_streaks ?p name = int (run_at_end (\<not> verdict name ?p) oks)"
    using snoc.IH by blast+
  show ?case
  proof (cases "x = verdict name ?p")
    case True
    then have s: "verdict name (snd (record_result name x cfg ?p)) = verdict name ?p"
      "pr_streaks (snd (record_result name x cfg ?p)) name = 0"
      by (simp_all add: record_result_def verdict_def)
    show ?thesis
    proof (cases x)
      case t: True
      then show ?thesis unfolding r s using v True failed_True [OF fs(1), of ?s oks] by simp
    next
      case f: False
      then show ?thesis unfolding r s using v True failed_False [OF fs(2), of ?f oks] by simp
    qed
  next
    case False
    let ?need = "if x then pb_successes cfg else pb_failures cfg"
    have e: "int (Suc (run_at_end x oks)) = pr_streaks ?p name + 1" using k False by (cases x; cases "verdict name ?p") simp_all
    show ?thesis
    proof (cases "pr_streaks ?p name + 1 < ?need")
      case True
      then have s: "verdict name (snd (record_result name x cfg ?p)) = verdict name ?p"
        "pr_streaks (snd (record_result name x cfg ?p)) name = int (Suc (run_at_end x oks))"
        using False e unfolding record_result_def verdict_def by (auto simp: Let_def)
      show ?thesis
      proof (cases x)
        case t: True
        then show ?thesis unfolding r s using v False True e failed_True [OF fs(1), of ?s oks] by auto
      next
        case f: False
        then show ?thesis unfolding r s using v False True e failed_False [OF fs(2), of ?f oks] by auto
      qed
    next
      case n: False
      then have s: "verdict name (snd (record_result name x cfg ?p)) = x" "pr_streaks (snd (record_result name x cfg ?p)) name = 0"
        using False unfolding record_result_def verdict_def by (auto simp: Let_def)
      show ?thesis
      proof (cases x)
        case t: True
        then show ?thesis unfolding r s using v False n e failed_True [OF fs(1), of ?s oks] by auto
      next
        case f: False
        then show ?thesis unfolding r s using v False n e failed_False [OF fs(2), of ?f oks] by auto
      qed
    qed
  qed
qed


lemma resolved_positive: "0 < pb_failures (probe_resolved cfg)" "0 < pb_successes (probe_resolved cfg)"
  by (simp_all add: probe_resolved_def Let_def DefaultProbeFailures_def DefaultProbeSuccesses_def)

text \<open>
  C12. The verdict about an exit is exact. From the moment it is first watched, it is believed down
  exactly when at some time \<open>Failures\<close> attempts in a row failed and since then \<open>Successes\<close> attempts in a
  row never succeeded: one dropped packet cannot stop its traffic, and a flapping exit stays down.
\<close>

theorem verdict_exact:
  assumes "wanted c name = Some e" and "pr_running p name = None" and "ex_probe e = Some cfg"
    and "q = results name (probe_resolved cfg) oks (watch c p)"
  shows "health_down (pr_health q) name \<longleftrightarrow>
    (\<exists>us vs. oks = us @ replicate (nat (pb_failures (probe_resolved cfg))) False @ vs \<and>
       \<not> has_run (nat (pb_successes (probe_resolved cfg))) True vs)"
proof -
  have "verdict name (watch c p)" "pr_streaks (watch c p) name = 0"
    using assms(1,2) by (simp_all add: watch_def verdict_def Let_def)
  from results_state [OF this resolved_positive [of cfg], of oks]
  show ?thesis unfolding assms(4) failed_def by (auto simp: verdict_def health_down_def split: option.splits)
qed

section \<open>Probes and changes of the configuration\<close>

text \<open>
  An attempt that found its probe still running is recorded later, and anything may happen in between:
  \<open>late\<close> are the results on their way.
\<close>

type_synonym probing = "prober \<times> (exit \<times> bool) list"

inductive probe_step :: "probing \<Rightarrow> probing \<Rightarrow> bool" where
  watched: "probe_step (p, late) (watch c p, late)"
| attempted: "pr_running p n = Some e \<Longrightarrow> probe_step (p, late) (p, late @ [(e, ok)])"
| recorded: "late = xs @ (e, ok) # ys \<Longrightarrow> probe_step (p, late) (snd (check e ok False p), xs @ ys)"
| stopped_all: "probe_step (p, late) (stop_probes p, late)"

inductive_cases probe_stepE: "probe_step s t"

text \<open>A running probe keeps the settings it was started with, whatever the configuration says since.\<close>

lemma edited_probe_ignored:
  assumes "pr_running p n = Some e" and "wanted c n = Some e'"
  shows "pr_running (watch c p) n = Some e" "pr_health (watch c p) n = pr_health p n" "pr_streaks (watch c p) n = pr_streaks p n"
  using assms by (simp_all add: watch_def Let_def)

text \<open>
  A result on its way when its probe is withdrawn stays as a verdict nobody will revise: when one
  failure is enough, the exit is believed down from then on, though nothing probes it.
\<close>

lemma unwatched_health_kept: "pr_running p n = None \<Longrightarrow> wanted c n = None \<Longrightarrow> pr_health (watch c p) n = pr_health p n"
  by (simp add: watch_def Let_def)

lemma stale_verdict:
  assumes "pr_running p (ex_name e) = Some e" and "ex_probe e = Some cfg" and "pb_failures cfg = 1" and "wanted c (ex_name e) = None"
  shows "\<exists>q. probe_step\<^sup>*\<^sup>* (p, []) (q, []) \<and> pr_running q (ex_name e) = None \<and> health_down (pr_health q) (ex_name e)"
proof -
  let ?q = "snd (check e False False (watch c p))"
  have a: "probe_step (p, []) (p, [(e, False)])" using attempted [OF assms(1), of "[]" False] by simp
  have b: "probe_step (p, [(e, False)]) (watch c p, [(e, False)])" by (rule watched)
  have d: "probe_step (watch c p, [(e, False)]) (?q, [])" using recorded [of "[(e, False)]" "[]" e False "[]"] by simp
  have f: "pb_failures (probe_resolved cfg) = 1"
    using assms(3) by (simp add: probe_resolved_def Let_def)
  have h: "pr_health (watch c p) (ex_name e) = None" "pr_running (watch c p) (ex_name e) = None" "pr_streaks (watch c p) (ex_name e) = 0"
    using assms(1,4) by (simp_all add: watch_def Let_def)
  have "pr_running ?q (ex_name e) = None \<and> health_down (pr_health ?q) (ex_name e)"
    using h f assms(2) by (simp add: check_def record_result_def Let_def health_down_def split: prod.split)
  moreover have "probe_step\<^sup>*\<^sup>* (p, []) (?q, [])" using a b d by (meson converse_rtranclp_into_rtranclp rtranclp.rtrancl_refl)
  ultimately show ?thesis by blast
qed

text \<open>Every probe that runs has a verdict, in every interleaving.\<close>

lemma watch_running:
  assumes "dom (pr_running p) \<subseteq> dom (pr_health p)"
  shows "dom (pr_running (watch c p)) \<subseteq> dom (pr_health (watch c p))"
proof
  fix n
  assume "n \<in> dom (pr_running (watch c p))"
  moreover have "pr_running p n \<noteq> None \<Longrightarrow> pr_health p n \<noteq> None" using assms by (auto simp: dom_def)
  ultimately show "n \<in> dom (pr_health (watch c p))" by (auto simp: watch_def Let_def split: if_splits)
qed

lemma check_running:
  "dom (pr_health p) \<subseteq> dom (pr_health (snd (check e ok x p)))" "pr_running (snd (check e ok x p)) = pr_running p"
  by (auto simp: check_def record_result_def Let_def split: option.splits prod.splits if_splits)

lemma running_has_verdict:
  assumes "probe_step\<^sup>*\<^sup>* (new_prober, []) (p, late)" and "pr_running p n \<noteq> None"
  shows "pr_health p n \<noteq> None"
proof -
  have "probe_step\<^sup>*\<^sup>* (new_prober, []) s \<Longrightarrow> dom (pr_running (fst s)) \<subseteq> dom (pr_health (fst s))" for s
  proof (induction rule: rtranclp_induct)
    case (step s t)
    from step.hyps(2) show ?case
    proof (cases rule: probe_step.cases)
      case (watched p late c)
      then show ?thesis using step.IH watch_running [of p c] by simp
    next
      case (recorded late xs e ok ys p)
      then show ?thesis using step.IH check_running [where p = p and e = e and ok = ok and x = False] by (auto dest: subset_trans)
    qed (use step.IH in \<open>simp_all add: stop_probes_def\<close>)
  qed (simp add: new_prober_def)
  from this [OF assms(1)] have "n \<in> dom (pr_running p) \<longrightarrow> n \<in> dom (pr_health p)" by auto
  then show ?thesis using assms(2) by auto
qed

section \<open>An example\<close>

definition watched_exit :: exit where
  "watched_exit = tunnel_exit\<lparr>ex_slot := 1,
     ex_probe := Some \<lparr>pb_target = (V4 0x01010101, 443), pb_interval = 0, pb_timeout = 0, pb_failures = 0, pb_successes = 0\<rparr>\<rparr>"

definition watched_config :: gateway where
  "watched_config = tunnel_config\<lparr>exits := [watched_exit]\<rparr>"

theorem verdict_exact_witness:
  "wanted watched_config ''vpn'' = Some watched_exit \<and>
   health_down (pr_health (results ''vpn'' (probe_resolved (the (ex_probe watched_exit)))
     [True, False, False, False, True] (watch watched_config new_prober))) ''vpn''"
proof -
  let ?cfg = "the (ex_probe watched_exit)"
  have w: "wanted watched_config ''vpn'' = Some watched_exit" by code_simp
  have n: "pr_running new_prober ''vpn'' = None" "ex_probe watched_exit = Some ?cfg"
    "nat (pb_failures (probe_resolved ?cfg)) = 3" "nat (pb_successes (probe_resolved ?cfg)) = 2" by code_simp+
  have "[True, False, False, False, True] = [True] @ replicate 3 False @ [True]" by (simp add: numeral_3_eq_3)
  moreover have "\<not> has_run 2 True [True]" by (auto simp: has_run_def numeral_2_eq_2 append_eq_Cons_conv)
  ultimately show ?thesis
    using verdict_exact [OF w n(1,2) refl, of "[True, False, False, False, True]"] w unfolding n(3,4) by blast
qed

end
