(* ===== verification/Spec2Isabelle.thy ===== *)
theory Spec2Isabelle
  imports Delegation LineDiff Mac Backup Recovery Relay Identity NatPlan Mmdb Sessions FwPlan Classify ExitServe Prober
begin

text \<open>
  The router's own logic, as it is written in Go under \<open>src/internal\<close>. Each theory opens with
  what it models; this is the map of them.

  \<^bold>\<open>The program.\<close> The daemon owns one JSON document. A module (gateway exits, port forwards, firewall,
  DNS, uplinks and more) reads its key of it, validates it, renders what the kernel or a service
  should hold, compares that with what it does hold, and applies the difference. An edit that could
  cut the operator off is a trial that is undone unless it is confirmed. Beside that run the DNS
  relay, prefix delegation and the browser sessions.

  \<^bold>\<open>Shared ground.\<close> \<open>Prelude\<close>: Go's integers as words or wrapped integers, results \<open>error + 'a\<close>, and the
  simplification collections. \<open>GoStrings\<close>, \<open>Bytes\<close>, \<open>GoNet\<close>, \<open>AddrParse\<close>, \<open>AddrText\<close>: what the code uses
  of \<open>strings\<close>, \<open>strconv\<close>, \<open>encoding/binary\<close> and \<open>net/netip\<close>. \<open>Interfaces\<close>: the contracts several
  components share (a table searched for its most specific match, a bounded store, a log of recent
  entries), each interpreted where a component provides it. \<open>Slots\<close>: the slot allocation that
  \<open>gateway/resources.go\<close> and \<open>gateway/nat/resources.go\<close> both contain. \<open>KernelDiff\<close>: the comparison of
  lines every plan rests on.

  \<^bold>\<open>Configuration.\<close> \<open>Store\<close> (\<open>core/store.go\<close>, \<open>renamekey.go\<close>): the document as a tree of JSON values, and
  that saving a module changes its key only. \<open>Backup\<close> (\<open>core/backup.go\<close>): exactly which uploads may replace
  the document. \<open>Recovery\<close> (\<open>core/recovery.go\<close>, \<open>apply_gate.go\<close>): the trials, as a transition relation over memory,
  journal and disk with crashes and failing writes; the invariant is that an unresolved trial never
  loses its recovery point, and a restart restores it. \<open>LineDiff\<close>, \<open>Mac\<close>, \<open>Subnet\<close> (\<open>core/diff.go\<close>,
  \<open>mac.go\<close>, \<open>subnet.go\<close>): the longest common subsequence, hardware addresses, address ranges.

  \<^bold>\<open>DNS.\<close> \<open>Policy\<close>, \<open>Routes\<close>, \<open>Identity\<close>, \<open>Observed\<close>, \<open>DnsMessage\<close>, \<open>Relay\<close> (\<open>dnsrelay/\<close>): which client may look
  up which name, which server answers, who a client is, what is remembered of the answers, and the
  composition of them for one query. What only watches sits behind a bounded tee; what the relay holds is
  a function of the queries that came, the results offered to the tee and how many were taken off it.

  \<^bold>\<open>Uplinks.\<close> \<open>Dhcp6Message\<close>, \<open>Dhcp6Client\<close> (\<open>dial/dhcpv6\<close>) and \<open>Delegation\<close> (\<open>dial/delegation.go\<close>): the
  messages with their round trip, the exchanges, and the loop that keeps a prefix as a state machine
  over the exchanges.

  \<^bold>\<open>Port forwards.\<close> \<open>PortForward\<close>, \<open>NatValidate\<close>, \<open>NatRender\<close>, \<open>NatPlan\<close> (\<open>gateway/nat\<close>): the document and
  its edits, what validates, the rules and their lines, where a valid document sends a packet for the
  router, and the plan with its impact. Two behaviours of hairpins on a box with several uplinks are
  shown as lemmas (\<open>hairpins_clash\<close>, \<open>hairpin_on_other_uplink\<close>).

  \<^bold>\<open>Firewall.\<close> \<open>FwRender\<close> (\<open>firewall/boundary.go\<close>, \<open>render.go\<close>, \<open>traffic.go\<close>), \<open>FwKernel\<close> (\<open>kernel_linux.go\<close>),
  \<open>FwPlan\<close> (\<open>plan.go\<close>, \<open>apply.go\<close>): the rules, the expressions they are programmed as, what these do to a
  packet, and the plan with its warning. \<open>Nft\<close> states the kernel's documented behaviour.

  \<^bold>\<open>Exits.\<close> \<open>Exits\<close> (\<open>gateway/config.go\<close>, \<open>resources.go\<close>): the document, its edits and the slots, marks and
  tables. \<open>ExitRender\<close> (\<open>render.go\<close>, \<open>destination.go\<close>): everything asked of the kernel. \<open>GwNft\<close>
  (\<open>kernel_linux.go\<close>, \<open>destination_linux.go\<close>): the expressions of the classification table. \<open>Classify\<close>:
  chain and policy rules together, from a packet to the way it leaves by. \<open>ExitApply\<close> (\<open>Apply\<close> of
  \<open>kernel_linux.go\<close>): reading routes and rules back, comparing them line by line and programming the
  difference, every call of which may fail. \<open>ApplySteps\<close> proves one lemma per step of it, \<open>ExitChange\<close>
  composes them into what an \<open>Apply\<close> ends with and what it fails on. That rests on \<open>AddrUnique\<close>: the text of
  an address tells it apart. \<open>ExitValidate\<close> (\<open>validate.go\<close>): every check of a document and its sentence's
  data. \<open>ExitPlan\<close> (\<open>plan.go\<close>, \<open>apply.go\<close>): what is observed, the plan with its impact and reasons, and the
  apply that stores and programs it. \<open>ExitServe\<close>: histories of requests; in no state of the kernel in
  between does marked traffic go where neither the old nor the new configuration sends it, and a plan
  that is not announced as disruptive moves no mark's traffic. \<open>Prober\<close> (\<open>probe.go\<close>): which exits are
  probed and when one is believed down, over every interleaving of results and edits.

  \<^bold>\<open>Other parts.\<close> \<open>Mmdb\<close> (\<open>geoip/mmdb.go\<close>): the reader of MaxMind databases, over 64-bit offsets.
  \<open>Sessions\<close> (\<open>system/sessions.go\<close>): browser sessions and the limit on password attempts.

  \<^bold>\<open>Conventions.\<close> A Go map is an association list with distinct keys, whose order stands for the
  arbitrary one of the map; a nil pointer is \<open>None\<close>; an error is the left of a sum, with a constructor in
  place of its sentence. Clocks, sockets, disks and random sources are arguments: the outcome of each
  call an operation makes, or the list of outcomes a loop meets.

  \<^bold>\<open>Bounds and fuel.\<close> An exchange runs over the list of attempts its environment gives and is proved
  to return within its transmission count. A database value nests at most 33 deep, as the code
  itself checks. Slots run to 256 for forwards and 80 for exits, the code's constants. Every other loop
  is total.

  \<^bold>\<open>The kernel.\<close> The kernel is not under \<open>src\<close>. The locales \<open>nft_machine\<close> (\<open>Nft\<close>), \<open>mark_machine\<close>
  (\<open>GwNft\<close>), \<open>policy_routing\<close> (\<open>ExitRender\<close>) and \<open>netlink_kernel\<close> (\<open>ExitApply\<close>) state the documented
  meaning of the expressions, rules and requests the program uses, each with an evaluator that meets it. The host is little-endian, as the marks
  are written in the machine's order.

  \<^bold>\<open>Not modelled.\<close> HTTP handlers, the command line and the daemon's start, which only pass
  values to what is modelled; netlink, sockets and files as transports; native firewall rulesets, which
  go to \<open>nft\<close> as they are; modules that configure third-party programs (reverse proxy, inspection
  proxy, access points, IPTV, SOCKS); the configuration of DHCP and DNS, devices, remote access,
  and the measurements of exits, which hold no state the parts above depend on.
\<close>

end
